(* ===== verification/Prelude.thy ===== *)
theory Prelude
  imports Main "HOL-Library.Sublist" "HOL-Library.AList" "HOL-Library.Multiset"
begin

text \<open>
  Shared vocabulary of the development: results of code that may throw, the string
  operations of JavaScript the console uses, and insertion-ordered objects.

  \<^item> A JavaScript string is kept as the list of bytes of its UTF-8 encoding, one \<open>char\<close>
    per byte. Every separator the code searches for is ASCII, so splitting, searching and
    cutting at a found index agree with the UTF-16 operations of the source.
  \<^item> An object is an association list in insertion order. \<open>own_keys\<close> is the
    order in which \<open>Object.keys\<close> visits it: integer indices first, ascending, then the
    other keys in insertion order.
  \<^item> Code that throws returns \<open>js_exn + 'a\<close>.
\<close>

named_theorems res_simps \<open>equations of the result type\<close>
named_theorems obj_simps \<open>look-up, key and update equations of objects\<close>
named_theorems str_simps \<open>equations of the string operations\<close>

section \<open>Results\<close>

datatype js_exn =
    TypeError
  | URIError
  | SyntaxError
  | RangeError
  | Thrown string

type_synonym 'a res = "js_exn + 'a"

definition rbind :: "'e + 'a \<Rightarrow> ('a \<Rightarrow> 'e + 'b) \<Rightarrow> 'e + 'b" where
  "rbind m f = (case m of Inl e \<Rightarrow> Inl e | Inr x \<Rightarrow> f x)"

fun mapR :: "('a \<Rightarrow> 'e + 'b) \<Rightarrow> 'a list \<Rightarrow> 'e + 'b list" where
  "mapR f [] = Inr []"
| "mapR f (x # xs) =
     (case f x of
        Inl e \<Rightarrow> Inl e
      | Inr y \<Rightarrow> (case mapR f xs of Inl e \<Rightarrow> Inl e | Inr ys \<Rightarrow> Inr (y # ys)))"

fun foldR :: "('a \<Rightarrow> 's \<Rightarrow> 'e + 's) \<Rightarrow> 'a list \<Rightarrow> 's \<Rightarrow> 'e + 's" where
  "foldR f [] s = Inr s"
| "foldR f (x # xs) s = (case f x s of Inl e \<Rightarrow> Inl e | Inr s' \<Rightarrow> foldR f xs s')"

lemma rbind_Inl [simp, res_simps]: "rbind (Inl e) f = Inl e"
  and rbind_Inr [simp, res_simps]: "rbind (Inr x) f = f x"
  by (simp_all add: rbind_def)

lemma rbind_eq_Inr: "rbind m f = Inr y \<longleftrightarrow> (\<exists>x. m = Inr x \<and> f x = Inr y)"
  by (cases m) auto

lemma rbind_eq_Inl: "rbind m f = Inl e \<longleftrightarrow> m = Inl e \<or> (\<exists>x. m = Inr x \<and> f x = Inl e)"
  by (cases m) auto

lemma mapR_cong [fundef_cong]:
  "xs = ys \<Longrightarrow> (\<And>x. x \<in> set ys \<Longrightarrow> f x = g x) \<Longrightarrow> mapR f xs = mapR g ys"
  by (induction xs arbitrary: ys) (auto split: sum.splits)

lemma foldR_cong [fundef_cong]:
  "xs = ys \<Longrightarrow> s = t \<Longrightarrow> (\<And>x s. x \<in> set ys \<Longrightarrow> f x s = g x s) \<Longrightarrow> foldR f xs s = foldR g ys t"
  by (induction xs arbitrary: ys s t) (auto split: sum.splits)

lemma rbind_cong [fundef_cong]:
  "m = n \<Longrightarrow> (\<And>x. n = Inr x \<Longrightarrow> f x = g x) \<Longrightarrow> rbind m f = rbind n g"
  by (cases n) auto

lemma mapR_Inr_map: "(\<And>x. x \<in> set xs \<Longrightarrow> f x = Inr (g x)) \<Longrightarrow> mapR f xs = Inr (map g xs)"
  by (induction xs) auto

lemma mapR_result: "mapR f xs = Inr ys \<Longrightarrow> y \<in> set ys \<Longrightarrow> \<exists>x\<in>set xs. f x = Inr y"
  by (induction xs arbitrary: ys) (auto split: sum.splits)

lemma mapR_Inr_length: "mapR f xs = Inr ys \<Longrightarrow> length ys = length xs"
  by (induction xs arbitrary: ys) (auto split: sum.splits)

lemma foldR_append:
  "foldR f (xs @ ys) s = rbind (foldR f xs s) (foldR f ys)"
  by (induction xs arbitrary: s) (auto split: sum.splits)

lemma foldR_invariant:
  assumes "foldR f xs s = Inr s'" and "P s"
    and "\<And>x s s'. x \<in> set xs \<Longrightarrow> P s \<Longrightarrow> f x s = Inr s' \<Longrightarrow> P s'"
  shows "P s'"
  using assms
proof (induction xs arbitrary: s)
  case Nil
  then show ?case by simp
next
  case (Cons x xs)
  from Cons.prems(1) obtain t where t: "f x s = Inr t" and rest: "foldR f xs t = Inr s'"
    by (auto split: sum.splits)
  have "P t" using Cons.prems(2,3) t by (meson list.set_intros(1))
  then show ?case using rest Cons.IH Cons.prems(3) by (meson list.set_intros(2))
qed

section \<open>Strings\<close>

text \<open>\<open>indexOf\<close>: \<open>None\<close> stands for \<open>-1\<close>.\<close>

fun index_of :: "string \<Rightarrow> string \<Rightarrow> nat option" where
  "index_of pat [] = (if pat = [] then Some 0 else None)"
| "index_of pat (x # xs) =
     (if prefix pat (x # xs) then Some 0 else map_option Suc (index_of pat xs))"

definition contains :: "string \<Rightarrow> string \<Rightarrow> bool" where
  "contains pat s = (index_of pat s \<noteq> None)"

fun split_on :: "char \<Rightarrow> string \<Rightarrow> string list" where
  "split_on c [] = [[]]"
| "split_on c (x # xs) =
     (if x = c then [] # split_on c xs
      else case split_on c xs of [] \<Rightarrow> [[x]] | y # ys \<Rightarrow> (x # y) # ys)"

fun join :: "string \<Rightarrow> string list \<Rightarrow> string" where
  "join sep [] = []"
| "join sep [x] = x"
| "join sep (x # y # ys) = x @ sep @ join sep (y # ys)"

text \<open>\<open>s.replace(pat, rep)\<close> with a string pattern: the first occurrence only.\<close>

fun replace_first :: "string \<Rightarrow> string \<Rightarrow> string \<Rightarrow> string" where
  "replace_first pat rep [] = (if pat = [] then rep else [])"
| "replace_first pat rep (x # xs) =
     (if prefix pat (x # xs) then rep @ drop (length pat) (x # xs)
      else x # replace_first pat rep xs)"

definition is_digit :: "char \<Rightarrow> bool" where
  "is_digit c = (48 \<le> (of_char c :: nat) \<and> (of_char c :: nat) \<le> 57)"

definition is_upper :: "char \<Rightarrow> bool" where
  "is_upper c = (65 \<le> (of_char c :: nat) \<and> (of_char c :: nat) \<le> 90)"

definition is_lower :: "char \<Rightarrow> bool" where
  "is_lower c = (97 \<le> (of_char c :: nat) \<and> (of_char c :: nat) \<le> 122)"

definition is_alnum :: "char \<Rightarrow> bool" where
  "is_alnum c = (is_digit c \<or> is_upper c \<or> is_lower c)"

definition to_lower :: "char \<Rightarrow> char" where
  "to_lower c = (if is_upper c then char_of ((of_char c :: nat) + 32) else c)"

definition to_upper :: "char \<Rightarrow> char" where
  "to_upper c = (if is_lower c then char_of ((of_char c :: nat) - 32) else c)"

definition lower :: "string \<Rightarrow> string" where
  "lower s = map to_lower s"

definition upper :: "string \<Rightarrow> string" where
  "upper s = map to_upper s"

text \<open>White space: tab, line feed, vertical tab, form feed, carriage return, space.\<close>

definition is_ws :: "char \<Rightarrow> bool" where
  "is_ws c = ((9 \<le> (of_char c :: nat) \<and> (of_char c :: nat) \<le> 13) \<or> (of_char c :: nat) = 32)"

definition trim :: "string \<Rightarrow> string" where
  "trim s = rev (dropWhile is_ws (rev (dropWhile is_ws s)))"

text \<open>\<open>length\<close> of a string in UTF-16 code units, read off its UTF-8 bytes.\<close>

definition js_length :: "string \<Rightarrow> nat" where
  "js_length s = length (filter (\<lambda>c. \<not> (128 \<le> (of_char c :: nat) \<and> (of_char c :: nat) < 192)) s)
     + length (filter (\<lambda>c. 240 \<le> (of_char c :: nat)) s)"

lemma split_on_not_Nil [simp]: "split_on c s \<noteq> []"
  by (induction s) (auto split: list.splits)

lemma split_on_no_sep: "c \<notin> set s \<Longrightarrow> split_on c s = [s]"
  by (induction s) auto

lemma split_on_append: "c \<notin> set x \<Longrightarrow> split_on c (x @ c # s) = x # split_on c s"
  by (induction x) (auto split: list.splits)

lemma split_on_parts: "x \<in> set (split_on c s) \<Longrightarrow> c \<notin> set x"
proof (induction s arbitrary: x)
  case Nil
  then show ?case by simp
next
  case (Cons a s)
  obtain y ys where ys: "split_on c s = y # ys"
    by (cases "split_on c s") auto
  show ?case
    using Cons.prems Cons.IH [of y] Cons.IH [of x] ys
    by (auto split: if_splits)
qed

lemma join_Cons: "xs \<noteq> [] \<Longrightarrow> join sep (x # xs) = x @ sep @ join sep xs"
  by (cases xs) auto

lemma join_split_on: "join [c] (split_on c s) = s"
proof (induction s)
  case Nil
  then show ?case by simp
next
  case (Cons a s)
  obtain y ys where ys: "split_on c s = y # ys"
    by (cases "split_on c s") auto
  show ?case
  proof (cases "a = c")
    case True
    then show ?thesis using Cons.IH by (simp add: join_Cons)
  next
    case False
    then show ?thesis using Cons.IH ys by (cases ys) auto
  qed
qed

lemma set_join: "d \<in> set (join sep xs) \<Longrightarrow> d \<in> set sep \<or> (\<exists>x\<in>set xs. d \<in> set x)"
  by (induction sep xs rule: join.induct) auto

lemma split_on_join:
  "xs \<noteq> [] \<Longrightarrow> \<forall>x\<in>set xs. c \<notin> set x \<Longrightarrow> split_on c (join [c] xs) = xs"
proof (induction xs)
  case Nil
  then show ?case by simp
next
  case (Cons x xs)
  then show ?case
    by (cases xs) (auto simp: split_on_no_sep split_on_append)
qed

lemma index_of_single: "index_of [c] s = (if c \<in> set s then Some (length (takeWhile (\<lambda>x. x \<noteq> c) s)) else None)"
  by (induction s) auto

lemma index_of_append_single: "c \<notin> set x \<Longrightarrow> index_of [c] (x @ c # s) = Some (length x)"
  by (induction x) auto

lemma index_of_absent: "c \<notin> set s \<Longrightarrow> index_of (c # q) s = None"
  by (induction s) auto

lemma index_of_here: "c \<notin> set s \<Longrightarrow> index_of (c # q) (s @ c # q @ t) = Some (length s)"
  by (induction s) auto

lemma contains_single: "contains [c] s \<longleftrightarrow> c \<in> set s"
  by (simp add: contains_def index_of_single)

lemma to_lower_idem [simp]: "to_lower (to_lower c) = to_lower c"
proof (cases "is_upper c")
  case True
  then have "\<not> is_upper (char_of ((of_char c :: nat) + 32))"
    by (simp add: is_upper_def)
  then show ?thesis by (simp add: to_lower_def True)
qed (simp add: to_lower_def)

lemma lower_idem [simp]: "lower (lower s) = lower s"
  by (simp add: lower_def)

lemma trim_Nil [simp]: "trim [] = []"
  by (simp add: trim_def)

lemma trim_eq_Nil: "trim s = [] \<longleftrightarrow> (\<forall>c\<in>set s. is_ws c)"
proof -
  have "dropWhile is_ws s = [] \<longleftrightarrow> (\<forall>c\<in>set (dropWhile is_ws s). is_ws c)"
    by (cases "dropWhile is_ws s") (auto dest: set_dropWhileD dropWhile_eq_Cons_conv [THEN iffD1])
  then show ?thesis by (auto simp: trim_def dropWhile_eq_Nil_conv dest: set_dropWhileD)
qed

lemma dropWhile_snoc_stop: "\<not> P a \<Longrightarrow> dropWhile P (xs @ [a]) = dropWhile P xs @ [a]"
  by (induction xs) auto

lemma dropWhile_fixed: "s \<noteq> [] \<Longrightarrow> \<not> P (hd s) \<Longrightarrow> dropWhile P s = s"
  by (cases s) auto

lemma hd_trim: "trim s \<noteq> [] \<Longrightarrow> \<not> is_ws (hd (trim s))"
proof -
  assume ne: "trim s \<noteq> []"
  obtain a t where t: "dropWhile is_ws s = a # t" and a: "\<not> is_ws a"
    using ne by (cases "dropWhile is_ws s") (auto simp: trim_def dropWhile_eq_Cons_conv)
  then show ?thesis by (simp add: trim_def dropWhile_snoc_stop)
qed

lemma last_trim: "trim s \<noteq> [] \<Longrightarrow> \<not> is_ws (last (trim s))"
  by (metis hd_dropWhile last_rev rev_is_Nil_conv trim_def)

lemma trim_fixed: "(s \<noteq> [] \<Longrightarrow> \<not> is_ws (hd s) \<and> \<not> is_ws (last s)) \<Longrightarrow> trim s = s"
  by (cases "s = []") (auto simp: trim_def dropWhile_fixed hd_rev)

lemma trim_idem [simp]: "trim (trim s) = trim s"
  by (rule trim_fixed) (auto simp: hd_trim last_trim)

section \<open>Sorting with a comparator\<close>

text \<open>
  \<open>Array.prototype.sort\<close> with a comparator: a stable sort, as an insertion sort.
\<close>

fun insort_cmp :: "('a \<Rightarrow> 'a \<Rightarrow> int) \<Rightarrow> 'a \<Rightarrow> 'a list \<Rightarrow> 'a list" where
  "insort_cmp cmp x [] = [x]"
| "insort_cmp cmp x (y # ys) = (if cmp x y \<le> 0 then x # y # ys else y # insort_cmp cmp x ys)"

definition sort_cmp :: "('a \<Rightarrow> 'a \<Rightarrow> int) \<Rightarrow> 'a list \<Rightarrow> 'a list" where
  "sort_cmp cmp xs = foldr (insort_cmp cmp) xs []"

lemma mset_insort_cmp [simp]: "mset (insort_cmp cmp x ys) = add_mset x (mset ys)"
  by (induction ys) auto

lemma mset_sort_cmp [simp]: "mset (sort_cmp cmp xs) = mset xs"
  by (induction xs) (simp_all add: sort_cmp_def)

lemma set_sort_cmp [simp]: "set (sort_cmp cmp xs) = set xs"
  by (metis mset_sort_cmp set_mset_mset)

lemma length_sort_cmp [simp]: "length (sort_cmp cmp xs) = length xs"
  by (metis mset_sort_cmp size_mset)

text \<open>A comparator that is a total order up to its own equality.\<close>

locale comparator =
  fixes cmp :: "'a \<Rightarrow> 'a \<Rightarrow> int"
  assumes cmp_total: "cmp x y \<le> 0 \<or> cmp y x \<le> 0"
    and cmp_trans: "cmp x y \<le> 0 \<Longrightarrow> cmp y z \<le> 0 \<Longrightarrow> cmp x z \<le> 0"
begin

lemma sorted_insort: "sorted_wrt (\<lambda>x y. cmp x y \<le> 0) ys \<Longrightarrow> sorted_wrt (\<lambda>x y. cmp x y \<le> 0) (insort_cmp cmp x ys)"
proof (induction ys)
  case (Cons y ys)
  have "set (insort_cmp cmp x ys) = insert x (set ys)"
    by (metis mset_insort_cmp set_mset_add_mset_insert set_mset_mset)
  then show ?case using Cons cmp_total [of x y] cmp_trans [of x y] by auto
qed simp

lemma sorted_sort: "sorted_wrt (\<lambda>x y. cmp x y \<le> 0) (sort_cmp cmp xs)"
  by (induction xs) (simp_all add: sort_cmp_def sorted_insort)

end

locale strict_comparator = comparator +
  assumes cmp_antisym: "cmp x y \<le> 0 \<Longrightarrow> cmp y x \<le> 0 \<Longrightarrow> x = y"
begin

lemma sorted_unique:
  "\<lbrakk> sorted_wrt (\<lambda>x y. cmp x y \<le> 0) xs; sorted_wrt (\<lambda>x y. cmp x y \<le> 0) ys; mset xs = mset ys \<rbrakk> \<Longrightarrow> xs = ys"
proof (induction xs arbitrary: ys)
  case Nil
  then show ?case by simp
next
  case (Cons x xs)
  then obtain y ys' where ys: "ys = y # ys'" by (cases ys) auto
  have "x \<in> set ys" "y \<in> set (x # xs)"
    using Cons.prems(3) ys by (metis list.set_intros(1) set_mset_mset)+
  then have "x = y" using Cons.prems(1,2) ys cmp_antisym [of x y] by auto
  then show ?case using Cons ys by simp
qed

lemma sort_perm: "mset xs = mset ys \<Longrightarrow> sort_cmp cmp xs = sort_cmp cmp ys"
  by (rule sorted_unique) (simp_all add: sorted_sort)

end

section \<open>Objects\<close>

type_synonym 'v jsobj = "(string \<times> 'v) list"

definition wf_obj :: "'v jsobj \<Rightarrow> bool" where
  "wf_obj o' = distinct (map fst o')"

definition oget :: "'v jsobj \<Rightarrow> string \<Rightarrow> 'v option" where
  "oget o' k = map_of o' k"

definition oset :: "string \<Rightarrow> 'v \<Rightarrow> 'v jsobj \<Rightarrow> 'v jsobj" where
  "oset k v o' = AList.update k v o'"

definition odel :: "string \<Rightarrow> 'v jsobj \<Rightarrow> 'v jsobj" where
  "odel k o' = AList.delete k o'"

definition digit_val :: "char \<Rightarrow> nat" where
  "digit_val c = of_char c - 48"

definition nat_of_digits :: "string \<Rightarrow> nat" where
  "nat_of_digits s = foldl (\<lambda>n c. 10 * n + digit_val c) 0 s"

text \<open>The keys \<open>Object.keys\<close> visits first: canonical integer indices below \<open>2^32 - 1\<close>.\<close>

definition is_index :: "string \<Rightarrow> bool" where
  "is_index s = (s \<noteq> [] \<and> list_all is_digit s \<and> (s = ''0'' \<or> hd s \<noteq> CHR ''0'')
     \<and> nat_of_digits s < 4294967295)"

definition own_keys :: "'v jsobj \<Rightarrow> string list" where
  "own_keys o' = (let ks = map fst o'
     in sort_key nat_of_digits (filter is_index ks) @ filter (\<lambda>k. \<not> is_index k) ks)"

text \<open>\<open>Object.keys(o).map(k => f(k, o[k]))\<close>.\<close>

definition entries :: "'v jsobj \<Rightarrow> (string \<times> 'v) list" where
  "entries o' = map (\<lambda>k. (k, the (map_of o' k))) (own_keys o')"

lemma wf_obj_Nil [simp]: "wf_obj []"
  by (simp add: wf_obj_def)

lemma wf_obj_oset [simp]: "wf_obj o' \<Longrightarrow> wf_obj (oset k v o')"
  by (simp add: wf_obj_def oset_def distinct_update)

lemma wf_obj_odel [simp]: "wf_obj o' \<Longrightarrow> wf_obj (odel k o')"
  by (simp add: wf_obj_def odel_def distinct_delete)

lemma oget_Nil [simp, obj_simps]: "oget [] k = None"
  by (simp add: oget_def)

lemma oget_oset [simp, obj_simps]: "oget (oset k v o') k' = (if k' = k then Some v else oget o' k')"
  by (simp add: oget_def oset_def update_conv')

lemma oget_odel [simp, obj_simps]: "oget (odel k o') k' = (if k' = k then None else oget o' k')"
  by (simp add: oget_def odel_def delete_conv')

lemma oget_Some_in: "oget o' k = Some v \<Longrightarrow> (k, v) \<in> set o'"
  by (simp add: oget_def map_of_SomeD)

lemma oget_None_iff: "oget o' k = None \<longleftrightarrow> k \<notin> fst ` set o'"
  by (simp add: oget_def map_of_eq_None_iff)

lemma oget_wf_in: "wf_obj o' \<Longrightarrow> oget o' k = Some v \<longleftrightarrow> (k, v) \<in> set o'"
  by (simp add: oget_def wf_obj_def)

lemma set_own_keys [simp, obj_simps]: "set (own_keys o') = fst ` set o'"
  by (auto simp: own_keys_def Let_def)

lemma distinct_own_keys: "wf_obj o' \<Longrightarrow> distinct (own_keys o')"
  by (auto simp: own_keys_def Let_def wf_obj_def)

lemma own_keys_iff_oget: "k \<in> set (own_keys o') \<longleftrightarrow> oget o' k \<noteq> None"
  by (simp add: oget_None_iff)

lemma keys_oset [obj_simps]: "fst ` set (oset k v o') = insert k (fst ` set o')"
  by (simp add: oset_def dom_update)

lemma own_keys_Nil [simp]: "own_keys [] = []"
  by (simp add: own_keys_def)

lemma own_keys_eq_Nil [simp]: "own_keys o' = [] \<longleftrightarrow> o' = []"
proof -
  have "own_keys o' = [] \<longleftrightarrow> set (own_keys o') = {}"
    by (simp del: set_own_keys)
  then show ?thesis by simp
qed

lemma own_keys_no_index: "\<forall>k\<in>fst ` set o'. \<not> is_index k \<Longrightarrow> own_keys o' = map fst o'"
  by (auto simp: own_keys_def Let_def filter_id_conv filter_empty_conv)

lemma entries_fst [simp]: "map fst (entries o') = own_keys o'"
  by (simp add: entries_def comp_def)

lemma entries_eq_Nil [simp]: "entries o' = [] \<longleftrightarrow> o' = []"
  by (simp add: entries_def)

lemma set_entries: "wf_obj o' \<Longrightarrow> set (entries o') = set o'"
  by (auto simp: entries_def wf_obj_def image_iff) force+

lemma map_of_entries [simp]: "map_of (entries o') = map_of o'"
proof
  fix k
  show "map_of (entries o') k = map_of o' k"
  proof (cases "k \<in> set (own_keys o')")
    case True
    then obtain v where v: "map_of o' k = Some v"
      by (metis own_keys_iff_oget oget_def option.exhaust)
    have "map_of (map (\<lambda>k. (k, the (map_of o' k))) ks) k = (if k \<in> set ks then Some (the (map_of o' k)) else None)" for ks
      by (induction ks) auto
    then show ?thesis using True v by (simp add: entries_def del: set_own_keys)
  next
    case False
    then have "map_of o' k = None" by (simp add: own_keys_iff_oget oget_def del: set_own_keys)
    moreover have "k \<notin> fst ` set (entries o')"
      using False by (auto simp: entries_def simp del: set_own_keys)
    ultimately show ?thesis by (metis map_of_eq_None_iff)
  qed
qed

lemma distinct_entries: "wf_obj o' \<Longrightarrow> wf_obj (entries o')"
  by (simp add: wf_obj_def distinct_own_keys [unfolded wf_obj_def])

end
