(* ===== verification/JsValue.thy ===== *)
theory JsValue
  imports Complex_Main Prelude
begin

text \<open>
  The dynamic values the console handles (RAML syntax trees, form input, HTTP data) and the
  operations of the language it applies to them: property reads, truthiness, strict
  equality, \<open>String(v)\<close>, \<open>Number(v)\<close>, \<open>\<ge>\<close>, \<open>JSON.parse\<close> and \<open>JSON.stringify\<close>.

  A finite number is the exact rational its decimal literal denotes; the rounding of a literal
  to the nearest double and negative zero are not represented. A date carries its time value
  (\<open>None\<close> for an invalid date) with the two renderings the host gives it.
\<close>

section \<open>Values\<close>

datatype jsnum = Fin rat | NaN | PosInf | NegInf

datatype jsval =
    JUndef
  | JNull
  | JBool bool
  | JNum jsnum
  | JStr string
  | JArr "jsval list"
  | JObj "(string \<times> jsval) list"
  | JDate "int option" string string

definition jint :: "int \<Rightarrow> jsval" where
  "jint i = JNum (Fin (of_int i))"

definition nullish :: "jsval \<Rightarrow> bool" where
  "nullish v = (v = JUndef \<or> v = JNull)"

fun truthy :: "jsval \<Rightarrow> bool" where
  "truthy JUndef = False"
| "truthy JNull = False"
| "truthy (JBool b) = b"
| "truthy (JNum n) = (n \<noteq> Fin 0 \<and> n \<noteq> NaN)"
| "truthy (JStr s) = (s \<noteq> [])"
| "truthy _ = True"

text \<open>\<open>a || b\<close>.\<close>

definition js_or :: "jsval \<Rightarrow> jsval \<Rightarrow> jsval" where
  "js_or a b = (if truthy a then a else b)"

fun is_arr :: "jsval \<Rightarrow> bool" where
  "is_arr (JArr _) = True"
| "is_arr _ = False"

fun is_str :: "jsval \<Rightarrow> bool" where
  "is_str (JStr _) = True"
| "is_str _ = False"

text \<open>\<open>typeof v === 'object'\<close>, which holds of \<open>null\<close> and of arrays.\<close>

fun typeof_object :: "jsval \<Rightarrow> bool" where
  "typeof_object JNull = True"
| "typeof_object (JArr _) = True"
| "typeof_object (JObj _) = True"
| "typeof_object (JDate _ _ _) = True"
| "typeof_object _ = False"

definition digit_char :: "nat \<Rightarrow> char" where
  "digit_char n = char_of (48 + n)"

fun show_nat :: "nat \<Rightarrow> string" where
  "show_nat n = (if n < 10 then [digit_char n] else show_nat (n div 10) @ [digit_char (n mod 10)])"

declare show_nat.simps [simp del]

text \<open>Reading a property: \<open>v[k]\<close>. Reading one of \<open>null\<close> or \<open>undefined\<close> throws.\<close>

definition pget :: "jsval jsobj \<Rightarrow> string \<Rightarrow> jsval" where
  "pget o' k = (case oget o' k of None \<Rightarrow> JUndef | Some v \<Rightarrow> v)"

fun jget :: "jsval \<Rightarrow> string \<Rightarrow> jsval res" where
  "jget JUndef k = Inl TypeError"
| "jget JNull k = Inl TypeError"
| "jget (JObj o') k = Inr (pget o' k)"
| "jget (JArr vs) k =
     (if k = ''length'' then Inr (jint (int (length vs)))
      else if is_index k \<and> nat_of_digits k < length vs then Inr (vs ! nat_of_digits k)
      else Inr JUndef)"
| "jget (JStr s) k =
     (if k = ''length'' then Inr (jint (int (js_length s))) else Inr JUndef)"
| "jget _ k = Inr JUndef"

text \<open>\<open>vs[i]\<close> of an array.\<close>

definition arr_at :: "jsval list \<Rightarrow> nat \<Rightarrow> jsval" where
  "arr_at vs i = (if i < length vs then vs ! i else JUndef)"

text \<open>
  \<open>v[i]\<close> for an index: out of range, and on other values, it is \<open>undefined\<close>. A string is
  indexed by byte; the code only asks whether the result is truthy.
\<close>

fun jidx :: "jsval \<Rightarrow> nat \<Rightarrow> jsval res" where
  "jidx JUndef i = Inl TypeError"
| "jidx JNull i = Inl TypeError"
| "jidx (JArr vs) i = Inr (arr_at vs i)"
| "jidx (JStr s) i = Inr (if i < length s then JStr [s ! i] else JUndef)"
| "jidx (JObj o') i = Inr (pget o' (show_nat i))"
| "jidx _ i = Inr JUndef"

text \<open>
  \<open>a === b\<close>. Two separately built arrays, objects or dates are different references, so they
  are never equal.
\<close>

fun strict_eq :: "jsval \<Rightarrow> jsval \<Rightarrow> bool" where
  "strict_eq JUndef JUndef = True"
| "strict_eq JNull JNull = True"
| "strict_eq (JBool a) (JBool b) = (a = b)"
| "strict_eq (JNum a) (JNum b) = (a = b \<and> a \<noteq> NaN)"
| "strict_eq (JStr a) (JStr b) = (a = b)"
| "strict_eq _ _ = False"

section \<open>Conversions\<close>

definition show_int :: "int \<Rightarrow> string" where
  "show_int i = (if i < 0 then CHR ''-'' # show_nat (nat (- i)) else show_nat (nat i))"

fun frac_digits :: "nat \<Rightarrow> rat \<Rightarrow> string" where
  "frac_digits 0 q = []"
| "frac_digits (Suc n) q =
     (if q = 0 then []
      else digit_char (nat \<lfloor>10 * q\<rfloor>) # frac_digits n (10 * q - of_int \<lfloor>10 * q\<rfloor>))"

definition is_int_rat :: "rat \<Rightarrow> bool" where
  "is_int_rat q = (of_int \<lfloor>q\<rfloor> = q)"

definition show_rat :: "rat \<Rightarrow> string" where
  "show_rat q =
     (if is_int_rat q then show_int \<lfloor>q\<rfloor>
      else (if q < 0 then ''-'' else []) @ show_nat (nat \<lfloor>\<bar>q\<bar>\<rfloor>) @ ''.''
        @ frac_digits 17 (\<bar>q\<bar> - of_int \<lfloor>\<bar>q\<bar>\<rfloor>))"

fun num_to_string :: "jsnum \<Rightarrow> string" where
  "num_to_string (Fin q) = show_rat q"
| "num_to_string NaN = ''NaN''"
| "num_to_string PosInf = ''Infinity''"
| "num_to_string NegInf = ''-Infinity''"

fun to_string :: "jsval \<Rightarrow> string" where
  "to_string JUndef = ''undefined''"
| "to_string JNull = ''null''"
| "to_string (JBool b) = (if b then ''true'' else ''false'')"
| "to_string (JNum n) = num_to_string n"
| "to_string (JStr s) = s"
| "to_string (JArr vs) = join '','' (map (\<lambda>v. if nullish v then [] else to_string v) vs)"
| "to_string (JObj o') = ''[object Object]''"
| "to_string (JDate t shown isos) = shown"

definition digits_prefix :: "string \<Rightarrow> string \<times> string" where
  "digits_prefix s = (takeWhile is_digit s, dropWhile is_digit s)"

definition split_sign :: "string \<Rightarrow> bool \<times> string" where
  "split_sign s = (case s of
       c # r \<Rightarrow> if c = CHR ''-'' then (True, r) else if c = CHR ''+'' then (False, r) else (False, s)
     | [] \<Rightarrow> (False, s))"

text \<open>The exponent part of a decimal literal: empty, or \<open>e\<close> with a signed run of digits.\<close>

definition parse_exp :: "string \<Rightarrow> int option" where
  "parse_exp s = (case s of
       [] \<Rightarrow> Some 0
     | c # r \<Rightarrow>
         if c = CHR ''e'' \<or> c = CHR ''E'' then
           (let (neg, ds) = split_sign r
            in if ds \<noteq> [] \<and> list_all is_digit ds
               then Some (if neg then - int (nat_of_digits ds) else int (nat_of_digits ds))
               else None)
         else None)"

definition scale10 :: "rat \<Rightarrow> int \<Rightarrow> rat" where
  "scale10 q e = (if 0 \<le> e then q * 10 ^ nat e else q / 10 ^ nat (- e))"

definition parse_unsigned :: "string \<Rightarrow> jsnum" where
  "parse_unsigned s =
     (if s = ''Infinity'' then PosInf
      else let (ip, r) = digits_prefix s;
               (fp, r') = (case r of
                   [] \<Rightarrow> ([], [])
                 | c # t \<Rightarrow> if c = CHR ''.'' then digits_prefix t else ([], r))
           in if ip = [] \<and> fp = [] then NaN
              else (case parse_exp r' of
                      None \<Rightarrow> NaN
                    | Some e \<Rightarrow> Fin (scale10 (of_nat (nat_of_digits (ip @ fp))) (e - int (length fp)))))"

fun neg_num :: "jsnum \<Rightarrow> jsnum" where
  "neg_num (Fin q) = Fin (- q)"
| "neg_num NaN = NaN"
| "neg_num PosInf = NegInf"
| "neg_num NegInf = PosInf"

definition hex_val :: "char \<Rightarrow> nat option" where
  "hex_val c = (let n = of_char c :: nat in
     if 48 \<le> n \<and> n \<le> 57 then Some (n - 48)
     else if 65 \<le> n \<and> n \<le> 70 then Some (n - 55)
     else if 97 \<le> n \<and> n \<le> 102 then Some (n - 87)
     else None)"

text \<open>The digits of a \<open>0x\<close>, \<open>0o\<close> or \<open>0b\<close> literal.\<close>

definition radix_digits :: "nat \<Rightarrow> string \<Rightarrow> jsnum" where
  "radix_digits b s =
     (if s \<noteq> [] \<and> list_all (\<lambda>c. case hex_val c of None \<Rightarrow> False | Some d \<Rightarrow> d < b) s
      then Fin (of_nat (foldl (\<lambda>n c. b * n + the (hex_val c)) 0 s)) else NaN)"

definition string_to_number :: "string \<Rightarrow> jsnum" where
  "string_to_number s0 =
     (let s = trim s0 in
      if s = [] then Fin 0
      else if prefix ''0x'' s \<or> prefix ''0X'' s then radix_digits 16 (drop 2 s)
      else if prefix ''0o'' s \<or> prefix ''0O'' s then radix_digits 8 (drop 2 s)
      else if prefix ''0b'' s \<or> prefix ''0B'' s then radix_digits 2 (drop 2 s)
      else let (neg, u) = split_sign s
           in if neg then neg_num (parse_unsigned u) else parse_unsigned u)"

fun to_number :: "jsval \<Rightarrow> jsnum" where
  "to_number JUndef = NaN"
| "to_number JNull = Fin 0"
| "to_number (JBool b) = Fin (if b then 1 else 0)"
| "to_number (JNum n) = n"
| "to_number (JStr s) = string_to_number s"
| "to_number (JArr vs) = string_to_number (to_string (JArr vs))"
| "to_number (JObj o') = NaN"
| "to_number (JDate t shown isos) = (case t of None \<Rightarrow> NaN | Some i \<Rightarrow> Fin (of_int i))"

text \<open>The order of numbers: every comparison with \<open>NaN\<close> is false.\<close>

instantiation jsnum :: ord
begin

fun less_eq_jsnum :: "jsnum \<Rightarrow> jsnum \<Rightarrow> bool" where
  "less_eq_jsnum NaN b = False"
| "less_eq_jsnum a NaN = False"
| "less_eq_jsnum (Fin p) (Fin q) = (p \<le> q)"
| "less_eq_jsnum NegInf b = True"
| "less_eq_jsnum a PosInf = True"
| "less_eq_jsnum a b = False"

definition less_jsnum :: "jsnum \<Rightarrow> jsnum \<Rightarrow> bool" where
  "less_jsnum a b = (a \<le> b \<and> a \<noteq> b)"

instance ..

end

fun str_le :: "string \<Rightarrow> string \<Rightarrow> bool" where
  "str_le [] t = True"
| "str_le (a # s) [] = False"
| "str_le (a # s) (b # t) =
     ((of_char a :: nat) < of_char b \<or> a = b \<and> str_le s t)"

text \<open>
  \<open>a <= b\<close>: both sides become primitive values; two strings are compared as strings, anything
  else as numbers.
\<close>

fun to_prim :: "jsval \<Rightarrow> jsval" where
  "to_prim (JArr vs) = JStr (to_string (JArr vs))"
| "to_prim (JObj o') = JStr (to_string (JObj o'))"
| "to_prim v = v"

definition js_le :: "jsval \<Rightarrow> jsval \<Rightarrow> bool" where
  "js_le a b =
     (case (to_prim a, to_prim b) of
        (JStr s, JStr t) \<Rightarrow> str_le s t
      | (x, y) \<Rightarrow> to_number x \<le> to_number y)"

text \<open>The own enumerable properties of a value; a string is enumerated byte by byte.\<close>

fun obj_entries :: "jsval \<Rightarrow> jsval jsobj" where
  "obj_entries (JObj ob) = entries ob"
| "obj_entries (JArr vs) = map (\<lambda>(i, v). (show_nat i, v)) (enumerate 0 vs)"
| "obj_entries (JStr s) = map (\<lambda>(i, c). (show_nat i, JStr [c])) (enumerate 0 s)"
| "obj_entries v = []"

definition assign :: "'v jsobj \<Rightarrow> 'v jsobj \<Rightarrow> 'v jsobj" where
  "assign dest source = fold (\<lambda>(k, v). oset k v) (entries source) dest"

section \<open>Sorting strings\<close>

text \<open>The order of \<open>sort()\<close> without a comparator: by code units.\<close>

definition code_unit_collation :: "string \<Rightarrow> string \<Rightarrow> int" where
  "code_unit_collation a b = (if a = b then 0 else if str_le a b then -1 else 1)"

lemma str_le_total: "str_le a b \<or> str_le b a"
proof (induction a b rule: str_le.induct)
  case (3 a s b t)
  then show ?case by (auto simp: not_less)
qed simp_all

lemma str_le_trans: "str_le a b \<Longrightarrow> str_le b c \<Longrightarrow> str_le a c"
proof (induction a b arbitrary: c rule: str_le.induct)
  case (3 a s b t)
  then show ?case by (cases c) auto
qed (auto elim: str_le.elims)

lemma str_le_antisym: "str_le a b \<Longrightarrow> str_le b a \<Longrightarrow> a = b"
  by (induction a b rule: str_le.induct) (auto elim: str_le.elims)

definition js_sort :: "string list \<Rightarrow> string list" where
  "js_sort xs = sort_cmp code_unit_collation xs"

interpretation code_units: strict_comparator code_unit_collation
proof
  fix x y z :: string
  show "code_unit_collation x y \<le> 0 \<or> code_unit_collation y x \<le> 0"
    using str_le_total [of x y] by (auto simp: code_unit_collation_def)
  show "code_unit_collation x y \<le> 0 \<Longrightarrow> code_unit_collation y z \<le> 0 \<Longrightarrow> code_unit_collation x z \<le> 0"
    using str_le_trans [of x y z] by (auto simp: code_unit_collation_def split: if_splits)
  show "code_unit_collation x y \<le> 0 \<Longrightarrow> code_unit_collation y x \<le> 0 \<Longrightarrow> x = y"
    using str_le_antisym [of x y] by (auto simp: code_unit_collation_def split: if_splits)
qed

section \<open>JSON\<close>

definition hex_lower :: "nat \<Rightarrow> char" where
  "hex_lower n = (if n < 10 then char_of (48 + n) else char_of (87 + n))"

definition json_escape :: "char \<Rightarrow> string" where
  "json_escape c = (let n = of_char c :: nat in
     if c = CHR 0x22 then [CHR 0x5C, CHR 0x22]
     else if c = CHR 0x5C then [CHR 0x5C, CHR 0x5C]
     else if n = 8 then [CHR 0x5C, CHR ''b'']
     else if n = 9 then [CHR 0x5C, CHR ''t'']
     else if n = 10 then [CHR 0x5C, CHR ''n'']
     else if n = 12 then [CHR 0x5C, CHR ''f'']
     else if n = 13 then [CHR 0x5C, CHR ''r'']
     else if n < 32 then [CHR 0x5C, CHR ''u'', CHR ''0'', CHR ''0'', hex_lower (n div 16), hex_lower (n mod 16)]
     else [c])"

definition json_quote :: "string \<Rightarrow> string" where
  "json_quote s = [CHR 0x22] @ concat (map json_escape s) @ [CHR 0x22]"

fun json_omitted :: "jsval \<Rightarrow> bool" where
  "json_omitted JUndef = True"
| "json_omitted _ = False"

text \<open>
  The layout of \<open>JSON.stringify\<close>: \<open>gap\<close> is the indent unit (empty for the compact form) and
  \<open>ind\<close> the indent of the enclosing value.
\<close>

definition json_block :: "string \<Rightarrow> string \<Rightarrow> char \<Rightarrow> char \<Rightarrow> string list \<Rightarrow> string" where
  "json_block gap ind l r items =
     (if items = [] then [l, r]
      else if gap = [] then [l] @ join '','' items @ [r]
      else [l, CHR 0x0A] @ ind @ gap @ join ('','' @ [CHR 0x0A] @ ind @ gap) items
        @ [CHR 0x0A] @ ind @ [r])"

fun json_str :: "string \<Rightarrow> string \<Rightarrow> jsval \<Rightarrow> string" where
  "json_str gap ind JUndef = ''null''"
| "json_str gap ind JNull = ''null''"
| "json_str gap ind (JBool b) = (if b then ''true'' else ''false'')"
| "json_str gap ind (JNum n) = (case n of Fin q \<Rightarrow> show_rat q | _ \<Rightarrow> ''null'')"
| "json_str gap ind (JStr s) = json_quote s"
| "json_str gap ind (JArr vs) =
     json_block gap ind CHR ''['' CHR '']'' (map (json_str gap (ind @ gap)) vs)"
| "json_str gap ind (JObj o') =
     (let items = map (\<lambda>(k, v). (k, (json_omitted v, json_quote k @ (if gap = [] then '':'' else '': '') @ json_str gap (ind @ gap) v))) o'
      in json_block gap ind CHR ''{'' CHR ''}''
           (map (\<lambda>(k, (b, t)). t) (filter (\<lambda>(k, (b, t)). \<not> b) (entries items))))"
| "json_str gap ind (JDate t shown isos) = (if t = None then ''null'' else json_quote isos)"

text \<open>\<open>JSON.stringify(v)\<close> and \<open>JSON.stringify(v, null, 2)\<close>; of \<open>undefined\<close> it is \<open>undefined\<close>.\<close>

definition json_stringify :: "jsval \<Rightarrow> jsval" where
  "json_stringify v = (if v = JUndef then JUndef else JStr (json_str [] [] v))"

definition json_stringify2 :: "jsval \<Rightarrow> jsval" where
  "json_stringify2 v = (if v = JUndef then JUndef else JStr (json_str ''  '' [] v))"

text \<open>The UTF-8 bytes of a code point.\<close>

definition utf8_encode :: "nat \<Rightarrow> string" where
  "utf8_encode n =
     (if n < 128 then [char_of n]
      else if n < 2048 then [char_of (192 + n div 64), char_of (128 + n mod 64)]
      else if n < 65536 then
        [char_of (224 + n div 4096), char_of (128 + n div 64 mod 64), char_of (128 + n mod 64)]
      else
        [char_of (240 + n div 262144), char_of (128 + n div 4096 mod 64),
         char_of (128 + n div 64 mod 64), char_of (128 + n mod 64)])"

definition json_ws :: "string \<Rightarrow> string" where
  "json_ws s = dropWhile (\<lambda>c. c \<in> {CHR 0x20, CHR 0x09, CHR 0x0A, CHR 0x0D}) s"

definition hex4 :: "string \<Rightarrow> (nat \<times> string) option" where
  "hex4 s = (case s of
       a # b # c # d # r \<Rightarrow>
         (case (hex_val a, hex_val b, hex_val c, hex_val d) of
            (Some w, Some x, Some y, Some z) \<Rightarrow> Some (((w * 16 + x) * 16 + y) * 16 + z, r)
          | _ \<Rightarrow> None)
     | _ \<Rightarrow> None)"

text \<open>An escape after its backslash; a surrogate pair is one code point.\<close>

definition json_unescape :: "string \<Rightarrow> (string \<times> string) option" where
  "json_unescape s = (case s of
       [] \<Rightarrow> None
     | c # r \<Rightarrow>
         if c \<in> {CHR 0x22, CHR 0x5C, CHR ''/''} then Some ([c], r)
         else if c = CHR ''b'' then Some ([CHR 0x08], r)
         else if c = CHR ''f'' then Some ([CHR 0x0C], r)
         else if c = CHR ''n'' then Some ([CHR 0x0A], r)
         else if c = CHR ''r'' then Some ([CHR 0x0D], r)
         else if c = CHR ''t'' then Some ([CHR 0x09], r)
         else if c = CHR ''u'' then
           (case hex4 r of
              None \<Rightarrow> None
            | Some (n, r1) \<Rightarrow>
                if 55296 \<le> n \<and> n < 56320 then
                  (case r1 of
                     e # f # r2 \<Rightarrow>
                       if e = CHR 0x5C \<and> f = CHR ''u'' then
                         (case hex4 r2 of
                            Some (m, r3) \<Rightarrow>
                              if 56320 \<le> m \<and> m < 57344
                              then Some (utf8_encode (65536 + (n - 55296) * 1024 + (m - 56320)), r3)
                              else Some (utf8_encode n, r1)
                          | None \<Rightarrow> None)
                       else Some (utf8_encode n, r1)
                   | _ \<Rightarrow> Some (utf8_encode n, r1))
                else Some (utf8_encode n, r1))
         else None)"

fun json_string_body :: "nat \<Rightarrow> string \<Rightarrow> (string \<times> string) option" where
  "json_string_body 0 s = None"
| "json_string_body (Suc n) s = (case s of
       [] \<Rightarrow> None
     | c # r \<Rightarrow>
         if c = CHR 0x22 then Some ([], r)
         else if (of_char c :: nat) < 32 then None
         else if c = CHR 0x5C then
           (case json_unescape r of
              None \<Rightarrow> None
            | Some (t, r') \<Rightarrow> map_option (\<lambda>(u, r2). (t @ u, r2)) (json_string_body n r'))
         else map_option (\<lambda>(u, r2). (c # u, r2)) (json_string_body n r))"

definition json_number :: "string \<Rightarrow> (jsval \<times> string) option" where
  "json_number s =
     (let (neg, u) = (case s of c # r \<Rightarrow> if c = CHR ''-'' then (True, r) else (False, s) | [] \<Rightarrow> (False, s));
          (ip, r) = digits_prefix u
      in if ip = [] \<or> (hd ip = CHR ''0'' \<and> length ip > 1) then None
         else
           (let frac = (case r of
                  c # t \<Rightarrow> if c = CHR ''.'' then
                     (let (fp, r') = digits_prefix t in if fp = [] then None else Some (fp, r'))
                     else Some ([], r)
                | [] \<Rightarrow> Some ([], r))
            in case frac of
                 None \<Rightarrow> None
               | Some (fp, r1) \<Rightarrow>
                   (let expo = (case r1 of
                          c # t \<Rightarrow> if c = CHR ''e'' \<or> c = CHR ''E'' then
                             (let (neg', w) = split_sign t; (ds, r2) = digits_prefix w
                              in if ds = [] then None
                                 else Some ((if neg' then - int (nat_of_digits ds) else int (nat_of_digits ds)), r2))
                             else Some (0, r1)
                        | [] \<Rightarrow> Some (0, r1))
                    in case expo of
                         None \<Rightarrow> None
                       | Some (e, r2) \<Rightarrow>
                           (let q = scale10 (of_nat (nat_of_digits (ip @ fp))) (e - int (length fp))
                            in Some (JNum (Fin (if neg then - q else q)), r2)))))"

definition strip :: "string \<Rightarrow> string \<Rightarrow> string option" where
  "strip pat s = (if prefix pat s then Some (drop (length pat) s) else None)"

text \<open>
  The grammar of \<open>JSON.parse\<close>. The fuel bounds the number of values and separators read; every
  call consumes at least one byte for one unit, so the length of the text is enough.
\<close>

fun json_value :: "nat \<Rightarrow> string \<Rightarrow> (jsval \<times> string) option"
  and json_elems :: "nat \<Rightarrow> string \<Rightarrow> (jsval list \<times> string) option"
  and json_members :: "nat \<Rightarrow> jsval jsobj \<Rightarrow> string \<Rightarrow> (jsval jsobj \<times> string) option"
where
  "json_value 0 s = None"
| "json_value (Suc n) s0 = (let s = json_ws s0 in case s of
       [] \<Rightarrow> None
     | c # r \<Rightarrow>
         if c = CHR 0x22 then map_option (\<lambda>(t, r'). (JStr t, r')) (json_string_body (Suc (length r)) r)
         else if c = CHR ''['' then
           (case json_ws r of
              d # r' \<Rightarrow> if d = CHR '']'' then Some (JArr [], r')
                        else map_option (\<lambda>(vs, r2). (JArr vs, r2)) (json_elems n r)
            | [] \<Rightarrow> None)
         else if c = CHR ''{'' then
           (case json_ws r of
              d # r' \<Rightarrow> if d = CHR ''}'' then Some (JObj [], r')
                        else map_option (\<lambda>(ob, r2). (JObj ob, r2)) (json_members n [] r)
            | [] \<Rightarrow> None)
         else (case strip ''true'' s of Some r' \<Rightarrow> Some (JBool True, r') | None \<Rightarrow>
           (case strip ''false'' s of Some r' \<Rightarrow> Some (JBool False, r') | None \<Rightarrow>
           (case strip ''null'' s of Some r' \<Rightarrow> Some (JNull, r') | None \<Rightarrow> json_number s))))"
| "json_elems 0 s = None"
| "json_elems (Suc n) s = (case json_value n s of
       None \<Rightarrow> None
     | Some (v, r) \<Rightarrow> (case json_ws r of
           c # r' \<Rightarrow> if c = CHR '']'' then Some ([v], r')
                     else if c = CHR '','' then map_option (\<lambda>(vs, r2). (v # vs, r2)) (json_elems n r')
                     else None
         | [] \<Rightarrow> None))"
| "json_members 0 acc s = None"
| "json_members (Suc n) acc s = (case json_ws s of
       q # r0 \<Rightarrow> if q \<noteq> CHR 0x22 then None
         else (case json_string_body (Suc (length r0)) r0 of
            None \<Rightarrow> None
          | Some (k, r1) \<Rightarrow> (case json_ws r1 of
                c # r2 \<Rightarrow> if c \<noteq> CHR '':'' then None
                  else (case json_value n r2 of
                      None \<Rightarrow> None
                    | Some (v, r3) \<Rightarrow> (case json_ws r3 of
                          d # r4 \<Rightarrow> if d = CHR ''}'' then Some (oset k v acc, r4)
                                    else if d = CHR '','' then json_members n (oset k v acc) r4
                                    else None
                        | [] \<Rightarrow> None))
              | [] \<Rightarrow> None))
     | [] \<Rightarrow> None)"

definition json_parse :: "string \<Rightarrow> jsval res" where
  "json_parse s = (case json_value (Suc (length s)) s of
       None \<Rightarrow> Inl SyntaxError
     | Some (v, r) \<Rightarrow> if json_ws r = [] then Inr v else Inl SyntaxError)"

section \<open>Lemmas\<close>

lemma pget_Nil [simp]: "pget [] k = JUndef"
  by (simp add: pget_def)

lemma pget_oset [simp]: "pget (oset k v o') k' = (if k' = k then v else pget o' k')"
  by (simp add: pget_def)

lemma pget_odel [simp]: "pget (odel k o') k' = (if k' = k then JUndef else pget o' k')"
  by (simp add: pget_def)

lemma nullish_simps [simp]:
  "nullish JUndef" "nullish JNull" "\<not> nullish (JBool tf)" "\<not> nullish (JNum n)" "\<not> nullish (JStr s)"
  "\<not> nullish (JArr vs)" "\<not> nullish (JObj o')" "\<not> nullish (JDate t a b)"
  by (simp_all add: nullish_def)

lemma truthy_not_nullish: "truthy v \<Longrightarrow> \<not> nullish v"
  by (cases v) auto

lemma of_char_digit_char [simp]: "n < 10 \<Longrightarrow> (of_char (digit_char n) :: nat) = 48 + n"
  by (simp add: digit_char_def)

lemma is_digit_digit_char [simp]: "n < 10 \<Longrightarrow> is_digit (digit_char n)"
  by (simp add: is_digit_def)

lemma digit_val_digit_char [simp]: "n < 10 \<Longrightarrow> digit_val (digit_char n) = n"
  by (simp add: digit_val_def)

lemma nat_of_digits_snoc [simp]: "nat_of_digits (s @ [c]) = 10 * nat_of_digits s + digit_val c"
  by (simp add: nat_of_digits_def)

lemma show_nat_digits: "list_all is_digit (show_nat n)"
proof (induction n rule: show_nat.induct)
  case (1 n)
  then show ?case by (cases "n < 10") (simp_all add: show_nat.simps [of n])
qed

lemma show_nat_not_Nil [simp]: "show_nat n \<noteq> []"
  by (subst show_nat.simps) simp

lemma nat_of_digits_show_nat [simp]: "nat_of_digits (show_nat n) = n"
proof (induction n rule: show_nat.induct)
  case (1 n)
  show ?case
  proof (cases "n < 10")
    case True
    then show ?thesis by (simp add: show_nat.simps [of n] nat_of_digits_def)
  next
    case False
    then show ?thesis using 1 by (simp add: show_nat.simps [of n])
  qed
qed

lemma is_int_rat_of_int [simp]: "is_int_rat (of_int i)"
  by (simp add: is_int_rat_def)

lemma show_rat_of_int [simp]: "show_rat (of_int i) = show_int i"
  by (simp add: show_rat_def)

lemma pget_entries_fold:
  "wf_obj es \<Longrightarrow> pget (fold (\<lambda>(k, v). oset k v) es d) k = (case oget es k of None \<Rightarrow> pget d k | Some v \<Rightarrow> v)"
proof (induction es arbitrary: d)
  case (Cons e es)
  then show ?case
    by (cases e) (auto simp: wf_obj_def oget_def map_of_eq_None_iff [symmetric] split: option.splits)
qed simp

lemma pget_assign:
  "wf_obj src \<Longrightarrow> pget (assign d src) k = (case oget src k of None \<Rightarrow> pget d k | Some v \<Rightarrow> v)"
  using pget_entries_fold [of "entries src" d k] by (simp add: assign_def distinct_entries oget_def)

lemma pget_entries [simp]: "pget (entries ob) k = pget ob k"
  by (simp add: pget_def oget_def)

end
