(* ===== verification/PathId.thy ===== *)
theory PathId
  imports JsValue
begin

text \<open>
  Identifiers of Marathon's apps, pods and groups (\<open>state/PathId.scala\<close>): parsing and printing, the
  canonical path, parents, the order of identifiers and their validation. A character of a Scala string
  is one \<open>char\<close>, so the first 256 code units are represented.
\<close>

section \<open>Paths\<close>

datatype path_id = AbsolutePathId "string list" | RelativePathId "string list"

fun path_of :: "path_id \<Rightarrow> string list" where
  "path_of (AbsolutePathId p) = p"
| "path_of (RelativePathId p) = p"

fun is_absolute :: "path_id \<Rightarrow> bool" where
  "is_absolute (AbsolutePathId p) = True"
| "is_absolute (RelativePathId p) = False"

definition path_root :: path_id where "path_root = AbsolutePathId []"

definition relativeEmpty :: path_id where "relativeEmpty = RelativePathId []"

text \<open>\<open>PathId(pieces, absolute)\<close>.\<close>

definition make_path :: "string list \<Rightarrow> bool \<Rightarrow> path_id" where
  "make_path pieces absolute = (if absolute then AbsolutePathId pieces else RelativePathId pieces)"

definition path_sanitized :: "string list \<Rightarrow> bool \<Rightarrow> path_id" where
  "path_sanitized pieces absolute = make_path (filter (\<lambda>s. s \<noteq> []) pieces) absolute"

text \<open>
  \<open>in.replaceAll("(^/+)|(/+$)", "")\<close>: the slashes in front and behind; \<open>$\<close> also matches before a last
  line terminator.
\<close>

definition last_eol :: "string \<Rightarrow> string" where
  "last_eol s = (if suffix [CHR 0x0D, CHR 0x0A] s then [CHR 0x0D, CHR 0x0A]
     else if s \<noteq> [] \<and> last s \<in> {CHR 0x0A, CHR 0x0D, CHR 0x85} then [last s] else [])"

definition trim_end :: "string \<Rightarrow> string" where
  "trim_end s = rev (dropWhile (\<lambda>c. c = CHR ''/'') (rev s))"

definition trim_slashes :: "string \<Rightarrow> string" where
  "trim_slashes s =
     (let t = dropWhile (\<lambda>c. c = CHR ''/'') s; eol = last_eol t
      in trim_end (take (length t - length eol) t) @ eol)"

text \<open>\<open>PathId(in)\<close> and \<open>PathId(in, absolute)\<close>; empty pieces are dropped, so those \<open>split\<close> drops do not matter.\<close>

definition parse_path_as :: "string \<Rightarrow> bool \<Rightarrow> path_id" where
  "parse_path_as s absolute = path_sanitized (split_on CHR ''/'' (trim_slashes s)) absolute"

definition parse_path :: "string \<Rightarrow> path_id" where
  "parse_path s = parse_path_as s (prefix ''/'' s)"

definition path_toString :: "path_id \<Rightarrow> string" where
  "path_toString p = (if is_absolute p then ''/'' else []) @ join ''/'' (path_of p)"

fun isRoot :: "path_id \<Rightarrow> bool" where
  "isRoot p = (path_of p = [] \<and> is_absolute p)"

text \<open>The parent of a path of one piece is the root, even when the path is relative.\<close>

definition path_parent :: "path_id \<Rightarrow> path_id" where
  "path_parent p = (case path_of p of
       [] \<Rightarrow> path_root
     | [x] \<Rightarrow> path_root
     | _ \<Rightarrow> make_path (butlast (path_of p)) (is_absolute p))"

definition isTopLevel :: "path_id \<Rightarrow> bool" where
  "isTopLevel p = (\<not> isRoot p \<and> isRoot (path_parent p))"

function allParents :: "path_id \<Rightarrow> path_id list" where
  "allParents p = (if isRoot p then [] else path_parent p # allParents (path_parent p))"
  by pat_completeness auto
termination
  by (relation "measure (\<lambda>p. 2 * length (path_of p) + (if is_absolute p then 0 else 1))")
    (auto simp: path_parent_def path_root_def make_path_def split: list.splits)

declare allParents.simps [simp del]

definition rootPath :: "path_id \<Rightarrow> path_id" where
  "rootPath p = make_path (take 1 (path_of p)) (is_absolute p)"

definition path_append :: "path_id \<Rightarrow> path_id \<Rightarrow> path_id" where
  "path_append p q = make_path (path_of p @ path_of q) (is_absolute p)"

fun restOf_in :: "string list \<Rightarrow> string list \<Rightarrow> string list" where
  "restOf_in [] parentPath = []"
| "restOf_in (c # cs) [] = c # cs"
| "restOf_in (c # cs) (p # ps) = (if c \<noteq> p then c # cs else restOf_in cs ps)"

definition restOf :: "path_id \<Rightarrow> path_id \<Rightarrow> path_id" where
  "restOf p parent = make_path (restOf_in (path_of p) (path_of parent)) (is_absolute p)"

fun canonical_in :: "string list \<Rightarrow> string list \<Rightarrow> string list" where
  "canonical_in [] result = rev result"
| "canonical_in (head # tail) result =
     (if head = ''.'' then canonical_in tail result
      else if head = ''..'' then canonical_in tail (if result \<noteq> [] then tl result else [])
      else canonical_in tail (head # result))"

text \<open>\<open>canonicalPath(base)\<close>; \<open>None\<close> is the failure of \<open>require\<close> on a base that is not absolute.\<close>

definition canonicalPath :: "path_id \<Rightarrow> path_id \<Rightarrow> path_id option" where
  "canonicalPath base p =
     (if \<not> is_absolute base then None
      else Some (AbsolutePathId (case p of
          AbsolutePathId ps \<Rightarrow> canonical_in ps []
        | RelativePathId ps \<Rightarrow> canonical_in (path_of base @ ps) [])))"

definition path_includes :: "path_id \<Rightarrow> path_id \<Rightarrow> bool" where
  "path_includes p def =
     (if length (path_of p) < length (path_of def) then False
      else list_all (\<lambda>(left, right). left = right) (zip (path_of p) (path_of def)))"

definition safePath :: "path_id \<Rightarrow> string option" where
  "safePath p = (if is_absolute p then Some (join ''_'' (path_of p)) else None)"

text \<open>\<open>split("_")\<close> drops empty pieces at the end, but keeps the only piece of a text without the separator.\<close>

definition java_split :: "char \<Rightarrow> string \<Rightarrow> string list" where
  "java_split c s = (if c \<in> set s then rev (dropWhile (\<lambda>x. x = []) (rev (split_on c s))) else [s])"

definition fromSafePath :: "string \<Rightarrow> path_id" where
  "fromSafePath s = (if s = [] then path_root else AbsolutePathId (java_split CHR ''_'' s))"

definition toHostname :: "path_id \<Rightarrow> string" where
  "toHostname p = join ''.'' (rev (path_of p))"

section \<open>The order of identifiers\<close>

text \<open>\<open>String.compareTo\<close>, and the order of sequences.\<close>

fun compareTo :: "string \<Rightarrow> string \<Rightarrow> int" where
  "compareTo [] t = - int (length t)"
| "compareTo s [] = int (length s)"
| "compareTo (a # s) (b # t) = (if a = b then compareTo s t else int (of_char a) - int (of_char b))"

fun seq_compare :: "('a \<Rightarrow> 'a \<Rightarrow> int) \<Rightarrow> 'a list \<Rightarrow> 'a list \<Rightarrow> int" where
  "seq_compare cmp [] [] = 0"
| "seq_compare cmp [] (y # ys) = - 1"
| "seq_compare cmp (x # xs) [] = 1"
| "seq_compare cmp (x # xs) (y # ys) = (let r = cmp x y in if r \<noteq> 0 then r else seq_compare cmp xs ys)"

definition canonical_pieces :: "path_id \<Rightarrow> string list" where
  "canonical_pieces p = canonical_in (path_of p) []"

definition path_compare :: "path_id \<Rightarrow> path_id \<Rightarrow> int" where
  "path_compare p q = seq_compare compareTo (canonical_pieces p) (canonical_pieces q)"

section \<open>Validation\<close>

definition label_char :: "char \<Rightarrow> bool" where
  "label_char c = (is_digit c \<or> is_lower c)"

text \<open>\<open>[a-z0-9]|[a-z0-9][a-z0-9\-]*[a-z0-9]\<close>, labels separated by dots, or one or two dots.\<close>

definition valid_label :: "string \<Rightarrow> bool" where
  "valid_label s = (s \<noteq> [] \<and> label_char (hd s) \<and> label_char (last s) \<and> list_all (\<lambda>c. label_char c \<or> c = CHR ''-'') s)"

definition valid_segment :: "string \<Rightarrow> bool" where
  "valid_segment s = (s = ''.'' \<or> s = ''..'' \<or> list_all valid_label (split_on CHR ''.'' s))"

definition validPathChars :: "path_id \<Rightarrow> bool" where
  "validPathChars p = list_all valid_segment (path_of p)"

definition reservedKeywords :: "string list" where
  "reservedKeywords = [''restart'', ''tasks'', ''versions'', ''.'', ''..'']"

definition withoutReservedKeywords :: "path_id \<Rightarrow> bool" where
  "withoutReservedKeywords p = (path_of p = [] \<or> last (path_of p) \<notin> set reservedKeywords)"

definition childOf :: "path_id \<Rightarrow> path_id \<Rightarrow> bool" where
  "childOf parent child = (case parent of
       RelativePathId p \<Rightarrow> True
     | AbsolutePathId p \<Rightarrow> map_option path_parent (canonicalPath parent child) = Some parent)"

definition pathIdValidator :: "path_id \<Rightarrow> bool" where
  "pathIdValidator p = (validPathChars p \<and> withoutReservedKeywords p \<and> childOf (path_parent p) p)"

definition validPathWithBase :: "path_id \<Rightarrow> path_id \<Rightarrow> bool" where
  "validPathWithBase base p = (validPathChars p \<and> childOf base p)"


section \<open>The canonical path\<close>

definition no_dots :: "string list \<Rightarrow> bool" where
  "no_dots ps = (''.'' \<notin> set ps \<and> ''..'' \<notin> set ps)"

lemma canonical_in_append: "canonical_in (xs @ ys) acc = canonical_in ys (rev (canonical_in xs acc))"
  by (induction xs acc rule: canonical_in.induct) simp_all

lemma canonical_in_no_dots: "no_dots acc \<Longrightarrow> no_dots (canonical_in xs acc)"
proof (induction xs acc rule: canonical_in.induct)
  case (2 head tail result)
  have "no_dots (if result \<noteq> [] then tl result else [])"
    using 2(4) by (cases result) (auto simp: no_dots_def)
  then show ?case using 2 by (auto simp: no_dots_def)
qed (simp add: no_dots_def)

lemma canonical_in_id: "no_dots xs \<Longrightarrow> canonical_in xs acc = rev acc @ xs"
  by (induction xs acc rule: canonical_in.induct) (auto simp: no_dots_def)

lemma canonical_fixed: "no_dots xs \<Longrightarrow> canonical_in xs [] = xs"
  by (simp add: canonical_in_id)

lemma canonical_no_dots: "no_dots (canonical_in xs [])"
  by (rule canonical_in_no_dots) (simp add: no_dots_def)

text \<open>
  The canonical path of an identifier has no relative pieces, is its own canonical path below any
  base, and can be computed piecewise: resolving a path below a base is resolving it below the canonical
  path of the base.
\<close>

theorem canonicalPath_resolved:
  assumes "is_absolute base"
  shows "\<exists>ps. canonicalPath base p = Some (AbsolutePathId ps) \<and> no_dots ps
    \<and> canonicalPath base (AbsolutePathId ps) = Some (AbsolutePathId ps)
    \<and> (\<forall>b. canonicalPath base base = Some b \<longrightarrow> canonicalPath b p = Some (AbsolutePathId ps))"
proof (cases p)
  case (AbsolutePathId xs)
  then show ?thesis
    using assms canonical_no_dots [of xs] by (auto simp: canonicalPath_def canonical_fixed split: path_id.splits)
next
  case (RelativePathId xs)
  let ?bs = "path_of base"
  have base: "canonicalPath base base = Some (AbsolutePathId (canonical_in ?bs []))"
    using assms by (cases base) (simp_all add: canonicalPath_def)
  have "canonical_in (canonical_in ?bs [] @ xs) [] = canonical_in (?bs @ xs) []"
    using canonical_no_dots [of ?bs] by (simp add: canonical_in_append canonical_fixed)
  then show ?thesis
    using assms RelativePathId base canonical_no_dots [of "?bs @ xs"] by (simp add: canonicalPath_def canonical_fixed)
qed

theorem canonicalPath_resolved_witness:
  "canonicalPath (AbsolutePathId [''a'', ''..'', ''b'']) (RelativePathId [''.'', ''c'', ''..'', ''d'']) = Some (AbsolutePathId [''b'', ''d''])
    \<and> canonicalPath (AbsolutePathId [''b'']) (RelativePathId [''.'', ''c'', ''..'', ''d'']) = Some (AbsolutePathId [''b'', ''d''])"
proof -
  let ?base = "AbsolutePathId [''a'', ''..'', ''b'']" and ?p = "RelativePathId [''.'', ''c'', ''..'', ''d'']"
  have c: "canonicalPath ?base ?p = Some (AbsolutePathId [''b'', ''d''])"
    "canonicalPath ?base ?base = Some (AbsolutePathId [''b''])" by code_simp+
  moreover have "is_absolute ?base" by simp
  from canonicalPath_resolved [OF this, of ?p] c
  have "canonicalPath (AbsolutePathId [''b'']) ?p = Some (AbsolutePathId [''b'', ''d''])" by auto
  ultimately show ?thesis by blast
qed

section \<open>Valid identifiers\<close>

lemma label_char_plain: "label_char c \<or> c = CHR ''-'' \<or> c = CHR ''.'' \<Longrightarrow> c \<noteq> CHR ''/'' \<and> c \<noteq> CHR ''_'' \<and> \<not> c \<in> {CHR 0x0A, CHR 0x0D, CHR 0x85}"
  by (auto simp: label_char_def is_digit_def is_lower_def)

lemma valid_segment_chars:
  assumes "valid_segment s"
  shows "s \<noteq> []" and "c \<in> set s \<Longrightarrow> label_char c \<or> c = CHR ''-'' \<or> c = CHR ''.''"
proof -
  have labels: "list_all valid_label (split_on CHR ''.'' s)" if "s \<noteq> ''.''" "s \<noteq> ''..''"
    using assms that by (simp add: valid_segment_def)
  show "s \<noteq> []" using assms by (auto simp: valid_segment_def valid_label_def)
  show "label_char c \<or> c = CHR ''-'' \<or> c = CHR ''.''" if c: "c \<in> set s"
  proof (cases "s = ''.'' \<or> s = ''..''")
    case False
    have "c \<in> set (join ''.'' (split_on CHR ''.'' s))" using c join_split_on [of "CHR ''.''" s] by simp
    then have "c = CHR ''.'' \<or> (\<exists>x\<in>set (split_on CHR ''.'' s). c \<in> set x)" using set_join by fastforce
    then show ?thesis using labels False by (auto simp: list_all_iff valid_label_def)
  qed (use c in auto)
qed

lemma valid_segment_plain: "valid_segment s \<Longrightarrow> CHR ''/'' \<notin> set s \<and> CHR ''_'' \<notin> set s"
  using valid_segment_chars(2) label_char_plain by blast

lemma butlast_parent: "path_parent (AbsolutePathId ps) = AbsolutePathId (butlast ps)"
  by (cases ps; cases "tl ps") (auto simp: path_parent_def path_root_def make_path_def)

lemma valid_absolute_no_dots:
  assumes "pathIdValidator (AbsolutePathId ps)"
  shows "no_dots ps"
proof (cases ps rule: rev_exhaust)
  case Nil
  then show ?thesis by (simp add: no_dots_def)
next
  case (snoc xs x)
  let ?c = "canonical_in (xs @ [x]) []"
  have "path_parent (AbsolutePathId ?c) = AbsolutePathId xs"
    using assms snoc by (simp add: pathIdValidator_def childOf_def butlast_parent canonicalPath_def)
  then have "xs = butlast ?c" by (simp add: butlast_parent)
  then have "set xs \<subseteq> set ?c" by (metis in_set_butlastD subsetI)
  then have "no_dots xs" using canonical_no_dots [of "xs @ [x]"] by (auto simp: no_dots_def)
  moreover have "x \<notin> {''.'', ''..''}"
    using assms snoc by (simp add: pathIdValidator_def withoutReservedKeywords_def reservedKeywords_def)
  ultimately show ?thesis using snoc by (auto simp: no_dots_def)
qed

lemma join_ends:
  assumes "xs \<noteq> []" and "\<forall>x\<in>set xs. x \<noteq> []"
  shows "join sep xs \<noteq> [] \<and> hd (join sep xs) = hd (hd xs) \<and> last (join sep xs) = last (last xs)"
  using assms by (induction sep xs rule: join.induct) auto

lemma trim_slashes_plain:
  assumes "s \<noteq> []" and "hd s \<noteq> CHR ''/''" and "last s \<notin> {CHR ''/'', CHR 0x0A, CHR 0x0D, CHR 0x85}"
  shows "trim_slashes s = s" and "trim_slashes (CHR ''/'' # s) = s"
proof -
  have d: "dropWhile (\<lambda>c. c = CHR ''/'') s = s" using assms(1,2) by (rule dropWhile_fixed)
  have "\<not> suffix [CHR 0x0D, CHR 0x0A] s" using assms(3) by (auto simp: suffix_def)
  then have "last_eol s = []" using assms by (simp add: last_eol_def)
  moreover have "dropWhile (\<lambda>c. c = CHR ''/'') (rev s) = rev s"
    using assms by (intro dropWhile_fixed) (simp_all add: hd_rev)
  ultimately show "trim_slashes s = s" "trim_slashes (CHR ''/'' # s) = s"
    using d by (simp_all add: trim_slashes_def Let_def trim_end_def)
qed

lemma parse_toString_valid:
  assumes "list_all valid_segment (path_of p)"
  shows "parse_path (path_toString p) = p"
proof (cases "path_of p = []")
  case True
  then show ?thesis
    by (cases p) (simp_all add: parse_path_def parse_path_as_def path_toString_def trim_slashes_def last_eol_def
        trim_end_def path_sanitized_def make_path_def Let_def)
next
  case False
  let ?s = "join ''/'' (path_of p)"
  have seg: "\<forall>x\<in>set (path_of p). x \<noteq> [] \<and> CHR ''/'' \<notin> set x"
    using assms valid_segment_chars(1) valid_segment_plain by (auto simp: list_all_iff)
  then have ends: "?s \<noteq> []" "hd ?s = hd (hd (path_of p))" "last ?s = last (last (path_of p))"
    using join_ends [OF False, of "''/''"] by auto
  have "hd (path_of p) \<in> set (path_of p)" "last (path_of p) \<in> set (path_of p)" using False by simp_all
  then have v: "valid_segment (hd (path_of p))" "valid_segment (last (path_of p))" using assms by (auto simp: list_all_iff)
  then have "hd ?s \<in> set (hd (path_of p))" "last ?s \<in> set (last (path_of p))"
    using ends valid_segment_chars(1) by auto
  then have "label_char (hd ?s) \<or> hd ?s = CHR ''-'' \<or> hd ?s = CHR ''.''" "label_char (last ?s) \<or> last ?s = CHR ''-'' \<or> last ?s = CHR ''.''"
    using v valid_segment_chars(2) by blast+
  then have h: "hd ?s \<noteq> CHR ''/''" "last ?s \<notin> {CHR ''/'', CHR 0x0A, CHR 0x0D, CHR 0x85}"
    using label_char_plain by blast+
  note t = trim_slashes_plain [OF ends(1) h]
  have "split_on CHR ''/'' ?s = path_of p"
    using False seg by (intro split_on_join) auto
  moreover have "filter (\<lambda>s. s \<noteq> []) (path_of p) = path_of p" using seg by (simp add: filter_True)
  moreover have "\<not> prefix ''/'' ?s" using ends(1) h(1) by (cases ?s) auto
  ultimately show ?thesis
    using t by (cases p) (simp_all add: parse_path_def parse_path_as_def path_toString_def path_sanitized_def make_path_def)
qed

lemma fromSafePath_valid:
  assumes "list_all valid_segment ps"
  shows "fromSafePath (join ''_'' ps) = AbsolutePathId ps"
proof (cases "ps = []")
  case True
  then show ?thesis by (simp add: fromSafePath_def path_root_def)
next
  case False
  have seg: "\<forall>x\<in>set ps. x \<noteq> [] \<and> CHR ''_'' \<notin> set x"
    using assms valid_segment_chars(1) valid_segment_plain by (auto simp: list_all_iff)
  then have split: "split_on CHR ''_'' (join ''_'' ps) = ps"
    using False by (intro split_on_join) auto
  have "rev (dropWhile (\<lambda>x. x = []) (rev ps)) = ps"
    using False seg by (subst dropWhile_fixed) (simp_all add: hd_rev)
  moreover have "ps = [join ''_'' ps]" if "CHR ''_'' \<notin> set (join ''_'' ps)"
    using split split_on_no_sep [OF that] by simp
  ultimately have "java_split CHR ''_'' (join ''_'' ps) = ps" by (auto simp: java_split_def split)
  then show ?thesis using join_ends [OF False, of "''_''"] seg by (simp add: fromSafePath_def)
qed

text \<open>
  C37. An absolute identifier that passes validation is its own canonical path below any base, so it
  cannot point out of its group, and it is recovered from its text and from its safe form.
\<close>

theorem valid_id_recovered:
  assumes "pathIdValidator p" and "is_absolute p" and "is_absolute base"
  shows "canonicalPath base p = Some p \<and> parse_path (path_toString p) = p \<and> map_option fromSafePath (safePath p) = Some p"
proof -
  obtain ps where p: "p = AbsolutePathId ps" using assms(2) by (cases p) auto
  have "no_dots ps" using assms(1) p by (simp add: valid_absolute_no_dots)
  moreover have "list_all valid_segment ps" using assms(1) p by (simp add: pathIdValidator_def validPathChars_def)
  ultimately show ?thesis
    using p assms(3) parse_toString_valid [of p] fromSafePath_valid [of ps]
    by (simp add: canonicalPath_def canonical_fixed safePath_def)
qed

theorem valid_id_recovered_witness:
  "parse_path ''/prod/my-app.v2'' = AbsolutePathId [''prod'', ''my-app.v2'']
    \<and> fromSafePath ''prod_my-app.v2'' = AbsolutePathId [''prod'', ''my-app.v2'']"
proof -
  let ?p = "AbsolutePathId [''prod'', ''my-app.v2'']"
  have "pathIdValidator ?p" "is_absolute ?p" "path_toString ?p = ''/prod/my-app.v2''" "safePath ?p = Some ''prod_my-app.v2''"
    by code_simp+
  then show ?thesis using valid_id_recovered [of ?p ?p] by simp
qed

section \<open>Parents and rests\<close>

text \<open>
  The parents of an absolute identifier are its proper prefixes, the nearest first and the root
  last; for any identifier the walk up ends.
\<close>

theorem allParents_prefixes:
  "allParents (AbsolutePathId ps) = map AbsolutePathId (rev (if ps = [] then [] else prefixes (butlast ps)))"
proof (induction ps rule: rev_induct)
  case Nil
  then show ?case by (simp add: allParents.simps)
next
  case (snoc x xs)
  have "allParents (AbsolutePathId (xs @ [x])) = AbsolutePathId xs # allParents (AbsolutePathId xs)"
    by (subst allParents.simps) (simp add: butlast_parent)
  moreover have "prefixes xs = (if xs = [] then [] else prefixes (butlast xs)) @ [xs]"
    by (cases xs rule: rev_exhaust) (simp_all add: prefixes_snoc)
  ultimately show ?case using snoc by simp
qed

text \<open>
  \<open>restOf\<close> cuts off the longest common prefix with the other path, whether or not that path is an
  ancestor; below an ancestor, joining the two parts again gives the path, and \<open>includes\<close> tells exactly
  whether that is so.
\<close>

theorem restOf_common_prefix:
  "restOf p q = make_path (drop (length (longest_common_prefix (path_of p) (path_of q))) (path_of p)) (is_absolute p)
   \<and> path_includes p q = prefix (path_of q) (path_of p)
   \<and> (path_includes p q \<and> is_absolute p = is_absolute q \<longleftrightarrow> path_append q (restOf p q) = p)"
proof -
  have r: "restOf_in xs ys = drop (length (longest_common_prefix xs ys)) xs" for xs ys
    by (induction xs ys rule: restOf_in.induct) auto
  have z: "list_all (\<lambda>(l, r). l = r) (zip xs ys) \<and> length ys \<le> length xs \<longleftrightarrow> prefix ys xs" for xs ys :: "string list"
    by (induction ys arbitrary: xs) (case_tac xs; auto)+
  have i: "path_includes p q = prefix (path_of q) (path_of p)"
    using z [of "path_of p" "path_of q"] by (auto simp: path_includes_def)
  have len: "length (longest_common_prefix xs ys) \<le> length xs" for xs ys :: "string list"
    by (meson longest_common_prefix_prefix1 prefix_length_le)
  have "ys @ drop (length (longest_common_prefix xs ys)) xs = xs \<longleftrightarrow> prefix ys xs" for xs ys :: "string list"
  proof
    assume "prefix ys xs"
    then have "longest_common_prefix xs ys = ys"
      by (metis longest_common_prefix_max_prefix longest_common_prefix_prefix2 prefix_order.eq_iff prefix_order.refl)
    then show "ys @ drop (length (longest_common_prefix xs ys)) xs = xs"
      using \<open>prefix ys xs\<close> by (auto simp: prefix_def)
  qed (metis prefixI)
  then show ?thesis
    using i by (cases p; cases q) (auto simp: restOf_def r path_append_def make_path_def)
qed


section \<open>Comparing identifiers\<close>

lemma compareTo_str_le: "compareTo s t \<le> 0 \<longleftrightarrow> str_le s t"
  by (induction s t rule: compareTo.induct) (auto simp: less_le)

lemma compareTo_zero: "compareTo s t = 0 \<longleftrightarrow> s = t"
  by (induction s t rule: compareTo.induct) auto

text \<open>A comparator that is zero on equal arguments only gives one on sequences.\<close>

locale exact_comparator = strict_comparator +
  assumes cmp_zero: "cmp x y = 0 \<longleftrightarrow> x = y"
begin

lemma seq_zero: "seq_compare cmp xs ys = 0 \<longleftrightarrow> xs = ys"
proof (induction xs arbitrary: ys)
  case Nil
  then show ?case by (cases ys) simp_all
next
  case (Cons x xs)
  then show ?case by (cases ys) (auto simp: Let_def cmp_zero)
qed

lemma seq_le_Cons:
  "seq_compare cmp (x # xs) (y # ys) \<le> 0 \<longleftrightarrow> x = y \<and> seq_compare cmp xs ys \<le> 0 \<or> x \<noteq> y \<and> cmp x y \<le> 0"
  using cmp_zero [of x y] by (auto simp: Let_def)

lemma seq_exact: "exact_comparator (seq_compare cmp)"
proof
  show "seq_compare cmp xs ys \<le> 0 \<or> seq_compare cmp ys xs \<le> 0" for xs ys
  proof (induction xs arbitrary: ys)
    case Nil
    then show ?case by (cases ys) simp_all
  next
    case (Cons x xs)
    then show ?case using cmp_total by (cases ys) (auto simp: seq_le_Cons simp del: seq_compare.simps(4))
  qed
  show "seq_compare cmp xs zs \<le> 0" if "seq_compare cmp xs ys \<le> 0" "seq_compare cmp ys zs \<le> 0" for xs ys zs
    using that
  proof (induction xs arbitrary: ys zs)
    case Nil
    then show ?case by (cases zs) simp_all
  next
    case (Cons x xs)
    obtain y ys' where y: "ys = y # ys'" using Cons.prems(1) by (cases ys) auto
    obtain z zs' where z: "zs = z # zs'" using Cons.prems(2) y by (cases zs) auto
    show ?case
      using Cons.prems Cons.IH [of ys' zs'] cmp_trans [of x y z] cmp_antisym [of x y] cmp_antisym [of y x] unfolding y z
      by (auto simp: seq_le_Cons simp del: seq_compare.simps(4))
  qed
  show "xs = ys" if "seq_compare cmp xs ys \<le> 0" "seq_compare cmp ys xs \<le> 0" for xs ys
    using that
  proof (induction xs arbitrary: ys)
    case Nil
    then show ?case by (cases ys) simp_all
  next
    case (Cons x xs)
    then show ?case
      using cmp_antisym by (cases ys) (auto simp: seq_le_Cons simp del: seq_compare.simps(4))
  qed
qed (rule seq_zero)

end

interpretation string_order: exact_comparator compareTo
  by unfold_locales (use str_le_total str_le_trans str_le_antisym in \<open>auto simp: compareTo_str_le compareTo_zero\<close>)

interpretation piece_order: exact_comparator "seq_compare compareTo"
  by (rule string_order.seq_exact)

text \<open>
  The order of identifiers is total and transitive, but it compares canonical paths from the root:
  two identifiers compare as equal exactly if their canonical paths agree, so it separates absolute
  canonical identifiers, and does not separate a relative identifier from the absolute one, which
  \<open>equals\<close> does.
\<close>

theorem path_compare_order:
  "(path_compare p q \<le> 0 \<or> path_compare q p \<le> 0)
   \<and> (path_compare p q \<le> 0 \<and> path_compare q r \<le> 0 \<longrightarrow> path_compare p r \<le> 0)
   \<and> (path_compare p q = 0 \<longleftrightarrow> canonical_pieces p = canonical_pieces q)
   \<and> (no_dots xs \<and> no_dots ys \<longrightarrow> (path_compare (AbsolutePathId xs) (AbsolutePathId ys) = 0 \<longleftrightarrow> xs = ys))
   \<and> path_compare (RelativePathId xs) (AbsolutePathId xs) = 0"
  using piece_order.cmp_total piece_order.cmp_trans
  by (auto simp: path_compare_def piece_order.cmp_zero canonical_pieces_def canonical_fixed)

theorem path_compare_order_witness:
  "path_compare (RelativePathId [''a'']) (AbsolutePathId [''b'']) \<le> 0
    \<and> path_compare (RelativePathId [''a'']) (RelativePathId [''c'']) \<le> 0"
proof -
  have "path_compare (RelativePathId [''a'']) (AbsolutePathId [''b'']) \<le> 0 \<and> path_compare (AbsolutePathId [''b'']) (RelativePathId [''c'']) \<le> 0"
    by code_simp
  then show ?thesis
    using path_compare_order [of "RelativePathId [''a'']" "AbsolutePathId [''b'']" "RelativePathId [''c'']" "[]" "[]"] by blast
qed

end
