(* ===== verification/GroupTree.thy ===== *)
theory GroupTree
  imports PathId
begin

text \<open>
  The data Marathon works on: run specs, apps and pods, as far as \<open>isUpgrade\<close> and \<open>needsRestart\<close> read
  them (\<open>state/AppDefinition.scala\<close>, \<open>core/pod/PodDefinition.scala\<close>), the tree of groups with its lookups
  (\<open>state/Group.scala\<close>) and its dependencies (\<open>state/RootGroup.scala\<close>).

  A \<open>Map\<close> is the list of its entries in the order of its iteration. The fields of a run spec that
  \<open>isUpgrade\<close> compares and that nothing else here reads are one value of type \<open>'c\<close>, those it does not
  compare one of type \<open>'o\<close>. What the types of Scala promise of a tree is part of \<open>wf_group\<close>: a map holds a
  key once, apps are apps and pods are pods, and exactly the groups below the root state whether they
  enforce their role, which is the requirement of the constructor.
\<close>

section \<open>Run specs\<close>

datatype version_info = FullVersionInfo nat nat nat | OnlyVersion nat | NoVersion

fun vi_version :: "version_info \<Rightarrow> nat" where
  "vi_version (FullVersionInfo version lastScalingAt lastConfigChangeAt) = version"
| "vi_version (OnlyVersion version) = version"
| "vi_version NoVersion = 0"

datatype spec_kind = App | Pod

record ('c, 'o) run_spec =
  rs_kind :: spec_kind
  rs_id :: path_id
  rs_instances :: int
  rs_dependencies :: "path_id list"
  rs_versionInfo :: version_info
  rs_config :: 'c
  rs_other :: 'o

text \<open>\<open>Inl\<close> is the exception that an app cannot become a pod or a pod an app.\<close>

datatype state_error = IllegalState

definition isUpgrade :: "('c, 'o) run_spec \<Rightarrow> ('c, 'o) run_spec \<Rightarrow> state_error + bool" where
  "isUpgrade s to =
     (if rs_kind s \<noteq> rs_kind to then Inl IllegalState
      else Inr (rs_id s = rs_id to \<and> (rs_config s \<noteq> rs_config to
        \<or> rs_kind s = App \<and> set (rs_dependencies s) \<noteq> set (rs_dependencies to))))"

definition isScaledToZero :: "('c, 'o) run_spec \<Rightarrow> bool" where
  "isScaledToZero s = (rs_instances s = 0)"

definition isOnlyScaleChange :: "('c, 'o) run_spec \<Rightarrow> ('c, 'o) run_spec \<Rightarrow> state_error + bool" where
  "isOnlyScaleChange s to = rbind (isUpgrade s to) (\<lambda>b. Inr (\<not> b \<and> rs_instances s \<noteq> rs_instances to))"

text \<open>An app compares its whole version information, a pod its version; only without a difference is \<open>isUpgrade\<close> asked.\<close>

definition needsRestart :: "('c, 'o) run_spec \<Rightarrow> ('c, 'o) run_spec \<Rightarrow> state_error + bool" where
  "needsRestart s to =
     (if (case rs_kind s of
            App \<Rightarrow> rs_versionInfo s \<noteq> rs_versionInfo to
          | Pod \<Rightarrow> vi_version (rs_versionInfo s) \<noteq> vi_version (rs_versionInfo to))
      then Inr True else isUpgrade s to)"

section \<open>Groups\<close>

datatype ('c, 'o) group = Group
  (gr_id: path_id)
  (gr_apps: "(path_id \<times> ('c, 'o) run_spec) list")
  (gr_pods: "(path_id \<times> ('c, 'o) run_spec) list")
  (gr_groups: "(path_id \<times> ('c, 'o) group) list")
  (gr_dependencies: "path_id list")
  (gr_version: nat)
  (gr_enforceRole: "bool option")

fun transitiveApps :: "('c, 'o) group \<Rightarrow> ('c, 'o) run_spec list" where
  "transitiveApps (Group i apps pods groups deps ver enf) =
     map snd apps @ concat (map (\<lambda>(k, g). transitiveApps g) groups)"

fun transitivePods :: "('c, 'o) group \<Rightarrow> ('c, 'o) run_spec list" where
  "transitivePods (Group i apps pods groups deps ver enf) =
     map snd pods @ concat (map (\<lambda>(k, g). transitivePods g) groups)"

definition transitiveRunSpecs :: "('c, 'o) group \<Rightarrow> ('c, 'o) run_spec list" where
  "transitiveRunSpecs g = transitiveApps g @ transitivePods g"

fun transitiveAppIds :: "('c, 'o) group \<Rightarrow> path_id list" where
  "transitiveAppIds (Group i apps pods groups deps ver enf) =
     map fst apps @ concat (map (\<lambda>(k, g). transitiveAppIds g) groups)"

fun transitivePodIds :: "('c, 'o) group \<Rightarrow> path_id list" where
  "transitivePodIds (Group i apps pods groups deps ver enf) =
     map fst pods @ concat (map (\<lambda>(k, g). transitivePodIds g) groups)"

definition transitiveRunSpecIds :: "('c, 'o) group \<Rightarrow> path_id list" where
  "transitiveRunSpecIds g = transitiveAppIds g @ transitivePodIds g"

fun transitiveGroups :: "('c, 'o) group \<Rightarrow> (path_id \<times> ('c, 'o) group) list" where
  "transitiveGroups (Group i apps pods groups deps ver enf) =
     groups @ concat (map (\<lambda>(k, g). transitiveGroups g) groups)"

text \<open>The map of all groups by their ids: of two entries of one id the later would stay.\<close>

definition transitiveGroupsById :: "('c, 'o) group \<Rightarrow> (path_id \<times> ('c, 'o) group) list" where
  "transitiveGroupsById g = fold (\<lambda>(k, h) m. AList.update k h m) (transitiveGroups g) [(gr_id g, g)]"

definition group_at :: "('c, 'o) group \<Rightarrow> path_id \<Rightarrow> ('c, 'o) group option" where
  "group_at g gid = map_of (transitiveGroupsById g) gid"

definition app_at :: "('c, 'o) group \<Rightarrow> path_id \<Rightarrow> ('c, 'o) run_spec option" where
  "app_at g i = (case map_of (gr_apps g) i of Some a \<Rightarrow> Some a
     | None \<Rightarrow> Option.bind (group_at g (path_parent i)) (\<lambda>h. map_of (gr_apps h) i))"

definition pod_at :: "('c, 'o) group \<Rightarrow> path_id \<Rightarrow> ('c, 'o) run_spec option" where
  "pod_at g i = (case map_of (gr_pods g) i of Some a \<Rightarrow> Some a
     | None \<Rightarrow> Option.bind (group_at g (path_parent i)) (\<lambda>h. map_of (gr_pods h) i))"

definition runSpec :: "('c, 'o) group \<Rightarrow> path_id \<Rightarrow> ('c, 'o) run_spec option" where
  "runSpec g i = (case app_at g i of Some a \<Rightarrow> Some a | None \<Rightarrow> pod_at g i)"

definition group_exists :: "('c, 'o) group \<Rightarrow> path_id \<Rightarrow> bool" where
  "group_exists g i = (runSpec g i \<noteq> None)"

section \<open>Dependencies\<close>

type_synonym ('c, 'o) edges = "(('c, 'o) run_spec \<times> ('c, 'o) run_spec) list"

text \<open>Group on group, then app on app or group.\<close>

definition group_edges :: "('c, 'o) group \<Rightarrow> ('c, 'o) edges" where
  "group_edges rootGroup =
     concat (map (\<lambda>(k, group). concat (map (\<lambda>dependencyId.
       (case group_at rootGroup dependencyId of None \<Rightarrow> []
        | Some dependency \<Rightarrow> List.product (transitiveApps group) (transitiveApps dependency)))
       (gr_dependencies group))) (transitiveGroupsById rootGroup))"

definition dependents :: "('c, 'o) group \<Rightarrow> path_id \<Rightarrow> ('c, 'o) run_spec list" where
  "dependents rootGroup dependencyId =
     (case app_at rootGroup dependencyId of Some a \<Rightarrow> [a]
      | None \<Rightarrow> (case group_at rootGroup dependencyId of Some g \<Rightarrow> transitiveApps g | None \<Rightarrow> []))"

definition app_edges :: "('c, 'o) group \<Rightarrow> ('c, 'o) edges" where
  "app_edges rootGroup =
     concat (map (\<lambda>(k, group). concat (map (\<lambda>(i, app). concat (map (\<lambda>dependencyId.
       map (\<lambda>d. (app, d)) (dependents rootGroup dependencyId)) (rs_dependencies app))) (gr_apps group)))
       (transitiveGroupsById rootGroup))"

definition applicationDependencies :: "('c, 'o) group \<Rightarrow> ('c, 'o) edges" where
  "applicationDependencies rootGroup = rev (group_edges rootGroup @ app_edges rootGroup)"

section \<open>Well-formed trees of groups\<close>

text \<open>Every entry stands under its own id, directly below the id of its group.\<close>

definition below :: "path_id \<Rightarrow> path_id \<Rightarrow> bool" where
  "below i k = (is_absolute k \<and> path_of k \<noteq> [] \<and> path_parent k = i)"

fun wf_group :: "('c, 'o) group \<Rightarrow> bool" where
  "wf_group (Group i apps pods groups deps ver enf) =
     (is_absolute i \<and> (enf \<noteq> None \<longleftrightarrow> isTopLevel i) \<and> distinct (map fst (apps @ pods)) \<and> distinct (map fst groups)
      \<and> list_all (\<lambda>(k, s). k = rs_id s \<and> below i k \<and> rs_kind s = App) apps
      \<and> list_all (\<lambda>(k, s). k = rs_id s \<and> below i k \<and> rs_kind s = Pod) pods
      \<and> list_all (\<lambda>(k, g). k = gr_id g \<and> below i k \<and> wf_group g) groups)"

lemma below_prefix: "is_absolute i \<Longrightarrow> below i k \<Longrightarrow> \<exists>x. path_of k = path_of i @ [x]"
  by (cases k; cases i) (auto simp: below_def butlast_parent intro: append_butlast_last_id [symmetric])

lemma absolute_eq: "is_absolute i \<Longrightarrow> is_absolute k \<Longrightarrow> i = k \<longleftrightarrow> path_of i = path_of k"
  by (cases i; cases k) auto

lemma wf_group_absolute: "wf_group g \<Longrightarrow> is_absolute (gr_id g)"
  by (cases g) simp

lemma transitiveGroups_eq: "transitiveGroups g = gr_groups g @ concat (map (\<lambda>(k, h). transitiveGroups h) (gr_groups g))"
  by (cases g) simp

lemma wf_sub:
  assumes "wf_group g" and "(k, h) \<in> set (gr_groups g)"
  shows "k = gr_id h \<and> below (gr_id g) k \<and> wf_group h"
  using assms by (cases g) (auto simp: list_all_iff)

lemma transitiveGroups_wf:
  "wf_group g \<Longrightarrow> (k, h) \<in> set (transitiveGroups g) \<Longrightarrow>
   k = gr_id h \<and> wf_group h \<and> strict_prefix (path_of (gr_id g)) (path_of k)"
proof (induction g arbitrary: k h)
  case (Group i apps pods groups deps ver enf)
  let ?g = "Group i apps pods groups deps ver enf"
  show ?case
  proof (cases "(k, h) \<in> set groups")
    case True
    then have s: "k = gr_id h" "below i k" "wf_group h" using wf_sub [of ?g k h] Group.prems by auto
    then obtain x where "path_of k = path_of i @ [x]" using below_prefix [of i k] Group.prems by auto
    then show ?thesis using s by (simp add: strict_prefix_def)
  next
    case False
    then obtain k' h' where c: "(k', h') \<in> set groups" "(k, h) \<in> set (transitiveGroups h')"
      using Group.prems(2) by auto
    have s: "k' = gr_id h'" "below i k'" "wf_group h'" using wf_sub [of ?g k' h'] Group.prems c by auto
    then obtain x where "path_of k' = path_of i @ [x]" using below_prefix [of i k'] Group.prems by auto
    then have "strict_prefix (path_of i) (path_of (gr_id h'))" using s(1) by (simp add: strict_prefix_def)
    moreover have "k = gr_id h \<and> wf_group h \<and> strict_prefix (path_of (gr_id h')) (path_of k)"
      by (rule Group.IH [OF c(1) _ s(3) c(2)]) simp
    ultimately show ?thesis using prefix_order.less_trans by (metis group.sel(1))
  qed
qed

text \<open>The child of a group that a path goes through.\<close>

lemma child_of_path:
  assumes "wf_group g" and "(k, h) \<in> set (gr_groups g)" and "(k', h') \<in> set (gr_groups g)"
    and "prefix (path_of k) p" and "prefix (path_of k') p"
  shows "k = k' \<and> h = h'"
proof -
  have b: "below (gr_id g) k" "below (gr_id g) k'" "is_absolute k" "is_absolute k'"
    using wf_sub [OF assms(1)] assms(2,3) by (auto simp: below_def)
  then obtain x y where "path_of k = path_of (gr_id g) @ [x]" "path_of k' = path_of (gr_id g) @ [y]"
    using below_prefix wf_group_absolute [OF assms(1)] by metis
  then have "path_of k = path_of k'" using assms(4,5) by (auto simp: prefix_def)
  then have "k = k'" using b absolute_eq by blast
  moreover have "distinct (map fst (gr_groups g))" using assms(1) by (cases g) simp
  ultimately show ?thesis using assms(2,3) by (meson eq_key_imp_eq_value)
qed

lemma transitiveGroups_unique:
  "wf_group g \<Longrightarrow> (k, h) \<in> set (transitiveGroups g) \<Longrightarrow> (k, h') \<in> set (transitiveGroups g) \<Longrightarrow> h = h'"
proof (induction g arbitrary: k h h')
  case (Group i apps pods groups deps ver enf)
  let ?g = "Group i apps pods groups deps ver enf"
  have through: "\<exists>c d. (c, d) \<in> set groups \<and> prefix (path_of c) (path_of k) \<and> (k = c \<and> h = d \<or> (k, h) \<in> set (transitiveGroups d))"
    if "(k, h) \<in> set (transitiveGroups ?g)" for k h
  proof (cases "(k, h) \<in> set groups")
    case False
    then have "(k, h) \<in> set (concat (map (\<lambda>(k, g). transitiveGroups g) groups))" using that by simp
    then obtain c d where c: "(c, d) \<in> set groups" "(k, h) \<in> set (transitiveGroups d)" by auto
    then have "c = gr_id d" "wf_group d" using wf_sub [of ?g c d] Group.prems(1) by auto
    then have "strict_prefix (path_of c) (path_of k)" using transitiveGroups_wf c(2) by blast
    then show ?thesis using c by (auto intro: prefix_order.less_imp_le)
  qed auto
  obtain c d where c: "(c, d) \<in> set groups" "prefix (path_of c) (path_of k)" "k = c \<and> h = d \<or> (k, h) \<in> set (transitiveGroups d)"
    using through [OF Group.prems(2)] by blast
  obtain c' d' where c': "(c', d') \<in> set groups" "prefix (path_of c') (path_of k)" "k = c' \<and> h' = d' \<or> (k, h') \<in> set (transitiveGroups d')"
    using through [OF Group.prems(3)] by blast
  have same: "c = c'" "d = d'" using child_of_path [of ?g c d c' d'] Group.prems(1) c c' by auto
  have d: "wf_group d" "c = gr_id d" using wf_sub [of ?g c d] Group.prems(1) c(1) by auto
  then have "(c, x) \<notin> set (transitiveGroups d)" for x using transitiveGroups_wf [of d c x] by auto
  then show ?case
    using c(3) c'(3) same Group.IH [OF c(1) _ d(1)] by auto
qed

lemma map_of_updates: "map_of (fold (\<lambda>(k, h) m. AList.update k h m) ys m) = map_of m ++ map_of (rev ys)"
  by (induction ys arbitrary: m) (auto simp: update_conv' map_add_def fun_eq_iff split: option.splits)

lemma group_at_iff:
  assumes "wf_group g"
  shows "group_at g i = Some h \<longleftrightarrow> i = gr_id g \<and> h = g \<or> (i, h) \<in> set (transitiveGroups g)"
proof -
  have u: "map_of (rev (transitiveGroups g)) i = Some h \<longleftrightarrow> (i, h) \<in> set (transitiveGroups g)" for h
  proof
    assume "(i, h) \<in> set (transitiveGroups g)"
    then obtain h' where "map_of (rev (transitiveGroups g)) i = Some h'"
      by (metis image_eqI fst_conv map_of_eq_None_iff not_None_eq set_rev)
    then show "map_of (rev (transitiveGroups g)) i = Some h"
      using transitiveGroups_unique [OF assms \<open>(i, h) \<in> _\<close>] by (metis map_of_SomeD set_rev)
  qed (metis map_of_SomeD set_rev)
  have "(gr_id g, h) \<notin> set (transitiveGroups g)" for h
    using transitiveGroups_wf [OF assms, of "gr_id g" h] by auto
  then show ?thesis
    using u by (auto simp: group_at_def transitiveGroupsById_def map_of_updates map_add_Some_iff map_of_eq_None_iff)
qed

lemma group_at_wf: "wf_group g \<Longrightarrow> group_at g i = Some h \<Longrightarrow> wf_group h \<and> gr_id h = i"
  using group_at_iff transitiveGroups_wf by metis

lemma in_transitiveGroups:
  "(k, h) \<in> set (transitiveGroups g) \<longleftrightarrow>
   (k, h) \<in> set (gr_groups g) \<or> (\<exists>c d. (c, d) \<in> set (gr_groups g) \<and> (k, h) \<in> set (transitiveGroups d))"
  by (subst transitiveGroups_eq) auto

lemma wf_own:
  assumes "wf_group g"
  shows "distinct (map fst (gr_apps g))" and "distinct (map fst (gr_pods g))"
    and "(k, s) \<in> set (gr_apps g) \<Longrightarrow> k = rs_id s \<and> below (gr_id g) k"
    and "(k, s) \<in> set (gr_pods g) \<Longrightarrow> k = rs_id s \<and> below (gr_id g) k"
proof -
  obtain i apps pods groups deps ver enf where g: "g = Group i apps pods groups deps ver enf" by (cases g)
  note wf = assms [unfolded g wf_group.simps list_all_iff]
  show "distinct (map fst (gr_apps g))" "distinct (map fst (gr_pods g))" using wf g by simp_all
  show "k = rs_id s \<and> below (gr_id g) k" if "(k, s) \<in> set (gr_apps g)" using wf that g by force
  show "k = rs_id s \<and> below (gr_id g) k" if "(k, s) \<in> set (gr_pods g)" using wf that g by force
qed

section \<open>Looking up run specs\<close>

text \<open>What \<open>app\<close> and \<open>pod\<close> share: the own entries of a group and those of the whole tree.\<close>

definition spec_at :: "(('c, 'o) group \<Rightarrow> (path_id \<times> ('c, 'o) run_spec) list) \<Rightarrow> ('c, 'o) group \<Rightarrow> path_id \<Rightarrow> ('c, 'o) run_spec option" where
  "spec_at own g i = (case map_of (own g) i of Some a \<Rightarrow> Some a
     | None \<Rightarrow> Option.bind (group_at g (path_parent i)) (\<lambda>h. map_of (own h) i))"

locale spec_collection =
  fixes own :: "('c, 'o) group \<Rightarrow> (path_id \<times> ('c, 'o) run_spec) list"
    and everywhere :: "('c, 'o) group \<Rightarrow> ('c, 'o) run_spec list"
  assumes everywhere_own: "everywhere g = map snd (own g) @ concat (map (\<lambda>(k, h). everywhere h) (gr_groups g))"
    and own_distinct: "wf_group g \<Longrightarrow> distinct (map fst (own g))"
    and own_below: "wf_group g \<Longrightarrow> (k, s) \<in> set (own g) \<Longrightarrow> k = rs_id s \<and> below (gr_id g) k"
begin

lemma everywhere_iff:
  "s \<in> set (everywhere g) \<longleftrightarrow> s \<in> snd ` set (own g) \<or> (\<exists>k h. (k, h) \<in> set (transitiveGroups g) \<and> s \<in> snd ` set (own h))"
proof (induction g)
  case (Group i apps pods groups deps ver enf)
  let ?g = "Group i apps pods groups deps ver enf"
  have ih: "s \<in> set (everywhere d) \<longleftrightarrow> s \<in> snd ` set (own d) \<or> (\<exists>k h. (k, h) \<in> set (transitiveGroups d) \<and> s \<in> snd ` set (own h))"
    if "(c, d) \<in> set groups" for c d
    using Group.IH [OF that] by simp
  have "s \<in> set (everywhere ?g) \<longleftrightarrow> s \<in> snd ` set (own ?g) \<or> (\<exists>c d. (c, d) \<in> set groups \<and> s \<in> set (everywhere d))"
    by (subst everywhere_own) auto
  also have "(\<exists>c d. (c, d) \<in> set groups \<and> s \<in> set (everywhere d))
      \<longleftrightarrow> (\<exists>c d. (c, d) \<in> set groups \<and> (s \<in> snd ` set (own d) \<or> (\<exists>k h. (k, h) \<in> set (transitiveGroups d) \<and> s \<in> snd ` set (own h))))"
    using ih by blast
  also have "\<dots> \<longleftrightarrow> (\<exists>k h. (k, h) \<in> set (transitiveGroups ?g) \<and> s \<in> snd ` set (own h))"
    unfolding in_transitiveGroups [of _ _ ?g] group.sel by blast
  finally show ?case .
qed

lemma own_lookup: "wf_group g \<Longrightarrow> map_of (own g) i = Some s \<longleftrightarrow> s \<in> snd ` set (own g) \<and> rs_id s = i"
  using own_below own_distinct by (force dest: map_of_SomeD)

lemma spec_at_iff:
  assumes "wf_group g"
  shows "spec_at own g i = Some s \<longleftrightarrow> s \<in> set (everywhere g) \<and> rs_id s = i"
proof
  assume "spec_at own g i = Some s"
  then consider "map_of (own g) i = Some s" | h where "group_at g (path_parent i) = Some h" "map_of (own h) i = Some s"
    by (auto simp: spec_at_def split: option.splits Option.bind_splits)
  then show "s \<in> set (everywhere g) \<and> rs_id s = i"
  proof cases
    case 1
    then show ?thesis using own_lookup [OF assms] everywhere_iff by blast
  next
    case (2 h)
    then have "h = g \<or> (path_parent i, h) \<in> set (transitiveGroups g)" "wf_group h"
      using group_at_iff [OF assms] group_at_wf [OF assms] by blast+
    then show ?thesis using own_lookup 2(2) everywhere_iff [of s g] by blast
  qed
next
  assume s: "s \<in> set (everywhere g) \<and> rs_id s = i"
  then consider (Here) "s \<in> snd ` set (own g)" | (There) k h where "(k, h) \<in> set (transitiveGroups g)" "s \<in> snd ` set (own h)"
    using everywhere_iff by blast
  then show "spec_at own g i = Some s"
  proof cases
    case Here
    then have "map_of (own g) i = Some s" using s own_lookup [OF assms, of i s] by blast
    then show ?thesis by (simp add: spec_at_def)
  next
    case (There k h)
    then have h: "k = gr_id h" "wf_group h" "strict_prefix (path_of (gr_id g)) (path_of k)"
      using transitiveGroups_wf [OF assms] by blast+
    then have "path_parent i = gr_id h" using s There(2) own_below [OF h(2)] by (auto simp: below_def)
    moreover have "map_of (own g) i = None"
    proof (rule ccontr)
      assume "map_of (own g) i \<noteq> None"
      then obtain a where "map_of (own g) i = Some a" by blast
      then have "path_parent i = gr_id g" using own_below [OF assms] by (auto dest!: map_of_SomeD simp: below_def)
      then show False using calculation h by simp
    qed
    moreover have "map_of (own h) i = Some s" using There(2) s own_lookup [OF h(2), of i s] by blast
    moreover have "group_at g (gr_id h) = Some h" using There(1) h(1) group_at_iff [OF assms, of "gr_id h" h] by blast
    ultimately show ?thesis by (simp add: spec_at_def)
  qed
qed

lemma everywhere_below: "wf_group g \<Longrightarrow> s \<in> set (everywhere g) \<Longrightarrow> \<exists>h. group_at g (path_parent (rs_id s)) = Some h \<and> (rs_id s, s) \<in> set (own h)"
proof -
  assume wf: "wf_group g" and "s \<in> set (everywhere g)"
  then consider "s \<in> snd ` set (own g)" | k h where "(k, h) \<in> set (transitiveGroups g)" "s \<in> snd ` set (own h)"
    using everywhere_iff by blast
  then show "\<exists>h. group_at g (path_parent (rs_id s)) = Some h \<and> (rs_id s, s) \<in> set (own h)"
  proof cases
    case 1
    then show ?thesis using own_below [OF wf] group_at_iff [OF wf] by (force simp: below_def)
  next
    case (2 k h)
    then have "k = gr_id h" "wf_group h" using transitiveGroups_wf [OF wf] by blast+
    then show ?thesis using 2 own_below [of h] group_at_iff [OF wf] by (force simp: below_def)
  qed
qed

end

interpretation apps: spec_collection gr_apps transitiveApps
proof
  show "transitiveApps g = map snd (gr_apps g) @ concat (map (\<lambda>(k, h). transitiveApps h) (gr_groups g))" for g :: "('c, 'o) group"
    by (cases g) simp
  show "distinct (map fst (gr_apps g))" if "wf_group g" for g :: "('c, 'o) group"
    using that by (rule wf_own)
  show "k = rs_id s \<and> below (gr_id g) k" if "wf_group g" "(k, s) \<in> set (gr_apps g)" for g :: "('c, 'o) group" and k s
    using that by (rule wf_own)
qed

interpretation pods: spec_collection gr_pods transitivePods
proof
  show "transitivePods g = map snd (gr_pods g) @ concat (map (\<lambda>(k, h). transitivePods h) (gr_groups g))" for g :: "('c, 'o) group"
    by (cases g) simp
  show "distinct (map fst (gr_pods g))" if "wf_group g" for g :: "('c, 'o) group"
    using that by (rule wf_own)
  show "k = rs_id s \<and> below (gr_id g) k" if "wf_group g" "(k, s) \<in> set (gr_pods g)" for g :: "('c, 'o) group" and k s
    using that by (rule wf_own)
qed

lemma app_pod_at: "app_at = spec_at gr_apps" "pod_at = spec_at gr_pods"
  by (simp_all add: fun_eq_iff app_at_def pod_at_def spec_at_def)

lemma runSpec_iff:
  assumes "wf_group g"
  shows "runSpec g i = Some s \<longleftrightarrow> s \<in> set (transitiveRunSpecs g) \<and> rs_id s = i"
proof -
  have disjoint: "\<not> (a \<in> set (transitiveApps g) \<and> p \<in> set (transitivePods g) \<and> rs_id a = rs_id p)" for a p
  proof
    assume a: "a \<in> set (transitiveApps g) \<and> p \<in> set (transitivePods g) \<and> rs_id a = rs_id p"
    then obtain h where h: "group_at g (path_parent (rs_id a)) = Some h" "(rs_id a, a) \<in> set (gr_apps h)" "(rs_id p, p) \<in> set (gr_pods h)"
      using apps.everywhere_below [OF assms] pods.everywhere_below [OF assms] by (metis option.sel)
    then have "wf_group h" using group_at_wf [OF assms] by blast
    then show False using a h(2,3) by (cases h) force
  qed
  note at = apps.spec_at_iff [OF assms, of i] pods.spec_at_iff [OF assms, of i]
  show ?thesis
  proof (cases "spec_at gr_apps g i")
    case None
    then have "runSpec g i = spec_at gr_pods g i" by (simp add: runSpec_def app_pod_at)
    moreover have "\<not> (s \<in> set (transitiveApps g) \<and> rs_id s = i)" using at(1) [of s] None by simp
    ultimately show ?thesis using at(2) [of s] by (auto simp: transitiveRunSpecs_def)
  next
    case (Some a)
    then have "runSpec g i = Some a" by (simp add: runSpec_def app_pod_at)
    moreover have "a \<in> set (transitiveApps g)" "rs_id a = i" using at(1) [of a] Some by simp_all
    moreover have "s = a" if "s \<in> set (transitiveApps g)" "rs_id s = i" using at(1) [of s] Some that by simp
    ultimately show ?thesis using disjoint [of a s] by (auto simp: transitiveRunSpecs_def)
  qed
qed

lemma group_exists_iff: "wf_group g \<Longrightarrow> group_exists g i \<longleftrightarrow> i \<in> rs_id ` set (transitiveRunSpecs g)"
  using runSpec_iff by (fastforce simp: group_exists_def)

lemma in_concat_mapI: "x \<in> set xs \<Longrightarrow> y \<in> set (f x) \<Longrightarrow> y \<in> set (concat (map f xs))"
  by auto

text \<open>What a dependency of an app names is reached by an edge.\<close>

lemma app_dependency_edge:
  assumes "wf_group g" and "a \<in> set (transitiveApps g)" and "d \<in> set (rs_dependencies a)"
    and "app_at g d = Some b \<or> app_at g d = None \<and> (\<exists>h. group_at g d = Some h \<and> b \<in> set (transitiveApps h))"
  shows "(a, b) \<in> set (applicationDependencies g)"
proof -
  obtain h where h: "group_at g (path_parent (rs_id a)) = Some h" "(rs_id a, a) \<in> set (gr_apps h)"
    using apps.everywhere_below [OF assms(1,2)] by blast
  have p: "(path_parent (rs_id a), h) \<in> set (transitiveGroupsById g)" using h(1) unfolding group_at_def by (rule map_of_SomeD)
  have "b \<in> set (dependents g d)" using assms(4) by (auto simp: dependents_def)
  then have "\<exists>d\<in>set (rs_dependencies a). (a, b) \<in> set (map (\<lambda>x. (a, x)) (dependents g d))" using assms(3) by auto
  then have e: "(a, b) \<in> set (concat (map (\<lambda>d. map (\<lambda>x. (a, x)) (dependents g d)) (rs_dependencies a)))"
    by simp
  have "(a, b) \<in> set (app_edges g)"
    unfolding app_edges_def
    by (rule in_concat_mapI [OF p], unfold prod.case, rule in_concat_mapI [OF h(2)], unfold prod.case, rule e)
  then show ?thesis by (simp add: applicationDependencies_def)
qed

end
