(* ===== verification/Deployment.thy ===== *)
theory Deployment
  imports GroupTree
begin

text \<open>
  How Marathon gets from one tree of groups to another: the deployment plan with its steps
  (\<open>core/deployment/DeploymentPlan.scala\<close>). What an action does to the running instances when it
  completes is a specification here; the actors that bring it about are not modelled.
\<close>

section \<open>The deployment plan\<close>

text \<open>\<open>maxBy\<close>: the first of the longest.\<close>

definition max_by_length :: "'a list list \<Rightarrow> 'a list" where
  "max_by_length ps = foldl (\<lambda>m p. if length m < length p then p else m) (hd ps) (tl ps)"

definition targets :: "('a \<times> 'a) list \<Rightarrow> 'a \<Rightarrow> 'a list" where
  "targets es v = remdups (map snd (filter (\<lambda>e. fst e = v) es))"

fun all_some :: "'a option list \<Rightarrow> 'a list option" where
  "all_some [] = Some []"
| "all_some (x # xs) = (case x of None \<Rightarrow> None | Some y \<Rightarrow> map_option (Cons y) (all_some xs))"

text \<open>The recursion of the source does not end on a cycle; \<open>None\<close> is that the fuel ran out.\<close>

fun longestPathFromVertex :: "nat \<Rightarrow> ('a \<times> 'a) list \<Rightarrow> 'a \<Rightarrow> 'a list option" where
  "longestPathFromVertex 0 es v = None"
| "longestPathFromVertex (Suc n) es v =
     (if targets es v = [] then Some [v]
      else map_option (\<lambda>ps. max_by_length (map (Cons v) ps)) (all_some (map (longestPathFromVertex n es) (targets es v))))"

definition longest_path :: "('a \<times> 'a) list \<Rightarrow> 'a \<Rightarrow> 'a list option" where
  "longest_path es v = longestPathFromVertex (Suc (length es)) es v"

definition group_by :: "('a \<Rightarrow> nat) \<Rightarrow> 'a list \<Rightarrow> (nat \<times> 'a list) list" where
  "group_by f xs = map (\<lambda>k. (k, filter (\<lambda>x. f x = k) xs)) (sort (remdups (map f xs)))"

definition runSpecsGroupedByLongestPath :: "path_id list \<Rightarrow> ('c, 'o) group \<Rightarrow> (nat \<times> ('c, 'o) run_spec list) list option" where
  "runSpecsGroupedByLongestPath affected rootGroup =
     (let specs = filter (\<lambda>s. rs_id s \<in> set affected) (transitiveRunSpecs rootGroup);
          es = applicationDependencies rootGroup
      in if \<forall>s\<in>set specs. longest_path es s \<noteq> None
         then Some (group_by (\<lambda>s. length (the (longest_path es s))) specs) else None)"

datatype ('c, 'o, 'i) action =
    StartApplication "('c, 'o) run_spec"
  | ScaleApplication "('c, 'o) run_spec" int "'i list"
  | StopApplication "('c, 'o) run_spec"
  | RestartApplication "('c, 'o) run_spec"

text \<open>The action for one spec of the target.\<close>

definition spec_action :: "('c, 'o) group \<Rightarrow> (path_id \<Rightarrow> 'i list) \<Rightarrow> ('c, 'o) run_spec \<Rightarrow> state_error + ('c, 'o, 'i) action list" where
  "spec_action original toKill newSpec =
     (case runSpec original (rs_id newSpec) of
        None \<Rightarrow> Inr [ScaleApplication newSpec (rs_instances newSpec) []]
      | Some oldSpec \<Rightarrow>
          rbind (isOnlyScaleChange oldSpec newSpec) (\<lambda>scale.
            if scale \<or> isScaledToZero newSpec
            then Inr [ScaleApplication newSpec (rs_instances newSpec) (toKill (rs_id newSpec))]
            else rbind (needsRestart oldSpec newSpec) (\<lambda>restart.
              Inr (if restart then [RestartApplication newSpec] else []))))"

text \<open>The steps for the classes in turn; \<open>None\<close> is a dependency cycle, \<open>Inl\<close> an exception.\<close>

definition dependencyOrderedSteps :: "('c, 'o) group \<Rightarrow> ('c, 'o) group \<Rightarrow> path_id list \<Rightarrow> (path_id \<Rightarrow> 'i list)
    \<Rightarrow> (state_error + ('c, 'o, 'i) action list list) option" where
  "dependencyOrderedSteps original target affected toKill =
     map_option (\<lambda>classes. mapR (\<lambda>(k, specs). rbind (mapR (spec_action original toKill) specs) (\<lambda>as. Inr (concat as))) classes)
       (runSpecsGroupedByLongestPath affected target)"

definition stop_step :: "('c, 'o) group \<Rightarrow> ('c, 'o) group \<Rightarrow> ('c, 'o, 'i) action list" where
  "stop_step original target =
     map StopApplication (filter (\<lambda>oldRun. \<not> group_exists target (rs_id oldRun)) (transitiveRunSpecs original))"

definition start_step :: "('c, 'o) group \<Rightarrow> ('c, 'o) group \<Rightarrow> ('c, 'o, 'i) action list" where
  "start_step original target =
     map StartApplication (filter (\<lambda>run. \<not> group_exists original (rs_id run)) (transitiveRunSpecs target))"

definition affectedApplications :: "('c, 'o) group \<Rightarrow> ('c, 'o) group \<Rightarrow> path_id list" where
  "affectedApplications original target =
     map rs_id (filter (\<lambda>spec. runSpec original (rs_id spec) \<noteq> Some spec) (transitiveRunSpecs target))
     @ filter (\<lambda>i. \<not> group_exists target i) (transitiveRunSpecIds original)"

text \<open>\<open>DeploymentPlan.apply\<close>: the steps of the plan.\<close>

definition deployment_plan :: "('c, 'o) group \<Rightarrow> ('c, 'o) group \<Rightarrow> (path_id \<Rightarrow> 'i list)
    \<Rightarrow> (state_error + ('c, 'o, 'i) action list list) option" where
  "deployment_plan original target toKill =
     map_option (\<lambda>r. rbind r (\<lambda>steps.
       Inr (filter (\<lambda>as. as \<noteq> []) (stop_step original target # start_step original target # steps))))
       (dependencyOrderedSteps original target (affectedApplications original target) toKill)"

section \<open>The effect of a plan\<close>

text \<open>
  The specification of the actions, for the running instances of each run spec by the configuration they
  were launched with: a completed scaling keeps instances up to the number asked for and launches what
  is missing, a restart replaces all of them, a stop leaves none, a start launches none.
\<close>

type_synonym 'c running = "path_id \<Rightarrow> 'c list"

definition scale_effect :: "('c, 'o) run_spec \<Rightarrow> int \<Rightarrow> 'c running \<Rightarrow> 'c running" where
  "scale_effect s scaleTo run =
     run (rs_id s := take (nat scaleTo) (run (rs_id s)) @ replicate (nat scaleTo - length (run (rs_id s))) (rs_config s))"

definition restart_effect :: "('c, 'o) run_spec \<Rightarrow> 'c running \<Rightarrow> 'c running" where
  "restart_effect s run =
     (if rs_instances s = 0 then run else run (rs_id s := replicate (nat (rs_instances s)) (rs_config s)))"

definition stop_effect :: "('c, 'o) run_spec \<Rightarrow> 'c running \<Rightarrow> 'c running" where
  "stop_effect s run = run (rs_id s := [])"

fun action_effect :: "('c, 'o, 'i) action \<Rightarrow> 'c running \<Rightarrow> 'c running" where
  "action_effect (StartApplication s) run = run"
| "action_effect (ScaleApplication s scaleTo toKill) run = scale_effect s scaleTo run"
| "action_effect (StopApplication s) run = stop_effect s run"
| "action_effect (RestartApplication s) run = restart_effect s run"

definition plan_effect :: "('c, 'o, 'i) action list list \<Rightarrow> 'c running \<Rightarrow> 'c running" where
  "plan_effect steps run = fold (\<lambda>as. fold action_effect as) steps run"


section \<open>Longest paths\<close>

lemma all_some_eq: "all_some xs = Some ys \<longleftrightarrow> xs = map Some ys"
  by (induction xs arbitrary: ys) (auto split: option.splits simp: Cons_eq_map_conv)

lemma all_some_None: "all_some xs = None \<longleftrightarrow> None \<in> set xs"
  by (induction xs) (auto split: option.splits)

lemma targets_iff: "w \<in> set (targets es v) \<longleftrightarrow> (v, w) \<in> set es"
  by (force simp: targets_def)

lemma max_by_length:
  assumes "ps \<noteq> []"
  shows "max_by_length ps \<in> set ps \<and> (\<forall>p\<in>set ps. length p \<le> length (max_by_length ps))"
proof -
  have "foldl (\<lambda>m p. if length m < length p then p else m) m qs \<in> set (m # qs)
      \<and> (\<forall>p\<in>set (m # qs). length p \<le> length (foldl (\<lambda>m p. if length m < length p then p else m) m qs))" for m qs
    by (induction qs arbitrary: m) force+
  from this [of "hd ps" "tl ps"] show ?thesis using assms by (simp add: max_by_length_def)
qed

lemma longestPath_step:
  "longestPathFromVertex (Suc n) es v = Some p \<longleftrightarrow>
     (if targets es v = [] then p = [v]
      else \<exists>qs. map (longestPathFromVertex n es) (targets es v) = map Some qs \<and> p = max_by_length (map (Cons v) qs))"
  by (auto simp: all_some_eq)

lemma longestPath_more: "longestPathFromVertex n es v = Some p \<Longrightarrow> longestPathFromVertex (Suc n) es v = Some p"
proof (induction n arbitrary: v p)
  case (Suc n)
  show ?case
  proof (cases "targets es v = []")
    case False
    then obtain qs where qs: "map (longestPathFromVertex n es) (targets es v) = map Some qs" and p: "p = max_by_length (map (Cons v) qs)"
      using Suc.prems longestPath_step by metis
    have "map (longestPathFromVertex (Suc n) es) (targets es v) = map Some qs"
    proof (rule nth_equalityI)
      fix i assume i: "i < length (map (longestPathFromVertex (Suc n) es) (targets es v))"
      have "length (targets es v) = length qs" using qs by (metis length_map)
      moreover from this have "longestPathFromVertex n es (targets es v ! i) = Some (qs ! i)"
        using i qs by (metis length_map nth_map)
      ultimately show "map (longestPathFromVertex (Suc n) es) (targets es v) ! i = map Some qs ! i"
        using i Suc.IH by simp
    qed (metis qs length_map)
    then show ?thesis using False p longestPath_step by metis
  qed (use Suc.prems in simp)
qed simp

lemma longestPath_target:
  assumes "longestPathFromVertex (Suc n) es v = Some p" and "(v, w) \<in> set es"
  shows "\<exists>q. longestPathFromVertex n es w = Some q \<and> Suc (length q) \<le> length p"
proof -
  have w: "w \<in> set (targets es v)" using assms(2) by (simp add: targets_iff)
  then obtain qs where qs: "map (longestPathFromVertex n es) (targets es v) = map Some qs" and p: "p = max_by_length (map (Cons v) qs)"
    using assms(1) by (auto simp: all_some_eq split: if_splits)
  from w obtain q where q: "q \<in> set qs" "longestPathFromVertex n es w = Some q"
    using qs by (metis (no_types, lifting) image_iff list.set_map)
  then have "v # q \<in> set (map (Cons v) qs)" by simp
  then show ?thesis using q(2) p max_by_length [of "map (Cons v) qs"] by fastforce
qed

text \<open>A path along the edges.\<close>

definition is_path :: "('a \<times> 'a) list \<Rightarrow> 'a list \<Rightarrow> bool" where
  "is_path es p = (p \<noteq> [] \<and> successively (\<lambda>a b. (a, b) \<in> set es) p)"

lemma longestPath_path: "longestPathFromVertex n es v = Some p \<Longrightarrow> is_path es p \<and> hd p = v"
proof (induction n arbitrary: v p)
  case (Suc n)
  show ?case
  proof (cases "targets es v = []")
    case True
    then show ?thesis using Suc.prems by (auto simp: is_path_def)
  next
    case False
    then obtain qs where qs: "map (longestPathFromVertex n es) (targets es v) = map Some qs" and p: "p = max_by_length (map (Cons v) qs)"
      using Suc.prems longestPath_step by metis
    then have "qs \<noteq> []" using False by auto
    then obtain q where q: "q \<in> set qs" "p = v # q" using p max_by_length [of "map (Cons v) qs"] by auto
    then obtain w where "w \<in> set (targets es v)" "longestPathFromVertex n es w = Some q"
      using qs by (metis (no_types, lifting) image_iff list.set_map)
    then show ?thesis
      using Suc.IH [of w q] q(2) by (cases q) (auto simp: is_path_def targets_iff)
  qed
qed simp

lemma longestPath_longest:
  assumes "is_path es q" and "hd q = v" and "longestPathFromVertex n es v = Some p"
  shows "length q \<le> length p"
  using assms
proof (induction q arbitrary: v n p)
  case (Cons x q)
  then have x: "x = v" by simp
  obtain m where n: "n = Suc m" using Cons.prems(3) by (cases n) auto
  have "p \<noteq> []" using longestPath_path [OF Cons.prems(3)] by (simp add: is_path_def)
  show ?case
  proof (cases q)
    case (Cons w q')
    then have "(v, w) \<in> set es" "is_path es q" using Cons.prems(1) x by (auto simp: is_path_def)
    then obtain r where "longestPathFromVertex m es w = Some r" "Suc (length r) \<le> length p"
      using longestPath_target Cons.prems(3) n by metis
    then show ?thesis using Cons.IH [of w m r] \<open>is_path es q\<close> Cons by simp
  qed (use \<open>p \<noteq> []\<close> in \<open>simp add: Suc_le_eq\<close>)
qed (simp add: is_path_def)

lemma longestPath_none: "longestPathFromVertex n es v = None \<Longrightarrow> \<exists>p. is_path es p \<and> hd p = v \<and> length p = Suc n"
proof (induction n arbitrary: v)
  case 0
  then show ?case by (intro exI [of _ "[v]"]) (simp add: is_path_def)
next
  case (Suc n)
  then have "None \<in> set (map (longestPathFromVertex n es) (targets es v))" by (auto simp: all_some_None split: if_splits)
  then obtain w where "(v, w) \<in> set es" "longestPathFromVertex n es w = None" by (auto simp: targets_iff)
  then obtain p where "is_path es p" "hd p = w" "length p = Suc n" using Suc.IH by blast
  then show ?case using \<open>(v, w) \<in> set es\<close> by (intro exI [of _ "v # p"]) (cases p; auto simp: is_path_def)
qed

lemma successively_sources: "successively (\<lambda>a b. (a, b) \<in> r) p \<Longrightarrow> set (butlast p) \<subseteq> fst ` r"
proof (induction p rule: induct_list012)
  case (3 x y zs)
  then have "x \<in> fst ` r" by (metis fst_conv image_eqI successively.simps(3))
  then show ?case using 3 by simp
qed simp_all

lemma path_length_acyclic:
  assumes "acyclic (set es)" and "is_path es p"
  shows "length p \<le> Suc (length es)"
proof -
  have "successively (\<lambda>a b. (a, b) \<in> (set es)\<^sup>+) p"
    using assms(2) unfolding is_path_def by (auto elim: successively_mono)
  then have sorted: "sorted_wrt (\<lambda>a b. (a, b) \<in> (set es)\<^sup>+) p"
    by (rule iffD1 [OF successively_iff_sorted_wrt_strong, rotated]) (auto intro: trancl_trans)
  have "distinct xs" if "sorted_wrt (\<lambda>a b. (a, b) \<in> (set es)\<^sup>+) xs" for xs
    using that assms(1) by (induction xs) (auto simp: acyclic_def)
  then have "distinct (butlast p)" using sorted distinct_butlast by blast
  moreover have "set (butlast p) \<subseteq> fst ` set es"
    using assms(2) successively_sources unfolding is_path_def by blast
  ultimately have "length (butlast p) \<le> card (fst ` set es)" by (metis List.finite_set card_mono distinct_card finite_imageI)
  also have "\<dots> \<le> card (set es)" by (rule card_image_le) simp
  also have "\<dots> \<le> length es" by (rule card_length)
  finally show ?thesis by simp
qed

lemma longestPath_cycle: "(v, v) \<in> (set es)\<^sup>+ \<Longrightarrow> longestPathFromVertex n es v = None"
proof (induction n arbitrary: v)
  case (Suc n)
  then obtain w where w: "(v, w) \<in> set es" "(w, v) \<in> (set es)\<^sup>*" by (metis tranclD)
  then have "(w, w) \<in> (set es)\<^sup>+" by (meson rtrancl_into_trancl1)
  then have "longestPathFromVertex n es w = None" using Suc.IH by blast
  then show ?case using longestPath_target [OF _ w(1), of n] by (cases "longestPathFromVertex (Suc n) es v") fastforce+
qed simp

lemma longest_path_total: "(\<forall>v. longest_path es v \<noteq> None) \<longleftrightarrow> acyclic (set es)"
proof
  assume a: "acyclic (set es)"
  show "\<forall>v. longest_path es v \<noteq> None"
  proof
    fix v show "longest_path es v \<noteq> None"
      using longestPath_none [of "Suc (length es)" es v] path_length_acyclic [OF a] unfolding longest_path_def by fastforce
  qed
next
  assume "\<forall>v. longest_path es v \<noteq> None"
  then show "acyclic (set es)" using longestPath_cycle unfolding longest_path_def acyclic_def by metis
qed

lemma acyclic_if_paths:
  assumes "list_all (\<lambda>(a, b). longest_path es a \<noteq> None) es"
  shows "acyclic (set es)"
proof (rule acyclicI, rule allI, rule notI)
  fix v assume c: "(v, v) \<in> (set es)\<^sup>+"
  then obtain w where "(v, w) \<in> set es" by (meson tranclD)
  then have "longest_path es v \<noteq> None" using assms by (auto simp: list_all_iff)
  then show False using longestPath_cycle [OF c] by (simp add: longest_path_def)
qed

text \<open>
  C38. The recursion for the longest path from a run spec ends from every run spec exactly if the
  dependencies have no cycle, with the number of dependencies as the bound of its depth; its result is
  a path of dependencies from there, and no path from there is longer.
\<close>

theorem longest_path_correct:
  "((\<forall>v. longest_path es v \<noteq> None) \<longleftrightarrow> acyclic (set es))
   \<and> (longest_path es v = Some p \<longrightarrow> is_path es p \<and> hd p = v \<and> (\<forall>q. is_path es q \<and> hd q = v \<longrightarrow> length q \<le> length p))"
proof -
  have "is_path es p \<and> hd p = v \<and> (\<forall>q. is_path es q \<and> hd q = v \<longrightarrow> length q \<le> length p)" if "longest_path es v = Some p"
    using that longestPath_path [of _ es v p] longestPath_longest [of es _ v _ p] unfolding longest_path_def by metis
  then show ?thesis using longest_path_total [of es] by blast
qed


theorem longest_path_correct_witness:
  "longest_path [(1, 2), (2, 3), (1, 3)] 1 = Some [1, 2, 3 :: nat] \<and> is_path [(1, 2), (2, 3), (1, 3)] [1, 2, 3 :: nat]"
proof -
  have "longest_path [(1, 2), (2, 3), (1, 3)] 1 = Some [1, 2, 3 :: nat]" by code_simp
  then show ?thesis using longest_path_correct [of "[(1, 2), (2, 3), (1, 3)]" 1 "[1, 2, 3 :: nat]"] by blast
qed

section \<open>The steps of a plan\<close>

fun action_spec :: "('c, 'o, 'i) action \<Rightarrow> ('c, 'o) run_spec" where
  "action_spec (StartApplication s) = s"
| "action_spec (ScaleApplication s n toKill) = s"
| "action_spec (StopApplication s) = s"
| "action_spec (RestartApplication s) = s"

text \<open>Scaling and restarting bring up instances of the new spec.\<close>

fun brings_up :: "('c, 'o, 'i) action \<Rightarrow> bool" where
  "brings_up (ScaleApplication s n toKill) = True"
| "brings_up (RestartApplication s) = True"
| "brings_up a = False"

lemma mapR_list_all2: "mapR f xs = Inr ys \<longleftrightarrow> list_all2 (\<lambda>x y. f x = Inr y) xs ys"
proof (induction xs arbitrary: ys)
  case (Cons x xs)
  show ?case using Cons [of "tl ys"] by (cases "f x"; cases "mapR f xs"; cases ys) auto
qed auto

lemma mapR_all_Inr: "\<forall>x\<in>set xs. \<not> isl (f x) \<Longrightarrow> \<not> isl (mapR f xs)"
proof (induction xs)
  case (Cons x xs)
  then show ?case by (cases "f x"; cases "mapR f xs") simp_all
qed simp

lemma group_by_iff: "(k, ys) \<in> set (group_by f xs) \<longleftrightarrow> k \<in> f ` set xs \<and> ys = filter (\<lambda>x. f x = k) xs"
  by (auto simp: group_by_def)

lemma group_by_sorted: "sorted (map fst (group_by f xs))"
  by (simp add: group_by_def comp_def)

lemma spec_action_specs:
  "spec_action original toKill s = Inr as \<Longrightarrow> a \<in> set as \<Longrightarrow> action_spec a = s \<and> brings_up a"
  unfolding spec_action_def by (cases "runSpec original (rs_id s)") (auto simp: rbind_eq_Inr split: if_splits)

text \<open>The steps and the classes they come from.\<close>

lemma dependencyOrderedSteps_classes:
  assumes "dependencyOrderedSteps original target affected toKill = Some (Inr steps)"
  obtains f where "list_all2 (\<lambda>(k, specs) as. rbind (mapR (spec_action original toKill) specs) (\<lambda>as. Inr (concat as)) = Inr as)
      (group_by f (filter (\<lambda>s. rs_id s \<in> set affected) (transitiveRunSpecs target))) steps"
    and "\<And>s. s \<in> set (transitiveRunSpecs target) \<Longrightarrow> rs_id s \<in> set affected \<Longrightarrow>
      \<exists>p. longest_path (applicationDependencies target) s = Some p \<and> f s = length p"
proof -
  let ?f = "\<lambda>s. length (the (longest_path (applicationDependencies target) s))"
    and ?specs = "filter (\<lambda>s. rs_id s \<in> set affected) (transitiveRunSpecs target)"
  obtain classes where c: "runSpecsGroupedByLongestPath affected target = Some classes"
    and m: "mapR (\<lambda>(k, specs). rbind (mapR (spec_action original toKill) specs) (\<lambda>as. Inr (concat as))) classes = Inr steps"
    using assms by (auto simp: dependencyOrderedSteps_def)
  have all: "\<forall>s\<in>set ?specs. longest_path (applicationDependencies target) s \<noteq> None" and classes: "classes = group_by ?f ?specs"
    using c by (auto simp: runSpecsGroupedByLongestPath_def Let_def split: if_splits)
  show thesis
  proof (rule that [of ?f])
    show "list_all2 (\<lambda>(k, specs) as. rbind (mapR (spec_action original toKill) specs) (\<lambda>as. Inr (concat as)) = Inr as) (group_by ?f ?specs) steps"
      using m unfolding classes mapR_list_all2 by (rule list_all2_mono) auto
    show "\<exists>p. longest_path (applicationDependencies target) s = Some p \<and> ?f s = length p"
      if "s \<in> set (transitiveRunSpecs target)" "rs_id s \<in> set affected" for s
      using all that by fastforce
  qed
qed

lemma step_action:
  assumes "rbind (mapR (spec_action original toKill) specs) (\<lambda>as. Inr (concat as)) = Inr as" and "a \<in> set as"
  shows "\<exists>s bs. s \<in> set specs \<and> spec_action original toKill s = Inr bs \<and> a \<in> set bs"
proof -
  obtain bss where "mapR (spec_action original toKill) specs = Inr bss" "as = concat bss" using assms(1) by (auto simp: rbind_eq_Inr)
  then show ?thesis using assms(2) mapR_result by fastforce
qed

lemma longest_path_edge:
  assumes "(a, b) \<in> set es" and "longest_path es a = Some p" and "longest_path es b = Some q"
  shows "length q < length p"
proof -
  obtain r where "longestPathFromVertex (length es) es b = Some r" "Suc (length r) \<le> length p"
    using longestPath_target assms(1,2) unfolding longest_path_def by metis
  moreover from this(1) have "longest_path es b = Some r" unfolding longest_path_def by (rule longestPath_more)
  ultimately show ?thesis using assms(3) by simp
qed

text \<open>No action of the first step is for a spec that depends on one of the second.\<close>

definition may_precede :: "('c, 'o) edges \<Rightarrow> ('c, 'o, 'i) action list \<Rightarrow> ('c, 'o, 'i) action list \<Rightarrow> bool" where
  "may_precede es as bs =
     (\<forall>a\<in>set as. \<forall>b\<in>set bs. brings_up a \<and> brings_up b \<longrightarrow> (action_spec a, action_spec b) \<notin> set es)"

lemma dependencyOrderedSteps_order:
  assumes "dependencyOrderedSteps original target affected toKill = Some (Inr steps)"
    and "i \<le> j" and "j < length steps"
  shows "may_precede (applicationDependencies target) (steps ! i) (steps ! j)"
proof -
  let ?es = "applicationDependencies target" and ?specs = "filter (\<lambda>s. rs_id s \<in> set affected) (transitiveRunSpecs target)"
  obtain f where l: "list_all2 (\<lambda>(k, specs) as. rbind (mapR (spec_action original toKill) specs) (\<lambda>as. Inr (concat as)) = Inr as)
      (group_by f ?specs) steps"
    and f: "\<And>s. s \<in> set (transitiveRunSpecs target) \<Longrightarrow> rs_id s \<in> set affected \<Longrightarrow> \<exists>p. longest_path ?es s = Some p \<and> f s = length p"
    using dependencyOrderedSteps_classes [OF assms(1)] by blast
  have len: "length (group_by f ?specs) = length steps" using l by (rule list_all2_lengthD)
  have class_of: "\<exists>p. longest_path ?es (action_spec a) = Some p \<and> length p = fst (group_by f ?specs ! n)"
    if n: "n < length steps" "a \<in> set (steps ! n)" for n a
  proof -
    obtain k specs where ks: "group_by f ?specs ! n = (k, specs)" by (cases "group_by f ?specs ! n")
    then have "(k, specs) \<in> set (group_by f ?specs)" using n(1) len by (metis nth_mem)
    then have specs: "specs = filter (\<lambda>s. f s = k) ?specs" by (simp add: group_by_iff)
    have "rbind (mapR (spec_action original toKill) specs) (\<lambda>as. Inr (concat as)) = Inr (steps ! n)"
      using list_all2_nthD2 [OF l n(1)] ks by simp
    then obtain s bs where "s \<in> set specs" "action_spec a = s"
      using step_action [OF _ n(2)] spec_action_specs by metis
    then show ?thesis using f [of s] specs ks by auto
  qed
  show ?thesis
    unfolding may_precede_def
  proof (intro ballI impI notI)
    fix a b assume a: "a \<in> set (steps ! i)" and b: "b \<in> set (steps ! j)" and e: "(action_spec a, action_spec b) \<in> set ?es"
    obtain p q where p: "longest_path ?es (action_spec a) = Some p" "length p = fst (group_by f ?specs ! i)"
      and q: "longest_path ?es (action_spec b) = Some q" "length q = fst (group_by f ?specs ! j)"
      using class_of a b assms(2,3) by (meson le_less_trans)
    have "fst (group_by f ?specs ! i) \<le> fst (group_by f ?specs ! j)"
      using group_by_sorted [of f ?specs] assms(2,3) len by (simp add: sorted_iff_nth_mono)
    then show False using longest_path_edge [OF e p(1) q(1)] p(2) q(2) by simp
  qed
qed

text \<open>
  C7. In a deployment plan the actions that bring up instances of a run spec come in a later step than
  those of everything it depends on: no step, and no earlier one than the step of its dependencies,
  brings it up.
\<close>

theorem dependencies_first:
  assumes "deployment_plan original target toKill = Some (Inr steps)"
  shows "sorted_wrt (may_precede (applicationDependencies target)) steps
    \<and> (\<forall>step\<in>set steps. may_precede (applicationDependencies target) step step)"
proof -
  let ?es = "applicationDependencies target"
  obtain ds where d: "dependencyOrderedSteps original target (affectedApplications original target) toKill = Some (Inr ds)"
    and steps: "steps = filter (\<lambda>as. as \<noteq> []) (stop_step original target # start_step original target # ds)"
    using assms by (auto simp: deployment_plan_def rbind_eq_Inr)
  note order = dependencyOrderedSteps_order [OF d]
  have "sorted_wrt (may_precede ?es) ds" using order by (simp add: sorted_wrt_iff_nth_less)
  moreover have "may_precede ?es step step" if "step \<in> set ds" for step
    using that order by (metis in_set_conv_nth order_refl)
  moreover have "may_precede ?es (stop_step original target) bs \<and> may_precede ?es (start_step original target) bs" for bs :: "('a, 'b, 'c) action list"
    by (auto simp: may_precede_def stop_step_def start_step_def)
  ultimately have "sorted_wrt (may_precede ?es) (stop_step original target # start_step original target # ds)"
    and "\<forall>step\<in>set (stop_step original target # start_step original target # ds). may_precede ?es step step" by auto
  then show ?thesis unfolding steps by (auto intro: sorted_wrt_filter simp del: filter.simps)
qed

definition sample_app :: "string \<Rightarrow> int \<Rightarrow> string \<Rightarrow> string list \<Rightarrow> path_id \<times> (string, unit) run_spec" where
  "sample_app name' n cfg deps = (let i = AbsolutePathId [''prod'', name'] in (i,
     \<lparr>rs_kind = App, rs_id = i, rs_instances = n, rs_dependencies = map (\<lambda>d. AbsolutePathId [''prod'', d]) deps,
      rs_versionInfo = NoVersion, rs_config = cfg, rs_other = ()\<rparr>))"

definition sample_tree :: "(path_id \<times> (string, unit) run_spec) list \<Rightarrow> (string, unit) group" where
  "sample_tree apps = Group path_root [] []
     [(AbsolutePathId [''prod''], Group (AbsolutePathId [''prod'']) apps [] [] [] 0 (Some False))] [] 0 None"

definition sample_before :: "(string, unit) group" where
  "sample_before = sample_tree [sample_app ''db'' 1 ''v1'' [], sample_app ''web'' 2 ''v1'' [''db''], sample_app ''old'' 1 ''v1'' []]"

definition sample_after :: "(string, unit) group" where
  "sample_after = sample_tree [sample_app ''web'' 3 ''v1'' [''db'', ''cache''], sample_app ''cache'' 1 ''v1'' [''db''], sample_app ''db'' 1 ''v2'' []]"

definition sample_plan :: "(string, unit, nat) action list list" where
  "sample_plan = [[StopApplication (snd (sample_app ''old'' 1 ''v1'' []))],
     [StartApplication (snd (sample_app ''cache'' 1 ''v1'' [''db'']))],
     [RestartApplication (snd (sample_app ''db'' 1 ''v2'' []))],
     [ScaleApplication (snd (sample_app ''cache'' 1 ''v1'' [''db''])) 1 []],
     [RestartApplication (snd (sample_app ''web'' 3 ''v1'' [''db'', ''cache'']))]]"

theorem dependencies_first_witness:
  "deployment_plan sample_before sample_after (\<lambda>i. []) = Some (Inr sample_plan)
    \<and> sorted_wrt (may_precede (applicationDependencies sample_after)) sample_plan"
proof -
  have p: "deployment_plan sample_before sample_after (\<lambda>i. []) = Some (Inr sample_plan)" by code_simp
  show ?thesis using p dependencies_first [OF p] by blast
qed

section \<open>A plan reaches its target\<close>

text \<open>What the instances of a group are when it is deployed.\<close>

definition deployed :: "('c, 'o) group \<Rightarrow> 'c running" where
  "deployed g i = (case runSpec g i of Some s \<Rightarrow> replicate (nat (rs_instances s)) (rs_config s) | None \<Rightarrow> [])"

fun acts_on :: "path_id \<Rightarrow> ('c, 'o, 'i) action \<Rightarrow> bool" where
  "acts_on i (StartApplication s) = False"
| "acts_on i a = (rs_id (action_spec a) = i)"

lemma perform_other: "\<not> acts_on i a \<Longrightarrow> action_effect a run i = run i"
  by (cases a) (auto simp: scale_effect_def restart_effect_def stop_effect_def)

lemma perform_same:
  assumes "\<And>a r. a \<in> set as \<Longrightarrow> acts_on i a \<Longrightarrow> r i \<in> {u, v} \<Longrightarrow> action_effect a r i = v" and "run i \<in> {u, v}"
  shows "fold action_effect as run i = (if \<exists>a\<in>set as. acts_on i a then v else run i)"
  using assms
proof (induction as arbitrary: run)
  case (Cons a as)
  show ?case
  proof (cases "acts_on i a")
    case True
    then have "action_effect a run i = v" using Cons.prems by simp
    then show ?thesis using Cons.IH [of "action_effect a run"] Cons.prems(1) True by simp
  next
    case False
    then have "action_effect a run i = run i" by (rule perform_other)
    then show ?thesis using Cons.IH [of "action_effect a run"] Cons.prems False by simp
  qed
qed simp

lemma plan_effect_concat: "plan_effect steps run = fold action_effect (concat steps) run"
  by (induction steps arbitrary: run) (simp_all add: plan_effect_def)

lemma concat_nonempty: "concat (filter (\<lambda>as. as \<noteq> []) xs) = concat xs"
  by (induction xs) auto

lemma list_all2_set1: "list_all2 P xs ys \<Longrightarrow> x \<in> set xs \<Longrightarrow> \<exists>y\<in>set ys. P x y"
  by (metis in_set_conv_nth list_all2_conv_all_nth)

lemma dependencyOrderedSteps_actions:
  assumes "dependencyOrderedSteps original target affected toKill = Some (Inr steps)"
  shows "a \<in> set (concat steps) \<longleftrightarrow> (\<exists>s bs. s \<in> set (transitiveRunSpecs target) \<and> rs_id s \<in> set affected
      \<and> spec_action original toKill s = Inr bs \<and> a \<in> set bs)"
    and "s \<in> set (transitiveRunSpecs target) \<Longrightarrow> rs_id s \<in> set affected \<Longrightarrow> \<exists>bs. spec_action original toKill s = Inr bs"
proof -
  let ?specs = "filter (\<lambda>s. rs_id s \<in> set affected) (transitiveRunSpecs target)"
  let ?act = "spec_action original toKill"
  obtain f where l: "list_all2 (\<lambda>(k, specs) as. rbind (mapR ?act specs) (\<lambda>as. Inr (concat as)) = Inr as) (group_by f ?specs) steps"
    using dependencyOrderedSteps_classes [OF assms] by blast
  have cls: "\<exists>as bss. as \<in> set steps \<and> mapR ?act (filter (\<lambda>x. f x = f s) ?specs) = Inr bss \<and> as = concat bss" if "s \<in> set ?specs" for s
  proof -
    have "(f s, filter (\<lambda>x. f x = f s) ?specs) \<in> set (group_by f ?specs)" using that by (simp add: group_by_iff)
    then obtain n where n: "n < length (group_by f ?specs)" "group_by f ?specs ! n = (f s, filter (\<lambda>x. f x = f s) ?specs)"
      by (metis in_set_conv_nth)
    have "rbind (mapR ?act (filter (\<lambda>x. f x = f s) ?specs)) (\<lambda>as. Inr (concat as)) = Inr (steps ! n)"
      using list_all2_nthD [OF l n(1)] n(2) by simp
    moreover have "steps ! n \<in> set steps" using n(1) list_all2_lengthD [OF l] by simp
    ultimately show ?thesis by (auto simp: rbind_eq_Inr)
  qed
  have mine: "\<exists>bs as. ?act s = Inr bs \<and> as \<in> set steps \<and> set bs \<subseteq> set as" if s: "s \<in> set ?specs" for s
  proof -
    obtain as bss where c: "as \<in> set steps" "mapR ?act (filter (\<lambda>x. f x = f s) ?specs) = Inr bss" "as = concat bss"
      using cls [OF s] by blast
    from c(2) have "list_all2 (\<lambda>x y. ?act x = Inr y) (filter (\<lambda>x. f x = f s) ?specs) bss" by (simp only: mapR_list_all2)
    moreover have "s \<in> set (filter (\<lambda>x. f x = f s) ?specs)" using s by simp
    ultimately obtain bs where bs: "bs \<in> set bss" "?act s = Inr bs" by (meson list_all2_set1)
    then have "set bs \<subseteq> set as" using c(3) by auto
    then show ?thesis using bs(2) c(1) by blast
  qed
  show "\<exists>bs. ?act s = Inr bs" if "s \<in> set (transitiveRunSpecs target)" "rs_id s \<in> set affected"
    using mine that by auto
  show "a \<in> set (concat steps) \<longleftrightarrow> (\<exists>s bs. s \<in> set (transitiveRunSpecs target) \<and> rs_id s \<in> set affected
      \<and> ?act s = Inr bs \<and> a \<in> set bs)"
  proof
    assume "a \<in> set (concat steps)"
    then obtain as where "as \<in> set steps" "a \<in> set as" by auto
    then obtain n where n: "n < length steps" "a \<in> set (steps ! n)" by (metis in_set_conv_nth)
    obtain k specs where ks: "group_by f ?specs ! n = (k, specs)" by (cases "group_by f ?specs ! n")
    have "(k, specs) \<in> set (group_by f ?specs)" using n(1) list_all2_lengthD [OF l] ks by (metis nth_mem)
    moreover have "rbind (mapR ?act specs) (\<lambda>as. Inr (concat as)) = Inr (steps ! n)" using list_all2_nthD2 [OF l n(1)] ks by simp
    ultimately show "\<exists>s bs. s \<in> set (transitiveRunSpecs target) \<and> rs_id s \<in> set affected \<and> ?act s = Inr bs \<and> a \<in> set bs"
      using step_action [OF _ n(2)] by (fastforce simp: group_by_iff)
  next
    assume "\<exists>s bs. s \<in> set (transitiveRunSpecs target) \<and> rs_id s \<in> set affected \<and> ?act s = Inr bs \<and> a \<in> set bs"
    then obtain s bs where "s \<in> set ?specs" "?act s = Inr bs" "a \<in> set bs" by auto
    then show "a \<in> set (concat steps)" using mine [of s] by auto
  qed
qed

text \<open>The action for a spec takes its instances from what the original deployed to what the target deploys.\<close>

lemma spec_action_effect:
  assumes "runSpec target i = Some s" and "rs_id s = i" and "spec_action original toKill s = Inr as"
    and "\<And>old. runSpec original i = Some old \<Longrightarrow> rs_id old = i"
  shows "a \<in> set as \<Longrightarrow> r i \<in> {deployed original i, deployed target i} \<Longrightarrow> action_effect a r i = deployed target i"
    and "as = [] \<Longrightarrow> deployed original i = deployed target i"
proof -
  have t: "deployed target i = replicate (nat (rs_instances s)) (rs_config s)" using assms(1) by (simp add: deployed_def)
  have scale: "take n (replicate m c) @ replicate (n - m) c = replicate n c" for n m and c :: 'a
    by (cases "n \<le> m") (simp_all add: min_def replicate_add [symmetric])
  show "action_effect a r i = deployed target i" if a: "a \<in> set as" and r: "r i \<in> {deployed original i, deployed target i}"
  proof (cases "runSpec original i")
    case None
    then have "a = ScaleApplication s (rs_instances s) []" using a assms(2,3) by (auto simp: spec_action_def)
    moreover have "deployed original i = []" using None by (simp add: deployed_def)
    ultimately show ?thesis using r t assms(2) by (auto simp: scale_effect_def)
  next
    case (Some o')
    have o: "deployed original i = replicate (nat (rs_instances o')) (rs_config o')" using Some by (simp add: deployed_def)
    obtain sc where sc: "isOnlyScaleChange o' s = Inr sc" using assms(2,3) Some by (auto simp: spec_action_def rbind_eq_Inr)
    consider (Scale) "sc \<or> isScaledToZero s" "a = ScaleApplication s (rs_instances s) (toKill i)"
      | (Restart) "\<not> isScaledToZero s" "a = RestartApplication s"
      using a assms(2,3) Some sc by (auto simp: spec_action_def rbind_eq_Inr split: if_splits)
    then show ?thesis
    proof cases
      case Scale
      have "rs_instances s = 0 \<or> rs_config o' = rs_config s"
        using Scale(1) sc Some assms(2,4) by (auto simp: isOnlyScaleChange_def isUpgrade_def isScaledToZero_def rbind_eq_Inr split: if_splits)
      then show ?thesis using r o t Scale(2) assms(2) scale by (auto simp: scale_effect_def)
    next
      case Restart
      then show ?thesis using t assms(2) by (simp add: restart_effect_def isScaledToZero_def)
    qed
  qed
  show "deployed original i = deployed target i" if "as = []"
  proof (cases "runSpec original i")
    case None
    then show ?thesis using that assms(2,3) by (simp add: spec_action_def)
  next
    case (Some o')
    obtain up where "isUpgrade o' s = Inr up" "isOnlyScaleChange o' s = Inr (\<not> up \<and> rs_instances o' \<noteq> rs_instances s)"
      using assms(2,3) Some by (auto simp: spec_action_def isOnlyScaleChange_def rbind_eq_Inr)
    then have "\<not> up" "rs_instances o' = rs_instances s"
      using that assms(2,3) Some by (auto simp: spec_action_def needsRestart_def rbind_eq_Inr split: if_splits)
    then have "rs_config o' = rs_config s"
      using \<open>isUpgrade o' s = Inr up\<close> assms(2) assms(4) [OF Some] by (auto simp: isUpgrade_def split: if_splits)
    then show ?thesis using Some t \<open>rs_instances o' = rs_instances s\<close> by (simp add: deployed_def)
  qed
qed

lemma spec_action_total:
  assumes "\<And>old. runSpec original (rs_id s) = Some old \<Longrightarrow> rs_kind old = rs_kind s"
  shows "\<not> isl (spec_action original toKill s)"
proof (cases "runSpec original (rs_id s)")
  case (Some old)
  then have "rs_kind old = rs_kind s" by (rule assms)
  then show ?thesis
    by (cases "rs_kind s") (simp_all add: spec_action_def Some isOnlyScaleChange_def needsRestart_def isUpgrade_def)
qed (simp add: spec_action_def)

lemma dependencyOrderedSteps_total:
  assumes "acyclic (set (applicationDependencies target))"
    and "\<And>s. s \<in> set (transitiveRunSpecs target) \<Longrightarrow> \<not> isl (spec_action original toKill s)"
  shows "\<exists>steps. dependencyOrderedSteps original target affected toKill = Some (Inr steps)"
proof -
  let ?specs = "filter (\<lambda>s. rs_id s \<in> set affected) (transitiveRunSpecs target)"
  let ?classes = "group_by (\<lambda>s. length (the (longest_path (applicationDependencies target) s))) ?specs"
  have total: "\<forall>s. longest_path (applicationDependencies target) s \<noteq> None"
    by (rule longest_path_total [THEN iffD2, OF assms(1)])
  have c: "runSpecsGroupedByLongestPath affected target = Some ?classes"
    unfolding runSpecsGroupedByLongestPath_def Let_def by (rule if_P) (rule ballI, rule total [rule_format])
  have ok: "\<not> isl (rbind (mapR (spec_action original toKill) specs) (\<lambda>as. Inr (concat as)))"
    if "(k, specs) \<in> set ?classes" for k specs
  proof -
    have "set specs \<subseteq> set (transitiveRunSpecs target)" using that by (auto simp: group_by_iff)
    then have "\<forall>s\<in>set specs. \<not> isl (spec_action original toKill s)" using assms(2) by blast
    from mapR_all_Inr [OF this] show ?thesis by (cases "mapR (spec_action original toKill) specs") simp_all
  qed
  have "\<not> isl (mapR (\<lambda>(k, specs). rbind (mapR (spec_action original toKill) specs) (\<lambda>as. Inr (concat as))) ?classes)"
  proof (rule mapR_all_Inr, rule ballI)
    fix c assume c: "c \<in> set ?classes"
    obtain k specs where k: "c = (k, specs)" by (cases c)
    show "\<not> isl (case c of (k, specs) \<Rightarrow> rbind (mapR (spec_action original toKill) specs) (\<lambda>as. Inr (concat as)))"
      using ok c unfolding k prod.case by blast
  qed
  note m = sum.collapse(2) [OF this]
  show ?thesis unfolding dependencyOrderedSteps_def c option.map by (rule exI, rule arg_cong [where f = Some], rule m [symmetric])
qed

text \<open>The actions of a plan that touch the instances of an id, when the id is not in the target and when it is.\<close>

definition plan_actions :: "('c, 'o) group \<Rightarrow> ('c, 'o) group \<Rightarrow> ('c, 'o, 'i) action list list \<Rightarrow> ('c, 'o, 'i) action list" where
  "plan_actions original target ds = stop_step original target @ start_step original target @ concat ds"

lemma stop_step_acts:
  assumes "a \<in> set (stop_step original target)" and "acts_on i a"
  shows "runSpec target i = None \<and> action_effect a r i = []"
  using assms by (auto simp: stop_step_def group_exists_def stop_effect_def)

lemma plan_actions_acts:
  assumes "dependencyOrderedSteps original target affected toKill = Some (Inr ds)"
    and "a \<in> set (plan_actions original target ds)" and "acts_on i a"
  shows "a \<in> set (stop_step original target) \<or> (\<exists>s bs. s \<in> set (transitiveRunSpecs target) \<and> rs_id s = i \<and> i \<in> set affected
      \<and> spec_action original toKill s = Inr bs \<and> a \<in> set bs)"
proof (cases "a \<in> set (concat ds)")
  case True
  then obtain s bs where s: "s \<in> set (transitiveRunSpecs target)" "rs_id s \<in> set affected"
      "spec_action original toKill s = Inr bs" "a \<in> set bs"
    using dependencyOrderedSteps_actions(1) [OF assms(1)] by blast
  moreover have "rs_id s = i" using spec_action_specs [OF s(3,4)] assms(3) by (cases a) auto
  ultimately show ?thesis by blast
qed (use assms(2,3) in \<open>auto simp: plan_actions_def start_step_def\<close>)

lemma plan_effect_removed:
  assumes "wf_group original" and "wf_group target" and "runSpec target i = None"
    and "dependencyOrderedSteps original target affected toKill = Some (Inr ds)"
  shows "fold action_effect (plan_actions original target ds) (deployed original) i = []"
proof -
  let ?all = "plan_actions original target ds"
  have "s \<notin> set (transitiveRunSpecs target)" if "rs_id s = i" for s
    using assms(3) that runSpec_iff [OF assms(2), of i s] by auto
  then have stop: "a \<in> set (stop_step original target)" if "a \<in> set ?all" "acts_on i a" for a
    using plan_actions_acts [OF assms(4) that] by blast
  have "fold action_effect ?all (deployed original) i = (if \<exists>a\<in>set ?all. acts_on i a then [] else deployed original i)"
    by (rule perform_same [where u = "deployed original i"]) (use stop stop_step_acts in blast, simp)
  moreover have "\<exists>a\<in>set ?all. acts_on i a" if d: "deployed original i \<noteq> []"
  proof -
    obtain s where "runSpec original i = Some s" using d by (auto simp: deployed_def split: option.splits)
    then have s: "s \<in> set (transitiveRunSpecs original)" "rs_id s = i" using runSpec_iff [OF assms(1)] by blast+
    then have "StopApplication s \<in> set ?all" using assms(3) by (auto simp: plan_actions_def stop_step_def group_exists_def)
    then show ?thesis using s(2) by (intro bexI [of _ "StopApplication s"]) auto
  qed
  ultimately show ?thesis by auto
qed

lemma plan_effect_kept:
  assumes "wf_group original" and "wf_group target" and "runSpec target i = Some s"
    and "dependencyOrderedSteps original target affected toKill = Some (Inr ds)"
    and "i \<notin> set affected \<Longrightarrow> runSpec original i = Some s"
  shows "fold action_effect (plan_actions original target ds) (deployed original) i = deployed target i"
proof -
  let ?all = "plan_actions original target ds"
  have s: "s \<in> set (transitiveRunSpecs target)" "rs_id s = i" using assms(3) runSpec_iff [OF assms(2)] by blast+
  have same: "s' = s" if "s' \<in> set (transitiveRunSpecs target)" "rs_id s' = i" for s'
    using that assms(3) runSpec_iff [OF assms(2), of i s'] by auto
  have mine: "\<exists>bs. i \<in> set affected \<and> spec_action original toKill s = Inr bs \<and> a \<in> set bs" if "a \<in> set ?all" "acts_on i a" for a
    using plan_actions_acts [OF assms(4) that] stop_step_acts [of a original target i] that(2) assms(3) same by fastforce
  show ?thesis
  proof (cases "i \<in> set affected")
    case True
    then obtain bs where bs: "spec_action original toKill s = Inr bs"
      using dependencyOrderedSteps_actions(2) [OF assms(4)] s by blast
    note eff = spec_action_effect [OF assms(3) s(2) bs] and orig = runSpec_iff [OF assms(1), of i]
    have "fold action_effect ?all (deployed original) i = (if \<exists>a\<in>set ?all. acts_on i a then deployed target i else deployed original i)"
      by (rule perform_same [where u = "deployed original i"]) (use mine bs eff(1) orig in fastforce, simp)
    moreover have "\<exists>a\<in>set ?all. acts_on i a" if "bs \<noteq> []"
    proof -
      have h: "hd bs \<in> set bs" using that by simp
      then have "hd bs \<in> set (concat ds)" using dependencyOrderedSteps_actions(1) [OF assms(4)] s True bs by blast
      moreover have "acts_on i (hd bs)" using spec_action_specs [OF bs h] s(2) by (cases "hd bs") auto
      ultimately show ?thesis by (auto simp: plan_actions_def)
    qed
    moreover have "deployed original i = deployed target i" if "bs = []" using eff(2) orig that by blast
    ultimately show ?thesis by auto
  next
    case False
    then have "\<forall>a\<in>set ?all. \<not> acts_on i a" using mine by blast
    then have "fold action_effect ?all (deployed original) i = deployed original i"
      using perform_same [of ?all i "deployed original i" "deployed original i" "deployed original"] by auto
    then show ?thesis using assms(3) assms(5) [OF False] by (simp add: deployed_def)
  qed
qed

text \<open>
  C6. For two well-formed trees, the second without dependency cycles and without an app turned into a
  pod or back, the plan exists, and carrying out its actions takes the instances of the first tree to
  exactly those of the second: every run spec of the target runs its number of instances with its
  configuration, and nothing else runs.
\<close>

theorem plan_reaches_target:
  assumes "wf_group original" and "wf_group target" and "acyclic (set (applicationDependencies target))"
    and "\<And>i s s'. runSpec original i = Some s \<Longrightarrow> runSpec target i = Some s' \<Longrightarrow> rs_kind s = rs_kind s'"
  shows "\<exists>steps. deployment_plan original target toKill = Some (Inr steps)
    \<and> plan_effect steps (deployed original) = deployed target"
proof -
  let ?affected = "affectedApplications original target"
  have "\<not> isl (spec_action original toKill s)" if "s \<in> set (transitiveRunSpecs target)" for s
    using that assms(4) [of "rs_id s" _ s] runSpec_iff [OF assms(2), of "rs_id s" s] by (intro spec_action_total) blast
  then obtain ds where d: "dependencyOrderedSteps original target ?affected toKill = Some (Inr ds)"
    using dependencyOrderedSteps_total [OF assms(3)] by blast
  let ?steps = "filter (\<lambda>as. as \<noteq> []) (stop_step original target # start_step original target # ds)"
  have "plan_effect ?steps (deployed original) i = deployed target i" for i
  proof -
    have "plan_effect ?steps (deployed original) i = fold action_effect (plan_actions original target ds) (deployed original) i"
      unfolding plan_effect_concat concat_nonempty by (simp add: plan_actions_def)
    also have "\<dots> = deployed target i"
    proof (cases "runSpec target i")
      case None
      then show ?thesis using plan_effect_removed [OF assms(1,2) None d] by (simp add: deployed_def)
    next
      case (Some s)
      have "runSpec original i = Some s" if "i \<notin> set ?affected"
        using that Some runSpec_iff [OF assms(2), of i s] by (auto simp: affectedApplications_def)
      then show ?thesis using plan_effect_kept [OF assms(1,2) Some d] by blast
    qed
    finally show ?thesis .
  qed
  then show ?thesis using d by (auto simp: deployment_plan_def)
qed

theorem plan_reaches_target_witness:
  "\<exists>steps. deployment_plan sample_before sample_after (\<lambda>i. [] :: nat list) = Some (Inr steps)
    \<and> plan_effect steps (deployed sample_before) = deployed sample_after"
proof (rule plan_reaches_target)
  show wf: "wf_group sample_before" "wf_group sample_after" by code_simp+
  show "acyclic (set (applicationDependencies sample_after))" by (rule acyclic_if_paths) code_simp
  have apps: "list_all (\<lambda>s. rs_kind s = App) (transitiveRunSpecs sample_before)"
    "list_all (\<lambda>s. rs_kind s = App) (transitiveRunSpecs sample_after)" by code_simp+
  fix i s s' assume "runSpec sample_before i = Some s" "runSpec sample_after i = Some s'"
  then have "s \<in> set (transitiveRunSpecs sample_before)" "s' \<in> set (transitiveRunSpecs sample_after)"
    using runSpec_iff wf by blast+
  then show "rs_kind s = rs_kind s'" using apps by (simp add: list_all_iff)
qed

end
