(* ===== verification/TaskIds.thy ===== *)
theory TaskIds
  imports JsValue PathId "HOL-Library.Word"
begin

unbundle bit_operations_syntax

text \<open>
  The identifiers of instances, tasks and reservations (\<open>Instance.Id\<close>, \<open>Task.Id\<close>,
  \<open>Reservation.Id\<close>): their texts, which are the task ids Mesos sees, and the regular expressions
  that read them back.
\<close>

section \<open>Unique identifiers\<close>

text \<open>\<open>java.util.UUID\<close>: two longs, printed as hexadecimal digits in five groups.\<close>

datatype uuid = UUID "64 word" "64 word"

fun hex_digits :: "nat \<Rightarrow> nat \<Rightarrow> string" where
  "hex_digits 0 v = []"
| "hex_digits (Suc n) v = hex_digits n (v div 16) @ [hex_lower (v mod 16)]"

fun uuid_toString :: "uuid \<Rightarrow> string" where
  "uuid_toString (UUID m l) =
     join ''-'' [hex_digits 8 (unat (drop_bit 32 m)), hex_digits 4 (unat (drop_bit 16 m)), hex_digits 4 (unat m),
       hex_digits 4 (unat (drop_bit 48 l)), hex_digits 12 (unat l)]"

definition hex_value :: "string \<Rightarrow> nat" where
  "hex_value s = foldl (\<lambda>n c. 16 * n + the (hex_val c)) 0 s"

text \<open>\<open>Long.decode("0x" + s)\<close>, without a value where it throws.\<close>

definition decode_hex :: "string \<Rightarrow> 64 word option" where
  "decode_hex s =
     (if s \<noteq> [] \<and> list_all (\<lambda>c. hex_val c \<noteq> None) s \<and> hex_value s < 2 ^ 63 then Some (word_of_nat (hex_value s)) else None)"

definition uuid_fromString :: "string \<Rightarrow> uuid option" where
  "uuid_fromString s =
     (case java_split CHR ''-'' s of
        [a, b, c, d, e] \<Rightarrow>
          (case (decode_hex a, decode_hex b, decode_hex c, decode_hex d, decode_hex e) of
             (Some a', Some b', Some c', Some d', Some e') \<Rightarrow>
               Some (UUID (push_bit 16 (push_bit 16 a' OR b') OR c') (push_bit 48 d' OR e'))
           | _ \<Rightarrow> None)
      | _ \<Rightarrow> None)"

lemma hex_val_lower [simp]: "n < 16 \<Longrightarrow> hex_val (hex_lower n) = Some n"
  by (simp add: hex_val_def hex_lower_def Let_def)

lemma hex_value_snoc [simp]: "hex_value (s @ [c]) = 16 * hex_value s + the (hex_val c)"
  by (simp add: hex_value_def)

lemma length_hex_digits [simp]: "length (hex_digits n v) = n"
  by (induction n arbitrary: v) simp_all

lemma hex_digits_numeral:
  "hex_digits (numeral k) v = hex_digits (pred_numeral k) (v div 16) @ [hex_lower (v mod 16)]"
  by (simp only: numeral_eq_Suc hex_digits.simps)

lemma hex_digits_hex: "list_all (\<lambda>c. hex_val c \<noteq> None) (hex_digits n v)"
  by (induction n arbitrary: v) simp_all

lemma hex_value_digits: "hex_value (hex_digits n v) = v mod 16 ^ n"
proof (induction n arbitrary: v)
  case 0
  then show ?case by (simp add: hex_value_def)
next
  case (Suc n)
  show ?case using mod_mult2_eq [of v 16 "16 ^ n"] by (simp add: Suc)
qed

lemma decode_hex_digits:
  assumes "0 < n" and "n \<le> 12"
  shows "decode_hex (hex_digits n v) = Some (word_of_nat (v mod 16 ^ n))"
proof -
  have "(16 :: nat) ^ n \<le> 16 ^ 12" using assms(2) by (intro power_increasing) auto
  then have "(16 :: nat) ^ n \<le> 2 ^ 63" by (rule order_trans) simp
  then have "v mod 16 ^ n < 2 ^ 63" by (intro less_le_trans [OF mod_less_divisor]) simp_all
  moreover have "hex_digits n v \<noteq> []" using assms(1) length_hex_digits [of n v] by (cases "hex_digits n v") auto
  ultimately show ?thesis using hex_digits_hex [of n v] by (simp add: decode_hex_def hex_value_digits)
qed

lemma word_of_low_digits: "word_of_nat (unat w mod 16 ^ n) = take_bit (4 * n) (w :: 64 word)"
proof -
  have "(16 :: nat) ^ n = 2 ^ (4 * n)" by (simp add: power_mult)
  then show ?thesis by (simp add: take_bit_eq_mod [symmetric] unsigned_take_bit_eq [symmetric])
qed

lemma uuid_fields:
  fixes m l :: "64 word"
  shows "(push_bit 32 (take_bit 32 (drop_bit 32 m)) OR push_bit 16 (take_bit 16 (drop_bit 16 m))) OR take_bit 16 m = m"
    and "push_bit 48 (take_bit 16 (drop_bit 48 l)) OR take_bit 48 l = l"
proof -
  show "(push_bit 32 (take_bit 32 (drop_bit 32 m)) OR push_bit 16 (take_bit 16 (drop_bit 16 m))) OR take_bit 16 m = m"
  proof (rule bit_word_eqI)
    fix n assume "n < LENGTH(64)"
    then show "bit ((push_bit 32 (take_bit 32 (drop_bit 32 m)) OR push_bit 16 (take_bit 16 (drop_bit 16 m))) OR take_bit 16 m) n \<longleftrightarrow> bit m n"
      by (cases "n < 32") (auto simp: bit_simps)
  qed
  show "push_bit 48 (take_bit 16 (drop_bit 48 l)) OR take_bit 48 l = l"
    by (rule bit_word_eqI) (auto simp: bit_simps)
qed

lemma hex_digits_plain: "c \<in> set (hex_digits n v) \<Longrightarrow> hex_val c \<noteq> None"
  using hex_digits_hex [of n v] by (simp add: list_all_iff)

lemma not_hex: "hex_val CHR ''-'' = None" "hex_val CHR ''.'' = None" "hex_val CHR ''_'' = None" "hex_val CHR ''i'' = None"
    "hex_val CHR ''m'' = None" "hex_val (CHR 0x0A) = None" "hex_val (CHR 0x0D) = None"
  by (simp_all add: hex_val_def Let_def)

lemma uuid_recovered: "uuid_fromString (uuid_toString u) = Some u"
proof (cases u)
  case (UUID m l)
  let ?parts = "[hex_digits 8 (unat (drop_bit 32 m)), hex_digits 4 (unat (drop_bit 16 m)), hex_digits 4 (unat m),
       hex_digits 4 (unat (drop_bit 48 l)), hex_digits 12 (unat l)]"
  have "split_on CHR ''-'' (join ''-'' ?parts) = ?parts"
    using hex_digits_plain not_hex(1) by (intro split_on_join) fastforce+
  moreover have "CHR ''-'' \<in> set (join ''-'' ?parts)" by simp
  moreover have "rev (dropWhile (\<lambda>x. x = []) (rev ?parts)) = ?parts"
    using length_hex_digits [of 12 "unat l"] by (auto simp del: length_hex_digits)
  ultimately have "java_split CHR ''-'' (join ''-'' ?parts) = ?parts"
    unfolding java_split_def by argo
  then show ?thesis
    unfolding UUID uuid_toString.simps uuid_fromString_def
    by (simp add: decode_hex_digits word_of_low_digits [where n = 8, simplified] word_of_low_digits [where n = 4, simplified]
        word_of_low_digits [where n = 12, simplified] uuid_fields)
qed

section \<open>Identifiers and their texts\<close>

datatype id_prefix = PrefixInstance | PrefixMarathon

fun prefix_value :: "id_prefix \<Rightarrow> string" where
  "prefix_value PrefixInstance = ''instance-''"
| "prefix_value PrefixMarathon = ''marathon-''"

datatype instance_id = InstanceId path_id id_prefix uuid

fun instance_runSpecId :: "instance_id \<Rightarrow> path_id" where
  "instance_runSpecId (InstanceId p x u) = p"

datatype task_id =
    LegacyId path_id string uuid
  | LegacyResidentId path_id string uuid "64 word"
  | EphemeralTaskId instance_id "string option"
  | TaskIdWithIncarnation instance_id "string option" "64 word"

datatype reservation_id = ReservationLegacyId path_id string uuid | SimplifiedId instance_id

definition safe_form :: "path_id \<Rightarrow> string" where
  "safe_form p = join ''_'' (path_of p)"

definition show_long :: "64 word \<Rightarrow> string" where
  "show_long w = show_int (sint w)"

fun instance_idString :: "instance_id \<Rightarrow> string" where
  "instance_idString (InstanceId p x u) = safe_form p @ ''.'' @ prefix_value x @ uuid_toString u"

definition anonymousContainer :: string where "anonymousContainer = ''_app''"

definition container_text :: "string option \<Rightarrow> string" where
  "container_text c = (case c of None \<Rightarrow> anonymousContainer | Some n \<Rightarrow> n)"

fun task_idString :: "task_id \<Rightarrow> string" where
  "task_idString (LegacyId p sep u) = safe_form p @ sep @ uuid_toString u"
| "task_idString (LegacyResidentId p sep u attempt) = safe_form p @ sep @ uuid_toString u @ ''.'' @ show_long attempt"
| "task_idString (EphemeralTaskId i c) = instance_idString i @ ''.'' @ container_text c"
| "task_idString (TaskIdWithIncarnation i c attempt) =
     instance_idString i @ ''.'' @ container_text c @ ''.'' @ show_long attempt"

fun task_instanceId :: "task_id \<Rightarrow> instance_id" where
  "task_instanceId (LegacyId p sep u) = InstanceId p PrefixMarathon u"
| "task_instanceId (LegacyResidentId p sep u attempt) = InstanceId p PrefixMarathon u"
| "task_instanceId (EphemeralTaskId i c) = i"
| "task_instanceId (TaskIdWithIncarnation i c attempt) = i"

fun nextIncarnationFor :: "task_id \<Rightarrow> task_id" where
  "nextIncarnationFor (EphemeralTaskId i c) = TaskIdWithIncarnation i c 1"
| "nextIncarnationFor (TaskIdWithIncarnation i c attempt) = TaskIdWithIncarnation i c (attempt + 1)"
| "nextIncarnationFor (LegacyResidentId p sep u attempt) = LegacyResidentId p sep u (attempt + 1)"
| "nextIncarnationFor (LegacyId p sep u) = LegacyResidentId p sep u 1"

fun reservation_label :: "reservation_id \<Rightarrow> string" where
  "reservation_label (ReservationLegacyId p sep u) = safe_form p @ sep @ uuid_toString u"
| "reservation_label (SimplifiedId i) = instance_idString i"

fun reservation_instanceId :: "reservation_id \<Rightarrow> instance_id" where
  "reservation_instanceId (ReservationLegacyId p sep u) = InstanceId p PrefixMarathon u"
| "reservation_instanceId (SimplifiedId i) = i"

section \<open>Reading texts\<close>

text \<open>
  All five expressions start with the group \<open>(.+)\<close>: the longest non-empty piece without a line
  terminator after which the rest of the expression matches the rest of the text. In the rest every group is a
  run of characters of one class that ends where the class ends, so there is one way to match.
\<close>

definition one_line :: "string \<Rightarrow> bool" where
  "one_line s \<longleftrightarrow> CHR 0x0A \<notin> set s \<and> CHR 0x0D \<notin> set s \<and> \<not> contains [CHR 0xC2, CHR 0x85] s
     \<and> \<not> contains [CHR 0xE2, CHR 0x80, CHR 0xA8] s \<and> \<not> contains [CHR 0xE2, CHR 0x80, CHR 0xA9] s"

fun greedy_from :: "(string \<Rightarrow> 'a option) \<Rightarrow> string \<Rightarrow> nat \<Rightarrow> (string \<times> 'a) option" where
  "greedy_from p s 0 = None"
| "greedy_from p s (Suc n) =
     (case p (drop (Suc n) s) of
        Some r \<Rightarrow> if one_line (take (Suc n) s) then Some (take (Suc n) s, r) else greedy_from p s n
      | None \<Rightarrow> greedy_from p s n)"

definition greedy :: "(string \<Rightarrow> 'a option) \<Rightarrow> string \<Rightarrow> (string \<times> 'a) option" where
  "greedy p s = greedy_from p s (length s)"

text \<open>A non-empty run of characters other than \<open>stop\<close>, and the text after it.\<close>

definition run_of :: "(char \<Rightarrow> bool) \<Rightarrow> string \<Rightarrow> (string \<times> string) option" where
  "run_of ok s = (let r = takeWhile ok s in if r = [] then None else Some (r, dropWhile ok s))"

definition word_sep :: "char \<Rightarrow> bool" where
  "word_sep c \<longleftrightarrow> c = CHR ''.'' \<or> c = CHR ''_''"

definition strip_prefix :: "string \<Rightarrow> (id_prefix \<times> string) option" where
  "strip_prefix s =
     (case strip ''.instance-'' s of Some t \<Rightarrow> Some (PrefixInstance, t)
      | None \<Rightarrow> map_option (Pair PrefixMarathon) (strip ''.marathon-'' s))"

text \<open>\<open>\.(instance-|marathon-)([^_\.]+)[\._]([^\.]+)\<close> and what follows it.\<close>

definition instance_part :: "string \<Rightarrow> (id_prefix \<times> string \<times> string \<times> string) option" where
  "instance_part s =
     (case strip_prefix s of None \<Rightarrow> None
      | Some (x, t) \<Rightarrow>
          (case run_of (\<lambda>c. \<not> word_sep c) t of
             Some (u, sep # t') \<Rightarrow>
               (case run_of (\<lambda>c. c \<noteq> CHR ''.'') t' of Some (c, rest) \<Rightarrow> Some (x, u, c, rest) | None \<Rightarrow> None)
           | _ \<Rightarrow> None))"

text \<open>\<open>\.(\d+)$\<close>\<close>

definition attempt_part :: "string \<Rightarrow> string option" where
  "attempt_part s = (case s of c # ds \<Rightarrow> if c = CHR ''.'' \<and> ds \<noteq> [] \<and> list_all is_digit ds then Some ds else None | [] \<Rightarrow> None)"

definition incarnation_rest :: "string \<Rightarrow> (id_prefix \<times> string \<times> string \<times> string) option" where
  "incarnation_rest s =
     (case instance_part s of None \<Rightarrow> None
      | Some (x, u, c, rest) \<Rightarrow> map_option (\<lambda>ds. (x, u, c, ds)) (attempt_part rest))"

definition ephemeral_rest :: "string \<Rightarrow> (id_prefix \<times> string \<times> string) option" where
  "ephemeral_rest s =
     (case instance_part s of None \<Rightarrow> None
      | Some (x, u, c, rest) \<Rightarrow> if rest = [] then Some (x, u, c) else None)"

text \<open>\<open>([\._])([^_\.]+)(\.)(\d+)$\<close> and \<open>([\._])([^_\.]+)$\<close>\<close>

definition legacy_part :: "string \<Rightarrow> (char \<times> string \<times> string) option" where
  "legacy_part s =
     (case s of
        sep # t \<Rightarrow> if word_sep sep then (case run_of (\<lambda>c. \<not> word_sep c) t of Some (u, rest) \<Rightarrow> Some (sep, u, rest) | None \<Rightarrow> None)
                   else None
      | [] \<Rightarrow> None)"

definition resident_rest :: "string \<Rightarrow> (char \<times> string \<times> string) option" where
  "resident_rest s =
     (case legacy_part s of None \<Rightarrow> None | Some (sep, u, rest) \<Rightarrow> map_option (\<lambda>ds. (sep, u, ds)) (attempt_part rest))"

definition legacy_rest :: "string \<Rightarrow> (char \<times> string) option" where
  "legacy_rest s = (case legacy_part s of None \<Rightarrow> None | Some (sep, u, rest) \<Rightarrow> if rest = [] then Some (sep, u) else None)"

text \<open>\<open>\.(instance-|marathon-)([^\.]+)$\<close>\<close>

definition simplified_rest :: "string \<Rightarrow> (id_prefix \<times> string) option" where
  "simplified_rest s =
     (case strip_prefix s of None \<Rightarrow> None
      | Some (x, u) \<Rightarrow> if u \<noteq> [] \<and> CHR ''.'' \<notin> set u then Some (x, u) else None)"

datatype id_error = MatchError | InvalidUuid | InvalidNumber

definition read_uuid :: "string \<Rightarrow> id_error + uuid" where
  "read_uuid s = (case uuid_fromString s of None \<Rightarrow> Inl InvalidUuid | Some u \<Rightarrow> Inr u)"

definition long_of_digits :: "string \<Rightarrow> id_error + 64 word" where
  "long_of_digits ds = (if nat_of_digits ds < 2 ^ 63 then Inr (word_of_nat (nat_of_digits ds)) else Inl InvalidNumber)"

definition container_name :: "string \<Rightarrow> string option" where
  "container_name c = (if c = anonymousContainer then None else Some c)"

definition task_id_parse :: "string \<Rightarrow> id_error + task_id" where
  "task_id_parse s =
     (case greedy incarnation_rest s of
        Some (p, x, u, c, ds) \<Rightarrow>
          rbind (read_uuid u) (\<lambda>uuid.
          rbind (long_of_digits ds) (\<lambda>attempt. Inr (TaskIdWithIncarnation (InstanceId (fromSafePath p) x uuid) (container_name c) attempt)))
      | None \<Rightarrow>
     (case greedy ephemeral_rest s of
        Some (p, x, u, c) \<Rightarrow>
          rbind (read_uuid u) (\<lambda>uuid. Inr (EphemeralTaskId (InstanceId (fromSafePath p) x uuid) (container_name c)))
      | None \<Rightarrow>
     (case greedy resident_rest s of
        Some (p, sep, u, ds) \<Rightarrow>
          rbind (read_uuid u) (\<lambda>uuid. rbind (long_of_digits ds) (\<lambda>attempt. Inr (LegacyResidentId (fromSafePath p) [sep] uuid attempt)))
      | None \<Rightarrow>
     (case greedy legacy_rest s of
        Some (p, sep, u) \<Rightarrow> rbind (read_uuid u) (\<lambda>uuid. Inr (LegacyId (fromSafePath p) [sep] uuid))
      | None \<Rightarrow> Inl MatchError))))"

definition instance_fromIdString :: "string \<Rightarrow> id_error + instance_id" where
  "instance_fromIdString s =
     (case greedy simplified_rest s of
        Some (p, x, u) \<Rightarrow> rbind (read_uuid u) (\<lambda>uuid. Inr (InstanceId (fromSafePath p) x uuid))
      | None \<Rightarrow> Inl MatchError)"

definition reservation_parse :: "string \<Rightarrow> id_error + reservation_id" where
  "reservation_parse s =
     (case greedy simplified_rest s of
        Some (p, x, u) \<Rightarrow> rbind (read_uuid u) (\<lambda>uuid. Inr (SimplifiedId (InstanceId (fromSafePath p) x uuid)))
      | None \<Rightarrow>
     (case greedy legacy_rest s of
        Some (p, sep, u) \<Rightarrow> rbind (read_uuid u) (\<lambda>uuid. Inr (ReservationLegacyId (fromSafePath p) [sep] uuid))
      | None \<Rightarrow> Inl MatchError))"

section \<open>What the expressions match\<close>

lemma greedy_from_skip:
  "n \<le> length s \<Longrightarrow> (\<And>i. m < i \<Longrightarrow> i \<le> length s \<Longrightarrow> p (drop i s) = None) \<Longrightarrow> m \<le> n \<Longrightarrow> greedy_from p s n = greedy_from p s m"
  by (induction n) (auto simp: le_Suc_eq)

lemma greedy_here:
  assumes "a \<noteq> []" and "one_line a" and "p b = Some r" and "\<And>t. strict_suffix t b \<Longrightarrow> p t = None"
  shows "greedy p (a @ b) = Some (a, r)"
proof -
  have "p (drop i (a @ b)) = None" if "length a < i" "i \<le> length (a @ b)" for i
  proof (rule assms(4))
    have "drop i (a @ b) = drop (i - length a) b" using that by simp
    then show "strict_suffix (drop i (a @ b)) b"
      using that suffix_drop [of "i - length a" b] by (auto simp: strict_suffix_def dest: arg_cong [where f = length])
  qed
  then have "greedy p (a @ b) = greedy_from p (a @ b) (length a)"
    unfolding greedy_def by (intro greedy_from_skip) auto
  also have "length a = Suc (length a - 1)" using assms(1) by simp
  finally show ?thesis using assms(1-3) by (cases a) auto
qed

lemma greedy_none: "(\<And>t. suffix t s \<Longrightarrow> p t = None) \<Longrightarrow> greedy p s = None"
proof -
  assume none: "\<And>t. suffix t s \<Longrightarrow> p t = None"
  have "greedy_from p s n = None" for n by (induction n) (simp_all add: none suffix_drop)
  then show ?thesis by (simp add: greedy_def)
qed

lemma suffix_after:
  assumes "suffix (c # t) (x @ y)" and "c \<notin> set x"
  shows "suffix (c # t) y"
  using assms by (induction x) (auto simp: suffix_Cons)

lemma suffix_at:
  assumes "suffix (c # t) (x @ c # y)" and "c \<notin> set x" and "c \<notin> set y"
  shows "t = y"
  using suffix_after [OF assms(1,2)] assms(3) by (auto simp: suffix_Cons dest: set_mono_suffix)

lemma strict_suffix_Cons: "strict_suffix t (c # y) \<longleftrightarrow> suffix t y"
  by (auto simp: strict_suffix_def suffix_Cons dest: suffix_length_le)

lemma last_piece:
  assumes "a @ s1 # u = b @ s2 # v" and "P s1" and "P s2" and "\<forall>c\<in>set u. \<not> P c" and "\<forall>c\<in>set v. \<not> P c"
  shows "u = v"
proof -
  have *: "takeWhile (\<lambda>c. \<not> P c) (rev (a @ s1 # u)) = rev u" if "P s1" "\<forall>c\<in>set u. \<not> P c" for a s1 u
    using that by (simp only: rev_append rev.simps append_assoc) (subst takeWhile_append2; simp)
  show ?thesis using * [OF assms(2,4), of a] * [OF assms(3,5), of b] assms(1) by simp
qed

lemma run_of_all: "x \<noteq> [] \<Longrightarrow> \<forall>c\<in>set x. ok c \<Longrightarrow> (y = [] \<or> \<not> ok (hd y)) \<Longrightarrow> run_of ok (x @ y) = Some (x, y)"
  by (cases y) (auto simp: run_of_def Let_def takeWhile_append2 dropWhile_append2 takeWhile_eq_all_conv [THEN iffD2]
      dropWhile_eq_Nil_conv [THEN iffD2])

lemma run_of_rest: "run_of ok s = Some (x, y) \<Longrightarrow> s = x @ y"
  by (auto simp: run_of_def Let_def split: if_splits)

lemma strip_Some: "strip q s = Some t \<longleftrightarrow> s = q @ t"
  by (auto simp: strip_def prefix_def)

lemma strip_prefix_here: "strip_prefix (CHR ''.'' # prefix_value x @ t) = Some (x, t)"
  by (cases x) (simp_all add: strip_prefix_def strip_def)

lemma strip_prefix_text: "strip_prefix s = Some (x, t) \<Longrightarrow> s = CHR ''.'' # prefix_value x @ t"
  by (cases x) (auto simp: strip_prefix_def strip_Some split: option.splits)

lemma prefix_value_plain: "CHR ''.'' \<notin> set (prefix_value x)" "CHR ''_'' \<notin> set (prefix_value x)" "prefix_value x \<noteq> []"
    "hd (prefix_value x) \<in> {CHR ''i'', CHR ''m''}"
  by (cases x; simp)+

lemma instance_part_text:
  assumes "instance_part s = Some (x, u, c, rest)"
  shows "\<exists>t. strip_prefix s = Some (x, t) \<and> suffix rest t"
proof -
  obtain y t where strip: "strip_prefix s = Some (y, t)"
    using assms by (auto simp: instance_part_def split: option.splits)
  then obtain u' sep t' where run: "run_of (\<lambda>c. \<not> word_sep c) t = Some (u', sep # t')"
    using assms by (auto simp: instance_part_def split: option.splits list.splits)
  then obtain c' where run': "run_of (\<lambda>c. c \<noteq> CHR ''.'') t' = Some (c', rest)" and "y = x"
    using assms strip by (auto simp: instance_part_def split: option.splits)
  then show ?thesis
    using strip run_of_rest [OF run] run_of_rest [OF run'] by (auto simp: suffix_def)
qed

lemma attempt_part_text: "attempt_part s = Some ds \<longleftrightarrow> s = CHR ''.'' # ds \<and> ds \<noteq> [] \<and> list_all is_digit ds"
  by (cases s) (auto simp: attempt_part_def)

lemma instance_part_here:
  assumes "u \<noteq> []" and "\<forall>d\<in>set u. \<not> word_sep d" and "word_sep sep" and "c \<noteq> []" and "CHR ''.'' \<notin> set c"
    and "rest = [] \<or> hd rest = CHR ''.''"
  shows "instance_part (CHR ''.'' # prefix_value x @ u @ sep # c @ rest) = Some (x, u, c, rest)"
proof -
  have "run_of (\<lambda>c. \<not> word_sep c) (u @ sep # c @ rest) = Some (u, sep # c @ rest)"
    using assms(1-3) by (intro run_of_all) auto
  moreover have "run_of (\<lambda>c. c \<noteq> CHR ''.'') (c @ rest) = Some (c, rest)"
    using assms(4-6) by (intro run_of_all) auto
  ultimately show ?thesis by (simp add: instance_part_def strip_prefix_here)
qed

section \<open>Identifiers that can be read back\<close>

text \<open>
  A run spec below the root with a valid identifier; a container name without dots and underscores, as the names
  of containers are; and a run spec whose name does not look like an instance (for texts of the time before
  instances).
\<close>

definition runspec_ok :: "path_id \<Rightarrow> bool" where
  "runspec_ok p \<longleftrightarrow> pathIdValidator p \<and> is_absolute p \<and> path_of p \<noteq> []"

definition container_ok :: "string option \<Rightarrow> bool" where
  "container_ok c = (case c of None \<Rightarrow> True | Some n \<Rightarrow> n \<noteq> [] \<and> CHR ''.'' \<notin> set n \<and> CHR ''_'' \<notin> set n)"

definition unmarked :: "path_id \<Rightarrow> bool" where
  "unmarked p \<longleftrightarrow> \<not> contains ''.instance-'' (safe_form p) \<and> \<not> contains ''.marathon-'' (safe_form p)"

fun task_id_ok :: "task_id \<Rightarrow> bool" where
  "task_id_ok (LegacyId p sep u) \<longleftrightarrow> runspec_ok p \<and> unmarked p \<and> sep \<in> {''.'', ''_''}"
| "task_id_ok (LegacyResidentId p sep u attempt) \<longleftrightarrow> runspec_ok p \<and> unmarked p \<and> sep \<in> {''.'', ''_''} \<and> 0 \<le> sint attempt"
| "task_id_ok (EphemeralTaskId i c) \<longleftrightarrow>
     runspec_ok (instance_runSpecId i) \<and> container_ok c \<and> \<not> list_all is_digit (container_text c)"
| "task_id_ok (TaskIdWithIncarnation i c attempt) \<longleftrightarrow> runspec_ok (instance_runSpecId i) \<and> container_ok c \<and> 0 \<le> sint attempt"

fun reservation_id_ok :: "reservation_id \<Rightarrow> bool" where
  "reservation_id_ok (ReservationLegacyId p sep u) \<longleftrightarrow> runspec_ok p \<and> unmarked p \<and> sep \<in> {''.'', ''_''}"
| "reservation_id_ok (SimplifiedId i) \<longleftrightarrow> runspec_ok (instance_runSpecId i)"

lemma safe_form_facts:
  assumes "runspec_ok p"
  shows "safe_form p \<noteq> []" and "one_line (safe_form p)" and "fromSafePath (safe_form p) = p"
proof -
  obtain ps where p: "p = AbsolutePathId ps" using assms by (cases p) (auto simp: runspec_ok_def)
  have valid: "list_all valid_segment ps" and ne: "ps \<noteq> []"
    using assms by (auto simp: runspec_ok_def pathIdValidator_def validPathChars_def p)
  show "fromSafePath (safe_form p) = p" using fromSafePath_valid [OF valid] by (simp add: safe_form_def p)
  show "safe_form p \<noteq> []"
    using join_ends [OF ne, of "''_''"] valid valid_segment_chars(1) by (auto simp: safe_form_def p list_all_iff)
  have chars: "label_char c \<or> c \<in> {CHR ''-'', CHR ''.'', CHR ''_''}" if "c \<in> set (safe_form p)" for c
    using that set_join [of c "''_''" ps] valid valid_segment_chars(2) by (fastforce simp: safe_form_def p list_all_iff)
  have plain: "c \<notin> set (safe_form p)" if "c \<in> {CHR 0x0A, CHR 0x0D, CHR 0xC2, CHR 0xE2}" for c
    using chars [of c] that by (auto simp: label_char_def is_digit_def is_lower_def)
  then show "one_line (safe_form p)" by (simp add: one_line_def contains_def index_of_absent)
qed

lemma uuid_text_plain:
  shows "CHR ''.'' \<notin> set (uuid_toString u)" and "CHR ''_'' \<notin> set (uuid_toString u)" and "CHR ''-'' \<in> set (uuid_toString u)"
    and "hd (uuid_toString u) \<notin> {CHR ''i'', CHR ''m''}" and "\<forall>d\<in>set (uuid_toString u). \<not> word_sep d"
proof -
  obtain m l where u: "u = UUID m l" by (cases u) auto
  have *: "c \<notin> set (uuid_toString u)" if "hex_val c = None" "c \<noteq> CHR ''-''" for c
    using that hex_digits_plain by (fastforce simp: u)
  show dots: "CHR ''.'' \<notin> set (uuid_toString u)" "CHR ''_'' \<notin> set (uuid_toString u)" using * not_hex by auto
  show "CHR ''-'' \<in> set (uuid_toString u)" by (simp add: u)
  then have "hd (uuid_toString u) \<in> set (uuid_toString u)" by (cases "uuid_toString u") auto
  then show "hd (uuid_toString u) \<notin> {CHR ''i'', CHR ''m''}" using * [of "CHR ''i''"] * [of "CHR ''m''"] not_hex by auto
  show "\<forall>d\<in>set (uuid_toString u). \<not> word_sep d" using dots by (auto simp: word_sep_def)
qed

lemma uuid_text_not_Nil [simp]: "uuid_toString u \<noteq> []"
  using uuid_text_plain(3) [of u] by auto

lemma read_uuid_text [simp]: "read_uuid (uuid_toString u) = Inr u"
  by (simp add: read_uuid_def uuid_recovered)

lemma container_text_plain:
  assumes "container_ok c"
  shows "container_text c \<noteq> []" and "CHR ''.'' \<notin> set (container_text c)" and "container_name (container_text c) = c"
    and "container_text c = prefix_value x @ r \<Longrightarrow> \<forall>d\<in>set r. \<not> word_sep d"
proof -
  show "container_text c \<noteq> []" "CHR ''.'' \<notin> set (container_text c)" "container_name (container_text c) = c"
    using assms by (auto simp: container_ok_def container_text_def container_name_def anonymousContainer_def split: option.splits)
  show "\<forall>d\<in>set r. \<not> word_sep d" if "container_text c = prefix_value x @ r"
    using assms that
    by (cases x) (auto simp: container_ok_def container_text_def anonymousContainer_def word_sep_def split: option.splits)
qed

lemma show_long_digits:
  assumes "0 \<le> sint w"
  shows "show_long w \<noteq> []" and "list_all is_digit (show_long w)" and "long_of_digits (show_long w) = Inr w"
proof -
  have s: "show_long w = show_nat (nat (sint w))" using assms by (simp add: show_long_def show_int_def)
  show "show_long w \<noteq> []" "list_all is_digit (show_long w)" by (simp_all add: s show_nat_digits)
  have "nat (sint w) < 2 ^ 63" using sint_lt [of w] assms by (simp add: nat_less_iff)
  moreover have "word_of_nat (nat (sint w)) = w" using assms by (simp add: of_nat_nat)
  ultimately show "long_of_digits (show_long w) = Inr w" by (simp add: long_of_digits_def s)
qed

lemma digits_plain: "list_all is_digit ds \<Longrightarrow> CHR ''.'' \<notin> set ds \<and> CHR ''_'' \<notin> set ds \<and> CHR ''-'' \<notin> set ds \<and> (\<forall>d\<in>set ds. \<not> word_sep d)"
  by (auto simp: list_all_iff is_digit_def word_sep_def)

lemma digits_hd: "list_all is_digit ds \<Longrightarrow> ds \<noteq> [] \<Longrightarrow> hd ds \<notin> {CHR ''i'', CHR ''m''}"
  by (cases ds) (auto simp: is_digit_def)

lemma strip_none_hd: "hd y \<notin> {CHR ''i'', CHR ''m''} \<Longrightarrow> y \<noteq> [] \<Longrightarrow> strip_prefix (c # y) = None"
proof (rule ccontr)
  assume y: "hd y \<notin> {CHR ''i'', CHR ''m''}" "y \<noteq> []" and "strip_prefix (c # y) \<noteq> None"
  then obtain x t where "c # y = CHR ''.'' # prefix_value x @ t" using strip_prefix_text by fastforce
  then show False using y prefix_value_plain(3,4) [of x] by (cases x) auto
qed

lemma rests_need_prefix:
  assumes "strip_prefix t = None"
  shows "incarnation_rest t = None" and "ephemeral_rest t = None" and "simplified_rest t = None"
  using assms by (simp_all add: incarnation_rest_def ephemeral_rest_def simplified_rest_def instance_part_def)

lemma strip_none_dot: "t = [] \<or> hd t \<noteq> CHR ''.'' \<Longrightarrow> strip_prefix t = None"
  using strip_prefix_text [of t] by (cases "strip_prefix t") auto

text \<open>A container name is never taken for the prefix of an instance.\<close>

lemma container_no_instance:
  assumes "container_ok c" and "rest = [] \<or> (hd rest = CHR ''.'' \<and> list_all is_digit (tl rest))"
  shows "incarnation_rest (CHR ''.'' # container_text c @ rest) = None"
    and "rest = [] \<Longrightarrow> ephemeral_rest (CHR ''.'' # container_text c @ rest) = None"
proof -
  let ?t = "CHR ''.'' # container_text c @ rest"
  have "incarnation_rest ?t = None \<and> (rest = [] \<longrightarrow> ephemeral_rest ?t = None)"
  proof (cases "strip_prefix ?t")
    case None
    then show ?thesis using rests_need_prefix [OF None] by auto
  next
    case (Some r)
    obtain x t where r: "r = (x, t)" by (cases r)
    have "container_text c @ rest = prefix_value x @ t" using strip_prefix_text [OF Some [unfolded r]] by simp
    then obtain us where us: "container_text c @ us = prefix_value x \<and> rest = us @ t \<or> container_text c = prefix_value x @ us \<and> us @ rest = t"
      by (auto simp: append_eq_append_conv2)
    have "\<not> (container_text c @ us = prefix_value x \<and> rest = us @ t \<and> us \<noteq> [])"
    proof
      assume *: "container_text c @ us = prefix_value x \<and> rest = us @ t \<and> us \<noteq> []"
      then have "CHR ''.'' \<notin> set us" using prefix_value_plain(1) [of x] by (metis Un_iff set_append)
      then show False using * assms(2) by (cases us) auto
    qed
    then obtain v where v: "container_text c = prefix_value x @ v" "t = v @ rest" using us by fastforce
    have plain: "\<forall>d\<in>set v. \<not> word_sep d" using container_text_plain(4) [OF assms(1) v(1)] .
    show ?thesis
    proof (cases "v = []")
      case True
      then have "run_of (\<lambda>c. \<not> word_sep c) t = None" using assms(2) v(2) by (cases rest) (auto simp: run_of_def word_sep_def)
      then show ?thesis using Some r
        by (cases rest) (auto simp: incarnation_rest_def ephemeral_rest_def instance_part_def)
    next
      case False
      have run: "run_of (\<lambda>c. \<not> word_sep c) t = Some (v, rest)"
        unfolding v(2) using False plain assms(2) by (intro run_of_all) (auto simp: word_sep_def)
      show ?thesis
      proof (cases rest)
        case Nil
        then show ?thesis using Some r run by (simp add: incarnation_rest_def ephemeral_rest_def instance_part_def)
      next
        case (Cons d ds)
        then have "CHR ''.'' \<notin> set ds" using assms(2) digits_plain [of ds] by simp
        then have "run_of (\<lambda>c. c \<noteq> CHR ''.'') ds = (if ds = [] then None else Some (ds, []))"
          using run_of_all [of ds "\<lambda>c. c \<noteq> CHR ''.''" "[]"] by (auto simp: run_of_def)
        then show ?thesis using Some r run Cons by (simp add: incarnation_rest_def instance_part_def attempt_part_def)
      qed
    qed
  qed
  then show "incarnation_rest ?t = None" "rest = [] \<Longrightarrow> ephemeral_rest ?t = None" by simp_all
qed

lemma incarnation_read:
  fixes x :: id_prefix and u :: uuid
  assumes "container_ok c" and "list_all is_digit ds" and "ds \<noteq> []"
  defines "b \<equiv> CHR ''.'' # prefix_value x @ uuid_toString u @ CHR ''.'' # container_text c @ CHR ''.'' # ds"
  shows "incarnation_rest b = Some (x, uuid_toString u, container_text c, ds)"
    and "strict_suffix t b \<Longrightarrow> incarnation_rest t = None"
proof -
  have "instance_part b = Some (x, uuid_toString u, container_text c, CHR ''.'' # ds)"
    unfolding b_def using container_text_plain [OF assms(1)] uuid_text_plain(5) [of u]
    by (intro instance_part_here) (auto simp: word_sep_def)
  then show "incarnation_rest b = Some (x, uuid_toString u, container_text c, ds)"
    using assms(2,3) by (simp add: incarnation_rest_def attempt_part_def)
  assume "strict_suffix t b"
  then have suf: "suffix t (prefix_value x @ uuid_toString u @ CHR ''.'' # container_text c @ CHR ''.'' # ds)"
    by (simp add: b_def strict_suffix_Cons)
  show "incarnation_rest t = None"
  proof (cases "t = [] \<or> hd t \<noteq> CHR ''.''")
    case True
    then show ?thesis by (simp add: strip_none_dot rests_need_prefix)
  next
    case False
    then obtain t' where t: "t = CHR ''.'' # t'" by (cases t) auto
    have "suffix (CHR ''.'' # t') (CHR ''.'' # container_text c @ CHR ''.'' # ds)"
      by (rule suffix_after [OF suffix_after [OF suf [unfolded t] prefix_value_plain(1)] uuid_text_plain(1)])
    then consider "t' = container_text c @ CHR ''.'' # ds" | "suffix (CHR ''.'' # t') (container_text c @ CHR ''.'' # ds)"
      unfolding suffix_Cons by blast
    then consider "t' = container_text c @ CHR ''.'' # ds" | "t' = ds"
      using suffix_at [of "CHR ''.''" t' "container_text c" ds] digits_plain [OF assms(2)] container_text_plain(2) [OF assms(1)]
      by blast
    then show ?thesis
    proof cases
      case 1
      then show ?thesis using container_no_instance(1) [OF assms(1), of "CHR ''.'' # ds"] assms(2) by (simp add: t)
    next
      case 2
      then show ?thesis using digits_hd [OF assms(2,3)] assms(3) by (simp add: t strip_none_hd rests_need_prefix)
    qed
  qed
qed

lemma ephemeral_read:
  fixes x :: id_prefix and u :: uuid
  assumes "container_ok c"
  defines "b \<equiv> CHR ''.'' # prefix_value x @ uuid_toString u @ CHR ''.'' # container_text c"
  shows "ephemeral_rest b = Some (x, uuid_toString u, container_text c)"
    and "strict_suffix t b \<Longrightarrow> ephemeral_rest t = None"
proof -
  have "instance_part b = Some (x, uuid_toString u, container_text c, [])"
    using instance_part_here [of "uuid_toString u" "CHR ''.''" "container_text c" "[]" x]
      container_text_plain [OF assms(1)] uuid_text_plain(5) [of u]
    by (simp add: b_def word_sep_def)
  then show "ephemeral_rest b = Some (x, uuid_toString u, container_text c)"
    by (simp add: ephemeral_rest_def)
  assume "strict_suffix t b"
  then have suf: "suffix t (prefix_value x @ uuid_toString u @ CHR ''.'' # container_text c)"
    by (simp add: b_def strict_suffix_Cons)
  show "ephemeral_rest t = None"
  proof (cases "t = [] \<or> hd t \<noteq> CHR ''.''")
    case True
    then show ?thesis by (simp add: strip_none_dot rests_need_prefix)
  next
    case False
    then obtain t' where t: "t = CHR ''.'' # t'" by (cases t) auto
    have "suffix (CHR ''.'' # t') (uuid_toString u @ CHR ''.'' # container_text c)"
      by (rule suffix_after [OF suf [unfolded t] prefix_value_plain(1)])
    then have "t' = container_text c"
      by (rule suffix_at [OF _ uuid_text_plain(1) container_text_plain(2) [OF assms(1)]])
    then show ?thesis using container_no_instance(2) [OF assms(1), of "[]"] by (simp add: t)
  qed
qed

text \<open>A text that ends with something else than a number has no attempt.\<close>

lemma attempt_at_end:
  assumes "attempt_part r = Some ds" and "suffix r (a @ sep # u)" and "word_sep sep" and "\<forall>d\<in>set u. \<not> word_sep d"
  shows "list_all is_digit u"
proof -
  have ds: "r = CHR ''.'' # ds" "list_all is_digit ds" using assms(1) by (auto simp: attempt_part_text)
  obtain y where "a @ sep # u = y @ CHR ''.'' # ds" using assms(2) ds(1) by (auto simp: suffix_def)
  then have "u = ds"
    using last_piece [of a sep u y "CHR ''.''" ds word_sep] assms(3,4) digits_plain [OF ds(2)] by (simp add: word_sep_def)
  then show ?thesis using ds(2) by simp
qed

lemma no_attempt:
  assumes "word_sep sep" and "\<forall>d\<in>set u. \<not> word_sep d" and "\<not> list_all is_digit u" and "suffix t (a @ sep # u)"
  shows "incarnation_rest t = None" and "resident_rest t = None"
proof -
  have none: "attempt_part r = None" if "suffix r t" for r
    using attempt_at_end [of r _ a sep u] that assms suffix_order.trans [of r t "a @ sep # u"]
    by (cases "attempt_part r") auto
  show "incarnation_rest t = None"
  proof (cases "instance_part t")
    case (Some v)
    obtain x u' c rest where v: "v = (x, u', c, rest)" by (cases v)
    obtain w where w: "strip_prefix t = Some (x, w)" "suffix rest w" using instance_part_text [OF Some [unfolded v]] by auto
    have "suffix w t" using strip_prefix_text [OF w(1)] by (simp add: suffix_def)
    then have "suffix rest t" using w(2) by (metis suffix_order.trans)
    then show ?thesis by (simp add: incarnation_rest_def Some v none)
  qed (simp add: incarnation_rest_def)
  show "resident_rest t = None"
  proof (cases "legacy_part t")
    case (Some v)
    obtain s' u' rest where v: "v = (s', u', rest)" by (cases v)
    have "suffix rest t"
      using Some v run_of_rest by (fastforce simp: legacy_part_def suffix_def split: list.splits if_splits option.splits)
    then show ?thesis by (simp add: resident_rest_def Some v none)
  qed (simp add: resident_rest_def)
qed

text \<open>The texts of the time before instances, of run specs that do not look like an instance.\<close>

lemma contains_in_suffix: "contains q s \<longleftrightarrow> (\<exists>y. suffix y s \<and> prefix q y)"
proof (induction s)
  case (Cons c s)
  show ?case
  proof (cases "prefix q (c # s)")
    case True
    then show ?thesis by (auto simp: contains_def)
  next
    case False
    then have "contains q (c # s) \<longleftrightarrow> contains q s" by (simp add: contains_def)
    then show ?thesis using Cons False by (auto simp: suffix_Cons)
  qed
qed (auto simp: contains_def)

lemma unmarked_no_prefix:
  assumes "unmarked p" and "sep \<in> {CHR ''.'', CHR ''_''}" and "hd y \<notin> {CHR ''i'', CHR ''m''}" and "y \<noteq> []"
    and "\<And>t. suffix t y \<Longrightarrow> strip_prefix t = None" and "suffix t (safe_form p @ sep # y)"
  shows "strip_prefix t = None"
proof (rule ccontr)
  assume "strip_prefix t \<noteq> None"
  then obtain x w where t: "t = CHR ''.'' # prefix_value x @ w" using strip_prefix_text by fastforce
  obtain z where z: "safe_form p @ sep # y = z @ t" using assms(6) by (auto simp: suffix_def)
  then obtain us where "safe_form p = z @ us \<and> us @ sep # y = t \<or> safe_form p @ us = z \<and> sep # y = us @ t"
    by (auto simp: append_eq_append_conv2)
  then show False
  proof
    assume a: "safe_form p = z @ us \<and> us @ sep # y = t"
    show False
    proof (cases us)
      case Nil
      then have "y = prefix_value x @ w" using a t by simp
      then show False using assms(3) prefix_value_plain(3,4) [of x] by (cases "prefix_value x") auto
    next
      case (Cons d us')
      then have e: "us' @ sep # y = prefix_value x @ w" and d: "d = CHR ''.''" using a t by auto
      have "sep \<notin> set (prefix_value x)" using assms(2) prefix_value_plain(1,2) [of x] by auto
      moreover obtain vs where "us' @ vs = prefix_value x \<and> sep # y = vs @ w \<or> us' = prefix_value x @ vs \<and> vs @ sep # y = w"
        using e by (auto simp: append_eq_append_conv2)
      ultimately have "prefix (prefix_value x) us'"
        by (cases vs) (auto dest: arg_cong [where f = "\<lambda>l. sep \<in> set l"])
      then have "contains (CHR ''.'' # prefix_value x) (safe_form p)"
        unfolding contains_in_suffix using a Cons d by (intro exI [of _ us]) (auto simp: suffix_def)
      then show False using assms(1) by (cases x) (simp_all add: unmarked_def)
    qed
  next
    assume a: "safe_form p @ us = z \<and> sep # y = us @ t"
    show False
    proof (cases us)
      case Nil
      then have "y = prefix_value x @ w" using a t by simp
      then show False using assms(3) prefix_value_plain(3,4) [of x] by (cases "prefix_value x") auto
    next
      case (Cons d us')
      then have "suffix t y" using a by (auto simp: suffix_def)
      then have "strip_prefix t = None" by (rule assms(5))
      then show False using \<open>strip_prefix t \<noteq> None\<close> by simp
    qed
  qed
qed

lemma no_prefix_in_pieces:
  assumes "CHR ''.'' \<notin> set y" and "rest = [] \<or> (\<exists>ds. rest = CHR ''.'' # ds \<and> ds \<noteq> [] \<and> list_all is_digit ds)"
    and "suffix t (y @ rest)"
  shows "strip_prefix t = None"
proof (cases "t = [] \<or> hd t \<noteq> CHR ''.''")
  case True
  then show ?thesis by (rule strip_none_dot)
next
  case False
  then obtain t' where t: "t = CHR ''.'' # t'" by (cases t) auto
  have suf: "suffix (CHR ''.'' # t') rest" by (rule suffix_after [OF assms(3) [unfolded t] assms(1)])
  then obtain ds where ds: "rest = CHR ''.'' # ds" "ds \<noteq> []" "list_all is_digit ds" using assms(2) by auto
  have "t' = ds" using suffix_at [of "CHR ''.''" t' "[]" ds] suf ds(1) digits_plain [OF ds(3)] by simp
  then show ?thesis using digits_hd [OF ds(3,2)] ds(2) by (simp add: t strip_none_hd)
qed

lemma legacy_no_prefix:
  assumes "unmarked p" and "sep \<in> {CHR ''.'', CHR ''_''}"
    and "rest = [] \<or> (\<exists>ds. rest = CHR ''.'' # ds \<and> ds \<noteq> [] \<and> list_all is_digit ds)"
    and "suffix t (safe_form p @ sep # uuid_toString u @ rest)"
  shows "strip_prefix t = None"
proof (rule unmarked_no_prefix [OF assms(1,2) _ _ _ assms(4)])
  show "hd (uuid_toString u @ rest) \<notin> {CHR ''i'', CHR ''m''}" using uuid_text_plain(4) [of u] by simp
  show "uuid_toString u @ rest \<noteq> []" by simp
  show "strip_prefix t' = None" if "suffix t' (uuid_toString u @ rest)" for t'
    using no_prefix_in_pieces [OF uuid_text_plain(1) assms(3) that] .
qed

lemma legacy_part_here:
  assumes "word_sep sep" and "rest = [] \<or> hd rest = CHR ''.''"
  shows "legacy_part (sep # uuid_toString u @ rest) = Some (sep, uuid_toString u, rest)"
proof -
  have "run_of (\<lambda>c. \<not> word_sep c) (uuid_toString u @ rest) = Some (uuid_toString u, rest)"
    using assms(2) uuid_text_plain(5) [of u] by (intro run_of_all) (auto simp: word_sep_def)
  then show ?thesis using assms(1) by (simp add: legacy_part_def)
qed

lemma legacy_part_none: "\<forall>c\<in>set t. \<not> word_sep c \<Longrightarrow> legacy_part t = None"
  by (cases t) (auto simp: legacy_part_def)

lemma legacy_read:
  assumes "word_sep sep"
  shows "legacy_rest (sep # uuid_toString u) = Some (sep, uuid_toString u)"
    and "strict_suffix t (sep # uuid_toString u) \<Longrightarrow> legacy_rest t = None"
proof -
  show "legacy_rest (sep # uuid_toString u) = Some (sep, uuid_toString u)"
    using legacy_part_here [OF assms, of "[]" u] by (simp add: legacy_rest_def)
  assume "strict_suffix t (sep # uuid_toString u)"
  then have "\<forall>c\<in>set t. \<not> word_sep c"
    using uuid_text_plain(5) [of u] by (auto simp: strict_suffix_Cons dest: set_mono_suffix)
  then show "legacy_rest t = None" by (simp add: legacy_rest_def legacy_part_none)
qed

lemma resident_read:
  fixes u :: uuid
  assumes "word_sep sep" and "list_all is_digit ds" and "ds \<noteq> []"
  defines "b \<equiv> sep # uuid_toString u @ CHR ''.'' # ds"
  shows "resident_rest b = Some (sep, uuid_toString u, ds)" and "strict_suffix t b \<Longrightarrow> resident_rest t = None"
proof -
  show "resident_rest b = Some (sep, uuid_toString u, ds)"
    using legacy_part_here [OF assms(1), of "CHR ''.'' # ds" u] assms(2,3)
    by (simp add: b_def resident_rest_def attempt_part_def)
  assume "strict_suffix t b"
  then have suf: "suffix t (uuid_toString u @ CHR ''.'' # ds)" by (simp add: b_def strict_suffix_Cons)
  note plain = digits_plain [OF assms(2)]
  show "resident_rest t = None"
  proof (cases "t \<noteq> [] \<and> word_sep (hd t)")
    case True
    then obtain c t' where t: "t = c # t'" "word_sep c" by (cases t) auto
    have "c \<notin> set (uuid_toString u)" using uuid_text_plain(5) [of u] t(2) by auto
    then have "suffix (c # t') (CHR ''.'' # ds)" by (rule suffix_after [OF suf [unfolded t(1)]])
    then consider "t' = ds" | "suffix (c # t') ds" unfolding suffix_Cons by blast
    then have "t' = ds"
    proof cases
      case 2
      then have "c \<in> set ds" by (metis list.set_intros(1) set_mono_suffix subsetD)
      then show ?thesis using plain t(2) by blast
    qed
    moreover have "run_of (\<lambda>c. \<not> word_sep c) ds = Some (ds, [])"
      using run_of_all [of ds "\<lambda>c. \<not> word_sep c" "[]"] plain assms(3) by simp
    ultimately show ?thesis using t(2) by (simp add: t(1) resident_rest_def legacy_part_def attempt_part_def)
  next
    case False
    then show ?thesis by (cases t) (auto simp: resident_rest_def legacy_part_def)
  qed
qed

lemma simplified_read:
  shows "simplified_rest (CHR ''.'' # prefix_value x @ uuid_toString u) = Some (x, uuid_toString u)"
    and "strict_suffix t (CHR ''.'' # prefix_value x @ uuid_toString u) \<Longrightarrow> simplified_rest t = None"
proof -
  show "simplified_rest (CHR ''.'' # prefix_value x @ uuid_toString u) = Some (x, uuid_toString u)"
    using uuid_text_plain(1) [of u] by (simp add: simplified_rest_def strip_prefix_here)
  assume "strict_suffix t (CHR ''.'' # prefix_value x @ uuid_toString u)"
  then have "set t \<subseteq> set (prefix_value x @ uuid_toString u)" unfolding strict_suffix_Cons by (rule set_mono_suffix)
  then have "CHR ''.'' \<notin> set t" using prefix_value_plain(1) [of x] uuid_text_plain(1) [of u] by auto
  then show "simplified_rest t = None" by (cases t) (auto intro!: rests_need_prefix strip_none_dot)
qed

section \<open>Round trips\<close>

lemma parse_incarnation:
  assumes "task_id_ok (TaskIdWithIncarnation i c attempt)"
  shows "task_id_parse (task_idString (TaskIdWithIncarnation i c attempt)) = Inr (TaskIdWithIncarnation i c attempt)"
proof -
  obtain p x u where i: "i = InstanceId p x u" by (cases i)
  have p: "runspec_ok p" and c: "container_ok c" and n: "0 \<le> sint attempt" using assms by (auto simp: i)
  note sf = safe_form_facts [OF p] and ds = show_long_digits [OF n]
  have "greedy incarnation_rest (task_idString (TaskIdWithIncarnation i c attempt))
      = Some (safe_form p, x, uuid_toString u, container_text c, show_long attempt)"
    using greedy_here [where p = incarnation_rest, OF sf(1,2) incarnation_read(1) [OF c ds(2,1)] incarnation_read(2) [OF c ds(2,1)], of x u] by (simp add: i)
  then show ?thesis
    by (simp add: task_id_parse_def sf(3) ds(3) container_text_plain(3) [OF c] i)
qed

lemma parse_ephemeral:
  assumes "task_id_ok (EphemeralTaskId i c)"
  shows "task_id_parse (task_idString (EphemeralTaskId i c)) = Inr (EphemeralTaskId i c)"
proof -
  obtain p x u where i: "i = InstanceId p x u" by (cases i)
  have p: "runspec_ok p" and c: "container_ok c" and n: "\<not> list_all is_digit (container_text c)" using assms by (auto simp: i)
  note sf = safe_form_facts [OF p]
  let ?s = "task_idString (EphemeralTaskId i c)"
  have s: "?s = safe_form p @ CHR ''.'' # prefix_value x @ uuid_toString u @ CHR ''.'' # container_text c" by (simp add: i)
  have "greedy ephemeral_rest ?s = Some (safe_form p, x, uuid_toString u, container_text c)"
    unfolding s by (rule greedy_here [where p = ephemeral_rest, OF sf(1,2) ephemeral_read(1) [OF c] ephemeral_read(2) [OF c]])
  moreover have "greedy incarnation_rest ?s = None"
  proof (rule greedy_none)
    fix t assume suf: "suffix t ?s"
    obtain a sep v where v: "?s = a @ sep # v" "word_sep sep" "\<forall>d\<in>set v. \<not> word_sep d" "\<not> list_all is_digit v"
    proof (cases c)
      case None
      then show thesis using that [of "safe_form p @ CHR ''.'' # prefix_value x @ uuid_toString u @ ''.''" "CHR ''_''" "''app''"]
        by (simp add: i container_text_def anonymousContainer_def word_sep_def is_digit_def)
    next
      case (Some m)
      then show thesis using that [of "safe_form p @ CHR ''.'' # prefix_value x @ uuid_toString u" "CHR ''.''" m] c n
        by (auto simp: i container_text_def container_ok_def word_sep_def)
    qed
    show "incarnation_rest t = None" using no_attempt(1) [OF v(2-4)] suf v(1) by simp
  qed
  ultimately show ?thesis by (simp add: task_id_parse_def sf(3) container_text_plain(3) [OF c] i)
qed

lemma legacy_sep: "sep \<in> {''.'', ''_''} \<Longrightarrow> \<exists>s. sep = [s] \<and> s \<in> {CHR ''.'', CHR ''_''} \<and> word_sep s"
  by (auto simp: word_sep_def)

lemma parse_resident:
  assumes "task_id_ok (LegacyResidentId p sep u attempt)"
  shows "task_id_parse (task_idString (LegacyResidentId p sep u attempt)) = Inr (LegacyResidentId p sep u attempt)"
proof -
  have p: "runspec_ok p" "unmarked p" and n: "0 \<le> sint attempt" using assms by auto
  obtain s where s: "sep = [s]" "s \<in> {CHR ''.'', CHR ''_''}" "word_sep s" using assms legacy_sep by auto
  note sf = safe_form_facts [OF p(1)] and ds = show_long_digits [OF n]
  let ?s = "task_idString (LegacyResidentId p sep u attempt)"
  have form: "?s = safe_form p @ s # uuid_toString u @ CHR ''.'' # show_long attempt" by (simp add: s)
  have "greedy resident_rest ?s = Some (safe_form p, s, uuid_toString u, show_long attempt)"
    unfolding form
    by (rule greedy_here [where p = resident_rest, OF sf(1,2) resident_read(1) [OF s(3) ds(2,1)] resident_read(2) [OF s(3) ds(2,1)]])
  moreover have none: "strip_prefix t = None" if "suffix t ?s" for t
    using legacy_no_prefix [OF p(2) s(2), of "CHR ''.'' # show_long attempt" t u] that ds(1,2) unfolding form by simp
  then have "greedy incarnation_rest ?s = None" "greedy ephemeral_rest ?s = None"
    by (auto intro!: greedy_none rests_need_prefix)
  ultimately show ?thesis by (simp add: task_id_parse_def sf(3) ds(3) s(1))
qed

lemma greedy_legacy:
  fixes u :: uuid
  assumes "runspec_ok p" and "unmarked p" and "s \<in> {CHR ''.'', CHR ''_''}" and "word_sep s"
  defines "form \<equiv> safe_form p @ s # uuid_toString u"
  shows "greedy legacy_rest form = Some (safe_form p, s, uuid_toString u)" and "greedy incarnation_rest form = None"
    and "greedy ephemeral_rest form = None" and "greedy simplified_rest form = None" and "greedy resident_rest form = None"
proof -
  note sf = safe_form_facts [OF assms(1)]
  show "greedy legacy_rest form = Some (safe_form p, s, uuid_toString u)"
    unfolding form_def
    by (rule greedy_here [where p = legacy_rest, OF sf(1,2) legacy_read(1) [OF assms(4)] legacy_read(2) [OF assms(4)]])
  have none: "strip_prefix t = None" if "suffix t form" for t
    using legacy_no_prefix [OF assms(2,3), of "[]" t u] that by (simp add: form_def)
  then show "greedy incarnation_rest form = None" "greedy ephemeral_rest form = None" "greedy simplified_rest form = None"
    by (auto intro!: greedy_none rests_need_prefix)
  have "\<not> list_all is_digit (uuid_toString u)" using uuid_text_plain(3) [of u] digits_plain by blast
  then show "greedy resident_rest form = None"
    using no_attempt(2) [OF assms(4) uuid_text_plain(5)] unfolding form_def by (intro greedy_none) blast
qed

lemma parse_legacy:
  assumes "task_id_ok (LegacyId p sep u)"
  shows "task_id_parse (task_idString (LegacyId p sep u)) = Inr (LegacyId p sep u)"
proof -
  have p: "runspec_ok p" "unmarked p" using assms by auto
  obtain s where s: "sep = [s]" "s \<in> {CHR ''.'', CHR ''_''}" "word_sep s" using assms legacy_sep by auto
  show ?thesis using greedy_legacy [OF p s(2,3), of u] safe_form_facts(3) [OF p(1)] by (simp add: task_id_parse_def s(1))
qed

lemma greedy_simplified:
  assumes "runspec_ok p"
  shows "greedy simplified_rest (instance_idString (InstanceId p x u)) = Some (safe_form p, x, uuid_toString u)"
  using greedy_here [where p = simplified_rest, OF safe_form_facts(1,2) [OF assms] simplified_read(1) simplified_read(2), of x u]
  by simp



text \<open>
  An instance id is recovered from its text, and so is the id of a reservation, of the old and of the new kind,
  and the instance it is for.
\<close>

theorem instance_id_recovered:
  assumes "runspec_ok (instance_runSpecId i)" and "reservation_id_ok r"
  shows "instance_fromIdString (instance_idString i) = Inr i \<and> reservation_parse (reservation_label r) = Inr r"
proof
  obtain p x u where i: "i = InstanceId p x u" by (cases i)
  show "instance_fromIdString (instance_idString i) = Inr i"
    using assms(1) safe_form_facts(3) [of p] greedy_simplified [of p x u] unfolding i by (simp add: instance_fromIdString_def)
  show "reservation_parse (reservation_label r) = Inr r"
  proof (cases r)
    case (SimplifiedId j)
    obtain q y v where j: "j = InstanceId q y v" by (cases j)
    show ?thesis
      using assms(2) safe_form_facts(3) [of q] greedy_simplified [of q y v] unfolding SimplifiedId j by (simp add: reservation_parse_def)
  next
    case (ReservationLegacyId p sep u)
    then have p: "runspec_ok p" "unmarked p" and "sep \<in> {''.'', ''_''}" using assms(2) by auto
    then obtain s where s: "sep = [s]" "s \<in> {CHR ''.'', CHR ''_''}" "word_sep s" using legacy_sep by blast
    show ?thesis using greedy_legacy [OF p s(2,3), of u] safe_form_facts(3) [OF p(1)]
      by (simp add: ReservationLegacyId reservation_parse_def s(1))
  qed
qed

end
