(* ===== verification/DeploymentManager.thy ===== *)
theory DeploymentManager
  imports Deployment TaskIds
begin

text \<open>
  Which deployments run (\<open>DeploymentManagerActor\<close>): a new deployment is marked as scheduled, stored and launched;
  one that affects a run spec of another is refused, or, if it is forced, cancels the others first. The operations
  of the repository and of other actors end later, each with a message to the manager. And the locks that keep scaling
  away from run specs that are being deployed (\<open>MarathonSchedulerActor\<close>).
\<close>

section \<open>Plans and messages\<close>

text \<open>Of an action the manager reads the id of its run spec; the rest is whatever the actors of the deployment need.\<close>

type_synonym 'x step = "(path_id \<times> 'x) list"

record 'x plan =
  pl_id :: string
  pl_steps :: "'x step list"

definition plan_of_steps :: "string \<Rightarrow> ('c, 'o, 'i) action list list \<Rightarrow> ('c, 'o, 'i) action plan" where
  "plan_of_steps pid steps = \<lparr>pl_id = pid, pl_steps = map (map (\<lambda>a. (rs_id (action_spec a), a))) steps\<rparr>"

definition affectedRunSpecIds :: "'x plan \<Rightarrow> path_id list" where
  "affectedRunSpecIds p = remdups (concat (map (map fst) (pl_steps p)))"

definition intersectsWith :: "'x plan \<Rightarrow> 'x plan \<Rightarrow> bool" where
  "intersectsWith p q \<longleftrightarrow> list_ex (\<lambda>k. k \<in> set (affectedRunSpecIds q)) (affectedRunSpecIds p)"

datatype deployment_status = StatusScheduled | StatusCanceling | StatusDeploying

text \<open>
  The actor of a deployment has the id of the plan as its name. The future of a cancellation is completed when
  that actor has stopped, so it is given by its name too, and the promise of a deployment by the id of the plan.
\<close>

record 'x deployment_info =
  di_ref :: "string option"
  di_plan :: "'x plan"
  di_status :: deployment_status
  di_cancel :: "string option"

record readiness_result =
  rr_name :: string
  rr_taskId :: task_id
  rr_ready :: bool
  rr_lastResponse :: "(int \<times> string \<times> string) option"

record 'x step_info =
  si_plan :: "'x plan"
  si_step :: "'x step"
  si_stepIndex :: int
  si_readinessChecks :: "(task_id \<times> readiness_result) list"

datatype deployment_outcome = Succeeded | DeploymentCanceled | Failed_with string | AppLocked "string list"

datatype 'x manager_message =
    StartDeployment "'x plan" "string option" bool
  | CancelDeployment "'x plan"
  | ListRunningDeployments
  | WaitForCanceledConflicts "'x plan" "'x deployment_info list"
  | CancelDeletedConflicts "'x plan" "'x deployment_info list" "string option"
  | DeploymentFinished "'x plan" deployment_outcome
  | StepInfo "'x step_info"
  | ReadinessCheckUpdate string readiness_result
  | LaunchDeployment "'x plan"
  | FailedRepositoryOperation "'x plan" string

text \<open>The future the sender is answered with: the promise of a deployment, the end of an actor, or one that is complete.\<close>

datatype 'x answer = PromiseOf string | Stopped string | DoneAlready | FailedAlready deployment_outcome | InvalidDeployment | Running "'x step_info list"

text \<open>
  What the manager starts. \<open>StoreThen\<close> stores a plan; when that has succeeded \<open>DeploymentStarted\<close> goes to the original sender
  and the message to the manager, when it has failed \<open>FailedRepositoryOperation\<close>. \<open>DeleteThen\<close> deletes plans likewise,
  and \<open>AwaitThen\<close> waits until the named actors have stopped.
\<close>

datatype 'x manager_output =
    StoreThen "'x plan" "string option" "'x manager_message"
  | DeleteThen "string list" "'x plan" "'x manager_message"
  | AwaitThen "string list" "'x manager_message"
  | DeletePlan string
  | Spawn "'x plan"
  | StopWith string deployment_outcome
  | Complete string deployment_outcome
  | TellFailed string "'x plan" "string list"
  | Answer "'x answer"

record 'x manager =
  dm_running :: "(string \<times> 'x deployment_info) list"
  dm_status :: "(string \<times> 'x step_info) list"
  dm_active :: int
  dm_total :: int

datatype manager_error = NoSuchElement | NullPointer

section \<open>The manager\<close>

definition isScheduledDeployment :: "string \<Rightarrow> 'x manager \<Rightarrow> bool" where
  "isScheduledDeployment pid m \<longleftrightarrow> (case map_of (dm_running m) pid of None \<Rightarrow> False | Some i \<Rightarrow> di_status i = StatusScheduled)"

definition conflictingDeployments :: "'x plan \<Rightarrow> 'x manager \<Rightarrow> 'x deployment_info list" where
  "conflictingDeployments p m = filter (\<lambda>i. intersectsWith (di_plan i) p) (map snd (dm_running m))"

definition plan_ids :: "'x deployment_info list \<Rightarrow> string list" where
  "plan_ids is = map (\<lambda>i. pl_id (di_plan i)) is"

definition markScheduled :: "'x plan \<Rightarrow> 'x manager \<Rightarrow> 'x manager" where
  "markScheduled p m = m\<lparr>dm_active := dm_active m + 1, dm_total := dm_total m + 1,
     dm_running := AList.update (pl_id p) \<lparr>di_ref = None, di_plan = p, di_status = StatusScheduled, di_cancel = None\<rparr> (dm_running m)\<rparr>"

definition forget :: "string \<Rightarrow> 'x manager \<Rightarrow> 'x manager" where
  "forget pid m = m\<lparr>dm_active := dm_active m - 1, dm_running := AList.delete pid (dm_running m)\<rparr>"

definition startDeployment :: "'x deployment_info \<Rightarrow> 'x manager \<Rightarrow> 'x manager \<times> 'x manager_output list" where
  "startDeployment i m =
     (let p = di_plan i
      in (m\<lparr>dm_running := AList.update (pl_id p) (i\<lparr>di_ref := Some (pl_id p), di_status := StatusDeploying\<rparr>) (dm_running m),
            dm_status := AList.update (pl_id p) \<lparr>si_plan = p, si_step = [], si_stepIndex = 0, si_readinessChecks = []\<rparr> (dm_status m)\<rparr>,
          [Spawn p]))"

text \<open>\<open>runningDeployments(id)\<close> and \<open>info.ref.get\<close> throw when there is nothing.\<close>

definition stopDeployment :: "string \<Rightarrow> 'x manager \<Rightarrow> manager_error + 'x manager \<times> 'x manager_output list" where
  "stopDeployment pid m =
     (case map_of (dm_running m) pid of
        None \<Rightarrow> Inl NoSuchElement
      | Some i \<Rightarrow>
          (case di_ref i of
             None \<Rightarrow> Inl NoSuchElement
           | Some ref \<Rightarrow> Inr (m\<lparr>dm_running := AList.update pid (i\<lparr>di_status := StatusCanceling, di_cancel := Some ref\<rparr>) (dm_running m)\<rparr>,
               [StopWith ref DeploymentCanceled])))"

definition cancelDeployment :: "string \<Rightarrow> 'x manager \<Rightarrow> manager_error + 'x manager \<times> 'x manager_output list" where
  "cancelDeployment pid m =
     (case map_of (dm_running m) pid of
        None \<Rightarrow> Inr (m, [Answer (FailedAlready DeploymentCanceled)])
      | Some i \<Rightarrow>
          (if di_status i = StatusScheduled then
             Inr ((forget pid m)\<lparr>dm_status := AList.delete pid (dm_status m)\<rparr>, [Complete pid DeploymentCanceled, Answer DoneAlready])
           else if di_status i = StatusDeploying \<and> di_ref i \<noteq> None then
             rbind (stopDeployment pid m) (\<lambda>(m', out). Inr (m', out @ [Answer (Stopped (the (di_ref i)))]))
           else if di_status i = StatusCanceling then Inr (m, [Answer DoneAlready])
           else Inr (m, [Answer InvalidDeployment])))"

definition giveUpConflictingDeployment :: "'x plan \<Rightarrow> string option \<Rightarrow> 'x manager \<Rightarrow> manager_error + 'x manager \<times> 'x manager_output list" where
  "giveUpConflictingDeployment p origSender m =
     (let ids = plan_ids (conflictingDeployments p m)
      in case origSender of
           None \<Rightarrow> Inl NullPointer
         | Some a \<Rightarrow> Inr (m, [TellFailed a p ids, Answer (FailedAlready (AppLocked ids))]))"

definition startNonConflictingDeployment :: "'x plan \<Rightarrow> string option \<Rightarrow> 'x manager \<Rightarrow> 'x manager \<times> 'x manager_output list" where
  "startNonConflictingDeployment p origSender m =
     (markScheduled p m, [StoreThen p origSender (LaunchDeployment p), Answer (PromiseOf (pl_id p))])"

definition startConflictingDeployment :: "'x plan \<Rightarrow> 'x deployment_info list \<Rightarrow> string option \<Rightarrow> 'x manager \<Rightarrow> 'x manager \<times> 'x manager_output list" where
  "startConflictingDeployment p conflicts origSender m =
     (markScheduled p m, [DeleteThen (plan_ids conflicts) p (CancelDeletedConflicts p conflicts origSender), Answer (PromiseOf (pl_id p))])"

definition waitForCanceledConflicts :: "'x plan \<Rightarrow> 'x deployment_info list \<Rightarrow> 'x manager_output list" where
  "waitForCanceledConflicts p conflicts =
     (let toCancel = filter (\<lambda>i. di_status i = StatusCanceling) conflicts
      in [AwaitThen (List.map_filter di_cancel toCancel) (LaunchDeployment p)])"

text \<open>
  One conflict, in the state it was in when the new deployment came in: one that was scheduled is removed, one that was
  deploying is stopped.
\<close>

definition cancel_conflict :: "'x deployment_info \<Rightarrow> 'x manager \<times> 'x manager_output list \<Rightarrow> manager_error + 'x manager \<times> 'x manager_output list" where
  "cancel_conflict i = (\<lambda>(m, out).
     let pid = pl_id (di_plan i)
     in case di_status i of
          StatusScheduled \<Rightarrow>
            Inr ((forget pid m)\<lparr>dm_status := AList.delete pid (dm_status m)\<rparr>,
              out @ (if map_of (dm_running m) pid = None then [] else [Complete pid DeploymentCanceled]))
        | StatusDeploying \<Rightarrow> rbind (stopDeployment pid m) (\<lambda>(m', out'). Inr (m', out @ out'))
        | StatusCanceling \<Rightarrow> Inr (m, out))"

definition cancelDeletedConflicts :: "'x plan \<Rightarrow> 'x deployment_info list \<Rightarrow> string option \<Rightarrow> 'x manager \<Rightarrow> manager_error + 'x manager \<times> 'x manager_output list" where
  "cancelDeletedConflicts p conflicts origSender m =
     rbind (foldR cancel_conflict (filter (\<lambda>i. map_of (dm_running m) (pl_id (di_plan i)) \<noteq> None) conflicts) (m, [])) (\<lambda>(m', out).
       Inr (m', out @ [StoreThen p origSender (WaitForCanceledConflicts p conflicts)]))"

text \<open>A message whose guard fails is left unhandled.\<close>

fun manager_receive :: "'x manager_message \<Rightarrow> 'x manager \<Rightarrow> manager_error + 'x manager \<times> 'x manager_output list" where
  "manager_receive (CancelDeployment p) m = cancelDeployment (pl_id p) m"
| "manager_receive (DeploymentFinished p result) m =
     (let m1 = m\<lparr>dm_active := dm_active m - 1\<rparr>
      in if map_of (dm_running m) (pl_id p) = None then Inr (m1, [])
         else Inr (m1\<lparr>dm_running := AList.delete (pl_id p) (dm_running m), dm_status := AList.delete (pl_id p) (dm_status m)\<rparr>,
           [DeletePlan (pl_id p), Complete (pl_id p) result]))"
| "manager_receive (LaunchDeployment p) m =
     (if isScheduledDeployment (pl_id p) m
      then Inr (startDeployment (the (map_of (dm_running m) (pl_id p))) m) else Inr (m, []))"
| "manager_receive (StepInfo s) m = Inr (m\<lparr>dm_status := AList.update (pl_id (si_plan s)) s (dm_status m)\<rparr>, [])"
| "manager_receive (ReadinessCheckUpdate pid result) m =
     (case map_of (dm_status m) pid of
        None \<Rightarrow> Inr (m, [])
      | Some s \<Rightarrow> Inr (m\<lparr>dm_status := AList.update pid
          (s\<lparr>si_readinessChecks := AList.update (rr_taskId result) result (si_readinessChecks s)\<rparr>) (dm_status m)\<rparr>, []))"
| "manager_receive ListRunningDeployments m = Inr (m, [Answer (Running (map snd (dm_status m)))])"
| "manager_receive (StartDeployment p origSender force) m =
     (let conflicts = conflictingDeployments p m
      in if conflicts = [] then Inr (startNonConflictingDeployment p origSender m)
         else if \<not> force then giveUpConflictingDeployment p origSender m
         else Inr (startConflictingDeployment p conflicts origSender m))"
| "manager_receive (CancelDeletedConflicts p conflicts origSender) m =
     (if isScheduledDeployment (pl_id p) m then cancelDeletedConflicts p conflicts origSender m else Inr (m, []))"
| "manager_receive (WaitForCanceledConflicts p conflicts) m =
     (if isScheduledDeployment (pl_id p) m then Inr (m, waitForCanceledConflicts p conflicts) else Inr (m, []))"
| "manager_receive (FailedRepositoryOperation p reason) m =
     (if isScheduledDeployment (pl_id p) m then Inr (forget (pl_id p) m, [Complete (pl_id p) (Failed_with reason)]) else Inr (m, []))"

definition empty_manager :: "'x manager" where
  "empty_manager = \<lparr>dm_running = [], dm_status = [], dm_active = 0, dm_total = 0\<rparr>"

section \<open>Runs of the manager\<close>

text \<open>
  The message that follows when what the manager started succeeds, and the plan whose deployment fails when it does
  not. Such a message may come at any time later, in any order; that it may come more than once and after a failure makes
  the runs here more than those of the program, never fewer. The ids of plans are unique.
\<close>

fun follow_up :: "'x manager_output \<Rightarrow> 'x manager_message option" where
  "follow_up (StoreThen p a msg) = Some msg"
| "follow_up (DeleteThen ids p msg) = Some msg"
| "follow_up (AwaitThen refs msg) = Some msg"
| "follow_up _ = None"

fun may_fail :: "'x manager_output \<Rightarrow> 'x plan option" where
  "may_fail (StoreThen p a msg) = Some p"
| "may_fail (DeleteThen ids p msg) = Some p"
| "may_fail _ = None"

fun may_come :: "'x manager_output list \<Rightarrow> string list \<Rightarrow> 'x manager_message \<Rightarrow> bool" where
  "may_come outs ids (StartDeployment p origSender force) \<longleftrightarrow> origSender \<noteq> None \<and> pl_id p \<notin> set ids"
| "may_come outs ids (CancelDeployment p) \<longleftrightarrow> True"
| "may_come outs ids ListRunningDeployments \<longleftrightarrow> True"
| "may_come outs ids (DeploymentFinished p result) \<longleftrightarrow> True"
| "may_come outs ids (StepInfo s) \<longleftrightarrow> True"
| "may_come outs ids (ReadinessCheckUpdate pid result) \<longleftrightarrow> True"
| "may_come outs ids (FailedRepositoryOperation p reason) \<longleftrightarrow> Some p \<in> may_fail ` set outs"
| "may_come outs ids msg \<longleftrightarrow> Some msg \<in> follow_up ` set outs"

fun ids_of :: "'x manager_message \<Rightarrow> string list" where
  "ids_of (StartDeployment p origSender force) = [pl_id p]"
| "ids_of _ = []"

text \<open>A run: the manager, all it has started so far, and the ids of the plans it was given, the last one first.\<close>

inductive manager_run :: "'x manager \<Rightarrow> 'x manager_output list \<Rightarrow> string list \<Rightarrow> bool" where
  idle: "manager_run empty_manager [] []"
| message: "manager_run m outs ids \<Longrightarrow> may_come outs ids msg \<Longrightarrow> manager_receive msg m = Inr (m', out) \<Longrightarrow>
    manager_run m' (outs @ out) (ids_of msg @ ids)"

section \<open>The invariant\<close>

abbreviation entry :: "'x manager \<Rightarrow> string \<Rightarrow> 'x deployment_info option" where
  "entry m \<equiv> map_of (dm_running m)"

fun rank :: "deployment_status \<Rightarrow> nat" where
  "rank StatusScheduled = 0" | "rank StatusDeploying = 1" | "rank StatusCanceling = 2"

text \<open>\<open>older ids p q\<close>: \<open>p\<close> was started before \<open>q\<close>.\<close>

fun older :: "string list \<Rightarrow> string \<Rightarrow> string \<Rightarrow> bool" where
  "older [] p q \<longleftrightarrow> False"
| "older (n # ids) p q \<longleftrightarrow> (if q = n then p \<in> set ids else older ids p q)"

lemma older_in: "older ids p q \<Longrightarrow> p \<in> set ids \<and> q \<in> set ids"
  by (induction ids) (auto split: if_splits)

lemma older_total: "distinct ids \<Longrightarrow> p \<in> set ids \<Longrightarrow> q \<in> set ids \<Longrightarrow> p \<noteq> q \<Longrightarrow> older ids p q \<or> older ids q p"
  by (induction ids) auto

lemma intersects_sym: "intersectsWith p q \<longleftrightarrow> intersectsWith q p"
  by (auto simp: intersectsWith_def list_ex_iff)

definition info_ok :: "string \<Rightarrow> 'x deployment_info \<Rightarrow> bool" where
  "info_ok k i \<longleftrightarrow> pl_id (di_plan i) = k \<and> di_ref i = (if di_status i = StatusScheduled then None else Some k)
     \<and> (di_status i = StatusCanceling \<longrightarrow> di_cancel i = Some k)"

definition table_ok :: "'x manager \<Rightarrow> string list \<Rightarrow> bool" where
  "table_ok m ids \<longleftrightarrow> distinct (map fst (dm_running m)) \<and> (\<forall>k i. entry m k = Some i \<longrightarrow> info_ok k i \<and> k \<in> set ids)"

definition plan_ok :: "'x manager \<Rightarrow> string list \<Rightarrow> 'x plan \<Rightarrow> bool" where
  "plan_ok m ids p \<longleftrightarrow> pl_id p \<in> set ids \<and> (\<forall>j. entry m (pl_id p) = Some j \<longrightarrow> di_plan j = p)"

definition snapshot_ok :: "'x manager \<Rightarrow> string list \<Rightarrow> 'x deployment_info \<Rightarrow> bool" where
  "snapshot_ok m ids c \<longleftrightarrow> plan_ok m ids (di_plan c)
     \<and> (\<forall>j. entry m (pl_id (di_plan c)) = Some j \<longrightarrow> rank (di_status c) \<le> rank (di_status j))"

text \<open>Every older deployment that conflicts with a plan, if the plan is still to be deployed, is being cancelled.\<close>

definition cleared :: "'x manager \<Rightarrow> string list \<Rightarrow> 'x plan \<Rightarrow> bool" where
  "cleared m ids p \<longleftrightarrow> (entry m (pl_id p) \<noteq> None \<longrightarrow>
     (\<forall>k i. entry m k = Some i \<and> older ids k (pl_id p) \<and> intersectsWith (di_plan i) p \<longrightarrow> di_status i = StatusCanceling))"

definition listed :: "'x manager \<Rightarrow> string list \<Rightarrow> 'x plan \<Rightarrow> 'x deployment_info list \<Rightarrow> bool" where
  "listed m ids p cs \<longleftrightarrow> (entry m (pl_id p) \<noteq> None \<longrightarrow>
     (\<forall>k i. entry m k = Some i \<and> older ids k (pl_id p) \<and> intersectsWith (di_plan i) p \<longrightarrow> k \<in> set (plan_ids cs)))"

fun message_ok :: "'x manager \<Rightarrow> string list \<Rightarrow> 'x manager_message \<Rightarrow> bool" where
  "message_ok m ids (LaunchDeployment p) \<longleftrightarrow> plan_ok m ids p \<and> cleared m ids p"
| "message_ok m ids (WaitForCanceledConflicts p cs) \<longleftrightarrow> plan_ok m ids p \<and> cleared m ids p"
| "message_ok m ids (CancelDeletedConflicts p cs a) \<longleftrightarrow> plan_ok m ids p
     \<and> list_all (snapshot_ok m ids) cs \<and> distinct (plan_ids cs) \<and> listed m ids p cs"
| "message_ok m ids _ \<longleftrightarrow> False"

definition output_ok :: "'x manager \<Rightarrow> string list \<Rightarrow> 'x manager_output \<Rightarrow> bool" where
  "output_ok m ids out \<longleftrightarrow> (case follow_up out of None \<Rightarrow> True | Some msg \<Rightarrow> message_ok m ids msg)"

definition manager_inv :: "'x manager \<Rightarrow> 'x manager_output list \<Rightarrow> string list \<Rightarrow> bool" where
  "manager_inv m outs ids \<longleftrightarrow> table_ok m ids \<and> list_all (output_ok m ids) outs
     \<and> (\<forall>k i. entry m k = Some i \<and> di_status i \<noteq> StatusScheduled \<longrightarrow> cleared m ids (di_plan i)) \<and> distinct ids"

text \<open>Entries only go forward: no new ones, the same plans, a status that does not go back.\<close>

definition advances :: "'x manager \<Rightarrow> 'x manager \<Rightarrow> bool" where
  "advances m m' \<longleftrightarrow> (\<forall>k j'. entry m' k = Some j' \<longrightarrow>
     (\<exists>j. entry m k = Some j \<and> di_plan j' = di_plan j \<and> rank (di_status j) \<le> rank (di_status j')))"

lemma advances_refl: "dm_running m' = dm_running m \<Longrightarrow> advances m m'"
  by (simp add: advances_def)

lemma advancesE:
  assumes "advances m m'" and "entry m' k = Some j'"
  obtains j where "entry m k = Some j" and "di_plan j' = di_plan j" and "rank (di_status j) \<le> rank (di_status j')"
  using assms unfolding advances_def by blast

lemma advances_none: "advances m m' \<Longrightarrow> entry m' k \<noteq> None \<Longrightarrow> entry m k \<noteq> None"
  by (auto elim: advancesE)

lemma advances_trans: "advances m m' \<Longrightarrow> advances m' m'' \<Longrightarrow> advances m m''"
  unfolding advances_def [of m m'']
proof (intro allI impI)
  fix k i
  assume *: "advances m m'" "advances m' m''" "entry m'' k = Some i"
  obtain j where j: "entry m' k = Some j" "di_plan i = di_plan j" "rank (di_status j) \<le> rank (di_status i)" using advancesE [OF *(2,3)] .
  obtain h where "entry m k = Some h" "di_plan j = di_plan h" "rank (di_status h) \<le> rank (di_status j)" using advancesE [OF *(1) j(1)] .
  then show "\<exists>h. entry m k = Some h \<and> di_plan i = di_plan h \<and> rank (di_status h) \<le> rank (di_status i)" using j by auto
qed

lemma rank_canceling: "2 \<le> rank s \<longleftrightarrow> s = StatusCanceling"
  by (cases s) auto

lemma rank_top: "rank StatusCanceling \<le> rank s \<longleftrightarrow> s = StatusCanceling"
  by (cases s) auto

lemma plan_ok_advances: "plan_ok m ids p \<Longrightarrow> advances m m' \<Longrightarrow> plan_ok m' ids p"
  unfolding plan_ok_def by (metis advancesE)

lemma snapshot_ok_advances: "snapshot_ok m ids c \<Longrightarrow> advances m m' \<Longrightarrow> snapshot_ok m' ids c"
  unfolding snapshot_ok_def
proof (elim conjE, intro conjI allI impI)
  fix i
  assume *: "\<forall>j. entry m (pl_id (di_plan c)) = Some j \<longrightarrow> rank (di_status c) \<le> rank (di_status j)"
    "advances m m'" "entry m' (pl_id (di_plan c)) = Some i"
  obtain j where "entry m (pl_id (di_plan c)) = Some j" "rank (di_status j) \<le> rank (di_status i)" using advancesE [OF *(2,3)] .
  then show "rank (di_status c) \<le> rank (di_status i)" using *(1) by fastforce
qed (rule plan_ok_advances)

lemma cleared_advances:
  assumes "cleared m ids p" and "advances m m'"
  shows "cleared m' ids p"
  unfolding cleared_def
proof (intro impI allI, elim conjE)
  fix k i
  assume "entry m' (pl_id p) \<noteq> None" and i: "entry m' k = Some i" "older ids k (pl_id p)" "intersectsWith (di_plan i) p"
  then have "entry m (pl_id p) \<noteq> None" using advances_none [OF assms(2)] by blast
  moreover obtain j where j: "entry m k = Some j" "di_plan i = di_plan j" "rank (di_status j) \<le> rank (di_status i)"
    using advancesE [OF assms(2) i(1)] .
  ultimately have "di_status j = StatusCanceling" using assms(1) i unfolding cleared_def by simp
  then show "di_status i = StatusCanceling" using j(3) by (simp add: rank_canceling [symmetric])
qed

lemma listed_advances:
  assumes "listed m ids p cs" and "advances m m'"
  shows "listed m' ids p cs"
  unfolding listed_def
proof (intro impI allI, elim conjE)
  fix k i
  assume "entry m' (pl_id p) \<noteq> None" and i: "entry m' k = Some i" "older ids k (pl_id p)" "intersectsWith (di_plan i) p"
  then have "entry m (pl_id p) \<noteq> None" using advances_none [OF assms(2)] by blast
  moreover obtain j where "entry m k = Some j" "di_plan i = di_plan j" using advancesE [OF assms(2) i(1)] .
  ultimately show "k \<in> set (plan_ids cs)" using assms(1) i unfolding listed_def by simp
qed

lemma message_ok_advances: "message_ok m ids msg \<Longrightarrow> advances m m' \<Longrightarrow> message_ok m' ids msg"
  by (cases msg) (auto simp: list_all_iff intro: plan_ok_advances cleared_advances snapshot_ok_advances listed_advances)

lemma output_ok_advances: "output_ok m ids out \<Longrightarrow> advances m m' \<Longrightarrow> output_ok m' ids out"
  by (auto simp: output_ok_def message_ok_advances split: option.splits)

text \<open>A step that goes forward keeps the invariant if it keeps the table and what it starts is in order.\<close>

lemma inv_advances:
  assumes "manager_inv m outs ids" and "advances m m'" and "table_ok m' ids" and "list_all (output_ok m' ids) out"
    and "\<And>k i. entry m' k = Some i \<Longrightarrow> di_status i \<noteq> StatusScheduled \<Longrightarrow>
      cleared m' ids (di_plan i) \<or> (\<exists>j. entry m k = Some j \<and> di_status j \<noteq> StatusScheduled)"
  shows "manager_inv m' (outs @ out) ids"
proof -
  have "cleared m' ids (di_plan i)" if i: "entry m' k = Some i" "di_status i \<noteq> StatusScheduled" for k i
  proof -
    obtain j where j: "entry m k = Some j" "di_plan i = di_plan j" using assms(2) i(1) unfolding advances_def by blast
    show ?thesis
      using assms(5) [OF i] j assms(1) cleared_advances [OF _ assms(2)] unfolding manager_inv_def by fastforce
  qed
  moreover have "list_all (output_ok m' ids) outs"
    using assms(1) output_ok_advances [OF _ assms(2)] by (auto simp: manager_inv_def list_all_iff)
  moreover have "distinct ids" using assms(1) by (simp add: manager_inv_def)
  ultimately show ?thesis using assms(3,4) unfolding manager_inv_def list_all_append by blast
qed

section \<open>Steps that add nothing\<close>

text \<open>Nothing is added to the table, and nothing in it starts to deploy.\<close>

definition calm :: "string list \<Rightarrow> 'x manager \<Rightarrow> 'x manager \<Rightarrow> bool" where
  "calm ids m m' \<longleftrightarrow> advances m m' \<and> table_ok m' ids
     \<and> (\<forall>k i. entry m' k = Some i \<and> di_status i \<noteq> StatusScheduled \<longrightarrow> (\<exists>j. entry m k = Some j \<and> di_status j \<noteq> StatusScheduled))"

fun completes :: "string \<Rightarrow> 'x manager_output \<Rightarrow> bool" where
  "completes k (Complete pid r) \<longleftrightarrow> pid = k"
| "completes k _ \<longleftrightarrow> False"

definition completions :: "string \<Rightarrow> 'x manager_output list \<Rightarrow> nat" where
  "completions k outs = length (filter (completes k) outs)"

text \<open>A promise is completed exactly when its deployment leaves the table.\<close>

definition tidy :: "'x manager \<Rightarrow> 'x manager \<Rightarrow> 'x manager_output list \<Rightarrow> bool" where
  "tidy m m' out \<longleftrightarrow> (\<forall>k. completions k out = (if entry m k \<noteq> None \<and> entry m' k = None then 1 else 0))"

definition quiet :: "'x manager_output list \<Rightarrow> bool" where
  "quiet out \<longleftrightarrow> (\<forall>x\<in>set out. follow_up x = None \<and> (\<forall>k. x \<noteq> Answer (PromiseOf k)))"

lemma completions_append [simp]: "completions k (xs @ ys) = completions k xs + completions k ys"
  by (simp add: completions_def)

lemma completions_simps [simp]: "completions k [] = 0" "completions k (x # xs) = (if completes k x then 1 else 0) + completions k xs"
  by (simp_all add: completions_def)

lemma quiet_simps [simp]: "quiet []" "quiet (xs @ ys) \<longleftrightarrow> quiet xs \<and> quiet ys"
  "quiet (x # xs) \<longleftrightarrow> follow_up x = None \<and> (\<forall>k. x \<noteq> Answer (PromiseOf k)) \<and> quiet xs"
  by (auto simp: quiet_def)

lemma calm_same: "table_ok m ids \<Longrightarrow> dm_running m' = dm_running m \<Longrightarrow> calm ids m m'"
  by (simp add: calm_def table_ok_def advances_refl)

lemma calm_trans: "calm ids m m' \<Longrightarrow> calm ids m' m'' \<Longrightarrow> calm ids m m''"
  unfolding calm_def using advances_trans by blast

lemma tidy_same: "dm_running m' = dm_running m \<Longrightarrow> (\<And>k. completions k out = 0) \<Longrightarrow> tidy m m' out"
  by (auto simp: tidy_def)

lemma tidy_trans:
  assumes "tidy m m' out" and "tidy m' m'' out'" and "advances m m'" and "advances m' m''"
  shows "tidy m m'' (out @ out')"
  unfolding tidy_def
proof
  fix k
  show "completions k (out @ out') = (if entry m k \<noteq> None \<and> entry m'' k = None then 1 else 0)"
    using assms(1,2) advances_none [OF assms(3), of k] advances_none [OF assms(4), of k]
    by (cases "entry m k = None"; cases "entry m' k = None"; cases "entry m'' k = None") (auto simp: tidy_def)
qed

lemma table_update: "table_ok m ids \<Longrightarrow> dm_running m' = AList.update k i (dm_running m) \<Longrightarrow> info_ok k i \<Longrightarrow> k \<in> set ids \<Longrightarrow> table_ok m' ids"
  by (simp add: table_ok_def distinct_update update_conv')

lemma table_delete: "table_ok m ids \<Longrightarrow> dm_running m' = AList.delete k (dm_running m) \<Longrightarrow> table_ok m' ids"
  by (simp add: table_ok_def distinct_delete delete_conv')

lemma calm_delete: "table_ok m ids \<Longrightarrow> dm_running m' = AList.delete k (dm_running m) \<Longrightarrow> calm ids m m'"
  unfolding calm_def advances_def using table_delete [of m ids m' k] by (auto simp: delete_conv' split: if_splits)

lemma tidy_delete: "entry m k \<noteq> None \<Longrightarrow> dm_running m' = AList.delete k (dm_running m) \<Longrightarrow>
    (\<And>h. completions h out = (if h = k then 1 else 0)) \<Longrightarrow> tidy m m' out"
  by (auto simp: tidy_def delete_conv')

lemma table_entry: "table_ok m ids \<Longrightarrow> entry m k = Some i \<Longrightarrow> info_ok k i \<and> k \<in> set ids"
  by (simp add: table_ok_def)

lemma stop_calm:
  assumes "table_ok m ids" and "entry m k = Some i" and "di_status i \<noteq> StatusScheduled"
  shows "\<exists>m'. stopDeployment k m = Inr (m', [StopWith k DeploymentCanceled]) \<and> calm ids m m'
    \<and> entry m' = (entry m)(k \<mapsto> i\<lparr>di_status := StatusCanceling, di_cancel := Some k\<rparr>)"
proof -
  let ?i = "i\<lparr>di_status := StatusCanceling, di_cancel := Some k\<rparr>"
  let ?m = "m\<lparr>dm_running := AList.update k ?i (dm_running m)\<rparr>"
  have i: "info_ok k i" "k \<in> set ids" using table_entry [OF assms(1,2)] by auto
  then have "table_ok ?m ids" using assms(1,3) by (intro table_update [of m ids ?m k ?i]) (auto simp: info_ok_def)
  moreover have "rank (di_status i) \<le> rank StatusCanceling" by (cases "di_status i") auto
  then have "advances m ?m" using assms(2) by (auto simp: advances_def update_conv')
  ultimately have "calm ids m ?m" using assms(2,3) by (auto simp: calm_def update_conv')
  then show ?thesis using assms(2,3) i by (simp add: stopDeployment_def info_ok_def update_conv')
qed

section \<open>Cancelling conflicts\<close>

definition told :: "'x manager \<Rightarrow> 'x manager_output list \<Rightarrow> 'x deployment_info \<Rightarrow> bool" where
  "told m' out c \<longleftrightarrow>
     (di_status c = StatusScheduled \<longrightarrow> entry m' (pl_id (di_plan c)) = None \<and> Complete (pl_id (di_plan c)) DeploymentCanceled \<in> set out)
     \<and> (di_status c = StatusDeploying \<longrightarrow> StopWith (pl_id (di_plan c)) DeploymentCanceled \<in> set out)"

lemma cancel_one:
  assumes "table_ok m ids" and "snapshot_ok m ids c" and "k = pl_id (di_plan c)" and "entry m k \<noteq> None"
  shows "\<exists>m' out. cancel_conflict c (m, o1) = Inr (m', o1 @ out) \<and> calm ids m m' \<and> tidy m m' out \<and> quiet out \<and> told m' out c
    \<and> (entry m' = (entry m)(k := None) \<or> (\<exists>i. entry m' = (entry m)(k \<mapsto> i) \<and> di_status i = StatusCanceling))"
proof -
  obtain i where i: "entry m k = Some i" using assms(4) by blast
  have rank: "rank (di_status c) \<le> rank (di_status i)" using assms(2,3) i by (simp add: snapshot_ok_def)
  show ?thesis
  proof (cases "di_status c")
    case StatusScheduled
    let ?m = "(forget k m)\<lparr>dm_status := AList.delete k (dm_status m)\<rparr>"
    have "dm_running ?m = AList.delete k (dm_running m)" by (simp add: forget_def)
    moreover from this have "calm ids m ?m" "tidy m ?m [Complete k DeploymentCanceled]"
      using assms(1,4) by (auto intro!: calm_delete [of m ids ?m k] tidy_delete [of m k ?m])
    ultimately show ?thesis using StatusScheduled assms(3,4) by (auto simp: cancel_conflict_def Let_def delete_conv' told_def)
  next
    case StatusDeploying
    then have "di_status i \<noteq> StatusScheduled" using rank by auto
    from stop_calm [OF assms(1) i this] obtain m' where m': "stopDeployment k m = Inr (m', [StopWith k DeploymentCanceled])"
      "calm ids m m'" "entry m' = (entry m)(k \<mapsto> i\<lparr>di_status := StatusCanceling, di_cancel := Some k\<rparr>)" by blast
    then have "tidy m m' [StopWith k DeploymentCanceled]" by (auto simp: tidy_def)
    then show ?thesis using m' StatusDeploying assms(3) by (auto simp: cancel_conflict_def Let_def told_def)
  next
    case StatusCanceling
    then have "di_status i = StatusCanceling" using rank by (simp add: rank_canceling [symmetric])
    moreover have "calm ids m m" "tidy m m []" using assms(1) by (auto simp: calm_same tidy_same)
    ultimately show ?thesis using StatusCanceling i by (auto simp: cancel_conflict_def Let_def told_def intro!: exI [of _ i])
  qed
qed

lemma snapshot_ok_calm: "snapshot_ok m ids c \<Longrightarrow> calm ids m m' \<Longrightarrow> snapshot_ok m' ids c"
  by (simp add: calm_def snapshot_ok_advances)

lemma cancel_all:
  assumes "table_ok m ids" and "list_all (snapshot_ok m ids) cs" and "distinct (plan_ids cs)"
    and "\<And>k. k \<in> set (plan_ids cs) \<Longrightarrow> entry m k \<noteq> None"
  shows "\<exists>m' out. foldR cancel_conflict cs (m, o1) = Inr (m', o1 @ out) \<and> calm ids m m' \<and> tidy m m' out \<and> quiet out \<and> list_all (told m' out) cs
    \<and> (\<forall>k i. k \<in> set (plan_ids cs) \<longrightarrow> entry m' k = Some i \<longrightarrow> di_status i = StatusCanceling)
    \<and> (\<forall>k. k \<notin> set (plan_ids cs) \<longrightarrow> entry m' k = entry m k)"
  using assms
proof (induction cs arbitrary: m o1)
  case Nil
  then show ?case by (auto simp: calm_same tidy_same plan_ids_def)
next
  case (Cons c cs)
  let ?k = "pl_id (di_plan c)"
  have fresh: "?k \<notin> set (plan_ids cs)" "distinct (plan_ids cs)" using Cons.prems(3) by (auto simp: plan_ids_def)
  have here: "entry m ?k \<noteq> None" "snapshot_ok m ids c" using Cons.prems(2,4) by (auto simp: plan_ids_def)
  obtain m1 out1 where one: "cancel_conflict c (m, o1) = Inr (m1, o1 @ out1)" "calm ids m m1" "tidy m m1 out1" "quiet out1" "told m1 out1 c"
      "entry m1 = (entry m)(?k := None) \<or> (\<exists>i. entry m1 = (entry m)(?k \<mapsto> i) \<and> di_status i = StatusCanceling)"
    using cancel_one [OF Cons.prems(1) here(2) refl here(1), of o1] by (elim exE conjE) (rule that)
  have same: "entry m1 k = entry m k" if "k \<noteq> ?k" for k using one(6) that by auto
  have cleared_one: "di_status i = StatusCanceling" if "entry m1 ?k = Some i" for i using one(6) that by auto
  have "table_ok m1 ids" using one(2) by (simp add: calm_def)
  moreover have "list_all (snapshot_ok m1 ids) cs" using Cons.prems(2) snapshot_ok_calm [OF _ one(2)] by (auto simp: list_all_iff)
  moreover have "entry m1 k \<noteq> None" if "k \<in> set (plan_ids cs)" for k
  proof -
    have "k \<noteq> ?k" using that fresh(1) by metis
    then show ?thesis using same [of k] Cons.prems(4) [of k] that by (simp add: plan_ids_def)
  qed
  ultimately obtain m2 out2 where rest: "foldR cancel_conflict cs (m1, o1 @ out1) = Inr (m2, (o1 @ out1) @ out2)" "calm ids m1 m2"
      "tidy m1 m2 out2" "quiet out2" "list_all (told m2 out2) cs" "\<forall>k i. k \<in> set (plan_ids cs) \<longrightarrow> entry m2 k = Some i \<longrightarrow> di_status i = StatusCanceling"
      "\<forall>k. k \<notin> set (plan_ids cs) \<longrightarrow> entry m2 k = entry m1 k"
    using Cons.IH [of m1 "o1 @ out1"] fresh(2) by blast
  have "tidy m m2 (out1 @ out2)" using tidy_trans [OF one(3) rest(3)] one(2) rest(2) by (simp add: calm_def)
  moreover have "calm ids m m2" by (rule calm_trans [OF one(2) rest(2)])
  moreover have "entry m2 k = entry m k" if "k \<notin> set (plan_ids (c # cs))" for k
    using rest(7) same [of k] that by (simp add: plan_ids_def)
  moreover have "di_status i = StatusCanceling" if "k \<in> set (plan_ids (c # cs))" "entry m2 k = Some i" for k i
    using that rest(6,7) cleared_one [of i] fresh(1) by (cases "k = ?k") (auto simp: plan_ids_def)
  moreover have "list_all (told m2 (out1 @ out2)) (c # cs)"
    using one(5) rest(5,7) fresh(1) by (auto simp: told_def list_all_iff)
  ultimately show ?case using one(1,4) rest(1,4) by auto
qed

section \<open>Every message keeps the invariant\<close>

text \<open>What holds of one message: it is handled without an exception, the invariant is kept, and promises are in order.\<close>

definition step_ok :: "'x manager \<Rightarrow> 'x manager_output list \<Rightarrow> string list \<Rightarrow> 'x manager_message \<Rightarrow> bool" where
  "step_ok m outs ids msg \<longleftrightarrow> (\<exists>m' out. manager_receive msg m = Inr (m', out) \<and> manager_inv m' (outs @ out) (ids_of msg @ ids)
     \<and> tidy m m' out \<and> (\<forall>k. Answer (PromiseOf k) \<in> set out \<longleftrightarrow> entry m k = None \<and> entry m' k \<noteq> None)
     \<and> (\<forall>k. entry m k = None \<and> entry m' k \<noteq> None \<longrightarrow> ids_of msg = [k]))"

lemma inv_table: "manager_inv m outs ids \<Longrightarrow> table_ok m ids"
  by (simp add: manager_inv_def)

lemma quiet_ok: "quiet out \<Longrightarrow> list_all (output_ok m ids) out"
  by (auto simp: quiet_def list_all_iff output_ok_def)

lemma step_calm:
  assumes "manager_inv m outs ids" and "manager_receive msg m = Inr (m', out)" and "calm ids m m'" and "tidy m m' out"
    and "list_all (output_ok m' ids) out" and "\<And>k. Answer (PromiseOf k) \<notin> set out" and "ids_of msg = []"
  shows "step_ok m outs ids msg"
proof -
  have "advances m m'" "table_ok m' ids" using assms(3) by (auto simp: calm_def)
  moreover from this have "manager_inv m' (outs @ out) ids"
    using assms(3) by (intro inv_advances [OF assms(1) _ _ assms(5)]) (auto simp: calm_def)
  ultimately show ?thesis using assms(2,4,6,7) advances_none [of m m'] unfolding step_ok_def by (metis append_Nil)
qed

lemma step_quiet:
  assumes "manager_inv m outs ids" and "manager_receive msg m = Inr (m', out)" and "calm ids m m'" and "tidy m m' out"
    and "quiet out" and "ids_of msg = []"
  shows "step_ok m outs ids msg"
  using assms(5) by (intro step_calm [OF assms(1-4) quiet_ok [OF assms(5)] _ assms(6)]) (auto simp: quiet_def)

lemma step_same:
  assumes "manager_inv m outs ids" and "manager_receive msg m = Inr (m', out)" and "dm_running m' = dm_running m"
    and "quiet out" and "\<And>k. completions k out = 0" and "ids_of msg = []"
  shows "step_ok m outs ids msg"
  using step_quiet [OF assms(1,2) calm_same [OF inv_table [OF assms(1)] assms(3)] tidy_same [OF assms(3,5)] assms(4,6)] .

lemma step_removed:
  assumes "manager_inv m outs ids" and "manager_receive msg m = Inr (m', out)" and "entry m k \<noteq> None"
    and "dm_running m' = AList.delete k (dm_running m)" and "quiet out" and "\<And>h. completions h out = (if h = k then 1 else 0)"
    and "ids_of msg = []"
  shows "step_ok m outs ids msg"
  using step_quiet [OF assms(1,2) calm_delete [OF inv_table [OF assms(1)] assms(4)] tidy_delete [OF assms(3,4,6)] assms(5,7)] .

lemma cancel_step:
  assumes "manager_inv m outs ids"
  shows "step_ok m outs ids (CancelDeployment p)"
proof (cases "entry m (pl_id p)")
  case None
  then show ?thesis by (intro step_same [OF assms]) (auto simp: cancelDeployment_def)
next
  case (Some i)
  note t = inv_table [OF assms]
  have ok: "info_ok (pl_id p) i" using table_entry [OF t Some] by simp
  show ?thesis
  proof (cases "di_status i")
    case StatusScheduled
    then show ?thesis using Some
      by (intro step_removed [OF assms, where k = "pl_id p"]) (auto simp: cancelDeployment_def forget_def)
  next
    case StatusDeploying
    then obtain m' where m': "stopDeployment (pl_id p) m = Inr (m', [StopWith (pl_id p) DeploymentCanceled])" "calm ids m m'"
        "entry m' = (entry m)(pl_id p \<mapsto> i\<lparr>di_status := StatusCanceling, di_cancel := Some (pl_id p)\<rparr>)"
      using stop_calm [OF t Some] by auto
    have "tidy m m' ([StopWith (pl_id p) DeploymentCanceled] @ [Answer (Stopped (pl_id p))])" using m'(3) Some by (auto simp: tidy_def)
    then show ?thesis using m'(1,2) Some StatusDeploying ok
      by (intro step_quiet [OF assms]) (auto simp: cancelDeployment_def info_ok_def)
  next
    case StatusCanceling
    then show ?thesis using Some by (intro step_same [OF assms]) (auto simp: cancelDeployment_def)
  qed
qed

lemma finished_step:
  assumes "manager_inv m outs ids"
  shows "step_ok m outs ids (DeploymentFinished p r)"
proof (cases "entry m (pl_id p)")
  case None
  then have "manager_receive (DeploymentFinished p r) m = Inr (m\<lparr>dm_active := dm_active m - 1\<rparr>, [])" by simp
  from step_same [OF assms this] show ?thesis by simp
next
  case (Some i)
  then show ?thesis by (intro step_removed [OF assms, where k = "pl_id p"]) auto
qed

lemma failed_step:
  assumes "manager_inv m outs ids"
  shows "step_ok m outs ids (FailedRepositoryOperation p r)"
proof (cases "isScheduledDeployment (pl_id p) m")
  case False
  then show ?thesis by (intro step_same [OF assms]) auto
next
  case True
  then have "entry m (pl_id p) \<noteq> None" by (auto simp: isScheduledDeployment_def split: option.splits)
  then show ?thesis using True by (intro step_removed [OF assms, where k = "pl_id p"]) (auto simp: forget_def)
qed

lemma status_step:
  assumes "manager_inv m outs ids"
  shows "step_ok m outs ids (StepInfo s)" and "step_ok m outs ids (ReadinessCheckUpdate k r)" and "step_ok m outs ids ListRunningDeployments"
proof -
  show "step_ok m outs ids (StepInfo s)" by (rule step_same [OF assms manager_receive.simps(4)]) simp_all
  show "step_ok m outs ids ListRunningDeployments" by (rule step_same [OF assms manager_receive.simps(6)]) simp_all
  have "\<exists>m'. manager_receive (ReadinessCheckUpdate k r) m = Inr (m', []) \<and> dm_running m' = dm_running m"
    by (cases "map_of (dm_status m) k") simp_all
  then show "step_ok m outs ids (ReadinessCheckUpdate k r)" using step_same [OF assms] by fastforce
qed

lemma scheduled_entry:
  assumes "manager_inv m outs ids" and "plan_ok m ids p" and "isScheduledDeployment (pl_id p) m"
  shows "entry m (pl_id p) = Some \<lparr>di_ref = None, di_plan = p, di_status = StatusScheduled, di_cancel = di_cancel (the (entry m (pl_id p)))\<rparr>"
proof -
  obtain i where i: "entry m (pl_id p) = Some i" "di_status i = StatusScheduled"
    using assms(3) by (auto simp: isScheduledDeployment_def split: option.splits)
  then show ?thesis using assms(2) table_entry [OF inv_table [OF assms(1)] i(1)] by (cases i) (simp add: plan_ok_def info_ok_def)
qed

lemma launch_step:
  assumes "manager_inv m outs ids" and "message_ok m ids (LaunchDeployment p)"
  shows "step_ok m outs ids (LaunchDeployment p)"
proof (cases "isScheduledDeployment (pl_id p) m")
  case False
  then show ?thesis by (intro step_same [OF assms(1)]) auto
next
  case True
  let ?k = "pl_id p"
  obtain i where i: "entry m ?k = Some i" "di_plan i = p" "di_status i = StatusScheduled"
    using scheduled_entry [OF assms(1) _ True] assms(2) by fastforce
  have ok: "info_ok ?k i" "?k \<in> set ids" using table_entry [OF inv_table [OF assms(1)] i(1)] by auto
  let ?i = "i\<lparr>di_ref := Some ?k, di_status := StatusDeploying\<rparr>"
  obtain m' where r: "manager_receive (LaunchDeployment p) m = Inr (m', [Spawn p])"
    and run: "dm_running m' = AList.update ?k ?i (dm_running m)"
    using True i(1,2) by (simp add: startDeployment_def Let_def)
  have a: "advances m m'" using i by (auto simp: advances_def run update_conv')
  have t: "table_ok m' ids" using ok i(3) by (intro table_update [OF inv_table [OF assms(1)] run]) (auto simp: info_ok_def)
  have c: "cleared m' ids p" using assms(2) cleared_advances [OF _ a] by simp
  have "manager_inv m' (outs @ [Spawn p]) ids"
    using c i(2) by (intro inv_advances [OF assms(1) a t]) (auto simp: output_ok_def run update_conv' split: if_splits)
  moreover have "tidy m m' [Spawn p]" using i(1) by (auto simp: tidy_def run update_conv')
  ultimately show ?thesis using r i(1) by (auto simp: step_ok_def run update_conv')
qed

lemma wait_step:
  assumes "manager_inv m outs ids" and "message_ok m ids (WaitForCanceledConflicts p cs)"
  shows "step_ok m outs ids (WaitForCanceledConflicts p cs)"
proof (cases "isScheduledDeployment (pl_id p) m")
  case False
  then show ?thesis by (intro step_same [OF assms(1)]) auto
next
  case True
  have "calm ids m m" "tidy m m (waitForCanceledConflicts p cs)"
    using calm_same [OF inv_table [OF assms(1)]] by (auto simp: tidy_def waitForCanceledConflicts_def Let_def)
  then show ?thesis using True assms(2)
    by (intro step_calm [OF assms(1)]) (auto simp: waitForCanceledConflicts_def Let_def output_ok_def)
qed

lemma conflicts_step:
  assumes "manager_inv m outs ids" and "message_ok m ids (CancelDeletedConflicts p cs a)"
  shows "step_ok m outs ids (CancelDeletedConflicts p cs a)"
proof (cases "isScheduledDeployment (pl_id p) m")
  case False
  then show ?thesis by (intro step_same [OF assms(1)]) auto
next
  case True
  let ?cs = "filter (\<lambda>i. entry m (pl_id (di_plan i)) \<noteq> None) cs"
  note t = inv_table [OF assms(1)]
  have "list_all (snapshot_ok m ids) ?cs" "distinct (plan_ids ?cs)"
    using assms(2) by (auto simp: list_all_iff plan_ids_def distinct_map_filter)
  moreover have "entry m k \<noteq> None" if "k \<in> set (plan_ids ?cs)" for k using that by (auto simp: plan_ids_def)
  ultimately obtain m' out where all: "foldR cancel_conflict ?cs (m, []) = Inr (m', [] @ out)" "calm ids m m'" "tidy m m' out" "quiet out"
      "\<forall>k i. k \<in> set (plan_ids ?cs) \<longrightarrow> entry m' k = Some i \<longrightarrow> di_status i = StatusCanceling"
    using cancel_all [OF t, of ?cs "[]"] by blast
  let ?store = "StoreThen p a (WaitForCanceledConflicts p cs)"
  have adv: "advances m m'" using all(2) by (simp add: calm_def)
  have "cleared m' ids p"
    unfolding cleared_def
  proof (intro impI allI, elim conjE)
    fix k i
    assume "entry m' (pl_id p) \<noteq> None" and i: "entry m' k = Some i" "older ids k (pl_id p)" "intersectsWith (di_plan i) p"
    then have "entry m (pl_id p) \<noteq> None" using advances_none [OF adv] by blast
    moreover obtain j where j: "entry m k = Some j" "di_plan i = di_plan j" using advancesE [OF adv i(1)] .
    ultimately have "k \<in> set (plan_ids cs)" using assms(2) i(2,3) by (simp add: listed_def)
    then have "k \<in> set (plan_ids ?cs)" using j(1) by (auto simp: plan_ids_def)
    then show "di_status i = StatusCanceling" using all(5) i(1) by blast
  qed
  then have "output_ok m' ids ?store" using assms(2) plan_ok_advances [OF _ adv] by (simp add: output_ok_def)
  then have "list_all (output_ok m' ids) (out @ [?store])" using quiet_ok [OF all(4)] by simp
  moreover have "manager_receive (CancelDeletedConflicts p cs a) m = Inr (m', out @ [?store])"
    using True all(1) by (simp add: cancelDeletedConflicts_def)
  moreover have "tidy m m' (out @ [?store])" using all(3) by (simp add: tidy_def)
  ultimately show ?thesis using all(4) by (intro step_calm [OF assms(1) _ all(2)]) (auto simp: quiet_def)
qed

text \<open>A plan with a new id is younger than all others: what was in order stays so.\<close>

definition extends :: "string \<Rightarrow> 'x manager \<Rightarrow> 'x manager \<Rightarrow> bool" where
  "extends n m m' \<longleftrightarrow> (\<forall>k. k \<noteq> n \<longrightarrow> entry m' k = entry m k)"

lemma plan_ok_extends: "plan_ok m ids p \<Longrightarrow> extends n m m' \<Longrightarrow> n \<notin> set ids \<Longrightarrow> plan_ok m' (n # ids) p"
  unfolding plan_ok_def extends_def by (metis list.set_intros(2))

lemma snapshot_ok_extends:
  assumes "snapshot_ok m ids c" and "extends n m m'" and "n \<notin> set ids"
  shows "snapshot_ok m' (n # ids) c"
proof -
  have "pl_id (di_plan c) \<noteq> n" using assms(1,3) by (auto simp: snapshot_ok_def plan_ok_def)
  then show ?thesis using assms plan_ok_extends [OF _ assms(2,3)] by (simp add: snapshot_ok_def extends_def)
qed

lemma cleared_extends:
  assumes "cleared m ids p" and "extends n m m'" and "n \<notin> set ids" and "pl_id p \<in> set ids"
  shows "cleared m' (n # ids) p"
  using assms older_in [of ids _ "pl_id p"] unfolding cleared_def extends_def by (metis older.simps(2))

lemma listed_extends:
  assumes "listed m ids p cs" and "extends n m m'" and "n \<notin> set ids" and "pl_id p \<in> set ids"
  shows "listed m' (n # ids) p cs"
  using assms older_in [of ids _ "pl_id p"] unfolding listed_def extends_def by (metis older.simps(2))

lemma message_ok_extends:
  assumes "message_ok m ids msg" and "extends n m m'" and "n \<notin> set ids"
  shows "message_ok m' (n # ids) msg"
  using assms(1)
  by (cases msg) (auto simp: list_all_iff plan_ok_def [of m] intro: plan_ok_extends [OF _ assms(2,3)] snapshot_ok_extends [OF _ assms(2,3)]
    cleared_extends [OF _ assms(2,3)] listed_extends [OF _ assms(2,3)])

lemma inv_extends:
  assumes "manager_inv m outs ids" and "extends n m m'" and "n \<notin> set ids" and "table_ok m' (n # ids)"
    and "\<And>i. entry m' n = Some i \<Longrightarrow> di_status i = StatusScheduled" and "list_all (output_ok m' (n # ids)) out"
  shows "manager_inv m' (outs @ out) (n # ids)"
proof -
  have "list_all (output_ok m' (n # ids)) outs"
    using assms(1) message_ok_extends [OF _ assms(2,3)] by (auto simp: manager_inv_def list_all_iff output_ok_def split: option.splits)
  moreover have "cleared m' (n # ids) (di_plan i)" if i: "entry m' k = Some i" "di_status i \<noteq> StatusScheduled" for k i
  proof -
    have k: "entry m k = Some i" using i assms(2,5) unfolding extends_def by metis
    then have "info_ok k i" "k \<in> set ids" using table_entry [OF inv_table [OF assms(1)]] by auto
    then show ?thesis using k i(2) assms(1) by (intro cleared_extends [OF _ assms(2,3)]) (auto simp: manager_inv_def info_ok_def)
  qed
  moreover have "distinct (n # ids)" using assms(1,3) by (simp add: manager_inv_def)
  ultimately show ?thesis using assms(4,6) unfolding manager_inv_def list_all_append by blast
qed

lemma in_conflicts: "entry m k = Some i \<Longrightarrow> intersectsWith (di_plan i) p \<Longrightarrow> i \<in> set (conflictingDeployments p m)"
  unfolding conflictingDeployments_def by (auto dest: map_of_SomeD intro: rev_image_eqI)

lemma conflict_entry:
  assumes "table_ok m ids" and "c \<in> set (conflictingDeployments p m)"
  shows "entry m (pl_id (di_plan c)) = Some c"
proof -
  obtain k where "(k, c) \<in> set (dm_running m)" using assms(2) by (auto simp: conflictingDeployments_def)
  then have "entry m k = Some c" using assms(1) by (simp add: table_ok_def)
  then show ?thesis using table_entry [OF assms(1)] by (auto simp: info_ok_def)
qed

lemma conflicts_distinct:
  assumes "table_ok m ids"
  shows "distinct (plan_ids (conflictingDeployments p m))"
proof -
  have "map (\<lambda>i. pl_id (di_plan i)) (map snd (dm_running m)) = map fst (dm_running m)"
    using assms by (auto simp: table_ok_def info_ok_def intro!: map_cong)
  then show ?thesis
    using assms unfolding plan_ids_def conflictingDeployments_def table_ok_def by (metis distinct_map_filter)
qed

lemma start_step:
  assumes inv: "manager_inv m outs ids" and new: "pl_id p \<notin> set ids" and a: "a \<noteq> None"
  shows "step_ok m outs ids (StartDeployment p a force)"
proof -
  let ?n = "pl_id p" and ?cs = "conflictingDeployments p m"
  note t = inv_table [OF inv]
  have none: "entry m ?n = None" using t new by (cases "entry m ?n") (auto simp: table_ok_def)
  show ?thesis
  proof (cases "?cs \<noteq> [] \<and> \<not> force")
    case True
    obtain b where "a = Some b" using a by blast
    with True obtain out where r: "manager_receive (StartDeployment p a force) m = Inr (m, out)" "quiet out" "\<forall>k. completions k out = 0"
      by (auto simp: giveUpConflictingDeployment_def Let_def)
    have "tidy m m out" using r(3) by (auto simp: tidy_def)
    have "table_ok m (?n # ids)" using t by (auto simp: table_ok_def)
    then have "manager_inv m (outs @ out) (?n # ids)"
      using none by (intro inv_extends [OF inv _ new _ _ quiet_ok [OF r(2)]]) (auto simp: extends_def)
    then show ?thesis using r(1,2) \<open>tidy m m out\<close> by (auto simp: step_ok_def quiet_def)
  next
    case False
    let ?m = "markScheduled p m"
    have e: "entry ?m = (entry m)(?n \<mapsto> \<lparr>di_ref = None, di_plan = p, di_status = StatusScheduled, di_cancel = None\<rparr>)"
      by (simp add: markScheduled_def update_conv')
    have x: "extends ?n m ?m" by (simp add: extends_def e)
    have t': "table_ok ?m (?n # ids)" using t by (auto simp: table_ok_def e) (auto simp: markScheduled_def distinct_update info_ok_def)
    have p: "plan_ok ?m (?n # ids) p" by (simp add: plan_ok_def e)
    have older: "entry m k = Some i" if "entry ?m k = Some i" "older (?n # ids) k ?n" for k i
      using that new older_in by (auto simp: e split: if_splits)
    let ?first = "if ?cs = [] then StoreThen p a (LaunchDeployment p) else DeleteThen (plan_ids ?cs) p (CancelDeletedConflicts p ?cs a)"
    have "output_ok ?m (?n # ids) ?first"
    proof (cases "?cs = []")
      case True
      then have "cleared ?m (?n # ids) p" using older in_conflicts by (fastforce simp: cleared_def)
      then show ?thesis using True p by (simp add: output_ok_def)
    next
      case False
      have "k \<in> set (plan_ids ?cs)" if "entry ?m k = Some i" "older (?n # ids) k ?n" "intersectsWith (di_plan i) p" for k i
        using in_conflicts [OF older [OF that(1,2)] that(3)] table_entry [OF t older [OF that(1,2)]] by (auto simp: plan_ids_def info_ok_def)
      then have "listed ?m (?n # ids) p ?cs" unfolding listed_def by blast
      moreover have "list_all (snapshot_ok m ids) ?cs"
        using conflict_entry [OF t] table_entry [OF t] by (auto simp: list_all_iff snapshot_ok_def plan_ok_def)
      then have "list_all (snapshot_ok ?m (?n # ids)) ?cs" using snapshot_ok_extends [OF _ x new] by (simp add: list_all_iff)
      ultimately show ?thesis using False p conflicts_distinct [OF t] by (simp add: output_ok_def)
    qed
    then have "manager_inv ?m (outs @ [?first, Answer (PromiseOf ?n)]) (?n # ids)"
      by (intro inv_extends [OF inv x new t']) (auto simp: e output_ok_def)
    moreover have "manager_receive (StartDeployment p a force) m = Inr (?m, [?first, Answer (PromiseOf ?n)])"
      using False by (auto simp: startNonConflictingDeployment_def startConflictingDeployment_def)
    moreover have "tidy m ?m [?first, Answer (PromiseOf ?n)]" by (auto simp: tidy_def e)
    ultimately show ?thesis using none by (auto simp: step_ok_def e)
  qed
qed

lemma sent_ok: "manager_inv m outs ids \<Longrightarrow> Some msg \<in> follow_up ` set outs \<Longrightarrow> message_ok m ids msg"
  by (auto simp: manager_inv_def list_all_iff output_ok_def split: option.splits)

lemma every_step:
  assumes "manager_inv m outs ids" and "may_come outs ids msg"
  shows "step_ok m outs ids msg"
proof (cases "Some msg \<in> follow_up ` set outs")
  case True
  then show ?thesis using sent_ok [OF assms(1) True] assms
    by (cases msg) (auto intro!: start_step cancel_step status_step finished_step failed_step launch_step wait_step conflicts_step)
next
  case False
  then show ?thesis using assms
    by (cases msg) (auto intro!: start_step cancel_step status_step finished_step failed_step)
qed

lemma run_inv: "manager_run m outs ids \<Longrightarrow> manager_inv m outs ids"
proof (induction rule: manager_run.induct)
  case idle
  then show ?case by (simp add: manager_inv_def table_ok_def empty_manager_def)
next
  case (message m outs ids msg m' out)
  then show ?case using every_step [OF message.IH message.hyps(2)] by (auto simp: step_ok_def)
qed

lemma run_step: "manager_run m outs ids \<Longrightarrow> may_come outs ids msg \<Longrightarrow> step_ok m outs ids msg"
  using run_inv every_step by blast

lemma new_entry:
  assumes "manager_run m outs ids" and "may_come outs ids msg" and "manager_receive msg m = Inr (m', out)"
    and "entry m k = None" and "entry m' k \<noteq> None"
  shows "k \<notin> set ids \<and> k \<in> set (ids_of msg)"
proof -
  have "ids_of msg = [k]" using run_step [OF assms(1,2)] assms(3-5) unfolding step_ok_def by auto
  then show ?thesis using assms(2) by (cases msg) auto
qed

lemma promised_started: "manager_run m outs ids \<Longrightarrow> Answer (PromiseOf k) \<in> set outs \<Longrightarrow> k \<in> set ids"
proof (induction rule: manager_run.induct)
  case (message m outs ids msg m' out)
  show ?case
  proof (cases "Answer (PromiseOf k) \<in> set outs")
    case False
    then have "entry m k = None \<and> entry m' k \<noteq> None"
      using message.prems run_step [OF message.hyps(1,2)] message.hyps(3) by (auto simp: step_ok_def)
    then show ?thesis using new_entry [OF message.hyps(1-3)] by auto
  qed (use message.IH in simp)
qed simp

section \<open>Conflicts\<close>

lemma older_canceling:
  assumes "manager_inv m outs ids" and "entry m p = Some i" and "entry m q = Some j" and "di_status j \<noteq> StatusScheduled"
    and "older ids p q" and "intersectsWith (di_plan i) (di_plan j)"
  shows "di_status i = StatusCanceling"
proof -
  have "cleared m ids (di_plan j)" using assms(1,3,4) by (auto simp: manager_inv_def)
  moreover have "pl_id (di_plan j) = q" using table_entry [OF inv_table [OF assms(1)] assms(3)] by (simp add: info_ok_def)
  ultimately show ?thesis using assms(2,3,5,6) unfolding cleared_def by simp
qed

text \<open>
  C8. Whatever messages come in whatever order, among them the late answers of the repository and of actors, the
  manager handles each without an exception; it never has two deployments that affect a common run spec marked as
  deploying; and it knows the actor of each deployment that is not just scheduled, so every one of them can be cancelled.
\<close>

theorem deployments_apart:
  assumes "manager_run m outs ids"
  shows "(may_come outs ids msg \<longrightarrow> (\<exists>r. manager_receive msg m = Inr r))
    \<and> (map_of (dm_running m) p = Some i \<and> map_of (dm_running m) q = Some j \<and> p \<noteq> q \<and> intersectsWith (di_plan i) (di_plan j) \<longrightarrow>
        \<not> (di_status i = StatusDeploying \<and> di_status j = StatusDeploying))
    \<and> (map_of (dm_running m) p = Some i \<and> di_status i \<noteq> StatusScheduled \<longrightarrow> di_ref i = Some p)"
proof -
  note inv = run_inv [OF assms]
  have "\<not> (di_status i = StatusDeploying \<and> di_status j = StatusDeploying)"
    if e: "entry m p = Some i" "entry m q = Some j" "p \<noteq> q" "intersectsWith (di_plan i) (di_plan j)"
  proof
    assume *: "di_status i = StatusDeploying \<and> di_status j = StatusDeploying"
    have "p \<in> set ids" "q \<in> set ids" using table_entry [OF inv_table [OF inv]] e(1,2) by auto
    then consider "older ids p q" | "older ids q p" using older_total e(3) inv by (auto simp: manager_inv_def)
    then have "di_status i = StatusCanceling \<or> di_status j = StatusCanceling"
    proof cases
      case 1
      then show ?thesis using older_canceling [OF inv e(1,2) _ 1 e(4)] * by simp
    next
      case 2
      have "intersectsWith (di_plan j) (di_plan i)" using e(4) intersects_sym by blast
      then show ?thesis using older_canceling [OF inv e(2,1) _ 2] * by simp
    qed
    then show False using * by auto
  qed
  moreover have "di_ref i = Some p" if "entry m p = Some i" "di_status i \<noteq> StatusScheduled"
    using table_entry [OF inv_table [OF inv] that(1)] that(2) by (simp add: info_ok_def)
  moreover have "\<exists>r. manager_receive msg m = Inr r" if "may_come outs ids msg"
    using every_step [OF inv that] by (auto simp: step_ok_def)
  ultimately show ?thesis by blast
qed

text \<open>
  C9. Every promise is kept: as long as a deployment that was accepted is in the table, its promise is open, and when it
  leaves, for whatever reason, the promise is completed, once; a deployment that was refused is never answered with a promise.
\<close>

theorem promises_kept:
  assumes "manager_run m outs ids"
  shows "if Answer (PromiseOf k) \<in> set outs then completions k outs = (if map_of (dm_running m) k = None then 1 else 0)
    else completions k outs = 0 \<and> map_of (dm_running m) k = None"
  using assms
proof (induction rule: manager_run.induct)
  case idle
  then show ?case by (simp add: empty_manager_def)
next
  case (message m outs ids msg m' out)
  have s: "tidy m m' out" "Answer (PromiseOf k) \<in> set out \<longleftrightarrow> entry m k = None \<and> entry m' k \<noteq> None"
    using run_step [OF message.hyps(1,2)] message.hyps(3) by (auto simp: step_ok_def)
  have c: "completions k out = (if entry m k \<noteq> None \<and> entry m' k = None then 1 else 0)" using s(1) by (simp add: tidy_def)
  have n: "\<not> (Answer (PromiseOf k) \<in> set outs \<and> entry m k = None \<and> entry m' k \<noteq> None)"
    using promised_started [OF message.hyps(1)] new_entry [OF message.hyps(1-3)] by blast
  have p: "Answer (PromiseOf k) \<in> set (outs @ out) \<longleftrightarrow> Answer (PromiseOf k) \<in> set outs \<or> (entry m k = None \<and> entry m' k \<noteq> None)"
    using s(2) by simp
  show ?case
    unfolding p completions_append c
    using message.IH n by (cases "Answer (PromiseOf k) \<in> set outs"; cases "entry m k = None"; cases "entry m' k = None") simp_all
qed

section \<open>A forced deployment\<close>

text \<open>Messages handled one after the other, each one possible when its turn comes; a run that gets stuck or throws is \<open>None\<close>.\<close>

fun run_messages :: "'x manager_message list \<Rightarrow> 'x manager \<times> 'x manager_output list \<times> string list
    \<Rightarrow> ('x manager \<times> 'x manager_output list \<times> string list) option" where
  "run_messages [] y = Some y"
| "run_messages (msg # msgs) (m, outs, ids) =
     (if may_come outs ids msg then
        (case manager_receive msg m of
           Inl e \<Rightarrow> None
         | Inr (m', out) \<Rightarrow> run_messages msgs (m', outs @ out, ids_of msg @ ids))
      else None)"

lemma run_messages_run: "run_messages msgs (m, outs, ids) = Some (m', outs', ids') \<Longrightarrow> manager_run m outs ids \<Longrightarrow> manager_run m' outs' ids'"
proof (induction msgs arbitrary: m outs ids)
  case (Cons msg msgs)
  obtain m1 out where r: "manager_receive msg m = Inr (m1, out)" and c: "may_come outs ids msg"
    using Cons.prems(1) by (auto split: if_splits sum.splits)
  then show ?case using Cons.IH [of m1 "outs @ out" "ids_of msg @ ids"] Cons.prems manager_run.message [OF Cons.prems(2) c r] by simp
qed simp

lemma start_new:
  assumes "manager_inv m outs ids" and "pl_id p \<notin> set ids"
  shows "entry m (pl_id p) = None"
  using assms table_entry [OF inv_table [OF assms(1)]] by (cases "entry m (pl_id p)") auto

lemma launch_entry:
  assumes "isScheduledDeployment (pl_id p) m" and "entry m (pl_id p) = Some i" and "di_plan i = p"
  shows "\<exists>m'. manager_receive (LaunchDeployment p) m = Inr (m', [Spawn p])
    \<and> entry m' = (entry m)(pl_id p \<mapsto> i\<lparr>di_ref := Some (pl_id p), di_status := StatusDeploying\<rparr>)"
  using assms by (simp add: startDeployment_def Let_def update_conv')

lemma cancel_conflicts_entry:
  assumes "table_ok m ids" and "isScheduledDeployment (pl_id p) m" and "list_all (snapshot_ok m ids) cs" and "distinct (plan_ids cs)"
    and "\<And>k. k \<in> set (plan_ids cs) \<Longrightarrow> entry m k \<noteq> None"
  shows "\<exists>m' out. manager_receive (CancelDeletedConflicts p cs a) m = Inr (m', out @ [StoreThen p a (WaitForCanceledConflicts p cs)])
    \<and> list_all (told m' out) cs
    \<and> (\<forall>k i. k \<in> set (plan_ids cs) \<longrightarrow> entry m' k = Some i \<longrightarrow> di_status i = StatusCanceling)
    \<and> (\<forall>k. k \<notin> set (plan_ids cs) \<longrightarrow> entry m' k = entry m k)"
proof -
  have "filter (\<lambda>i. entry m (pl_id (di_plan i)) \<noteq> None) cs = cs"
    using assms(5) by (intro filter_True) (auto simp: plan_ids_def)
  then show ?thesis
    using cancel_all [OF assms(1,3-5), of "[]"] assms(2) by (auto simp: cancelDeletedConflicts_def)
qed

lemma told_more: "list_all (told m' out) cs \<Longrightarrow> entry m'' = (entry m')(k \<mapsto> i) \<Longrightarrow> k \<notin> set (plan_ids cs) \<Longrightarrow> list_all (told m'' (xs @ out @ ys)) cs"
  by (auto simp: list_all_iff told_def plan_ids_def)

text \<open>
  C22. A forced deployment gets its way: if the repository does not fail and nothing comes in between, it is launched after
  the messages that belong to it, and each of the deployments it conflicts with is cancelled: one that was scheduled
  is taken out and its promise fails, one that was deploying has its actor stopped; all others are left alone.
\<close>

theorem forced_deployment_starts:
  assumes "manager_run m outs ids" and "pl_id p \<notin> set ids" and "cs = conflictingDeployments p m"
  shows "\<exists>m' out. run_messages (StartDeployment p (Some a) True #
        (if cs = [] then [] else [CancelDeletedConflicts p cs (Some a), WaitForCanceledConflicts p cs]) @ [LaunchDeployment p])
      (m, outs, ids) = Some (m', outs @ out, pl_id p # ids)
    \<and> Spawn p \<in> set out \<and> list_all (told m' out) cs
    \<and> (\<exists>i. map_of (dm_running m') (pl_id p) = Some i \<and> di_plan i = p \<and> di_status i = StatusDeploying)
    \<and> (\<forall>k i. k \<in> set (plan_ids cs) \<longrightarrow> map_of (dm_running m') k = Some i \<longrightarrow> di_status i = StatusCanceling)
    \<and> (\<forall>k. k \<noteq> pl_id p \<and> k \<notin> set (plan_ids cs) \<longrightarrow> map_of (dm_running m') k = map_of (dm_running m) k)"
proof -
  let ?n = "pl_id p" and ?m = "markScheduled p m" and ?i = "\<lparr>di_ref = None, di_plan = p, di_status = StatusScheduled, di_cancel = None\<rparr>"
  note inv = run_inv [OF assms(1)]
  have e: "entry ?m = (entry m)(?n \<mapsto> ?i)" by (simp add: markScheduled_def update_conv')
  have s: "isScheduledDeployment ?n ?m" by (simp add: isScheduledDeployment_def e)
  show ?thesis
  proof (cases "cs = []")
    case True
    obtain m' where m': "manager_receive (LaunchDeployment p) ?m = Inr (m', [Spawn p])"
        "entry m' = (entry ?m)(?n \<mapsto> ?i\<lparr>di_ref := Some ?n, di_status := StatusDeploying\<rparr>)"
      using launch_entry [OF s, of ?i] by (auto simp: e)
    have "manager_receive (StartDeployment p (Some a) True) m = Inr (?m, [StoreThen p (Some a) (LaunchDeployment p), Answer (PromiseOf ?n)])"
      using True assms(3) by (simp add: startNonConflictingDeployment_def)
    then show ?thesis using True assms(2) m' by (simp add: e plan_ids_def del: manager_receive.simps)
  next
    case False
    let ?cancel = "CancelDeletedConflicts p cs (Some a)"
    let ?wait = "WaitForCanceledConflicts p cs"
    let ?o1 = "[DeleteThen (plan_ids cs) p ?cancel, Answer (PromiseOf ?n)]"
    have r1: "manager_receive (StartDeployment p (Some a) True) m = Inr (?m, ?o1)"
      using False assms(3) by (simp add: startConflictingDeployment_def Let_def)
    have inv1: "manager_inv ?m (outs @ ?o1) (?n # ids)"
      using run_inv [OF manager_run.message [OF assms(1) _ r1]] assms(2) by simp
    then have "message_ok ?m (?n # ids) ?cancel" by (rule sent_ok) simp
    then have ok: "list_all (snapshot_ok ?m (?n # ids)) cs" "distinct (plan_ids cs)" by simp_all
    have there: "entry m k \<noteq> None" if "k \<in> set (plan_ids cs)" for k
      using that conflict_entry [OF inv_table [OF inv]] assms(3) by (auto simp: plan_ids_def)
    have n: "?n \<notin> set (plan_ids cs)" using start_new [OF inv assms(2)] there [of ?n] by blast
    have there1: "entry ?m k \<noteq> None" if "k \<in> set (plan_ids cs)" for k using there [OF that] e by simp
    obtain m2 out2 where r2: "manager_receive ?cancel ?m = Inr (m2, out2 @ [StoreThen p (Some a) ?wait])" "list_all (told m2 out2) cs"
        "\<forall>k i. k \<in> set (plan_ids cs) \<longrightarrow> entry m2 k = Some i \<longrightarrow> di_status i = StatusCanceling"
        "\<forall>k. k \<notin> set (plan_ids cs) \<longrightarrow> entry m2 k = entry ?m k"
      using cancel_conflicts_entry [OF inv_table [OF inv1] s ok there1, of "Some a"] by blast
    have e2: "entry m2 ?n = Some ?i" using r2(4) n e by simp
    then have s2: "isScheduledDeployment ?n m2" by (simp add: isScheduledDeployment_def)
    then have r3: "manager_receive ?wait m2 = Inr (m2, waitForCanceledConflicts p cs)" by simp
    obtain m' where m': "manager_receive (LaunchDeployment p) m2 = Inr (m', [Spawn p])"
        "entry m' = (entry m2)(?n \<mapsto> ?i\<lparr>di_ref := Some ?n, di_status := StatusDeploying\<rparr>)"
      using launch_entry [OF s2 e2] by auto
    obtain refs where w: "waitForCanceledConflicts p cs = [AwaitThen refs (LaunchDeployment p)]" by (simp add: waitForCanceledConflicts_def)
    let ?out = "?o1 @ out2 @ ([StoreThen p (Some a) ?wait] @ waitForCanceledConflicts p cs @ [Spawn p])"
    have "run_messages [StartDeployment p (Some a) True, ?cancel, ?wait, LaunchDeployment p] (m, outs, ids) = Some (m', outs @ ?out, ?n # ids)"
      using r1 r2(1) r3 m'(1) assms(2) by (simp add: w del: manager_receive.simps)
    moreover have "list_all (told m' ?out) cs" by (rule told_more [OF r2(2) m'(2) n])
    ultimately show ?thesis using False r2(3,4) n e m'(2) by (intro exI [of _ m'] exI [of _ ?out]) auto
  qed
qed

section \<open>Examples, and what the manager does not guarantee\<close>

definition web_plan :: "string \<Rightarrow> unit plan" where
  "web_plan pid = \<lparr>pl_id = pid, pl_steps = [[(AbsolutePathId [''web''], ())]]\<rparr>"

definition info_of :: "string \<Rightarrow> deployment_status \<Rightarrow> unit deployment_info" where
  "info_of pid st = \<lparr>di_ref = (if st = StatusScheduled then None else Some pid), di_plan = web_plan pid, di_status = st, di_cancel = None\<rparr>"

definition forced_messages :: "unit manager_message list" where
  "forced_messages = [StartDeployment (web_plan ''d1'') (Some ''api'') False, LaunchDeployment (web_plan ''d1''),
     StartDeployment (web_plan ''d2'') (Some ''api'') True,
     CancelDeletedConflicts (web_plan ''d2'') [info_of ''d1'' StatusDeploying] (Some ''api''),
     WaitForCanceledConflicts (web_plan ''d2'') [info_of ''d1'' StatusDeploying], LaunchDeployment (web_plan ''d2'')]"

fun spawned :: "'x manager_output list \<Rightarrow> string list" where
  "spawned [] = []"
| "spawned (Spawn p # outs) = pl_id p # spawned outs"
| "spawned (x # outs) = spawned outs"

fun stopped :: "'x manager_output list \<Rightarrow> string list" where
  "stopped [] = []"
| "stopped (StopWith ref r # outs) = ref # stopped outs"
| "stopped (x # outs) = stopped outs"

text \<open>The repository after its operations, when all of them succeed, in the order in which they are issued.\<close>

fun repository_after :: "'x manager_output list \<Rightarrow> string list \<Rightarrow> string list" where
  "repository_after [] ids = ids"
| "repository_after (StoreThen p a msg # outs) ids = repository_after outs (List.insert (pl_id p) ids)"
| "repository_after (DeleteThen gone p msg # outs) ids = repository_after outs (filter (\<lambda>k. k \<notin> set gone) ids)"
| "repository_after (DeletePlan pid # outs) ids = repository_after outs (removeAll pid ids)"
| "repository_after (x # outs) ids = repository_after outs ids"

text \<open>
  The conflicts are looked up once, when the deployment comes in. The wait filters them by the status they had then, so it does
  not wait for those that were cancelled for it: the new deployment is launched while the old one is stopping.
\<close>

lemma wait_ignores_cancelled:
  "case run_messages forced_messages (empty_manager, [], []) of None \<Rightarrow> False
   | Some (m, outs, ids) \<Rightarrow> AwaitThen [] (LaunchDeployment (web_plan ''d2'')) \<in> set outs \<and> stopped outs = [''d1''] \<and> spawned outs = [''d1'', ''d2'']"
  by code_simp

text \<open>
  And a conflict that was scheduled then and has been launched since is taken for one that is still scheduled: it is taken
  out of the table, its promise fails, but nobody stops its actor, and two deployments of one run spec go on side by side.
\<close>

lemma launched_conflict_not_stopped:
  "case run_messages [StartDeployment (web_plan ''d1'') (Some ''api'') False, StartDeployment (web_plan ''d2'') (Some ''api'') True,
      LaunchDeployment (web_plan ''d1''), CancelDeletedConflicts (web_plan ''d2'') [info_of ''d1'' StatusScheduled] (Some ''api''),
      WaitForCanceledConflicts (web_plan ''d2'') [info_of ''d1'' StatusScheduled], LaunchDeployment (web_plan ''d2'')]
     (empty_manager, [], []) of None \<Rightarrow> False
   | Some (m, outs, ids) \<Rightarrow> spawned outs = [''d1'', ''d2''] \<and> stopped outs = [] \<and> map fst (dm_running m) = [''d2'']"
  by code_simp

text \<open>
  With two forced deployments under way the second deletes the first before it is stored: both end up in the repository, though
  they conflict and only one is known to the manager.
\<close>

lemma conflicting_plans_stored:
  "case run_messages [StartDeployment (web_plan ''d1'') (Some ''api'') False, LaunchDeployment (web_plan ''d1''),
      StartDeployment (web_plan ''d2'') (Some ''api'') True, StartDeployment (web_plan ''d3'') (Some ''api'') True,
      CancelDeletedConflicts (web_plan ''d2'') [info_of ''d1'' StatusDeploying] (Some ''api''),
      CancelDeletedConflicts (web_plan ''d3'') [info_of ''d1'' StatusDeploying, info_of ''d2'' StatusScheduled] (Some ''api''),
      WaitForCanceledConflicts (web_plan ''d3'') [info_of ''d1'' StatusDeploying, info_of ''d2'' StatusScheduled],
      LaunchDeployment (web_plan ''d3''), DeploymentFinished (web_plan ''d1'') DeploymentCanceled]
     (empty_manager, [], []) of None \<Rightarrow> False
   | Some (m, outs, ids) \<Rightarrow> set (repository_after outs []) = {''d2'', ''d3''} \<and> map fst (dm_running m) = [''d3'']"
  by code_simp

text \<open>A message that a deployment has finished is counted also when the deployment is not in the table any more.\<close>

lemma active_below_zero:
  "case run_messages [StartDeployment (web_plan ''d1'') (Some ''api'') False, CancelDeployment (web_plan ''d1''),
      DeploymentFinished (web_plan ''d1'') DeploymentCanceled] (empty_manager, [], []) of None \<Rightarrow> False
   | Some (m, outs, ids) \<Rightarrow> dm_active m = - 1 \<and> dm_running m = []"
  by code_simp

lemma forced_run:
  obtains m outs where "run_messages forced_messages (empty_manager, [], []) = Some (m, outs, [''d2'', ''d1''])"
    and "manager_run m outs [''d2'', ''d1'']"
    and "map_of (dm_running m) ''d1'' = Some (info_of ''d1'' StatusCanceling\<lparr>di_cancel := Some ''d1''\<rparr>)"
    and "map_of (dm_running m) ''d2'' = Some (info_of ''d2'' StatusDeploying)"
    and "Answer (PromiseOf ''d1'') \<in> set outs" and "may_come outs [''d2'', ''d1''] (DeploymentFinished (web_plan ''d1'') DeploymentCanceled)"
proof -
  have "case run_messages forced_messages (empty_manager, [], []) of None \<Rightarrow> False
    | Some (m, outs, ids) \<Rightarrow> ids = [''d2'', ''d1''] \<and> map_of (dm_running m) ''d1'' = Some (info_of ''d1'' StatusCanceling\<lparr>di_cancel := Some ''d1''\<rparr>)
      \<and> map_of (dm_running m) ''d2'' = Some (info_of ''d2'' StatusDeploying) \<and> Answer (PromiseOf ''d1'') \<in> set outs"
    by code_simp
  then obtain m outs where *: "run_messages forced_messages (empty_manager, [], []) = Some (m, outs, [''d2'', ''d1''])"
      "map_of (dm_running m) ''d1'' = Some (info_of ''d1'' StatusCanceling\<lparr>di_cancel := Some ''d1''\<rparr>)"
      "map_of (dm_running m) ''d2'' = Some (info_of ''d2'' StatusDeploying)" "Answer (PromiseOf ''d1'') \<in> set outs"
    by (auto split: option.splits)
  show thesis using that [OF *(1) run_messages_run [OF *(1) manager_run.idle] *(2-4)] by simp
qed

theorem deployments_apart_witness:
  "\<exists>m outs ids i j r. manager_run m outs ids \<and> map_of (dm_running m) ''d1'' = Some i \<and> map_of (dm_running m) ''d2'' = Some j
    \<and> intersectsWith (di_plan i) (di_plan j) \<and> \<not> (di_status i = StatusDeploying \<and> di_status j = StatusDeploying) \<and> di_ref j = Some ''d2''
    \<and> manager_receive (DeploymentFinished (web_plan ''d1'') DeploymentCanceled) m = Inr r"
proof -
  obtain m outs where r: "manager_run m outs [''d2'', ''d1'']"
    and e: "map_of (dm_running m) ''d1'' = Some (info_of ''d1'' StatusCanceling\<lparr>di_cancel := Some ''d1''\<rparr>)"
      "map_of (dm_running m) ''d2'' = Some (info_of ''d2'' StatusDeploying)"
    and c: "may_come outs [''d2'', ''d1''] (DeploymentFinished (web_plan ''d1'') DeploymentCanceled)"
    by (rule forced_run)
  have i: "intersectsWith (web_plan ''d1'') (web_plan ''d2'')" by code_simp
  have "\<exists>r. manager_receive (DeploymentFinished (web_plan ''d1'') DeploymentCanceled) m = Inr r"
    using deployments_apart [OF r] c by blast
  moreover have "\<not> (di_status (info_of ''d1'' StatusCanceling\<lparr>di_cancel := Some ''d1''\<rparr>) = StatusDeploying \<and> di_status (info_of ''d2'' StatusDeploying) = StatusDeploying)"
    using deployments_apart [OF r, of _ "''d1''" _ "''d2''"] e i by (simp add: info_of_def)
  moreover have "di_ref (info_of ''d2'' StatusDeploying) = Some ''d2''"
    using deployments_apart [OF r, of _ "''d2''"] e by (simp add: info_of_def)
  moreover have "intersectsWith (di_plan (info_of ''d1'' StatusCanceling\<lparr>di_cancel := Some ''d1''\<rparr>)) (di_plan (info_of ''d2'' StatusDeploying))"
    using i by (simp add: info_of_def)
  ultimately show ?thesis using r e by metis
qed

theorem promises_kept_witness:
  "\<exists>(m :: unit manager) outs ids. manager_run m outs ids \<and> Answer (PromiseOf ''d1'') \<in> set outs \<and> completions ''d1'' outs = 0
    \<and> completions ''d3'' outs = 0"
proof -
  obtain m outs where r: "manager_run m outs [''d2'', ''d1'']"
    and e: "map_of (dm_running m) ''d1'' = Some (info_of ''d1'' StatusCanceling\<lparr>di_cancel := Some ''d1''\<rparr>)"
    and a: "Answer (PromiseOf ''d1'') \<in> set outs"
    by (rule forced_run)
  have "completions ''d1'' outs = 0" using promises_kept [OF r, of "''d1''"] a e by simp
  moreover have "Answer (PromiseOf ''d3'') \<notin> set outs" using promised_started [OF r, of "''d3''"] by auto
  then have "completions ''d3'' outs = 0" using promises_kept [OF r, of "''d3''"] by simp
  ultimately show ?thesis using r a by blast
qed

theorem forced_deployment_starts_witness:
  "\<exists>m outs m' out. manager_run m outs [''d1''] \<and> conflictingDeployments (web_plan ''d2'') m = [info_of ''d1'' StatusDeploying]
    \<and> run_messages [StartDeployment (web_plan ''d2'') (Some ''api'') True,
        CancelDeletedConflicts (web_plan ''d2'') [info_of ''d1'' StatusDeploying] (Some ''api''),
        WaitForCanceledConflicts (web_plan ''d2'') [info_of ''d1'' StatusDeploying], LaunchDeployment (web_plan ''d2'')] (m, outs, [''d1''])
      = Some (m', outs @ out, [''d2'', ''d1''])
    \<and> Spawn (web_plan ''d2'') \<in> set out \<and> StopWith ''d1'' DeploymentCanceled \<in> set out"
proof -
  have "case run_messages (take 2 forced_messages) (empty_manager, [], []) of None \<Rightarrow> False
    | Some (m, outs, ids) \<Rightarrow> ids = [''d1''] \<and> conflictingDeployments (web_plan ''d2'') m = [info_of ''d1'' StatusDeploying]"
    by code_simp
  then obtain m outs where *: "run_messages (take 2 forced_messages) (empty_manager, [], []) = Some (m, outs, [''d1''])"
      "conflictingDeployments (web_plan ''d2'') m = [info_of ''d1'' StatusDeploying]"
    by (auto split: option.splits)
  have r: "manager_run m outs [''d1'']" by (rule run_messages_run [OF *(1) manager_run.idle])
  have "pl_id (web_plan ''d2'') \<notin> set [''d1'']" by (simp add: web_plan_def)
  from forced_deployment_starts [OF r this refl, unfolded *(2), of "''api''"]
  obtain m' out where "run_messages [StartDeployment (web_plan ''d2'') (Some ''api'') True,
        CancelDeletedConflicts (web_plan ''d2'') [info_of ''d1'' StatusDeploying] (Some ''api''),
        WaitForCanceledConflicts (web_plan ''d2'') [info_of ''d1'' StatusDeploying], LaunchDeployment (web_plan ''d2'')] (m, outs, [''d1''])
      = Some (m', outs @ out, [''d2'', ''d1''])" "Spawn (web_plan ''d2'') \<in> set out" "told m' out (info_of ''d1'' StatusDeploying)"
    by (auto simp: web_plan_def simp del: run_messages.simps)
  then show ?thesis using r *(2) by (auto simp: told_def info_of_def web_plan_def simp del: run_messages.simps)
qed

section \<open>Locks\<close>

text \<open>
  \<open>MarathonSchedulerActor\<close> locks the run specs of a deployment, or of a change of scale. Every lock has a version of
  its own; a deployment takes its locks whether they are taken or not, a change of scale only when they are free.
\<close>

record locks =
  lk_lockedRunSpecs :: "(path_id \<times> int) list"
  lk_currentLockVersion :: int

definition addLock :: "path_id \<Rightarrow> int \<Rightarrow> locks \<Rightarrow> locks" where
  "addLock k v l = l\<lparr>lk_lockedRunSpecs := AList.update k v (lk_lockedRunSpecs l)\<rparr>"

definition addLocks :: "path_id list \<Rightarrow> locks \<Rightarrow> locks \<times> int" where
  "addLocks ks l = (let v = lk_currentLockVersion l + 1 in (fold (\<lambda>k. addLock k v) ks (l\<lparr>lk_currentLockVersion := v\<rparr>), v))"

definition removeLock :: "path_id \<Rightarrow> int \<Rightarrow> locks \<Rightarrow> locks" where
  "removeLock k v l =
     (if map_of (lk_lockedRunSpecs l) k = Some v then l\<lparr>lk_lockedRunSpecs := AList.delete k (lk_lockedRunSpecs l)\<rparr> else l)"

definition removeLocks :: "path_id list \<Rightarrow> int \<Rightarrow> locks \<Rightarrow> locks" where
  "removeLocks ks v l = fold (\<lambda>k. removeLock k v) ks l"

definition noConflictsWith :: "path_id list \<Rightarrow> locks \<Rightarrow> bool" where
  "noConflictsWith ks l \<longleftrightarrow> list_all (\<lambda>k. map_of (lk_lockedRunSpecs l) k = None) ks"

definition withLockFor :: "path_id list \<Rightarrow> locks \<Rightarrow> locks \<times> int option" where
  "withLockFor ks l = (if noConflictsWith ks l then (let (l', v) = addLocks ks l in (l', Some v)) else (l, None))"

datatype lock_event = Deploy "path_id list" | ScaleRunSpec path_id | RemoveLocks "path_id list" int | Suspended

definition lock_step :: "locks \<Rightarrow> lock_event \<Rightarrow> locks" where
  "lock_step l e = (case e of
     Deploy ks \<Rightarrow> fst (addLocks ks l)
   | ScaleRunSpec k \<Rightarrow> fst (withLockFor [k] l)
   | RemoveLocks ks v \<Rightarrow> removeLocks ks v l
   | Suspended \<Rightarrow> l\<lparr>lk_lockedRunSpecs := []\<rparr>)"

definition lock_run :: "lock_event list \<Rightarrow> locks" where
  "lock_run es = foldl lock_step \<lparr>lk_lockedRunSpecs = [], lk_currentLockVersion = 0\<rparr> es"

text \<open>The specification: who takes a lock of a run spec, and what keeps it.\<close>

definition takes :: "locks \<Rightarrow> lock_event \<Rightarrow> path_id \<Rightarrow> bool" where
  "takes l e k \<longleftrightarrow> (case e of Deploy ks \<Rightarrow> k \<in> set ks | ScaleRunSpec h \<Rightarrow> h = k \<and> map_of (lk_lockedRunSpecs l) k = None | _ \<Rightarrow> False)"

definition gives_up :: "lock_event \<Rightarrow> path_id \<Rightarrow> int \<Rightarrow> bool" where
  "gives_up e k v \<longleftrightarrow> (case e of RemoveLocks ks w \<Rightarrow> k \<in> set ks \<and> w = v | Suspended \<Rightarrow> True | _ \<Rightarrow> False)"

fun kept :: "locks \<Rightarrow> lock_event list \<Rightarrow> path_id \<Rightarrow> int \<Rightarrow> bool" where
  "kept l [] k v \<longleftrightarrow> True"
| "kept l (e # es) k v \<longleftrightarrow> \<not> takes l e k \<and> \<not> gives_up e k v \<and> kept (lock_step l e) es k v"

lemma fold_addLock: "map_of (lk_lockedRunSpecs (fold (\<lambda>k. addLock k v) ks l)) k
    = (if k \<in> set ks then Some v else map_of (lk_lockedRunSpecs l) k)
    \<and> lk_currentLockVersion (fold (\<lambda>k. addLock k v) ks l) = lk_currentLockVersion l"
  by (induction ks arbitrary: l) (auto simp: addLock_def update_conv')

lemma fold_removeLock: "map_of (lk_lockedRunSpecs (removeLocks ks v l)) k
    = (if k \<in> set ks \<and> map_of (lk_lockedRunSpecs l) k = Some v then None else map_of (lk_lockedRunSpecs l) k)
    \<and> lk_currentLockVersion (removeLocks ks v l) = lk_currentLockVersion l"
  unfolding removeLocks_def by (induction ks arbitrary: l) (auto simp: removeLock_def delete_conv')

lemma lock_step_locked:
  "map_of (lk_lockedRunSpecs (lock_step l e)) k =
    (if takes l e k then Some (lk_currentLockVersion l + 1)
     else case map_of (lk_lockedRunSpecs l) k of None \<Rightarrow> None | Some v \<Rightarrow> if gives_up e k v then None else Some v)"
  by (cases e) (auto simp: lock_step_def takes_def gives_up_def addLocks_def withLockFor_def noConflictsWith_def Let_def
    fold_addLock fold_removeLock addLock_def update_conv' split: option.splits)

lemma kept_snoc: "kept l (es @ [e]) k v \<longleftrightarrow> kept l es k v \<and> \<not> takes (foldl lock_step l es) e k \<and> \<not> gives_up e k v"
  by (induction es arbitrary: l) auto


text \<open>A deployment that is refused releases, when it fails, the lock of the deployment that runs.\<close>

lemma refused_deployment_unlocks:
  "map_of (lk_lockedRunSpecs (lock_run [Deploy [AbsolutePathId [''web'']], Deploy [AbsolutePathId [''web'']],
     RemoveLocks [AbsolutePathId [''web'']] 2])) (AbsolutePathId [''web'']) = None"
  by code_simp

end
