(* ===== verification/Constraints.thy ===== *)
theory Constraints
  imports JsValue PathId
begin

text \<open>
  Placement constraints (\<open>mesos/Constraints.scala\<close>): whether an offer meets a constraint, given the
  instances that are placed already, and what holds of all instances a sequence of offers and kills leads to.
\<close>

section \<open>Offers and instances\<close>

datatype attr_value = Scalar rat | Text string | Ranges "(int \<times> int) list" | ValueSet "string list"

record offer =
  of_hostname :: string
  of_region :: "string option"
  of_zone :: "string option"
  of_attributes :: "(string \<times> attr_value) list"

datatype condition = Scheduled | Provisioned | Error | Failed | Finished | Killed | Killing | Running
  | Staging | Starting | Unreachable | UnreachableInactive | Gone | Dropped | Unknown

datatype goal = GoalRunning | GoalStopped | GoalDecommissioned

text \<open>
  Of an instance what constraints and scaling read: the agent, the instances its run spec asks for, its
  state and the times its tasks were staged at. Times are milliseconds.
\<close>

record mesos_instance =
  in_id :: string
  in_hostname :: "string option"
  in_region :: "string option"
  in_zone :: "string option"
  in_attributes :: "(string \<times> attr_value) list"
  in_specInstances :: nat
  in_condition :: condition
  in_goal :: goal
  in_since :: int
  in_activeSince :: "int option"
  in_stagedAt :: "int list"

section \<open>Reading fields\<close>

text \<open>\<open>DecimalFormat("0.###")\<close>: three decimals at most, rounded half to even.\<close>

definition round_half_even :: "rat \<Rightarrow> int" where
  "round_half_even q = (let n = \<lfloor>q\<rfloor>; r = q - of_int n in
     if r < 1 / 2 then n else if 1 / 2 < r then n + 1 else if even n then n else n + 1)"

definition decimal_format :: "rat \<Rightarrow> string" where
  "decimal_format q = (if q < 0 then ''-'' else []) @ show_rat (of_int (round_half_even (1000 * \<bar>q\<bar>)) / 1000)"

fun getValueString :: "attr_value \<Rightarrow> string" where
  "getValueString (Scalar q) = decimal_format q"
| "getValueString (Text s) = s"
| "getValueString (Ranges rs) =
     ''['' @ join '','' (map (\<lambda>(b, e). show_int b @ ''-'' @ show_int e) (sort_key fst rs)) @ '']''"
| "getValueString (ValueSet items) = ''{'' @ join '','' (sort_cmp compareTo items) @ ''}''"

definition hostnameField :: string where "hostnameField = ''@hostname''"
definition regionField :: string where "regionField = ''@region''"
definition zoneField :: string where "zoneField = ''@zone''"

definition attribute_value :: "string \<Rightarrow> (string \<times> attr_value) list \<Rightarrow> string option" where
  "attribute_value field attrs = map_option (getValueString \<circ> snd) (List.find (\<lambda>(name, v). name = field) attrs)"

text \<open>The two halves of \<open>readerForField\<close>: what an offer and what an instance has in a field.\<close>

definition offer_reader :: "string \<Rightarrow> offer \<Rightarrow> string option" where
  "offer_reader field offer =
     (if field = ''hostname'' \<or> field = hostnameField then Some (of_hostname offer)
      else if field = regionField then of_region offer
      else if field = zoneField then of_zone offer
      else attribute_value field (of_attributes offer))"

definition placed_reader :: "string \<Rightarrow> mesos_instance \<Rightarrow> string option" where
  "placed_reader field i =
     (if field = ''hostname'' \<or> field = hostnameField then in_hostname i
      else if field = regionField then in_region i
      else if field = zoneField then in_zone i
      else attribute_value field (in_attributes i))"

section \<open>Constraints\<close>

datatype operator = UNIQUE | LIKE | CLUSTER | GROUP_BY | UNLIKE | MAX_PER | IS

record constraint =
  cn_field :: string
  cn_operator :: operator
  cn_value :: "string option"

text \<open>The value of the protocol buffer: empty where none is set.\<close>

definition getValue :: "constraint \<Rightarrow> string" where
  "getValue c = (case cn_value c of None \<Rightarrow> [] | Some v \<Rightarrow> v)"

text \<open>\<open>String.toInt\<close>: a sign and digits, in the range of 32 bits.\<close>

definition toInt :: "string \<Rightarrow> int option" where
  "toInt s = (let (neg, ds) = split_sign s; n = int (nat_of_digits ds); v = (if neg then - n else n)
     in if ds \<noteq> [] \<and> list_all is_digit ds \<and> - 2147483648 \<le> v \<and> v \<le> 2147483647 then Some v else None)"

definition getIntValue :: "string \<Rightarrow> int \<Rightarrow> int" where
  "getIntValue s dflt = (if s = ''inf'' then 2147483647 else case toInt s of Some x \<Rightarrow> x | None \<Rightarrow> dflt)"

text \<open>\<open>MesosScalarValue\<close>: digits with at most one fraction.\<close>

definition constraintValueAsScalar :: "string \<Rightarrow> rat option" where
  "constraintValueAsScalar s = (case split_on (CHR ''.'') s of
       [ip] \<Rightarrow> if ip \<noteq> [] \<and> list_all is_digit ip then Some (of_nat (nat_of_digits ip)) else None
     | [ip, fp] \<Rightarrow> if ip \<noteq> [] \<and> fp \<noteq> [] \<and> list_all is_digit (ip @ fp)
         then Some (of_nat (nat_of_digits (ip @ fp)) / 10 ^ length fp) else None
     | _ \<Rightarrow> None)"

datatype match_error = ArithmeticException | NumberFormatException | PatternSyntaxException

text \<open>The sizes of the groups of placed instances, by what they have in the field.\<close>

definition group_counts :: "(mesos_instance \<Rightarrow> string option) \<Rightarrow> mesos_instance list \<Rightarrow> (string option \<times> nat) list" where
  "group_counts f allInstances = map (\<lambda>k. (k, length (filter (\<lambda>i. f i = k) allInstances))) (remdups (map f allInstances))"

definition checkGroupBy :: "string \<Rightarrow> mesos_instance list \<Rightarrow> string \<Rightarrow> (mesos_instance \<Rightarrow> string option) \<Rightarrow> match_error + bool" where
  "checkGroupBy constraintValue allInstances offerValue groupFunc =
     (let desiredInstanceCount = (case allInstances of i # _ \<Rightarrow> in_specInstances i | [] \<Rightarrow> 1);
          desiredGroupCount = nat (max 0 (getIntValue constraintValue 0));
          currentCountPerGroup = group_counts groupFunc allInstances
      in if desiredGroupCount = 0 then Inl ArithmeticException
      else let desiredCountPerGroup = desiredInstanceCount div desiredGroupCount;
          remainder = desiredInstanceCount mod desiredGroupCount;
          remainderConsumed = sum_list (map (\<lambda>(_, groupCount). groupCount - desiredCountPerGroup) currentCountPerGroup);
          remainderUnused = 0 < int remainder - int remainderConsumed
      in Inr (case map_of currentCountPerGroup (Some offerValue) of
          Some groupCount \<Rightarrow> groupCount < desiredCountPerGroup \<or> groupCount = desiredCountPerGroup \<and> remainderUnused
        | None \<Rightarrow> length currentCountPerGroup < desiredGroupCount))"

definition checkMaxPer :: "mesos_instance list \<Rightarrow> string \<Rightarrow> int \<Rightarrow> (mesos_instance \<Rightarrow> string option) \<Rightarrow> bool" where
  "checkMaxPer allInstances offerValue maxCount groupFunc =
     (case map_of (group_counts groupFunc allInstances) (Some offerValue) of
        Some groupCount \<Rightarrow> int groupCount < maxCount
      | None \<Rightarrow> True)"

definition checkCluster :: "string \<Rightarrow> mesos_instance list \<Rightarrow> string \<Rightarrow> (mesos_instance \<Rightarrow> string option) \<Rightarrow> bool" where
  "checkCluster constraintValue allInstances offerValue placedValue =
     (if constraintValue = [] then (case allInstances of [] \<Rightarrow> True | p # _ \<Rightarrow> placedValue p = Some offerValue)
      else offerValue = constraintValue)"

definition checkUnique :: "mesos_instance list \<Rightarrow> string option \<Rightarrow> (mesos_instance \<Rightarrow> string option) \<Rightarrow> bool" where
  "checkUnique allInstances offerValue placedValue = (\<forall>p\<in>set allInstances. placedValue p \<noteq> offerValue)"

text \<open>\<open>String.matches\<close> is a parameter: a pattern and a text, \<open>None\<close> where the pattern is not one.\<close>

type_synonym regex = "string \<Rightarrow> string \<Rightarrow> bool option"

definition matches :: "regex \<Rightarrow> string \<Rightarrow> string \<Rightarrow> match_error + bool" where
  "matches rx text' pattern = (case rx pattern text' of None \<Rightarrow> Inl PatternSyntaxException | Some b \<Rightarrow> Inr b)"

definition checkLike :: "regex \<Rightarrow> string \<Rightarrow> string \<Rightarrow> match_error + bool" where
  "checkLike rx constraintValue offerValue = (if constraintValue \<noteq> [] then matches rx offerValue constraintValue else Inr False)"

definition checkUnlike :: "regex \<Rightarrow> string \<Rightarrow> string \<Rightarrow> match_error + bool" where
  "checkUnlike rx constraintValue offerValue =
     (if constraintValue \<noteq> [] then rbind (matches rx offerValue constraintValue) (\<lambda>b. Inr (\<not> b)) else Inr False)"

definition is_value :: "string \<Rightarrow> string" where
  "is_value constraintValue =
     (case constraintValueAsScalar constraintValue of None \<Rightarrow> constraintValue | Some q \<Rightarrow> decimal_format q)"

definition checkConstraint :: "regex \<Rightarrow> constraint \<Rightarrow> mesos_instance list \<Rightarrow> string option
    \<Rightarrow> (mesos_instance \<Rightarrow> string option) \<Rightarrow> match_error + bool" where
  "checkConstraint rx c allInstances maybeOfferValue placedValue =
     (case maybeOfferValue of
        Some offerValue \<Rightarrow> (case cn_operator c of
            LIKE \<Rightarrow> checkLike rx (getValue c) offerValue
          | UNLIKE \<Rightarrow> checkUnlike rx (getValue c) offerValue
          | UNIQUE \<Rightarrow> Inr (checkUnique allInstances maybeOfferValue placedValue)
          | GROUP_BY \<Rightarrow> checkGroupBy (getValue c) allInstances offerValue placedValue
          | MAX_PER \<Rightarrow> (case toInt (getValue c) of
                None \<Rightarrow> Inl NumberFormatException
              | Some maxCount \<Rightarrow> Inr (checkMaxPer allInstances offerValue maxCount placedValue))
          | CLUSTER \<Rightarrow> Inr (checkCluster (getValue c) allInstances offerValue placedValue)
          | IS \<Rightarrow> Inr (offerValue = is_value (getValue c)))
      | None \<Rightarrow> Inr (cn_operator c = UNLIKE))"

definition meetsConstraint :: "regex \<Rightarrow> mesos_instance list \<Rightarrow> offer \<Rightarrow> constraint \<Rightarrow> match_error + bool" where
  "meetsConstraint rx allInstances offer c =
     checkConstraint rx c allInstances (offer_reader (cn_field c) offer) (placed_reader (cn_field c))"

section \<open>Validation of a constraint\<close>

text \<open>\<open>complyWithConstraintRules\<close>; whether a pattern compiles is a parameter.\<close>

datatype violation = ConstraintRequiresField | ConstraintUniqueDoesNotAcceptValue | ConstraintGroupByMustBeEmptyOrInt
  | ConstraintMaxPerRequiresInt | ConstraintLikeAnUnlikeRequireRegexp | InvalidRegularExpression | IsOnlySupportsText

definition literal_or_float :: "string \<Rightarrow> bool" where
  "literal_or_float s = list_all (\<lambda>c. is_alnum c \<or> c \<in> set ''_/.-'') s"

definition complyWithConstraintRules :: "(string \<Rightarrow> bool) \<Rightarrow> constraint \<Rightarrow> violation option" where
  "complyWithConstraintRules compiles c =
     (if cn_field c = [] then Some ConstraintRequiresField
      else case cn_operator c of
          UNIQUE \<Rightarrow> (case cn_value c of None \<Rightarrow> None | Some _ \<Rightarrow> Some ConstraintUniqueDoesNotAcceptValue)
        | CLUSTER \<Rightarrow> None
        | GROUP_BY \<Rightarrow> (case cn_value c of
              None \<Rightarrow> None
            | Some v \<Rightarrow> if toInt v = None then Some ConstraintGroupByMustBeEmptyOrInt else None)
        | MAX_PER \<Rightarrow> (case cn_value c of
              None \<Rightarrow> Some ConstraintMaxPerRequiresInt
            | Some v \<Rightarrow> if toInt v = None then Some ConstraintMaxPerRequiresInt else None)
        | LIKE \<Rightarrow> (case cn_value c of
              None \<Rightarrow> Some ConstraintLikeAnUnlikeRequireRegexp
            | Some v \<Rightarrow> if compiles v then None else Some InvalidRegularExpression)
        | UNLIKE \<Rightarrow> (case cn_value c of
              None \<Rightarrow> Some ConstraintLikeAnUnlikeRequireRegexp
            | Some v \<Rightarrow> if compiles v then None else Some InvalidRegularExpression)
        | IS \<Rightarrow> if literal_or_float (getValue c) then None else Some IsOnlySupportsText)"

section \<open>Sizes of groups\<close>

definition count_in :: "(mesos_instance \<Rightarrow> string option) \<Rightarrow> string option \<Rightarrow> mesos_instance list \<Rightarrow> nat" where
  "count_in f k allInstances = length (filter (\<lambda>i. f i = k) allInstances)"

lemma count_in_simps [simp]:
  "count_in f k [] = 0"
  "count_in f k (xs @ ys) = count_in f k xs + count_in f k ys"
  "count_in f k (i # xs) = (if f i = k then Suc (count_in f k xs) else count_in f k xs)"
  by (simp_all add: count_in_def)

lemma count_in_zero: "count_in f k xs = 0 \<longleftrightarrow> k \<notin> f ` set xs"
  by (auto simp: count_in_def filter_empty_conv)

lemma count_in_absent [simp]: "k \<notin> f ` set xs \<Longrightarrow> count_in f k xs = 0"
  by (simp add: count_in_zero)

lemma group_counts_at: "map_of (group_counts f xs) k = (if k \<in> f ` set xs then Some (count_in f k xs) else None)"
proof -
  have "map_of (map (\<lambda>k. (k, g k)) ks) k = (if k \<in> set ks then Some (g k) else None)" for ks and g :: "string option \<Rightarrow> nat"
    by (induction ks) auto
  from this [of "\<lambda>k. count_in f k xs" "remdups (map f xs)"] show ?thesis
    by (simp add: group_counts_def count_in_def)
qed

lemma group_counts_sum: "sum_list (map (\<lambda>(_, n). g n) (group_counts f xs)) = (\<Sum>k\<in>f ` set xs. g (count_in f k xs))"
  by (simp add: group_counts_def count_in_def comp_def sum_list_distinct_conv_sum_set)

lemma group_counts_length: "length (group_counts f xs) = card (f ` set xs)"
  by (simp add: group_counts_def length_remdups_card_conv)

lemma length_by_group: "length xs = (\<Sum>k\<in>f ` set xs. count_in f k xs)"
proof (induction xs)
  case (Cons i xs)
  have "(\<Sum>k\<in>f ` set (i # xs). count_in f k (i # xs)) = (\<Sum>k\<in>insert (f i) (f ` set xs). count_in f k xs + (if k = f i then 1 else 0))"
    by (intro sum.cong) auto
  also have "\<dots> = (\<Sum>k\<in>insert (f i) (f ` set xs). count_in f k xs) + 1"
    by (simp add: sum.distrib sum.delta)
  also have "(\<Sum>k\<in>insert (f i) (f ` set xs). count_in f k xs) = (\<Sum>k\<in>f ` set xs. count_in f k xs)"
    by (cases "f i \<in> f ` set xs") (simp_all add: insert_absorb count_in_zero)
  finally show ?case using Cons.IH by simp
qed simp


lemma sum_counts_superset:
  assumes "finite A" and "f ` set xs \<subseteq> A" and "g 0 = (0 :: nat)"
  shows "(\<Sum>k\<in>f ` set xs. g (count_in f k xs)) = (\<Sum>k\<in>A. g (count_in f k xs))"
  using assms by (intro sum.mono_neutral_left) (auto simp: count_in_zero [THEN iffD2])

section \<open>What placement comes to\<close>

text \<open>
  The instances of a run spec that asks for \<open>n\<close>: offers are accepted that meet the constraint given
  what is placed, and the new instance has in the field what the offer had; instances go away at any
  time.
\<close>

inductive placed :: "regex \<Rightarrow> constraint \<Rightarrow> nat \<Rightarrow> mesos_instance list \<Rightarrow> bool" for rx c n where
  nothing: "placed rx c n []"
| launch: "placed rx c n xs \<Longrightarrow> meetsConstraint rx xs offer c = Inr True \<Longrightarrow>
    placed_reader (cn_field c) i = offer_reader (cn_field c) offer \<Longrightarrow> in_specInstances i = n \<Longrightarrow> placed rx c n (xs @ [i])"
| gone: "placed rx c n (xs @ i # ys) \<Longrightarrow> placed rx c n (xs @ ys)"

text \<open>What is promised: of \<open>GROUP_BY\<close> with \<open>g\<close> groups, that no group gets more than its share.\<close>

definition excess :: "nat \<Rightarrow> (mesos_instance \<Rightarrow> string option) \<Rightarrow> mesos_instance list \<Rightarrow> nat" where
  "excess d f xs = (\<Sum>k\<in>f ` set xs. count_in f k xs - d)"

definition spread :: "nat \<Rightarrow> nat \<Rightarrow> (mesos_instance \<Rightarrow> string option) \<Rightarrow> mesos_instance list \<Rightarrow> bool" where
  "spread n g f xs = (card (f ` set xs) \<le> g \<and> (\<forall>k. count_in f k xs \<le> Suc (n div g)) \<and> (0 < n div g \<longrightarrow> excess (n div g) f xs \<le> n mod g))"

definition group_number :: "constraint \<Rightarrow> nat" where
  "group_number c = nat (max 0 (getIntValue (getValue c) 0))"

definition obeys :: "regex \<Rightarrow> constraint \<Rightarrow> nat \<Rightarrow> mesos_instance list \<Rightarrow> bool" where
  "obeys rx c n xs = (let f = placed_reader (cn_field c); v = getValue c in
     (case cn_operator c of
       UNIQUE \<Rightarrow> None \<notin> f ` set xs \<and> distinct (map f xs)
     | CLUSTER \<Rightarrow> (\<exists>w. f ` set xs \<subseteq> {Some w} \<and> (v \<noteq> [] \<longrightarrow> w = v))
     | MAX_PER \<Rightarrow> None \<notin> f ` set xs \<and> (\<forall>k. count_in f k xs \<le> max 1 (nat (the (toInt v))))
     | LIKE \<Rightarrow> (\<forall>i\<in>set xs. \<exists>w. f i = Some w \<and> rx v w = Some True)
     | UNLIKE \<Rightarrow> (\<forall>i\<in>set xs. \<forall>w. f i = Some w \<longrightarrow> rx v w = Some False)
     | IS \<Rightarrow> f ` set xs \<subseteq> {Some (is_value v)}
     | GROUP_BY \<Rightarrow> None \<notin> f ` set xs \<and> spread n (group_number c) f xs))"

lemma excess_superset:
  "finite A \<Longrightarrow> f ` set xs \<subseteq> A \<Longrightarrow> excess d f xs = (\<Sum>k\<in>A. count_in f k xs - d)"
  unfolding excess_def by (rule sum_counts_superset) simp_all

lemma excess_mono:
  assumes "f ` set xs \<subseteq> f ` set ys" and "\<And>k. count_in f k xs \<le> count_in f k ys"
  shows "excess d f xs \<le> excess d f ys"
proof -
  have "excess d f xs = (\<Sum>k\<in>f ` set ys. count_in f k xs - d)" using assms(1) by (intro excess_superset) simp_all
  also have "\<dots> \<le> excess d f ys" unfolding excess_def by (intro sum_mono diff_le_mono assms(2))
  finally show ?thesis .
qed

lemma excess_snoc: "excess d f (xs @ [i]) = excess d f xs + (if d \<le> count_in f (f i) xs then 1 else 0)"
proof -
  let ?A = "insert (f i) (f ` set xs)"
  have "excess d f (xs @ [i]) = (\<Sum>k\<in>?A. (count_in f k xs - d) + (if k = f i then if d \<le> count_in f (f i) xs then 1 else 0 else 0))"
    by (subst excess_superset [of ?A]) (auto intro!: sum.cong)
  then show ?thesis
    using excess_superset [of ?A f xs d, OF _ subset_insertI] by (simp add: sum.distrib sum.delta)
qed

lemma spread_snoc:
  assumes "spread n g f xs" and "\<forall>j\<in>set xs. in_specInstances j = n" and "f i = Some v"
    and check: "checkGroupBy value xs v f = Inr True" and g: "g = nat (max 0 (getIntValue value 0))"
  shows "spread n g f (xs @ [i])"
proof -
  have g0: "g \<noteq> 0" using check g by (auto simp: checkGroupBy_def Let_def split: if_splits)
  have at: "map_of (group_counts f xs) (Some v) = (if Some v \<in> f ` set xs then Some (count_in f (Some v) xs) else None)"
    by (rule group_counts_at)
  show ?thesis
  proof (cases "Some v \<in> f ` set xs")
    case True
    have n: "(case xs of j # _ \<Rightarrow> in_specInstances j | [] \<Rightarrow> 1) = n" using True assms(2) by (cases xs) auto
    have sum: "sum_list (map (\<lambda>(_, groupCount). groupCount - n div g) (group_counts f xs)) = excess (n div g) f xs"
      unfolding group_counts_sum [of "\<lambda>groupCount. groupCount - n div g"] excess_def ..
    have c: "count_in f (Some v) xs < n div g \<or> count_in f (Some v) xs = n div g \<and> excess (n div g) f xs < n mod g"
      using check g0 True unfolding checkGroupBy_def Let_def at g [symmetric] n sum by (auto split: if_splits)
    have card: "f ` set (xs @ [i]) = f ` set xs" using True assms(3) by auto
    show ?thesis
      using assms(1,3) c unfolding spread_def card excess_snoc by auto
  next
    case False
    then have "length (group_counts f xs) < g"
      using check g0 at unfolding checkGroupBy_def Let_def g [symmetric] by simp
    then have "card (insert (f i) (f ` set xs)) \<le> g" using False assms(3) by (simp add: group_counts_length)
    moreover have "count_in f (f i) xs = 0" using False assms(3) by (simp add: count_in_zero)
    ultimately show ?thesis
      using assms(1,3) unfolding spread_def excess_snoc by auto
  qed
qed

lemma spread_gone: "spread n g f (xs @ i # ys) \<Longrightarrow> spread n g f (xs @ ys)"
proof -
  assume s: "spread n g f (xs @ i # ys)"
  have le: "count_in f k (xs @ ys) \<le> count_in f k (xs @ i # ys)" for k by simp
  have "card (f ` set (xs @ ys)) \<le> card (f ` set (xs @ i # ys))" by (intro card_mono) auto
  moreover have "excess (n div g) f (xs @ ys) \<le> excess (n div g) f (xs @ i # ys)" by (rule excess_mono [OF _ le]) auto
  ultimately show ?thesis using s le unfolding spread_def by (meson le_trans)
qed

lemma placed_specInstances: "placed rx c n xs \<Longrightarrow> \<forall>j\<in>set xs. in_specInstances j = n"
  by (induction rule: placed.induct) auto

lemma placed_obeys:
  assumes "placed rx c n xs"
  shows "obeys rx c n xs"
  using assms
proof induction
  case nothing
  then show ?case by (auto simp: obeys_def Let_def spread_def excess_def split: operator.split)
next
  case (launch xs offer i)
  let ?f = "placed_reader (cn_field c)"
  show ?case
  proof (cases "offer_reader (cn_field c) offer")
    case None
    then show ?thesis using launch by (auto simp: meetsConstraint_def checkConstraint_def obeys_def Let_def)
  next
    case (Some v)
    show ?thesis
    proof (cases "cn_operator c")
      case GROUP_BY
      then have "spread n (group_number c) ?f (xs @ [i])"
        using launch Some spread_snoc [OF _ placed_specInstances [OF launch.hyps(1)], of "group_number c" ?f i v "getValue c"]
        by (simp add: meetsConstraint_def checkConstraint_def obeys_def Let_def group_number_def)
      then show ?thesis using launch Some GROUP_BY by (simp add: obeys_def Let_def)
    next
      case MAX_PER
      then show ?thesis
        using launch Some
        by (auto simp: meetsConstraint_def checkConstraint_def obeys_def Let_def checkMaxPer_def group_counts_at
          split: option.splits if_splits)
    next
      case CLUSTER
      then show ?thesis
        using launch Some
        by (cases xs) (auto simp: meetsConstraint_def checkConstraint_def obeys_def Let_def checkCluster_def split: if_splits)
    qed (use launch Some in \<open>auto simp: meetsConstraint_def checkConstraint_def obeys_def Let_def checkUnique_def checkLike_def
        checkUnlike_def matches_def split: if_splits option.splits\<close>)
  qed
next
  case (gone xs i ys)
  have le: "count_in f k (xs @ ys) \<le> count_in f k (xs @ i # ys)" for f k by simp
  show ?case
  proof (cases "cn_operator c")
    case MAX_PER
    then show ?thesis
      using gone.IH le_trans [OF le] by (simp add: obeys_def Let_def)
  qed (use gone in \<open>auto simp: obeys_def Let_def intro: spread_gone\<close>)
qed

lemma group_by_share:
  assumes s: "spread n g f xs" and "g \<le> n" and "0 < n"
  shows "length xs \<le> n \<and> (length xs = n \<longrightarrow> card (f ` set xs) = g \<and> (\<forall>k\<in>f ` set xs. count_in f k xs \<in> {n div g, Suc (n div g)}))"
proof (cases "g = 0")
  case True
  then have "xs = []" using s by (simp add: spread_def)
  then show ?thesis using assms(3) by simp
next
  case False
  let ?K = "f ` set xs" and ?d = "n div g"
  let ?missing = "\<Sum>k\<in>?K. ?d - count_in f k xs"
  have d: "0 < ?d" using False assms(2) by (simp add: div_greater_zero_iff)
  have "(\<Sum>k\<in>?K. count_in f k xs) + ?missing = (\<Sum>k\<in>?K. ?d + (count_in f k xs - ?d))"
    unfolding sum.distrib [symmetric] by (intro sum.cong) auto
  then have total: "length xs + ?missing = card ?K * ?d + excess ?d f xs"
    by (simp add: length_by_group [of xs f] sum.distrib excess_def)
  have ex: "excess ?d f xs \<le> n mod g" using s d by (simp add: spread_def)
  have card: "card ?K * ?d \<le> g * ?d" using s by (simp add: spread_def)
  have n: "g * ?d + n mod g = n" by simp
  have le: "length xs \<le> n" using total ex card n by linarith
  have "card ?K = g \<and> (\<forall>k\<in>?K. count_in f k xs \<in> {?d, Suc ?d})" if full: "length xs = n"
  proof -
    have "card ?K * ?d = g * ?d" "?missing = 0" using total ex card n full by linarith+
    then have "card ?K = g" "\<forall>k\<in>?K. ?d \<le> count_in f k xs" using d by auto
    moreover have "count_in f k xs \<le> Suc ?d" for k using s by (simp add: spread_def)
    ultimately show ?thesis by (simp add: le_antisym le_Suc_eq) (metis le_Suc_eq le_antisym)
  qed
  then show ?thesis using le by blast
qed



definition sample_instance :: "string \<Rightarrow> string \<Rightarrow> mesos_instance" where
  "sample_instance i host = \<lparr>in_id = i, in_hostname = Some host, in_region = None, in_zone = None, in_attributes = [],
     in_specInstances = 3, in_condition = Running, in_goal = GoalRunning, in_since = 1, in_activeSince = Some 1, in_stagedAt = [0]\<rparr>"

definition sample_offer :: "string \<Rightarrow> offer" where
  "sample_offer host = \<lparr>of_hostname = host, of_region = None, of_zone = None, of_attributes = []\<rparr>"

definition group_by_host :: "string option \<Rightarrow> constraint" where
  "group_by_host v = \<lparr>cn_field = ''@hostname'', cn_operator = GROUP_BY, cn_value = v\<rparr>"


section \<open>Errors of the match\<close>

text \<open>
  A constraint that passes validation, with a pattern that compiles where it needs one, is decided
  for every offer, with one exception: \<open>GROUP_BY\<close> divides by zero, for every offer that has the field, if
  its value is not positive, and in particular if it has none, which validation allows.
\<close>

theorem valid_constraint_errors:
  assumes "complyWithConstraintRules compiles c = None" and "\<And>v t. compiles v \<Longrightarrow> rx v t \<noteq> None"
  shows "(meetsConstraint rx xs offer c = Inl e \<longleftrightarrow>
      e = ArithmeticException \<and> cn_operator c = GROUP_BY \<and> offer_reader (cn_field c) offer \<noteq> None \<and> group_number c = 0)
    \<and> (cn_value c = None \<longrightarrow> group_number c = 0)"
proof -
  have none: "group_number c = 0" if "cn_value c = None"
    using that by (simp add: group_number_def getValue_def getIntValue_def toInt_def split_sign_def)
  have compiled: "\<exists>b. rx v t = Some b" if "compiles v" for v t using assms(2) [OF that] by auto
  have "meetsConstraint rx xs offer c = Inl e \<longleftrightarrow>
      e = ArithmeticException \<and> cn_operator c = GROUP_BY \<and> offer_reader (cn_field c) offer \<noteq> None \<and> group_number c = 0"
  proof (cases "offer_reader (cn_field c) offer")
    case None
    then show ?thesis by (simp add: meetsConstraint_def checkConstraint_def)
  next
    case (Some v)
    show ?thesis
    proof (cases "cn_operator c")
      case GROUP_BY
      then show ?thesis using Some
        by (auto simp: meetsConstraint_def checkConstraint_def checkGroupBy_def Let_def group_number_def)
    next
      case LIKE
      then obtain p where "cn_value c = Some p" "compiles p" using assms(1)
        by (auto simp: complyWithConstraintRules_def split: if_splits option.splits)
      then show ?thesis using Some LIKE compiled [of p v]
        by (auto simp: meetsConstraint_def checkConstraint_def checkLike_def matches_def getValue_def)
    next
      case UNLIKE
      then obtain p where "cn_value c = Some p" "compiles p" using assms(1)
        by (auto simp: complyWithConstraintRules_def split: if_splits option.splits)
      then show ?thesis using Some UNLIKE compiled [of p v]
        by (auto simp: meetsConstraint_def checkConstraint_def checkUnlike_def matches_def getValue_def)
    next
      case MAX_PER
      then show ?thesis using Some assms(1)
        by (auto simp: meetsConstraint_def checkConstraint_def complyWithConstraintRules_def getValue_def split: if_splits option.splits)
    qed (use Some in \<open>simp_all add: meetsConstraint_def checkConstraint_def\<close>)
  qed
  then show ?thesis using none by blast
qed

theorem valid_constraint_errors_witness:
  "complyWithConstraintRules (\<lambda>v. True) (group_by_host None) = None
    \<and> meetsConstraint (\<lambda>p t. Some True) [] (sample_offer ''a'') (group_by_host None) = Inl ArithmeticException"
proof -
  have v: "complyWithConstraintRules (\<lambda>v. True) (group_by_host None) = None" by code_simp
  have "cn_operator (group_by_host None) = GROUP_BY \<and> \<not> Option.is_none (offer_reader (cn_field (group_by_host None)) (sample_offer ''a''))
    \<and> Option.is_none (cn_value (group_by_host None))" by code_simp
  then show ?thesis
    using valid_constraint_errors [OF v, of "\<lambda>p t. Some True" "[]" "sample_offer ''a''" ArithmeticException] v by (simp add: Option.is_none_def)
qed

end
