(* ===== verification/Instances.thy ===== *)
theory Instances
  imports Constraints TaskIds
begin

text \<open>
  Tasks and instances (\<open>core/task\<close>, \<open>core/condition\<close>, \<open>core/instance\<close>): how a status that Mesos
  reports changes a task, how the state of an instance follows from its tasks, and how an operation on an
  instance becomes the effect the tracker stores. Timestamps and durations are milliseconds.
\<close>

section \<open>What Mesos reports\<close>

datatype task_state = TASK_STAGING | TASK_STARTING | TASK_RUNNING | TASK_KILLING | TASK_FINISHED | TASK_FAILED | TASK_KILLED
  | TASK_ERROR | TASK_LOST | TASK_DROPPED | TASK_UNREACHABLE | TASK_GONE | TASK_GONE_BY_OPERATOR | TASK_UNKNOWN

text \<open>The reasons the code names, and every other one Mesos knows.\<close>

datatype status_reason = REASON_RECONCILIATION | REASON_SLAVE_DISCONNECTED | REASON_SLAVE_REMOVED | REASON_TASK_UNKNOWN
  | OtherReason string

text \<open>
  A \<open>TaskStatus\<close>: fields that may be missing are options; the message and the reason have defaults. The
  time is in seconds, the time of becoming unreachable in nanoseconds.
\<close>

record mesos_status =
  ms_taskId :: string
  ms_slaveId :: string
  ms_state :: task_state
  ms_reason :: status_reason
  ms_message :: string
  ms_healthy :: "bool option"
  ms_checkStatus :: "string option"
  ms_timestamp :: rat
  ms_unreachableTime :: "int option"
  ms_networkInfos :: "string list list option"

definition fromTaskStatus :: "mesos_status \<Rightarrow> int" where
  "fromTaskStatus s = 1000 * (if ms_timestamp s < 0 then \<lceil>ms_timestamp s\<rceil> else \<lfloor>ms_timestamp s\<rfloor>)"

definition nanos_toTimestamp :: "int \<Rightarrow> int" where
  "nanos_toTimestamp n = (if n < 0 then - (- n div 1000000) else n div 1000000)"

definition time_expired :: "int \<Rightarrow> int \<Rightarrow> int \<Rightarrow> bool" where
  "time_expired since other by_ms \<longleftrightarrow> other - since \<ge> by_ms"

section \<open>Conditions\<close>

fun isLost :: "condition \<Rightarrow> bool" where
  "isLost c \<longleftrightarrow> c \<in> {Gone, Unreachable, Unknown, Dropped}"

fun isTerminal :: "condition \<Rightarrow> bool" where
  "isTerminal c \<longleftrightarrow> c \<in> {Error, Failed, Finished, Killed, Gone, Dropped, Unknown}"

fun isActive :: "condition \<Rightarrow> bool" where
  "isActive c \<longleftrightarrow> c \<in> {Provisioned, Killing, Running, Staging, Starting, Unreachable}"

fun terminal_goal :: "goal \<Rightarrow> bool" where
  "terminal_goal g \<longleftrightarrow> g \<in> {GoalStopped, GoalDecommissioned}"

fun mapped_Unreachable :: "status_reason \<Rightarrow> bool" where
  "mapped_Unreachable r \<longleftrightarrow> r \<in> {REASON_RECONCILIATION, REASON_SLAVE_DISCONNECTED, REASON_SLAVE_REMOVED}"

fun mapped_Unknown :: "status_reason \<Rightarrow> bool" where
  "mapped_Unknown r \<longleftrightarrow> r = REASON_TASK_UNKNOWN"

text \<open>\<open>values().toSet.diff(Unreachable).diff(Unknown)\<close>\<close>

definition mapped_Gone :: "status_reason \<Rightarrow> bool" where
  "mapped_Gone r \<longleftrightarrow> \<not> mapped_Unreachable r \<and> \<not> mapped_Unknown r"

definition MessageIndicatingUnknown :: string where
  "MessageIndicatingUnknown = ''Reconciliation: Task is unknown to the''"

definition inferStateForLost :: "status_reason \<Rightarrow> string \<Rightarrow> condition" where
  "inferStateForLost reason message =
     (if prefix MessageIndicatingUnknown message \<or> mapped_Unknown reason then Unknown
      else if mapped_Gone reason then Gone
      else if mapped_Unreachable reason then Unreachable
      else Dropped)"

definition TaskCondition :: "mesos_status \<Rightarrow> condition" where
  "TaskCondition s =
     (case ms_state s of
        TASK_ERROR \<Rightarrow> Error | TASK_FAILED \<Rightarrow> Failed | TASK_FINISHED \<Rightarrow> Finished | TASK_KILLED \<Rightarrow> Killed
      | TASK_KILLING \<Rightarrow> Killing | TASK_RUNNING \<Rightarrow> Running | TASK_STAGING \<Rightarrow> Staging | TASK_STARTING \<Rightarrow> Starting
      | TASK_DROPPED \<Rightarrow> Dropped | TASK_GONE \<Rightarrow> Gone | TASK_GONE_BY_OPERATOR \<Rightarrow> Gone | TASK_UNKNOWN \<Rightarrow> Unknown
      | TASK_UNREACHABLE \<Rightarrow> Unreachable
      | TASK_LOST \<Rightarrow> inferStateForLost (ms_reason s) (ms_message s))"

text \<open>The state Mesos has for a condition, if any.\<close>

definition toMesosTaskState :: "condition \<Rightarrow> task_state option" where
  "toMesosTaskState c =
     (case c of
        Error \<Rightarrow> Some TASK_ERROR | Failed \<Rightarrow> Some TASK_FAILED | Finished \<Rightarrow> Some TASK_FINISHED | Killed \<Rightarrow> Some TASK_KILLED
      | Killing \<Rightarrow> Some TASK_KILLING | Running \<Rightarrow> Some TASK_RUNNING | Staging \<Rightarrow> Some TASK_STAGING | Starting \<Rightarrow> Some TASK_STARTING
      | Unreachable \<Rightarrow> Some TASK_UNREACHABLE | UnreachableInactive \<Rightarrow> Some TASK_UNREACHABLE | Gone \<Rightarrow> Some TASK_GONE
      | Dropped \<Rightarrow> Some TASK_DROPPED | Unknown \<Rightarrow> Some TASK_UNKNOWN | Scheduled \<Rightarrow> None | Provisioned \<Rightarrow> None)"

definition toMesosTaskStateOrStaging :: "condition \<Rightarrow> task_state" where
  "toMesosTaskStateOrStaging c = (case toMesosTaskState c of Some s \<Rightarrow> s | None \<Rightarrow> TASK_STAGING)"

section \<open>Tasks and instances\<close>

record network_info =
  ni_hostName :: string
  ni_hostPorts :: "int list"
  ni_ipAddresses :: "string list"

record task_status =
  st_stagedAt :: int
  st_startedAt :: "int option"
  st_mesosStatus :: "mesos_status option"
  st_condition :: condition
  st_networkInfo :: network_info

record task =
  tk_id :: task_id
  tk_runSpecVersion :: int
  tk_status :: task_status

datatype unreachable_strategy = UnreachableDisabled | UnreachableEnabled int int

record agent_info =
  ag_host :: string
  ag_agentId :: "string option"
  ag_region :: "string option"
  ag_zone :: "string option"
  ag_attributes :: "(string \<times> attr_value) list"

datatype timeout_reason = RelaunchEscalationTimeout | ReservationTimeoutReason

record reservation_timeout =
  rt_initiated :: int
  rt_deadline :: int
  rt_reason :: timeout_reason

datatype reservation_state = New "reservation_timeout option" | Launched | Suspended

record reservation =
  rv_volumeIds :: "string list"
  rv_state :: reservation_state
  rv_id :: reservation_id

text \<open>Of a run spec what instances and their replacement read.\<close>

record spec_of_instance =
  sp_id :: path_id
  sp_version :: int
  sp_role :: string
  sp_instances :: int
  sp_unreachable :: unreachable_strategy
  sp_hasHealthChecks :: bool
  sp_resident :: bool
  sp_minimumHealthCapacity :: rat
  sp_maximumOverCapacity :: rat

record instance_state =
  ins_condition :: condition
  ins_since :: int
  ins_activeSince :: "int option"
  ins_healthy :: "bool option"
  ins_goal :: goal

text \<open>The tasks of an instance in the order in which the map visits them.\<close>

type_synonym tasks_map = "(task_id \<times> task) list"

record inst =
  in_instanceId :: instance_id
  in_agentInfo :: "agent_info option"
  in_state :: instance_state
  in_tasksMap :: tasks_map
  in_runSpec :: spec_of_instance
  in_reservation :: "reservation option"
  in_role :: string

definition tasks_of :: "inst \<Rightarrow> task list" where
  "tasks_of i = map snd (in_tasksMap i)"

definition task_terminal :: "task \<Rightarrow> bool" where
  "task_terminal t \<longleftrightarrow> isTerminal (st_condition (tk_status t))"

definition hasReservation :: "inst \<Rightarrow> bool" where
  "hasReservation i \<longleftrightarrow> in_reservation i \<noteq> None"

definition isScheduled :: "inst \<Rightarrow> bool" where
  "isScheduled i \<longleftrightarrow> ins_goal (in_state i) = GoalRunning
     \<and> (isTerminal (ins_condition (in_state i)) \<or> ins_condition (in_state i) = Scheduled)"

definition consideredHealthy :: "inst \<Rightarrow> bool" where
  "consideredHealthy i \<longleftrightarrow> \<not> sp_hasHealthChecks (in_runSpec i) \<or> ins_healthy (in_state i) = Some True"

section \<open>Updates of a task\<close>

definition resolveIpAddresses :: "mesos_status \<Rightarrow> string list" where
  "resolveIpAddresses s = (case ms_networkInfos s of None \<Rightarrow> [] | Some infos \<Rightarrow> concat infos)"

definition ni_update :: "network_info \<Rightarrow> mesos_status \<Rightarrow> network_info" where
  "ni_update n s = (let new = resolveIpAddresses s in if ni_ipAddresses n \<noteq> new then n\<lparr>ni_ipAddresses := new\<rparr> else n)"

datatype task_effect = TaskNoop | TaskUpdate task

definition updatedHealthOrState :: "mesos_status option \<Rightarrow> mesos_status \<Rightarrow> mesos_status option" where
  "updatedHealthOrState maybeCurrent new =
     (case maybeCurrent of
        None \<Rightarrow> Some new
      | Some current \<Rightarrow>
          (let healthy = (ms_healthy new \<noteq> None \<and> (ms_healthy current = None \<or> ms_healthy current \<noteq> ms_healthy new));
               checkResultChanged = (ms_checkStatus new \<noteq> None
                 \<and> (ms_checkStatus current = None \<or> ms_checkStatus current \<noteq> ms_checkStatus new));
               changed = (healthy \<or> checkResultChanged \<or> ms_state current \<noteq> ms_state new)
           in if changed then Some new else None))"

definition task_update :: "inst \<Rightarrow> task \<Rightarrow> condition \<Rightarrow> mesos_status \<Rightarrow> int \<Rightarrow> task_effect" where
  "task_update i t newStatus newMesosStatus now =
     (let s = tk_status t
      in if task_terminal t then TaskNoop
      else if newStatus = Running \<and> st_startedAt s = None then
        TaskUpdate (t\<lparr>tk_status := s\<lparr>st_mesosStatus := Some newMesosStatus, st_condition := Running,
          st_startedAt := Some now, st_networkInfo := ni_update (st_networkInfo s) newMesosStatus\<rparr>\<rparr>)
      else if isTerminal newStatus then
        TaskUpdate (t\<lparr>tk_status := s\<lparr>st_mesosStatus := Some newMesosStatus, st_condition := newStatus\<rparr>\<rparr>)
      else if st_condition s = Scheduled \<and> hasReservation i then
        (if isActive newStatus
         then TaskUpdate (t\<lparr>tk_status := s\<lparr>st_startedAt := Some now, st_mesosStatus := Some newMesosStatus\<rparr>\<rparr>)
         else TaskNoop)
      else (case updatedHealthOrState (st_mesosStatus s) newMesosStatus of
          Some newTaskStatus \<Rightarrow>
            TaskUpdate (t\<lparr>tk_status := s\<lparr>st_mesosStatus := Some newTaskStatus, st_condition := newStatus,
              st_networkInfo := ni_update (st_networkInfo s) newMesosStatus\<rparr>\<rparr>)
        | None \<Rightarrow> TaskNoop))"

definition unreachable_since :: "mesos_status \<Rightarrow> int" where
  "unreachable_since s = (case ms_unreachableTime s of Some n \<Rightarrow> nanos_toTimestamp n | None \<Rightarrow> fromTaskStatus s)"

definition isUnreachableExpired :: "task \<Rightarrow> int \<Rightarrow> int \<Rightarrow> bool" where
  "isUnreachableExpired t now timeout =
     (if st_condition (tk_status t) = Unreachable \<or> st_condition (tk_status t) = UnreachableInactive then
        (case st_mesosStatus (tk_status t) of
           None \<Rightarrow> False
         | Some s \<Rightarrow> time_expired (unreachable_since s) now timeout)
      else False)"

section \<open>The state of an instance\<close>

definition hierarchy :: "condition list" where
  "hierarchy = [Error, Failed, Gone, Dropped, Unreachable, Killing, Starting, Staging, Unknown, Provisioned, Running, Finished, Killed]"

text \<open>\<open>indexOf\<close>: the conditions that are not listed come before all others.\<close>

definition conditionHierarchy :: "condition \<Rightarrow> int" where
  "conditionHierarchy c = (if c \<in> set hierarchy then int (length (takeWhile (\<lambda>d. d \<noteq> c) hierarchy)) else - 1)"

fun minBy :: "('a \<Rightarrow> int) \<Rightarrow> 'a \<Rightarrow> 'a list \<Rightarrow> 'a" where
  "minBy f x [] = x"
| "minBy f x (y # ys) = minBy f (if f y < f x then y else x) ys"

definition shouldBecomeInactive :: "task list \<Rightarrow> int \<Rightarrow> unreachable_strategy \<Rightarrow> bool" where
  "shouldBecomeInactive tasks now strategy =
     (case strategy of UnreachableDisabled \<Rightarrow> False
      | UnreachableEnabled inactiveAfter expungeAfter \<Rightarrow> list_ex (\<lambda>t. isUnreachableExpired t now inactiveAfter) tasks)"

definition conditionFromTasks :: "task list \<Rightarrow> int \<Rightarrow> unreachable_strategy \<Rightarrow> condition" where
  "conditionFromTasks tasks now strategy =
     (case map (\<lambda>t. st_condition (tk_status t)) tasks of
        [] \<Rightarrow> Unknown
      | c # cs \<Rightarrow>
          (let m = minBy conditionHierarchy c cs
           in if m = Unreachable \<and> shouldBecomeInactive tasks now strategy then UnreachableInactive else m))"

definition activeSince :: "task list \<Rightarrow> int option" where
  "activeSince tasks = (case List.map_filter (\<lambda>t. st_startedAt (tk_status t)) tasks of [] \<Rightarrow> None | t # ts \<Rightarrow> Some (foldr min ts t))"

definition task_running :: "task \<Rightarrow> bool" where
  "task_running t \<longleftrightarrow> st_condition (tk_status t) = Running"

definition health_of :: "task \<Rightarrow> bool option" where
  "health_of t = (case st_mesosStatus (tk_status t) of None \<Rightarrow> None | Some m \<Rightarrow> ms_healthy m)"

definition isRunningUnhealthy :: "task \<Rightarrow> bool" where
  "isRunningUnhealthy t \<longleftrightarrow> task_running t \<and> health_of t = Some False"

definition isRunningHealthy :: "task \<Rightarrow> bool" where
  "isRunningHealthy t \<longleftrightarrow> task_running t \<and> health_of t = Some True"

definition isPending :: "task \<Rightarrow> bool" where
  "isPending t \<longleftrightarrow> st_condition (tk_status t) \<noteq> Running \<and> st_condition (tk_status t) \<noteq> Finished"

fun computeHealth :: "task list \<Rightarrow> bool option \<Rightarrow> bool option" where
  "computeHealth [] foundHealthy = foundHealthy"
| "computeHealth (t # ts) foundHealthy =
     (if isRunningUnhealthy t then Some False
      else if isPending t then None
      else if isRunningHealthy t then computeHealth ts (Some True)
      else computeHealth ts foundHealthy)"

definition transitionTo :: "instance_state option \<Rightarrow> task list \<Rightarrow> int \<Rightarrow> unreachable_strategy \<Rightarrow> goal \<Rightarrow> instance_state" where
  "transitionTo maybeOld tasks now strategy goal =
     (let condition = conditionFromTasks tasks now strategy;
          active = activeSince tasks;
          healthy = computeHealth tasks None;
          new = \<lparr>ins_condition = condition, ins_since = now, ins_activeSince = active, ins_healthy = healthy, ins_goal = goal\<rparr>
      in case maybeOld of
          Some state \<Rightarrow> if ins_condition state = condition \<and> ins_healthy state = healthy then state else new
        | None \<Rightarrow> new)"

definition scheduled :: "int \<Rightarrow> spec_of_instance \<Rightarrow> instance_id \<Rightarrow> inst" where
  "scheduled now spec iid = \<lparr>in_instanceId = iid, in_agentInfo = None,
     in_state = \<lparr>ins_condition = Scheduled, ins_since = now, ins_activeSince = None, ins_healthy = None, ins_goal = GoalRunning\<rparr>,
     in_tasksMap = [], in_runSpec = spec, in_reservation = None, in_role = sp_role spec\<rparr>"

text \<open>The tasks of an offer that was accepted; a task without network info is an error of the caller.\<close>

datatype thrown = RequirementFailed | UnmatchedEffect | IllegalTaskId id_error | NoNetworkInfo

definition provisioned_tasks :: "task_id list \<Rightarrow> (task_id \<times> network_info) list \<Rightarrow> int \<Rightarrow> int \<Rightarrow> thrown + tasks_map" where
  "provisioned_tasks ids infos version now =
     foldR (\<lambda>tid m. case map_of infos tid of
         None \<Rightarrow> Inl NoNetworkInfo
       | Some n \<Rightarrow> Inr (AList.update tid \<lparr>tk_id = tid, tk_runSpecVersion = version,
           tk_status = \<lparr>st_stagedAt = now, st_startedAt = None, st_mesosStatus = None, st_condition = Provisioned, st_networkInfo = n\<rparr>\<rparr> m))
       ids []"

text \<open>The guard of \<open>provisioned\<close> is a \<open>require\<close>.\<close>

definition provisioned :: "agent_info \<Rightarrow> spec_of_instance \<Rightarrow> tasks_map \<Rightarrow> int \<Rightarrow> inst \<Rightarrow> thrown + inst" where
  "provisioned agent spec tasks now i =
     (if \<not> isScheduled i then Inl RequirementFailed
      else Inr (i\<lparr>in_agentInfo := Some agent,
        in_state := \<lparr>ins_condition = Provisioned, ins_since = now, ins_activeSince = None, ins_healthy = None,
          ins_goal = ins_goal (in_state i)\<rparr>,
        in_tasksMap := tasks, in_runSpec := spec\<rparr>))"

definition reserved :: "reservation \<Rightarrow> agent_info \<Rightarrow> inst \<Rightarrow> inst" where
  "reserved r agent i = i\<lparr>in_reservation := Some r, in_agentInfo := Some agent\<rparr>"

section \<open>Effects of operations\<close>

text \<open>Versions and times of an event are kept as numbers; the source prints them.\<close>

datatype marathon_event =
    InstanceChanged instance_id int path_id condition inst
  | MesosStatusUpdateEvent string task_id task_state string path_id string "string list" "int list" int int

datatype failure_cause = AlreadyExists instance_id | DoesNotExist instance_id | TaskNotFound task_id instance_id
  | NotReserved | TimedOut | Raised thrown

datatype update_effect =
    Update inst "inst option" "marathon_event list"
  | Expunge inst "marathon_event list"
  | Noop instance_id
  | Failure failure_cause

definition updatedCondition :: "inst \<Rightarrow> marathon_event" where
  "updatedCondition i =
     InstanceChanged (in_instanceId i) (sp_version (in_runSpec i)) (sp_id (in_runSpec i)) (ins_condition (in_state i)) i"

definition events :: "inst \<Rightarrow> task option \<Rightarrow> int \<Rightarrow> instance_state option \<Rightarrow> marathon_event list" where
  "events i t now previousState =
     (let stateChanged = (case previousState of None \<Rightarrow> True
            | Some previous \<Rightarrow> ins_condition previous \<noteq> ins_condition (in_state i) \<or> ins_goal previous \<noteq> ins_goal (in_state i));
          instanceEvent = (if stateChanged then [updatedCondition i] else [])
      in case t of
          None \<Rightarrow> instanceEvent
        | Some tk \<Rightarrow>
            (let s = st_mesosStatus (tk_status tk) in
             MesosStatusUpdateEvent
               (case s of None \<Rightarrow> [] | Some m \<Rightarrow> ms_slaveId m)
               (tk_id tk)
               (case s of None \<Rightarrow> TASK_STAGING | Some m \<Rightarrow> ms_state m)
               (case s of None \<Rightarrow> [] | Some m \<Rightarrow> ms_message m)
               (sp_id (in_runSpec i))
               (case in_agentInfo i of None \<Rightarrow> ''unknown'' | Some a \<Rightarrow> ag_host a)
               (ni_ipAddresses (st_networkInfo (tk_status tk)))
               (ni_hostPorts (st_networkInfo (tk_status tk)))
               (sp_version (in_runSpec i)) now
             # instanceEvent))"

definition applyTaskUpdate :: "inst \<Rightarrow> task \<Rightarrow> int \<Rightarrow> inst" where
  "applyTaskUpdate i updatedTask now =
     (let updatedTasks = AList.update (tk_id updatedTask) updatedTask (in_tasksMap i);
          updatedReservation =
            (case in_reservation i of
               None \<Rightarrow> None
             | Some r \<Rightarrow> if task_terminal updatedTask \<and> rv_state r \<noteq> Suspended then Some (r\<lparr>rv_state := Suspended\<rparr>) else Some r)
      in i\<lparr>in_tasksMap := updatedTasks,
           in_state := transitionTo (Some (in_state i)) (map snd updatedTasks) now (sp_unreachable (in_runSpec i)) (ins_goal (in_state i)),
           in_reservation := updatedReservation\<rparr>)"

definition with_condition :: "condition \<Rightarrow> inst \<Rightarrow> inst" where
  "with_condition c i = i\<lparr>in_state := in_state i\<lparr>ins_condition := c\<rparr>\<rparr>"

definition reserve :: "reservation \<Rightarrow> agent_info \<Rightarrow> int \<Rightarrow> inst \<Rightarrow> update_effect" where
  "reserve r agent now i = (let updated = reserved r agent i in Update updated None (events updated None now None))"

definition unreserve :: "int \<Rightarrow> inst \<Rightarrow> thrown + update_effect" where
  "unreserve now i =
     (if \<not> (isTerminal (ins_condition (in_state i)) \<and> ins_goal (in_state i) = GoalDecommissioned) then Inl RequirementFailed
      else Inr (Expunge i (events (with_condition Killed i) None now (Some (in_state i)))))"

definition isTerminalDecomissionedAndEphemeral :: "inst \<Rightarrow> bool" where
  "isTerminalDecomissionedAndEphemeral i \<longleftrightarrow>
     list_all task_terminal (tasks_of i) \<and> ins_goal (in_state i) = GoalDecommissioned \<and> in_reservation i = None"

definition shouldAbandonReservation :: "inst \<Rightarrow> bool" where
  "shouldAbandonReservation i =
     (let allAreTerminal = list_all task_terminal (tasks_of i);
          anyAreGoneByOperator = list_ex (\<lambda>s. ms_state s = TASK_GONE_BY_OPERATOR)
            (List.map_filter (\<lambda>t. st_mesosStatus (tk_status t)) (tasks_of i))
      in in_reservation i \<noteq> None \<and> anyAreGoneByOperator \<and> allAreTerminal)"

definition readyToExpungeUnreachable :: "inst \<Rightarrow> int \<Rightarrow> bool" where
  "readyToExpungeUnreachable i now =
     (case sp_unreachable (in_runSpec i) of
        UnreachableEnabled inactiveAfter expungeAfter \<Rightarrow> list_ex (\<lambda>t. isUnreachableExpired t now expungeAfter) (tasks_of i)
      | UnreachableDisabled \<Rightarrow> False)"

definition abandoned :: "inst \<Rightarrow> inst" where
  "abandoned i = (with_condition Scheduled i)\<lparr>in_agentInfo := None, in_reservation := None\<rparr>"

definition instanceUpdateEffectForTask :: "inst \<Rightarrow> task \<Rightarrow> int \<Rightarrow> update_effect" where
  "instanceUpdateEffectForTask i updatedTask now =
     (let updated = applyTaskUpdate i updatedTask now
      in if in_state updated = in_state i \<and> in_tasksMap updated = in_tasksMap i then Noop (in_instanceId i)
      else let evs = events updated (Some updatedTask) now (Some (in_state i))
      in if readyToExpungeUnreachable updated now then Expunge updated evs
      else if isTerminalDecomissionedAndEphemeral updated then Expunge updated evs
      else if shouldAbandonReservation updated then Update (abandoned updated) (Some i) evs
      else Update updated (Some i) evs)"

text \<open>
  The effect of a status that leaves the task as it is, but may make the instance inactive: the match has cases
  for two effects, every other one is a \<open>MatchError\<close>.
\<close>

definition mesosUpdate :: "condition \<Rightarrow> mesos_status \<Rightarrow> int \<Rightarrow> inst \<Rightarrow> thrown + update_effect" where
  "mesosUpdate condition mesosStatus now i =
     (case task_id_parse (ms_taskId mesosStatus) of
        Inl e \<Rightarrow> Inl (IllegalTaskId e)
      | Inr taskId \<Rightarrow>
          (case map_of (in_tasksMap i) taskId of
             None \<Rightarrow> Inr (Failure (TaskNotFound taskId (in_instanceId i)))
           | Some t \<Rightarrow>
               (case task_update i t condition mesosStatus now of
                  TaskUpdate updatedTask \<Rightarrow> Inr (instanceUpdateEffectForTask i updatedTask now)
                | TaskNoop \<Rightarrow>
                    if condition = Unreachable \<and> ins_condition (in_state i) \<noteq> UnreachableInactive then
                      (case instanceUpdateEffectForTask i t now of
                         Noop n \<Rightarrow> Inr (Noop n)
                       | Update i' old evs \<Rightarrow> Inr (Update i' old evs)
                       | _ \<Rightarrow> Inl UnmatchedEffect)
                    else Inr (Noop (in_instanceId i)))))"

definition reservationTimeout :: "int \<Rightarrow> inst \<Rightarrow> update_effect" where
  "reservationTimeout now i =
     (if hasReservation i then Expunge i (events (with_condition Killed i) None now (Some (in_state i)))
      else Failure NotReserved)"

definition forceExpunge :: "int \<Rightarrow> inst \<Rightarrow> update_effect" where
  "forceExpunge now i = (let updated = with_condition Killed i in Expunge updated (events updated None now (Some (in_state i))))"

definition changeGoal :: "goal \<Rightarrow> int \<Rightarrow> inst \<Rightarrow> update_effect" where
  "changeGoal goal now i =
     (let updated = i\<lparr>in_state := in_state i\<lparr>ins_goal := goal\<rparr>\<rparr>;
          evs = events updated None now (Some (in_state i))
      in if isTerminalDecomissionedAndEphemeral updated then Expunge updated evs else Update updated (Some i) evs)"

datatype operation =
    Schedule inst
  | Provision instance_id agent_info spec_of_instance tasks_map int
  | RescheduleReserved instance_id spec_of_instance
  | MesosUpdate inst condition mesos_status int
  | ReservationTimeout instance_id
  | ChangeGoal instance_id goal
  | Reserve instance_id reservation agent_info
  | Unreserve instance_id
  | ForceExpunge instance_id
  | RevertTo inst

fun op_instanceId :: "operation \<Rightarrow> instance_id" where
  "op_instanceId (Schedule i) = in_instanceId i"
| "op_instanceId (Provision iid agent spec tasks now) = iid"
| "op_instanceId (RescheduleReserved iid spec) = iid"
| "op_instanceId (MesosUpdate i condition mesosStatus now) = in_instanceId i"
| "op_instanceId (ReservationTimeout iid) = iid"
| "op_instanceId (ChangeGoal iid goal) = iid"
| "op_instanceId (Reserve iid r agent) = iid"
| "op_instanceId (Unreserve iid) = iid"
| "op_instanceId (ForceExpunge iid) = iid"
| "op_instanceId (RevertTo i) = in_instanceId i"

definition mesos_update_operation :: "inst \<Rightarrow> mesos_status \<Rightarrow> int \<Rightarrow> operation" where
  "mesos_update_operation i s now = MesosUpdate i (TaskCondition s) s now"

definition updateExistingInstance :: "inst option \<Rightarrow> instance_id \<Rightarrow> (inst \<Rightarrow> thrown + update_effect) \<Rightarrow> thrown + update_effect" where
  "updateExistingInstance maybeInstance iid f =
     (case maybeInstance of Some existing \<Rightarrow> f existing | None \<Rightarrow> Inr (Failure (DoesNotExist iid)))"

definition createInstance :: "inst option \<Rightarrow> (unit \<Rightarrow> update_effect) \<Rightarrow> thrown + update_effect" where
  "createInstance maybeInstance f =
     (case maybeInstance of Some i \<Rightarrow> Inr (Failure (AlreadyExists (in_instanceId i))) | None \<Rightarrow> Inr (f ()))"

definition rescheduled :: "spec_of_instance \<Rightarrow> int \<Rightarrow> inst \<Rightarrow> inst" where
  "rescheduled spec now i = i\<lparr>in_state := \<lparr>ins_condition = Scheduled, ins_since = now, ins_activeSince = None,
     ins_healthy = None, ins_goal = GoalRunning\<rparr>, in_runSpec := spec\<rparr>"

text \<open>\<open>resolve\<close>, with the time of the clock.\<close>

fun resolve :: "int \<Rightarrow> inst option \<Rightarrow> operation \<Rightarrow> thrown + update_effect" where
  "resolve clock mi (Schedule i) = createInstance mi (\<lambda>_. Update i None [updatedCondition i])"
| "resolve clock mi (Provision iid agent spec tasks now) = updateExistingInstance mi iid (\<lambda>old.
     rbind (provisioned agent spec tasks now old) (\<lambda>updated. Inr (Update updated (Some old) [updatedCondition updated])))"
| "resolve clock mi (RescheduleReserved iid spec) = updateExistingInstance mi iid (\<lambda>i.
     let updated = rescheduled spec clock i in Inr (Update updated (Some i) [updatedCondition updated]))"
| "resolve clock mi (MesosUpdate i condition mesosStatus now) =
     updateExistingInstance mi (in_instanceId i) (mesosUpdate condition mesosStatus now)"
| "resolve clock mi (ReservationTimeout iid) = updateExistingInstance mi iid (\<lambda>i. Inr (reservationTimeout clock i))"
| "resolve clock mi (ChangeGoal iid goal) = updateExistingInstance mi iid (\<lambda>i. Inr (changeGoal goal clock i))"
| "resolve clock mi (Reserve iid r agent) = updateExistingInstance mi iid (\<lambda>i. Inr (reserve r agent clock i))"
| "resolve clock mi (Unreserve iid) = updateExistingInstance mi iid (unreserve clock)"
| "resolve clock mi (ForceExpunge iid) =
     (case mi of Some i \<Rightarrow> Inr (forceExpunge clock i) | None \<Rightarrow> Inr (Noop iid))"
| "resolve clock mi (RevertTo i) = Inr (Update i None [])"

text \<open>What the tracker makes of an exception.\<close>

definition caught :: "thrown + update_effect \<Rightarrow> update_effect" where
  "caught r = (case r of Inl e \<Rightarrow> Failure (Raised e) | Inr eff \<Rightarrow> eff)"

definition shouldExpunge :: "inst \<Rightarrow> int \<Rightarrow> bool" where
  "shouldExpunge i now =
     (case sp_unreachable (in_runSpec i) of
        UnreachableDisabled \<Rightarrow> False
      | UnreachableEnabled inactiveAfter expungeAfter \<Rightarrow>
          ins_condition (in_state i) = UnreachableInactive \<and> list_ex (\<lambda>t. isUnreachableExpired t now expungeAfter) (tasks_of i))"

section \<open>Conditions of what Mesos reports\<close>

text \<open>The last branch for a lost task is never taken: the reasons for \<open>Gone\<close> are all the others.\<close>

lemma lost_is_never_dropped: "inferStateForLost reason message \<in> {Unknown, Gone, Unreachable}"
  by (simp add: inferStateForLost_def mapped_Gone_def)

lemma reported_conditions: "TaskCondition s \<notin> {Scheduled, Provisioned, UnreachableInactive}"
  using lost_is_never_dropped [of "ms_reason s" "ms_message s"] by (auto simp: TaskCondition_def split: task_state.splits)

lemma condition_recovered:
  "toMesosTaskState c = Some (ms_state s) \<Longrightarrow> TaskCondition s = (if c = UnreachableInactive then Unreachable else c)"
  by (cases c) (auto simp: toMesosTaskState_def TaskCondition_def dest!: sym)

section \<open>The tasks of an instance\<close>

definition wf_tasks :: "tasks_map \<Rightarrow> bool" where
  "wf_tasks m \<longleftrightarrow> distinct (map fst m) \<and> (\<forall>(k, t)\<in>set m. tk_id t = k)"

lemma set_update_subset: "set (AList.update k v m) \<subseteq> insert (k, v) (set m)"
  by (induction m) auto

lemma wf_tasks_update [simp]: "wf_tasks m \<Longrightarrow> wf_tasks (AList.update (tk_id t) t m)"
  using set_update_subset [of "tk_id t" t m] unfolding wf_tasks_def by (auto simp: distinct_update)

lemma wf_tasks_key: "wf_tasks m \<Longrightarrow> map_of m k = Some t \<Longrightarrow> tk_id t = k"
  by (auto simp: wf_tasks_def dest: map_of_SomeD)

lemma wf_provisioned:
  assumes "provisioned_tasks ids infos version now = Inr m"
  shows "wf_tasks m \<and> fst ` set m = set ids"
proof -
  define f where "f = (\<lambda>tid m. case map_of infos tid of
         None \<Rightarrow> Inl NoNetworkInfo
       | Some n \<Rightarrow> Inr (AList.update tid \<lparr>tk_id = tid, tk_runSpecVersion = version,
           tk_status = \<lparr>st_stagedAt = now, st_startedAt = None, st_mesosStatus = None, st_condition = Provisioned, st_networkInfo = n\<rparr>\<rparr> m))"
  have step: "wf_tasks m' \<and> fst ` set m' = insert tid (fst ` set m0)" if "f tid m0 = Inr m'" "wf_tasks m0" for tid m0 m'
  proof -
    note made = that(1)
    obtain t where t: "m' = AList.update tid t m0" "tk_id t = tid" using made by (auto simp: f_def split: option.splits)
    show ?thesis using wf_tasks_update [OF that(2), of t] t by (simp add: dom_update)
  qed
  have "wf_tasks m \<and> fst ` set m = fst ` set m0 \<union> set ids" if "foldR f ids m0 = Inr m" "wf_tasks m0" for m0
    using that
  proof (induction ids arbitrary: m0)
    case (Cons tid ids)
    then obtain m' where m': "f tid m0 = Inr m'" "foldR f ids m' = Inr m" by (auto simp: rbind_eq_Inr split: sum.splits)
    show ?case using Cons.IH [OF m'(2)] step [OF m'(1) Cons.prems(2)] by auto
  qed simp
  moreover have "foldR f ids [] = Inr m" using assms by (simp add: provisioned_tasks_def f_def)
  moreover have "wf_tasks []" by (simp add: wf_tasks_def)
  ultimately show ?thesis by fastforce
qed

lemma update_present: "map_of m k = Some v \<Longrightarrow> AList.update k v m = m"
  by (induction m) auto

lemma map_fst_update: "k \<in> fst ` set m \<Longrightarrow> map fst (AList.update k v m) = map fst m"
  by (simp add: update_keys)

lemma task_update_id: "task_update i t c s now = TaskUpdate t' \<Longrightarrow> tk_id t' = tk_id t \<and> \<not> task_terminal t"
  by (auto simp: task_update_def Let_def split: if_splits option.splits)

lemma apply_fields [simp]:
  "in_tasksMap (applyTaskUpdate i t now) = AList.update (tk_id t) t (in_tasksMap i)"
  "in_runSpec (applyTaskUpdate i t now) = in_runSpec i" "in_instanceId (applyTaskUpdate i t now) = in_instanceId i"
  "in_state (applyTaskUpdate i t now) = transitionTo (Some (in_state i)) (map snd (AList.update (tk_id t) t (in_tasksMap i)))
     now (sp_unreachable (in_runSpec i)) (ins_goal (in_state i))"
  by (simp_all add: applyTaskUpdate_def Let_def)

lemma abandoned_fields [simp]:
  "in_tasksMap (abandoned i) = in_tasksMap i" "in_runSpec (abandoned i) = in_runSpec i"
  "in_instanceId (abandoned i) = in_instanceId i" "in_reservation (abandoned i) = None"
  "ins_goal (in_state (abandoned i)) = ins_goal (in_state i)" "ins_condition (in_state (abandoned i)) = Scheduled"
  "in_agentInfo (abandoned i) = None" "ins_healthy (in_state (abandoned i)) = ins_healthy (in_state i)"
  by (simp_all add: abandoned_def with_condition_def)

text \<open>What an effect stores or removes.\<close>

fun effect_instance :: "update_effect \<Rightarrow> inst option" where
  "effect_instance (Update i old evs) = Some i"
| "effect_instance (Expunge i evs) = Some i"
| "effect_instance _ = None"

lemma effect_for_task_cases:
  assumes "effect_instance (instanceUpdateEffectForTask i t now) = Some i'"
  shows "i' = applyTaskUpdate i t now \<or> i' = abandoned (applyTaskUpdate i t now)"
  using assms by (auto simp: instanceUpdateEffectForTask_def Let_def split: if_splits)

text \<open>The two ways in which a status of a task changes an instance.\<close>

lemma mesosUpdate_cases:
  assumes "mesosUpdate c s now i = Inr eff" and "effect_instance eff = Some i'"
  obtains tid t t' where "task_id_parse (ms_taskId s) = Inr tid" and "map_of (in_tasksMap i) tid = Some t"
    and "eff = instanceUpdateEffectForTask i t' now"
    and "task_update i t c s now = TaskUpdate t' \<or> task_update i t c s now = TaskNoop \<and> t' = t"
proof -
  obtain tid t where t: "task_id_parse (ms_taskId s) = Inr tid" "map_of (in_tasksMap i) tid = Some t"
    using assms by (auto simp: mesosUpdate_def split: sum.splits option.splits)
  show thesis
  proof (cases "task_update i t c s now")
    case (TaskUpdate t')
    then have "eff = instanceUpdateEffectForTask i t' now" using assms t by (simp add: mesosUpdate_def)
    then show thesis using that [OF t] TaskUpdate by blast
  next
    case TaskNoop
    then have "instanceUpdateEffectForTask i t now = eff"
      using assms t by (auto simp: mesosUpdate_def split: if_splits update_effect.splits)
    then show thesis using that [OF t] TaskNoop by blast
  qed
qed

text \<open>
  C11. A status that Mesos reports changes at most the task it names, and that one only if the task has not ended: a
  task in a terminal condition keeps it whatever is reported later. No task is added or lost.
\<close>

theorem terminal_tasks_final:
  assumes "wf_tasks (in_tasksMap i)" and "mesosUpdate c s now i = Inr eff" and "effect_instance eff = Some i'"
  shows "wf_tasks (in_tasksMap i') \<and> map fst (in_tasksMap i') = map fst (in_tasksMap i)
    \<and> (\<forall>tid t. map_of (in_tasksMap i) tid = Some t \<and> (task_terminal t \<or> task_id_parse (ms_taskId s) \<noteq> Inr tid)
        \<longrightarrow> map_of (in_tasksMap i') tid = Some t)"
proof -
  obtain tid t t' where t: "task_id_parse (ms_taskId s) = Inr tid" "map_of (in_tasksMap i) tid = Some t"
      "eff = instanceUpdateEffectForTask i t' now"
      "task_update i t c s now = TaskUpdate t' \<or> task_update i t c s now = TaskNoop \<and> t' = t"
    using mesosUpdate_cases [OF assms(2,3)] by metis
  have tid: "tk_id t = tid" using wf_tasks_key [OF assms(1) t(2)] .
  then have tid': "tk_id t' = tid" using t(4) task_update_id by metis
  have m: "in_tasksMap i' = AList.update tid t' (in_tasksMap i)"
    using effect_for_task_cases [of i t' now i'] assms(3) t(3) tid' by auto
  have "map_of (in_tasksMap i') k = Some u"
    if u: "map_of (in_tasksMap i) k = Some u" "task_terminal u \<or> task_id_parse (ms_taskId s) \<noteq> Inr k" for k u
  proof (cases "k = tid")
    case True
    then have "u = t" "task_terminal t" using u t(1,2) by auto
    then have "t' = t" using t(4) task_update_id by blast
    then show ?thesis using u m t(2) True by (simp add: update_present)
  qed (use u m in \<open>simp add: update_conv'\<close>)
  moreover have "tid \<in> fst ` set (in_tasksMap i)" using t(2) by (metis domI dom_map_of_conv_image_fst)
  ultimately show ?thesis
    using wf_tasks_update [OF assms(1), of t'] tid' by (simp add: m map_fst_update)
qed

definition sample_tid :: task_id where
  "sample_tid = TaskIdWithIncarnation (InstanceId (AbsolutePathId [''web'']) PrefixInstance (UUID 0 1)) None 1"

definition sample_status :: "task_state \<Rightarrow> rat \<Rightarrow> mesos_status" where
  "sample_status state seconds = \<lparr>ms_taskId = task_idString sample_tid, ms_slaveId = ''a1'', ms_state = state,
     ms_reason = REASON_RECONCILIATION, ms_message = [], ms_healthy = None, ms_checkStatus = None, ms_timestamp = seconds,
     ms_unreachableTime = None, ms_networkInfos = None\<rparr>"

definition sample_task :: "condition \<Rightarrow> mesos_status option \<Rightarrow> task" where
  "sample_task c s = \<lparr>tk_id = sample_tid, tk_runSpecVersion = 1,
     tk_status = \<lparr>st_stagedAt = 0, st_startedAt = Some 1000, st_mesosStatus = s, st_condition = c,
       st_networkInfo = \<lparr>ni_hostName = ''h'', ni_hostPorts = [], ni_ipAddresses = []\<rparr>\<rparr>\<rparr>"

definition sample_spec :: "unreachable_strategy \<Rightarrow> spec_of_instance" where
  "sample_spec strategy = \<lparr>sp_id = AbsolutePathId [''web''], sp_version = 1, sp_role = ''*'', sp_instances = 1, sp_unreachable = strategy,
     sp_hasHealthChecks = False, sp_resident = False, sp_minimumHealthCapacity = 1, sp_maximumOverCapacity = 1\<rparr>"

definition sample_inst :: "condition \<Rightarrow> goal \<Rightarrow> unreachable_strategy \<Rightarrow> task list \<Rightarrow> inst" where
  "sample_inst c g strategy tasks = \<lparr>in_instanceId = task_instanceId sample_tid, in_agentInfo = None,
     in_state = \<lparr>ins_condition = c, ins_since = 0, ins_activeSince = None, ins_healthy = None, ins_goal = g\<rparr>,
     in_tasksMap = map (\<lambda>t. (tk_id t, t)) tasks, in_runSpec = sample_spec strategy, in_reservation = None, in_role = ''*''\<rparr>"

lemma sample_parse: "task_id_parse (task_idString sample_tid) = Inr sample_tid"
proof -
  have "pathIdValidator (AbsolutePathId [''web''])" by code_simp
  then show ?thesis unfolding sample_tid_def by (intro parse_incarnation) (simp add: runspec_ok_def container_ok_def)
qed

lemmas sample_defs = sample_status_def sample_task_def sample_spec_def sample_inst_def

lemmas state_defs = task_update_def task_terminal_def Let_def updatedHealthOrState_def ni_update_def resolveIpAddresses_def
  instanceUpdateEffectForTask_def transitionTo_def conditionFromTasks_def activeSince_def isPending_def isRunningUnhealthy_def
  isRunningHealthy_def task_running_def health_of_def readyToExpungeUnreachable_def isTerminalDecomissionedAndEphemeral_def
  shouldAbandonReservation_def shouldBecomeInactive_def isUnreachableExpired_def unreachable_since_def time_expired_def fromTaskStatus_def tasks_of_def

lemma mesosUpdate_sample:
  assumes "in_tasksMap i = [(sample_tid, t)]"
  shows "mesosUpdate c (sample_status state seconds) now i =
    (case task_update i t c (sample_status state seconds) now of
       TaskUpdate updatedTask \<Rightarrow> Inr (instanceUpdateEffectForTask i updatedTask now)
     | TaskNoop \<Rightarrow>
         if c = Unreachable \<and> ins_condition (in_state i) \<noteq> UnreachableInactive then
           (case instanceUpdateEffectForTask i t now of
              Noop n \<Rightarrow> Inr (Noop n)
            | Update i' old evs \<Rightarrow> Inr (Update i' old evs)
            | _ \<Rightarrow> Inl UnmatchedEffect)
         else Inr (Noop (in_instanceId i)))"
proof -
  have "ms_taskId (sample_status state seconds) = task_idString sample_tid" by (simp add: sample_status_def)
  then show ?thesis by (simp add: mesosUpdate_def sample_parse assms)
qed

lemma sample_failure:
  defines "i \<equiv> sample_inst Running GoalRunning UnreachableDisabled [sample_task Running None]"
    and "t \<equiv> sample_task Failed (Some (sample_status TASK_FAILED 5))"
  shows "in_tasksMap i = [(sample_tid, sample_task Running None)]"
    and "mesosUpdate Failed (sample_status TASK_FAILED 5) 6000 i
      = Inr (Update (applyTaskUpdate i t 6000) (Some i) (events (applyTaskUpdate i t 6000) (Some t) 6000 (Some (in_state i))))"
    and "ins_condition (in_state (applyTaskUpdate i t 6000)) = Failed"
proof -
  show m: "in_tasksMap i = [(sample_tid, sample_task Running None)]" by (simp add: i_def sample_inst_def sample_task_def)
  have "task_update i (sample_task Running None) Failed (sample_status TASK_FAILED 5) 6000 = TaskUpdate t"
    by (simp add: task_update_def task_terminal_def sample_task_def t_def)
  moreover have "instanceUpdateEffectForTask i t 6000
      = Update (applyTaskUpdate i t 6000) (Some i) (events (applyTaskUpdate i t 6000) (Some t) 6000 (Some (in_state i)))"
    unfolding i_def t_def by (simp add: state_defs sample_defs applyTaskUpdate_def)
  ultimately show "mesosUpdate Failed (sample_status TASK_FAILED 5) 6000 i
      = Inr (Update (applyTaskUpdate i t 6000) (Some i) (events (applyTaskUpdate i t 6000) (Some t) 6000 (Some (in_state i))))"
    by (simp add: mesosUpdate_sample [OF m])
  show "ins_condition (in_state (applyTaskUpdate i t 6000)) = Failed" unfolding i_def t_def by (simp add: state_defs sample_defs)
qed

theorem terminal_tasks_final_witness:
  "\<exists>i' old evs. mesosUpdate Failed (sample_status TASK_FAILED 5) 6000
        (sample_inst Running GoalRunning UnreachableDisabled [sample_task Running None]) = Inr (Update i' old evs)
    \<and> map fst (in_tasksMap i') = [sample_tid] \<and> ins_condition (in_state i') = Failed"
proof -
  have "wf_tasks [(sample_tid, sample_task Running None)]" by (simp add: wf_tasks_def sample_task_def)
  then show ?thesis
    using terminal_tasks_final [OF _ sample_failure(2) effect_instance.simps(1)] sample_failure by fastforce
qed

section \<open>The state of an instance and its tasks\<close>

lemma minBy_in: "minBy f x xs \<in> insert x (set xs)"
proof (induction xs arbitrary: x)
  case (Cons y ys)
  show ?case using Cons.IH [of "if f y < f x then y else x"] by (auto split: if_splits)
qed simp

lemma minBy_le: "y \<in> insert x (set xs) \<Longrightarrow> f (minBy f x xs) \<le> f y"
proof (induction xs arbitrary: x y)
  case (Cons z zs)
  let ?w = "if f z < f x then z else x"
  have w: "f (minBy f ?w zs) \<le> f ?w" by (rule Cons.IH) simp
  have "f ?w \<le> f x" "f ?w \<le> f z" by auto
  then have "y \<in> set zs \<or> f ?w \<le> f y" using Cons.prems by auto
  then have "f (minBy f ?w zs) \<le> f y" using w Cons.IH [of y ?w] by auto
  then show ?case by simp
qed simp

lemma hierarchy_inj: "c \<in> set hierarchy \<Longrightarrow> d \<in> set hierarchy \<Longrightarrow> conditionHierarchy c = conditionHierarchy d \<Longrightarrow> c = d"
  by (cases c; cases d; simp add: conditionHierarchy_def hierarchy_def)

lemma set_hierarchy: "set hierarchy = UNIV - {Scheduled, UnreachableInactive}"
proof -
  have "c \<in> set hierarchy \<longleftrightarrow> c \<notin> {Scheduled, UnreachableInactive}" for c by (cases c) (simp_all add: hierarchy_def)
  then show ?thesis by blast
qed

lemma minBy_mset:
  assumes "mset (x # xs) = mset (y # ys)" and "inj_on f (set (x # xs))"
  shows "minBy f x xs = minBy f y ys"
proof -
  have s: "insert x (set xs) = insert y (set ys)" using assms(1) by (metis list.simps(15) mset_eq_setD)
  have x: "minBy f x xs \<in> insert x (set xs)" and y: "minBy f y ys \<in> insert y (set ys)" by (rule minBy_in)+
  have "f (minBy f y ys) \<le> f (minBy f x xs)" by (rule minBy_le) (use x s in simp)
  moreover have "f (minBy f x xs) \<le> f (minBy f y ys)" by (rule minBy_le) (use y s in simp)
  ultimately have "f (minBy f x xs) = f (minBy f y ys)" by simp
  then show ?thesis by (rule inj_onD [OF assms(2)]) (use x y s in simp_all)
qed

text \<open>
  The health of an instance in one equation: the first task that is unhealthy or pending decides, and without
  one the instance is healthy as soon as one task is.
\<close>

lemma computeHealth_eq:
  "computeHealth ts found =
     (case List.find (\<lambda>t. isRunningUnhealthy t \<or> isPending t) ts of
        Some t \<Rightarrow> if isRunningUnhealthy t then Some False else None
      | None \<Rightarrow> if list_ex isRunningHealthy ts then Some True else found)"
  by (induction ts found rule: computeHealth.induct) (auto split: option.splits)

lemma unhealthy_not_pending: "isRunningUnhealthy t \<Longrightarrow> \<not> isPending t"
  by (simp add: isRunningUnhealthy_def isPending_def task_running_def)

lemma find_none: "List.find P xs = None \<longleftrightarrow> (\<forall>x\<in>set xs. \<not> P x)"
  by (induction xs) auto

lemma find_some: "List.find P xs = Some x \<Longrightarrow> x \<in> set xs \<and> P x"
  by (induction xs) (auto split: if_splits)

lemma computeHealth_cases:
  "list_ex isRunningUnhealthy ts \<Longrightarrow> \<not> list_ex isPending ts \<Longrightarrow> computeHealth ts None = Some False"
  "\<not> list_ex isRunningUnhealthy ts \<Longrightarrow> list_ex isPending ts \<Longrightarrow> computeHealth ts None = None"
  "\<not> list_ex isRunningUnhealthy ts \<Longrightarrow> \<not> list_ex isPending ts \<Longrightarrow>
     computeHealth ts None = (if list_ex isRunningHealthy ts then Some True else None)"
  by (auto simp: computeHealth_eq list_ex_iff find_none split: option.splits dest!: find_some)

text \<open>
  The state of an instance depends on the set of its tasks and not on the order in which they are kept: its
  condition always (as long as no task is itself scheduled or inactive), its health unless one task is unhealthy while
  another one is neither running nor finished.
\<close>

theorem state_ignores_order:
  assumes "mset ts = mset us"
  shows "((\<forall>t\<in>set ts. st_condition (tk_status t) \<notin> {Scheduled, UnreachableInactive})
      \<longrightarrow> conditionFromTasks ts now strategy = conditionFromTasks us now strategy)
    \<and> (\<not> (list_ex isRunningUnhealthy ts \<and> list_ex isPending ts) \<longrightarrow> computeHealth ts None = computeHealth us None)"
proof
  show "(\<forall>t\<in>set ts. st_condition (tk_status t) \<notin> {Scheduled, UnreachableInactive})
      \<longrightarrow> conditionFromTasks ts now strategy = conditionFromTasks us now strategy"
  proof
    assume listed: "\<forall>t\<in>set ts. st_condition (tk_status t) \<notin> {Scheduled, UnreachableInactive}"
    let ?c = "\<lambda>t. st_condition (tk_status t)"
    have s: "set ts = set us" using assms by (rule mset_eq_setD)
    have inactive: "shouldBecomeInactive ts now strategy = shouldBecomeInactive us now strategy"
      by (simp add: shouldBecomeInactive_def list_ex_iff s split: unreachable_strategy.splits)
    have m: "mset (map ?c ts) = mset (map ?c us)" using assms by simp
    have "inj_on conditionHierarchy (set (map ?c ts))"
      using listed by (intro inj_onI hierarchy_inj) (auto simp: set_hierarchy)
    then have "minBy conditionHierarchy x xs = minBy conditionHierarchy y ys"
      if "map ?c ts = x # xs" "map ?c us = y # ys" for x xs y ys
      using that m by (intro minBy_mset) simp_all
    moreover have "map ?c ts = [] \<longleftrightarrow> map ?c us = []" using m by (metis mset_zero_iff)
    ultimately show "conditionFromTasks ts now strategy = conditionFromTasks us now strategy"
      by (auto simp: conditionFromTasks_def inactive Let_def split: list.splits)
  qed
  have e: "list_ex P ts = list_ex P us" for P using mset_eq_setD [OF assms] by (simp add: list_ex_iff)
  show "\<not> (list_ex isRunningUnhealthy ts \<and> list_ex isPending ts) \<longrightarrow> computeHealth ts None = computeHealth us None"
    by (cases "list_ex isRunningUnhealthy ts"; cases "list_ex isPending ts") (simp_all add: computeHealth_cases e)
qed

text \<open>Two tasks, one unhealthy and one still staging: which of them comes first decides.\<close>

theorem state_ignores_order_witness:
  "conditionFromTasks [sample_task Running None, sample_task Failed None] 0 UnreachableDisabled
     = conditionFromTasks [sample_task Failed None, sample_task Running None] 0 UnreachableDisabled
   \<and> computeHealth [sample_task Running (Some (sample_status TASK_RUNNING 1\<lparr>ms_healthy := Some False\<rparr>)), sample_task Staging None] None
      = Some False
   \<and> computeHealth [sample_task Staging None, sample_task Running (Some (sample_status TASK_RUNNING 1\<lparr>ms_healthy := Some False\<rparr>))] None
      = None"
proof -
  let ?ts = "[sample_task Running None, sample_task Failed None]"
  have "mset ?ts = mset [sample_task Failed None, sample_task Running None]" by simp
  then have "conditionFromTasks ?ts 0 UnreachableDisabled
      = conditionFromTasks [sample_task Failed None, sample_task Running None] 0 UnreachableDisabled"
    using state_ignores_order [where ts = ?ts and now = 0 and strategy = UnreachableDisabled] by (simp add: sample_task_def)
  then show ?thesis by (simp add: isRunningUnhealthy_def isPending_def task_running_def health_of_def sample_task_def)
qed

lemma transitionTo_state:
  "ins_condition (transitionTo (Some s) ts now strategy g) = conditionFromTasks ts now strategy"
  "ins_healthy (transitionTo (Some s) ts now strategy g) = computeHealth ts None"
  "ins_goal s = g \<Longrightarrow> ins_goal (transitionTo (Some s) ts now strategy g) = g"
  "ins_since (transitionTo (Some s) ts now strategy g)
     = (if ins_condition s = conditionFromTasks ts now strategy \<and> ins_healthy s = computeHealth ts None then ins_since s else now)"
  "ins_activeSince (transitionTo (Some s) ts now strategy g)
     = (if ins_condition s = conditionFromTasks ts now strategy \<and> ins_healthy s = computeHealth ts None
        then ins_activeSince s else activeSince ts)"
  by (simp_all add: transitionTo_def Let_def)

lemma tasks_of_apply: "tasks_of (applyTaskUpdate i t now) = map snd (AList.update (tk_id t) t (in_tasksMap i))"
  by (simp add: tasks_of_def)

lemma tasks_of_abandoned [simp]: "tasks_of (abandoned i) = tasks_of i"
  by (simp add: tasks_of_def)

lemma shouldAbandon_tasks:
  "shouldAbandonReservation i \<longleftrightarrow> in_reservation i \<noteq> None \<and> list_all task_terminal (tasks_of i)
     \<and> (\<exists>t\<in>set (tasks_of i). \<exists>m. st_mesosStatus (tk_status t) = Some m \<and> ms_state m = TASK_GONE_BY_OPERATOR)"
proof -
  have "list_ex (\<lambda>s. ms_state s = TASK_GONE_BY_OPERATOR) (List.map_filter (\<lambda>t. st_mesosStatus (tk_status t)) ts)
      \<longleftrightarrow> (\<exists>t\<in>set ts. \<exists>m. st_mesosStatus (tk_status t) = Some m \<and> ms_state m = TASK_GONE_BY_OPERATOR)" for ts
    by (induction ts) (auto simp: map_filter_simps split: option.splits)
  then show ?thesis by (auto simp: shouldAbandonReservation_def)
qed

lemma apply_reservation: "in_reservation (applyTaskUpdate i t now) = None \<longleftrightarrow> in_reservation i = None"
  by (simp add: applyTaskUpdate_def Let_def split: option.splits)

lemma effect_for_task_update:
  assumes "instanceUpdateEffectForTask i t now = Update i' old evs"
  shows "old = Some i \<and> (let u = applyTaskUpdate i t now in
      i' = (if shouldAbandonReservation u then abandoned u else u) \<and> evs = events u (Some t) now (Some (in_state i))
      \<and> \<not> isTerminalDecomissionedAndEphemeral u \<and> \<not> readyToExpungeUnreachable u now)"
  using assms by (auto simp: instanceUpdateEffectForTask_def Let_def split: if_splits)

text \<open>
  C20. When a status that Mesos reports changes an instance that is kept, the new state is the one its tasks determine:
  its condition and health are computed from all its tasks, its goal is the old one, and the time of the last change moves
  to now exactly when condition or health change. The one exception is an instance with a reservation all of whose
  tasks have ended, one because an operator gave up its agent: it is scheduled anew, without agent and reservation.
\<close>

theorem state_follows_tasks:
  assumes "mesosUpdate c s now i = Inr (Update i' old evs)"
  shows "old = Some i \<and> ins_goal (in_state i') = ins_goal (in_state i) \<and> ins_healthy (in_state i') = computeHealth (tasks_of i') None
    \<and> (if in_reservation i \<noteq> None \<and> list_all task_terminal (tasks_of i')
          \<and> (\<exists>t\<in>set (tasks_of i'). \<exists>m. st_mesosStatus (tk_status t) = Some m \<and> ms_state m = TASK_GONE_BY_OPERATOR)
       then ins_condition (in_state i') = Scheduled \<and> in_reservation i' = None \<and> in_agentInfo i' = None
       else ins_condition (in_state i') = conditionFromTasks (tasks_of i') now (sp_unreachable (in_runSpec i))
         \<and> (in_reservation i' = None \<longleftrightarrow> in_reservation i = None) \<and> in_agentInfo i' = in_agentInfo i
         \<and> ins_since (in_state i') = (if ins_condition (in_state i') = ins_condition (in_state i)
               \<and> ins_healthy (in_state i') = ins_healthy (in_state i) then ins_since (in_state i) else now))"
proof -
  obtain t' where "instanceUpdateEffectForTask i t' now = Update i' old evs"
    using mesosUpdate_cases [OF assms] by (metis effect_instance.simps(1))
  note e = effect_for_task_update [OF this, unfolded Let_def]
  let ?u = "applyTaskUpdate i t' now"
  have tasks: "tasks_of i' = tasks_of ?u" using e by auto
  have state: "ins_condition (in_state ?u) = conditionFromTasks (tasks_of ?u) now (sp_unreachable (in_runSpec i))"
      "ins_healthy (in_state ?u) = computeHealth (tasks_of ?u) None" "ins_goal (in_state ?u) = ins_goal (in_state i)"
    by (simp_all add: transitionTo_state tasks_of_apply)
  have since: "ins_since (in_state ?u) = (if ins_condition (in_state ?u) = ins_condition (in_state i)
      \<and> ins_healthy (in_state ?u) = ins_healthy (in_state i) then ins_since (in_state i) else now)"
    by (auto simp: transitionTo_state)
  have agent: "in_agentInfo ?u = in_agentInfo i" by (simp add: applyTaskUpdate_def Let_def)
  show ?thesis
  proof (cases "shouldAbandonReservation ?u")
    case True
    then have "i' = abandoned ?u" "old = Some i" using e by auto
    then show ?thesis
      using True state apply_reservation [of i t' now] by (simp add: shouldAbandon_tasks)
  next
    case False
    then have i': "i' = ?u" "old = Some i" using e by auto
    have "\<not> (in_reservation i \<noteq> None \<and> list_all task_terminal (tasks_of ?u)
          \<and> (\<exists>t\<in>set (tasks_of ?u). \<exists>m. st_mesosStatus (tk_status t) = Some m \<and> ms_state m = TASK_GONE_BY_OPERATOR))"
      using False unfolding shouldAbandon_tasks apply_reservation by blast
    then show ?thesis
      unfolding i' using state since agent apply_reservation [of i t' now] by (simp only: if_False)
  qed
qed

theorem state_follows_tasks_witness:
  "\<exists>i' old evs. mesosUpdate Failed (sample_status TASK_FAILED 5) 6000
        (sample_inst Running GoalRunning UnreachableDisabled [sample_task Running None]) = Inr (Update i' old evs)
    \<and> ins_condition (in_state i') = Failed \<and> ins_since (in_state i') = 6000"
proof -
  have "in_reservation (sample_inst Running GoalRunning UnreachableDisabled [sample_task Running None]) = None"
      "ins_condition (in_state (sample_inst Running GoalRunning UnreachableDisabled [sample_task Running None])) = Running"
    by (simp_all add: sample_inst_def)
  then have "ins_since (in_state (applyTaskUpdate (sample_inst Running GoalRunning UnreachableDisabled [sample_task Running None])
      (sample_task Failed (Some (sample_status TASK_FAILED 5))) 6000)) = 6000"
    using state_follows_tasks [OF sample_failure(2)] sample_failure(3) by simp
  then show ?thesis using sample_failure by blast
qed

section \<open>Instances that are done\<close>

text \<open>
  C12. An instance that shall go away is not kept when it is done: whatever operation is applied (scheduling an
  instance as the tracker does it, for an instance that is scheduled; reverting to an earlier instance apart), an
  instance that is decommissioned, has no reservation and whose tasks have all ended is never stored. The one exception
  is a reservation that is abandoned: then the instance is stored as scheduled, although its goal does not let it start.
\<close>

theorem done_not_stored:
  assumes "resolve clock mi operation = Inr (Update i' old evs)"
    and "case operation of Schedule i \<Rightarrow> isScheduled i | RevertTo i \<Rightarrow> False | _ \<Rightarrow> True"
    and "isTerminalDecomissionedAndEphemeral i'"
  shows "\<exists>i t now. mi = Some i \<and> ins_goal (in_state i) = GoalDecommissioned \<and> in_reservation i \<noteq> None
    \<and> i' = abandoned (applyTaskUpdate i t now) \<and> \<not> isScheduled i' \<and> ins_condition (in_state i') = Scheduled"
proof (cases operation)
  case (Schedule i)
  then have "isScheduled i'" using assms(1,2) by (auto simp: createInstance_def split: option.splits)
  then show ?thesis using assms(3) by (simp add: isScheduled_def isTerminalDecomissionedAndEphemeral_def)
next
  case (Provision iid agent spec tasks now)
  then obtain o' where "provisioned agent spec tasks now o' = Inr i'"
    using assms(1) by (auto simp: updateExistingInstance_def rbind_eq_Inr split: option.splits)
  then have "ins_goal (in_state i') = GoalRunning" by (auto simp: provisioned_def isScheduled_def split: if_splits)
  then show ?thesis using assms(3) by (simp add: isTerminalDecomissionedAndEphemeral_def)
next
  case (RescheduleReserved iid spec)
  then have "ins_goal (in_state i') = GoalRunning"
    using assms(1) by (auto simp: updateExistingInstance_def Let_def rescheduled_def split: option.splits)
  then show ?thesis using assms(3) by (simp add: isTerminalDecomissionedAndEphemeral_def)
next
  case (MesosUpdate j c s now)
  then obtain i where i: "mi = Some i" "mesosUpdate c s now i = Inr (Update i' old evs)"
    using assms(1) by (auto simp: updateExistingInstance_def split: option.splits)
  obtain t where "instanceUpdateEffectForTask i t now = Update i' old evs"
    using mesosUpdate_cases [OF i(2)] by (metis effect_instance.simps(1))
  note e = effect_for_task_update [OF this, unfolded Let_def]
  then have ab: "shouldAbandonReservation (applyTaskUpdate i t now)" "i' = abandoned (applyTaskUpdate i t now)"
    using assms(3) by (metis (full_types))+
  have g: "ins_goal (in_state i') = GoalDecommissioned" using assms(3) by (simp add: isTerminalDecomissionedAndEphemeral_def)
  then have "ins_goal (in_state i) = GoalDecommissioned" using ab(2) by (simp add: transitionTo_state)
  moreover have "in_reservation i \<noteq> None" using ab(1) apply_reservation by (simp add: shouldAbandon_tasks)
  ultimately show ?thesis using i(1) ab(2) g by (intro exI [of _ i] exI [of _ t] exI [of _ now]) (simp add: isScheduled_def)
next
  case (ChangeGoal iid goal)
  then show ?thesis
    using assms(1,3) by (auto simp: updateExistingInstance_def changeGoal_def Let_def split: option.splits if_splits)
next
  case (Reserve iid r agent)
  then have "in_reservation i' \<noteq> None"
    using assms(1) by (auto simp: updateExistingInstance_def reserve_def reserved_def Let_def split: option.splits)
  then show ?thesis using assms(3) by (simp add: isTerminalDecomissionedAndEphemeral_def)
next
  case (ReservationTimeout iid)
  then show ?thesis
    using assms(1) by (auto simp: updateExistingInstance_def reservationTimeout_def split: option.splits if_splits)
next
  case (Unreserve iid)
  then show ?thesis using assms(1) by (auto simp: updateExistingInstance_def unreserve_def split: option.splits if_splits)
next
  case (ForceExpunge iid)
  then show ?thesis using assms(1) by (auto simp: forceExpunge_def Let_def split: option.splits)
next
  case (RevertTo i)
  then show ?thesis using assms(2) by simp
qed

definition sample_reservation :: reservation where
  "sample_reservation = \<lparr>rv_volumeIds = [''v''], rv_state = Launched, rv_id = SimplifiedId (task_instanceId sample_tid)\<rparr>"

definition sample_resident :: inst where
  "sample_resident = sample_inst Running GoalDecommissioned UnreachableDisabled [sample_task Running None]\<lparr>in_reservation := Some sample_reservation\<rparr>"

text \<open>The operator gives up the agent of a decommissioned resident instance.\<close>

lemma sample_abandoned:
  "\<exists>i' evs. resolve 6000 (Some sample_resident) (MesosUpdate sample_resident Gone (sample_status TASK_GONE_BY_OPERATOR 5) 6000)
      = Inr (Update i' (Some sample_resident) evs) \<and> isTerminalDecomissionedAndEphemeral i'"
proof -
  let ?t = "sample_task Gone (Some (sample_status TASK_GONE_BY_OPERATOR 5))"
  have m: "in_tasksMap sample_resident = [(sample_tid, sample_task Running None)]"
    by (simp add: sample_resident_def sample_inst_def sample_task_def)
  have u: "task_update sample_resident (sample_task Running None) Gone (sample_status TASK_GONE_BY_OPERATOR 5) 6000 = TaskUpdate ?t"
    by (simp add: task_update_def task_terminal_def sample_task_def)
  have c: "task_terminal ?t" "tk_id ?t = sample_tid" "st_mesosStatus (tk_status ?t) = Some (sample_status TASK_GONE_BY_OPERATOR 5)"
      "st_condition (tk_status ?t) = Gone" "ms_state (sample_status TASK_GONE_BY_OPERATOR 5) = TASK_GONE_BY_OPERATOR"
    by (simp_all add: task_terminal_def sample_task_def sample_status_def)
  let ?u = "applyTaskUpdate sample_resident ?t 6000"
  have ts: "tasks_of ?u = [?t]" by (simp add: tasks_of_def m c)
  have r: "in_reservation ?u \<noteq> None" by (simp add: apply_reservation sample_resident_def)
  have d: "in_tasksMap ?u \<noteq> in_tasksMap sample_resident" using c(4) by (auto simp: m c sample_task_def)
  have "\<not> readyToExpungeUnreachable ?u 6000"
    by (simp add: readyToExpungeUnreachable_def sample_resident_def sample_inst_def sample_spec_def)
  moreover have "shouldAbandonReservation ?u" unfolding shouldAbandon_tasks ts using c r by simp
  ultimately have e: "instanceUpdateEffectForTask sample_resident ?t 6000
      = Update (abandoned ?u) (Some sample_resident) (events ?u (Some ?t) 6000 (Some (in_state sample_resident)))"
    using d r by (simp add: instanceUpdateEffectForTask_def Let_def isTerminalDecomissionedAndEphemeral_def del: apply_fields)
  have "in_instanceId sample_resident = task_instanceId sample_tid" by (simp add: sample_resident_def sample_inst_def)
  moreover have "isTerminalDecomissionedAndEphemeral (abandoned ?u)"
    using c(1) ts by (simp add: isTerminalDecomissionedAndEphemeral_def transitionTo_state sample_resident_def sample_inst_def)
  ultimately show ?thesis
    using u e by (simp add: updateExistingInstance_def mesosUpdate_sample [OF m])
qed

theorem done_not_stored_witness:
  "\<exists>i' evs. resolve 6000 (Some sample_resident) (MesosUpdate sample_resident Gone (sample_status TASK_GONE_BY_OPERATOR 5) 6000)
      = Inr (Update i' (Some sample_resident) evs)
    \<and> isTerminalDecomissionedAndEphemeral i' \<and> ins_condition (in_state i') = Scheduled \<and> \<not> isScheduled i'"
proof -
  obtain i' evs where u: "resolve 6000 (Some sample_resident)
        (MesosUpdate sample_resident Gone (sample_status TASK_GONE_BY_OPERATOR 5) 6000) = Inr (Update i' (Some sample_resident) evs)"
      "isTerminalDecomissionedAndEphemeral i'" using sample_abandoned by blast
  have "ins_condition (in_state i') = Scheduled \<and> \<not> isScheduled i'" using done_not_stored [OF u(1) _ u(2)] by auto
  then show ?thesis using u by blast
qed

section \<open>Unreachable instances\<close>

text \<open>
  C24. An instance of one task that is unreachable, and stays so: a further status that says the same changes nothing
  while the task has not been unreachable for \<open>inactiveAfter\<close>; it makes the instance inactive when that time has
  passed, but not yet \<open>expungeAfter\<close>; and when both have passed since the last status, it is an error: the
  match on the effect has no case for an instance that is to be expunged, so the instance stays as it is, and
  the job that expunges inactive instances does not see it either.
\<close>

theorem repeated_unreachable:
  assumes "task_id_parse (ms_taskId s) = Inr tid" and "in_tasksMap i = [(tid, t)]" and "tk_id t = tid"
    and "st_condition (tk_status t) = Unreachable" and "st_mesosStatus (tk_status t) = Some m" and "st_startedAt (tk_status t) = Some start"
    and "ins_condition (in_state i) = Unreachable" and "ins_healthy (in_state i) = None"
    and "sp_unreachable (in_runSpec i) = UnreachableEnabled inactiveAfter expungeAfter" and "inactiveAfter \<le> expungeAfter"
    and "ms_state m = TASK_UNREACHABLE" and "ms_state s = TASK_UNREACHABLE" and "ms_healthy s = None" and "ms_checkStatus s = None"
  shows "(now < unreachable_since m + inactiveAfter \<longrightarrow> mesosUpdate (TaskCondition s) s now i = Inr (Noop (in_instanceId i)))
    \<and> (unreachable_since m + inactiveAfter \<le> now \<and> now < unreachable_since m + expungeAfter \<longrightarrow>
        (\<exists>i' evs. mesosUpdate (TaskCondition s) s now i = Inr (Update i' (Some i) evs)
          \<and> ins_condition (in_state i') = UnreachableInactive \<and> in_tasksMap i' = in_tasksMap i))
    \<and> (unreachable_since m + expungeAfter \<le> now \<longrightarrow>
        mesosUpdate (TaskCondition s) s now i = Inl UnmatchedEffect \<and> \<not> shouldExpunge i now)"
proof -
  have c: "TaskCondition s = Unreachable" using assms(12) by (simp add: TaskCondition_def)
  have "task_update i t Unreachable s now = TaskNoop"
    using assms(4-6,11-14) by (simp add: task_update_def task_terminal_def updatedHealthOrState_def)
  then have u: "mesosUpdate (TaskCondition s) s now i =
      (case instanceUpdateEffectForTask i t now of Noop n \<Rightarrow> Inr (Noop n) | Update i' old evs \<Rightarrow> Inr (Update i' old evs) | _ \<Rightarrow> Inl UnmatchedEffect)"
    using assms(1,2,7) by (simp add: mesosUpdate_def c)
  let ?u = "applyTaskUpdate i t now"
  have m: "in_tasksMap ?u = in_tasksMap i" using assms(2,3) by simp
  then have ts: "tasks_of ?u = [t]" using assms(2) by (simp add: tasks_of_def)
  have ex: "isUnreachableExpired t now d \<longleftrightarrow> unreachable_since m + d \<le> now" for d
    using assms(4,5) by (auto simp: isUnreachableExpired_def time_expired_def)
  have h: "computeHealth [t] None = None" using assms(4) by (simp add: isRunningUnhealthy_def isPending_def task_running_def)
  have cond: "conditionFromTasks [t] now (sp_unreachable (in_runSpec i)) = (if unreachable_since m + inactiveAfter \<le> now then UnreachableInactive else Unreachable)"
    using assms(4,9) ex by (simp add: conditionFromTasks_def shouldBecomeInactive_def)
  have st: "in_state ?u = (if unreachable_since m + inactiveAfter \<le> now then in_state ?u else in_state i)"
    using assms(2,3,7,8) h cond by (simp add: transitionTo_def)
  have uc: "ins_condition (in_state ?u) = (if unreachable_since m + inactiveAfter \<le> now then UnreachableInactive else Unreachable)"
    using cond assms(2,3) by (simp add: transitionTo_state)
  have ready: "readyToExpungeUnreachable ?u now \<longleftrightarrow> unreachable_since m + expungeAfter \<le> now"
    using assms(9) ts ex by (simp add: readyToExpungeUnreachable_def)
  have alive: "\<not> isTerminalDecomissionedAndEphemeral ?u" "\<not> shouldAbandonReservation ?u"
    using assms(4) ts by (simp_all add: isTerminalDecomissionedAndEphemeral_def shouldAbandonReservation_def task_terminal_def)
  have e: "instanceUpdateEffectForTask i t now =
      (if now < unreachable_since m + inactiveAfter then Noop (in_instanceId i)
       else if unreachable_since m + expungeAfter \<le> now then Expunge ?u (events ?u (Some t) now (Some (in_state i)))
       else Update ?u (Some i) (events ?u (Some t) now (Some (in_state i))))"
    using st uc m ready alive assms(7) by (auto simp: instanceUpdateEffectForTask_def Let_def simp del: apply_fields split: if_splits)
  have "\<not> shouldExpunge i now" using assms(7) by (simp add: shouldExpunge_def split: unreachable_strategy.splits)
  then show ?thesis using e u m uc assms(10) by (auto simp del: apply_fields)
qed

theorem repeated_unreachable_witness:
  "let s = sample_status TASK_UNREACHABLE 10;
       i = sample_inst Unreachable GoalRunning (UnreachableEnabled 60000 120000) [sample_task Unreachable (Some s)]
   in mesosUpdate (TaskCondition s) s 20000 i = Inr (Noop (in_instanceId i))
     \<and> (\<exists>i' evs. mesosUpdate (TaskCondition s) s 80000 i = Inr (Update i' (Some i) evs)
          \<and> ins_condition (in_state i') = UnreachableInactive)
     \<and> mesosUpdate (TaskCondition s) s 130000 i = Inl UnmatchedEffect"
proof -
  let ?s = "sample_status TASK_UNREACHABLE 10"
  let ?t = "sample_task Unreachable (Some ?s)"
  let ?i = "sample_inst Unreachable GoalRunning (UnreachableEnabled 60000 120000) [?t]"
  have "task_id_parse (ms_taskId ?s) = Inr sample_tid" by (simp add: sample_status_def sample_parse)
  note * = repeated_unreachable [where m = ?s and s = ?s and i = ?i and t = ?t and tid = sample_tid
      and start = 1000 and inactiveAfter = 60000 and expungeAfter = 120000, OF this]
  have since: "unreachable_since ?s = 10000" by (simp add: unreachable_since_def fromTaskStatus_def sample_status_def)
  have "(now < 70000 \<longrightarrow> mesosUpdate (TaskCondition ?s) ?s now ?i = Inr (Noop (in_instanceId ?i)))
    \<and> (70000 \<le> now \<and> now < 130000 \<longrightarrow>
        (\<exists>i' evs. mesosUpdate (TaskCondition ?s) ?s now ?i = Inr (Update i' (Some ?i) evs)
          \<and> ins_condition (in_state i') = UnreachableInactive \<and> in_tasksMap i' = in_tasksMap ?i))
    \<and> (130000 \<le> now \<longrightarrow> mesosUpdate (TaskCondition ?s) ?s now ?i = Inl UnmatchedEffect \<and> \<not> shouldExpunge ?i now)" for now
    using * [of now] unfolding since by (simp add: sample_inst_def sample_task_def sample_spec_def sample_status_def)
  from this [of 20000] this [of 80000] this [of 130000] show ?thesis unfolding Let_def by auto
qed

section \<open>Operations that fail\<close>

lemma effect_for_task_no_failure: "instanceUpdateEffectForTask i t now \<noteq> Failure e"
  by (simp add: instanceUpdateEffectForTask_def Let_def)

text \<open>
  C21. Which operations fail, with an exception or with a failure the sender is told: scheduling an instance that is
  there already, any other operation but a forced expunge and a revert on one that is not there, provisioning one that is
  not scheduled, releasing a reservation that is not there or still needed, a status for a task that is not one of the
  instance's, and a status that says again that a task is unreachable when the instance is due to be expunged.
\<close>

theorem operations_that_fail:
  "(\<exists>e. caught (resolve clock mi operation) = Failure e) \<longleftrightarrow>
    (case operation of
       Schedule i \<Rightarrow> mi \<noteq> None
     | RevertTo i \<Rightarrow> False
     | ForceExpunge iid \<Rightarrow> False
     | Provision iid agent spec tasks now \<Rightarrow> (case mi of None \<Rightarrow> True | Some i \<Rightarrow> \<not> isScheduled i)
     | ReservationTimeout iid \<Rightarrow> (case mi of None \<Rightarrow> True | Some i \<Rightarrow> in_reservation i = None)
     | Unreserve iid \<Rightarrow> (case mi of None \<Rightarrow> True
         | Some i \<Rightarrow> \<not> (isTerminal (ins_condition (in_state i)) \<and> ins_goal (in_state i) = GoalDecommissioned))
     | MesosUpdate j c s now \<Rightarrow> (case mi of None \<Rightarrow> True
         | Some i \<Rightarrow> (case task_id_parse (ms_taskId s) of Inl e \<Rightarrow> True
             | Inr tid \<Rightarrow> (case map_of (in_tasksMap i) tid of None \<Rightarrow> True
                 | Some t \<Rightarrow> c = Unreachable \<and> ins_condition (in_state i) \<noteq> UnreachableInactive
                     \<and> task_update i t c s now = TaskNoop
                     \<and> (\<exists>i' evs. instanceUpdateEffectForTask i t now = Expunge i' evs))))
     | _ \<Rightarrow> mi = None)"
proof (cases operation)
  case (MesosUpdate j c s now)
  show ?thesis
  proof (cases mi)
    case (Some i)
    show ?thesis
    proof (cases "task_id_parse (ms_taskId s)")
      case (Inr tid)
      show ?thesis
      proof (cases "map_of (in_tasksMap i) tid")
        case None
        then show ?thesis by (simp add: MesosUpdate Some Inr updateExistingInstance_def mesosUpdate_def caught_def)
      next
        case (Some t)
        note here = MesosUpdate \<open>mi = Some i\<close> Inr Some
        show ?thesis
          using effect_for_task_no_failure [of i t now]
          by (cases "task_update i t c s now"; cases "instanceUpdateEffectForTask i t now")
            (auto simp: here updateExistingInstance_def mesosUpdate_def caught_def effect_for_task_no_failure)
      qed
    qed (simp add: MesosUpdate Some updateExistingInstance_def mesosUpdate_def caught_def)
  qed (simp add: MesosUpdate updateExistingInstance_def caught_def)
qed (cases mi; simp add: updateExistingInstance_def createInstance_def caught_def provisioned_def reservationTimeout_def hasReservation_def
    unreserve_def changeGoal_def reserve_def forceExpunge_def Let_def)+

end
