(* ===== verification/InstanceTracker.thy ===== *)
theory InstanceTracker
  imports Instances
begin

text \<open>
  The instance tracker (\<open>core/task/tracker\<close>): the instances in memory, grouped by run spec, the actor that
  applies operations and stores their effects before it changes its memory, and the queue in front of it that
  handles the operations of one run spec one after the other.
\<close>

section \<open>Instances by run spec\<close>

type_synonym spec_instances = "(instance_id \<times> inst) list"
type_synonym instances_by_spec = "(path_id \<times> spec_instances) list"

definition instanceMap :: "instances_by_spec \<Rightarrow> path_id \<Rightarrow> spec_instances" where
  "instanceMap m p = (case map_of m p of Some s \<Rightarrow> s | None \<Rightarrow> [])"

definition specInstances :: "instances_by_spec \<Rightarrow> path_id \<Rightarrow> inst list" where
  "specInstances m p = map snd (instanceMap m p)"

definition tracked :: "instances_by_spec \<Rightarrow> instance_id \<Rightarrow> inst option" where
  "tracked m iid = (case map_of m (instance_runSpecId iid) of None \<Rightarrow> None | Some s \<Rightarrow> map_of s iid)"

definition allInstances :: "instances_by_spec \<Rightarrow> inst list" where
  "allInstances m = concat (map (\<lambda>(p, s). map snd s) m)"

text \<open>The map has the empty collection as its default.\<close>

definition updateApp_spec :: "path_id \<Rightarrow> (spec_instances \<Rightarrow> spec_instances) \<Rightarrow> instances_by_spec \<Rightarrow> instances_by_spec" where
  "updateApp_spec p f m = (let updated = f (instanceMap m p) in if updated = [] then AList.delete p m else AList.update p updated m)"

definition withInstance :: "inst \<Rightarrow> spec_instances \<Rightarrow> spec_instances" where
  "withInstance i s = AList.update (in_instanceId i) i s"

definition withoutInstance :: "instance_id \<Rightarrow> spec_instances \<Rightarrow> spec_instances" where
  "withoutInstance iid s = AList.delete iid s"

definition forInstances :: "inst list \<Rightarrow> instances_by_spec" where
  "forInstances is = map (\<lambda>p. (p, fold (\<lambda>i. withInstance i) (filter (\<lambda>i. sp_id (in_runSpec i) = p) is) []))
     (remdups (map (\<lambda>i. sp_id (in_runSpec i)) is))"

section \<open>Counts\<close>

record task_counts =
  tasksStaged :: int
  tasksRunning :: int
  tasksHealthy :: int
  tasksUnhealthy :: int

definition add_counts :: "task_counts \<Rightarrow> task_counts \<Rightarrow> task_counts" where
  "add_counts a b = \<lparr>tasksStaged = tasksStaged a + tasksStaged b, tasksRunning = tasksRunning a + tasksRunning b,
     tasksHealthy = tasksHealthy a + tasksHealthy b, tasksUnhealthy = tasksUnhealthy a + tasksUnhealthy b\<rparr>"

definition sub_counts :: "task_counts \<Rightarrow> task_counts \<Rightarrow> task_counts" where
  "sub_counts a b = \<lparr>tasksStaged = tasksStaged a - tasksStaged b, tasksRunning = tasksRunning a - tasksRunning b,
     tasksHealthy = tasksHealthy a - tasksHealthy b, tasksUnhealthy = tasksUnhealthy a - tasksUnhealthy b\<rparr>"

text \<open>
  The statistics of an instance, from the state of its first task; without health statuses, as the tracker
  asks for them, nothing counts as healthy or unhealthy.
\<close>

definition first_state :: "inst \<Rightarrow> task_state option" where
  "first_state i = (case tasks_of i of [] \<Rightarrow> None | t # ts \<Rightarrow> map_option ms_state (st_mesosStatus (tk_status t)))"

definition counts_as_running :: "inst \<Rightarrow> bool" where
  "counts_as_running i \<longleftrightarrow> first_state i = Some TASK_RUNNING"

definition counts_as_staging :: "inst \<Rightarrow> bool" where
  "counts_as_staging i \<longleftrightarrow> first_state i = None \<or> first_state i = Some TASK_STAGING"

definition counted :: "inst \<Rightarrow> bool" where
  "counted i \<longleftrightarrow> \<not> isScheduled i \<and> in_tasksMap i \<noteq> []"

definition counts_of :: "inst list \<Rightarrow> task_counts" where
  "counts_of is = (let counted_ones = filter counted is
     in \<lparr>tasksStaged = int (length (filter counts_as_staging counted_ones)),
         tasksRunning = int (length (filter counts_as_running counted_ones)), tasksHealthy = 0, tasksUnhealthy = 0\<rparr>)"

section \<open>The actor\<close>

datatype instance_change =
    InstanceUpdated inst "instance_state option" "marathon_event list"
  | InstanceDeleted inst "instance_state option" "marathon_event list"

record 'a tracker =
  tr_instances :: instances_by_spec
  tr_counts :: task_counts
  tr_subscribers :: "'a list"

datatype 'a tracker_message =
    Subscribe 'a
  | Unsubscribe 'a
  | ListAll 'a
  | ListBySpec path_id 'a
  | Get instance_id 'a
  | UpdateContext int operation 'a
  | RepositoryStateUpdated update_effect 'a

text \<open>
  What the actor sends or starts: answers, changes for subscribers, a store or a delete in the repository whose
  success becomes a message to the actor itself, and the steps that process a change before the sender is told.
\<close>

datatype 'a tracker_output =
    Snapshot 'a "inst list"
  | AnswerAll 'a instances_by_spec
  | AnswerSpec 'a "inst list"
  | AnswerInstance 'a "inst option"
  | Change 'a instance_change
  | StartStore inst update_effect 'a
  | StartDelete instance_id update_effect 'a
  | ForwardToSelf update_effect 'a
  | AnswerFailure 'a failure_cause
  | ProcessThenAnswer "instance_change option" update_effect 'a

definition resolveUpdateEffect :: "int \<Rightarrow> int \<Rightarrow> operation \<Rightarrow> instances_by_spec \<Rightarrow> update_effect" where
  "resolveUpdateEffect now deadline operation m =
     (if deadline \<le> now then Failure TimedOut
      else caught (resolve now (tracked m (op_instanceId operation)) operation))"

definition updateApp_tracker :: "path_id \<Rightarrow> instance_id \<Rightarrow> inst option \<Rightarrow> 'a tracker \<Rightarrow> 'a tracker" where
  "updateApp_tracker appId iid newInstance tr =
     (let m = tr_instances tr;
          updatedAppInstances = (case newInstance of
              None \<Rightarrow> updateApp_spec appId (withoutInstance iid) m
            | Some i \<Rightarrow> updateApp_spec appId (withInstance i) m);
          oldTaskCount = counts_of (case tracked m iid of None \<Rightarrow> [] | Some i \<Rightarrow> [i]);
          newTaskCount = counts_of (case newInstance of None \<Rightarrow> [] | Some i \<Rightarrow> [i])
      in tr\<lparr>tr_instances := updatedAppInstances, tr_counts := sub_counts (add_counts (tr_counts tr) newTaskCount) oldTaskCount\<rparr>)"

definition change_of :: "update_effect \<Rightarrow> instance_change option" where
  "change_of eff = (case eff of
       Update i old evs \<Rightarrow> Some (InstanceUpdated i (map_option in_state old) evs)
     | Expunge i evs \<Rightarrow> Some (InstanceDeleted i None evs)
     | _ \<Rightarrow> None)"

definition applied :: "update_effect \<Rightarrow> 'a tracker \<Rightarrow> 'a tracker" where
  "applied eff tr = (case eff of
       Update i old evs \<Rightarrow> updateApp_tracker (sp_id (in_runSpec i)) (in_instanceId i) (Some i) tr
     | Expunge i evs \<Rightarrow> updateApp_tracker (sp_id (in_runSpec i)) (in_instanceId i) None tr
     | _ \<Rightarrow> tr)"

definition notifySubscribers :: "instance_change \<Rightarrow> 'a tracker \<Rightarrow> 'a tracker_output list" where
  "notifySubscribers change tr = map (\<lambda>a. Change a change) (tr_subscribers tr)"

text \<open>The first message: the instances that were loaded.\<close>

definition initializing :: "inst list \<Rightarrow> 'a tracker" where
  "initializing is = \<lparr>tr_instances = forInstances is, tr_counts = counts_of (allInstances (forInstances is)), tr_subscribers = []\<rparr>"

fun tracker_receive :: "int \<Rightarrow> 'a tracker_message \<Rightarrow> 'a tracker \<Rightarrow> 'a tracker \<times> 'a tracker_output list" where
  "tracker_receive now (Subscribe a) tr =
     (if a \<in> set (tr_subscribers tr) then (tr, [])
      else (tr\<lparr>tr_subscribers := tr_subscribers tr @ [a]\<rparr>, [Snapshot a (allInstances (tr_instances tr))]))"
| "tracker_receive now (Unsubscribe a) tr = (tr\<lparr>tr_subscribers := filter (\<lambda>b. b \<noteq> a) (tr_subscribers tr)\<rparr>, [])"
| "tracker_receive now (ListAll a) tr = (tr, [AnswerAll a (tr_instances tr)])"
| "tracker_receive now (ListBySpec p a) tr = (tr, [AnswerSpec a (specInstances (tr_instances tr) p)])"
| "tracker_receive now (Get iid a) tr = (tr, [AnswerInstance a (tracked (tr_instances tr) iid)])"
| "tracker_receive now (UpdateContext deadline operation a) tr =
     (let eff = resolveUpdateEffect now deadline operation (tr_instances tr)
      in (tr, [case eff of
          Update i old evs \<Rightarrow> StartStore i eff a
        | Expunge i evs \<Rightarrow> StartDelete (in_instanceId i) eff a
        | Failure cause \<Rightarrow> AnswerFailure a cause
        | Noop n \<Rightarrow> ForwardToSelf eff a]))"
| "tracker_receive now (RepositoryStateUpdated eff a) tr =
     (let change = change_of eff
      in (applied eff tr,
          (case change of None \<Rightarrow> [] | Some c \<Rightarrow> notifySubscribers c tr) @ [ProcessThenAnswer change eff a]))"

text \<open>
  The queue in front of the actor: one stream for each remainder of the hash of the run spec's name, in which the next
  element waits for the answer to the one before it. \<open>Math.abs\<close> of the least integer is negative.
\<close>

definition math_abs :: "32 word \<Rightarrow> 32 word" where
  "math_abs w = (if w <s 0 then - w else w)"

definition queue_key :: "32 word \<Rightarrow> int \<Rightarrow> int" where
  "queue_key hash n = (let a = sint (math_abs hash) in sgn a * (\<bar>a\<bar> mod n))"

section \<open>A store of instances\<close>

text \<open>
  What the tracker's memory, the repository and the picture a subscriber has of the instances have in common:
  a look-up by id, and what putting and removing an instance does to it.
\<close>

definition at_home :: "inst \<Rightarrow> bool" where
  "at_home i \<longleftrightarrow> sp_id (in_runSpec i) = instance_runSpecId (in_instanceId i)"

definition apply_effect :: "(inst \<Rightarrow> 's \<Rightarrow> 's) \<Rightarrow> (inst \<Rightarrow> 's \<Rightarrow> 's) \<Rightarrow> update_effect \<Rightarrow> 's \<Rightarrow> 's" where
  "apply_effect put del eff s = (case eff of Update i old evs \<Rightarrow> put i s | Expunge i evs \<Rightarrow> del i s | _ \<Rightarrow> s)"

locale instance_store =
  fixes lookup :: "'s \<Rightarrow> instance_id \<Rightarrow> inst option"
    and put :: "inst \<Rightarrow> 's \<Rightarrow> 's"
    and del :: "inst \<Rightarrow> 's \<Rightarrow> 's"
    and ok :: "'s \<Rightarrow> bool"
  assumes put_ok: "ok s \<Longrightarrow> at_home i \<Longrightarrow> ok (put i s)"
    and del_ok: "ok s \<Longrightarrow> at_home i \<Longrightarrow> ok (del i s)"
    and lookup_put: "ok s \<Longrightarrow> at_home i \<Longrightarrow> lookup (put i s) k = (if k = in_instanceId i then Some i else lookup s k)"
    and lookup_del: "ok s \<Longrightarrow> at_home i \<Longrightarrow> lookup (del i s) k = (if k = in_instanceId i then None else lookup s k)"
begin

lemma effect_ok: "ok s \<Longrightarrow> (\<And>i. effect_instance eff = Some i \<Longrightarrow> at_home i) \<Longrightarrow> ok (apply_effect put del eff s)"
  by (cases eff) (auto simp: apply_effect_def put_ok del_ok)

lemma lookup_effect:
  assumes "ok s" and "\<And>i. effect_instance eff = Some i \<Longrightarrow> at_home i"
  shows "lookup (apply_effect put del eff s) k =
    (case eff of Update i old evs \<Rightarrow> if k = in_instanceId i then Some i else lookup s k
     | Expunge i evs \<Rightarrow> if k = in_instanceId i then None else lookup s k
     | _ \<Rightarrow> lookup s k)"
  using assms by (cases eff) (auto simp: apply_effect_def lookup_put lookup_del)

text \<open>An effect leaves every other instance alone, and what it leaves of its own does not depend on the store.\<close>

lemma effect_frame:
  assumes "ok s" and "\<And>i. effect_instance eff = Some i \<Longrightarrow> at_home i \<and> in_instanceId i \<noteq> k"
  shows "lookup (apply_effect put del eff s) k = lookup s k"
  using assms by (subst lookup_effect) (auto split: update_effect.splits)

end

definition wf_spec_instances :: "path_id \<Rightarrow> spec_instances \<Rightarrow> bool" where
  "wf_spec_instances p s \<longleftrightarrow> distinct (map fst s) \<and> (\<forall>(k, i)\<in>set s. in_instanceId i = k \<and> instance_runSpecId k = p \<and> at_home i)"

definition wf_memory :: "instances_by_spec \<Rightarrow> bool" where
  "wf_memory m \<longleftrightarrow> distinct (map fst m) \<and> (\<forall>(p, s)\<in>set m. s \<noteq> [] \<and> wf_spec_instances p s)"

definition memory_put :: "inst \<Rightarrow> instances_by_spec \<Rightarrow> instances_by_spec" where
  "memory_put i m = updateApp_spec (sp_id (in_runSpec i)) (withInstance i) m"

definition memory_del :: "inst \<Rightarrow> instances_by_spec \<Rightarrow> instances_by_spec" where
  "memory_del i m = updateApp_spec (sp_id (in_runSpec i)) (withoutInstance (in_instanceId i)) m"

lemma tracked_instanceMap: "tracked m k = map_of (instanceMap m (instance_runSpecId k)) k"
  by (simp add: tracked_def instanceMap_def split: option.splits)

lemma instanceMap_update:
  "distinct (map fst m) \<Longrightarrow> instanceMap (updateApp_spec p f m) q = (if q = p then f (instanceMap m p) else instanceMap m q)"
  by (auto simp: updateApp_spec_def instanceMap_def Let_def delete_conv update_conv split: option.splits)

lemma wf_instanceMap: "wf_memory m \<Longrightarrow> wf_spec_instances p (instanceMap m p)"
  by (auto simp: wf_memory_def instanceMap_def wf_spec_instances_def [of p "[]"] split: option.splits dest!: map_of_SomeD)

lemma wf_update_spec:
  assumes "wf_memory m" and "wf_spec_instances p (f (instanceMap m p))"
  shows "wf_memory (updateApp_spec p f m)"
proof (cases "f (instanceMap m p) = []")
  case True
  have "set (AList.delete p m) \<subseteq> set m" by (induction m) auto
  then show ?thesis using assms(1) True by (auto simp: wf_memory_def updateApp_spec_def distinct_delete)
next
  case False
  have "set (AList.update p v m) \<subseteq> insert (p, v) (set m)" for v by (rule set_update_subset)
  then show ?thesis using assms False by (fastforce simp: wf_memory_def updateApp_spec_def distinct_update)
qed

lemma wf_withInstance:
  assumes "wf_spec_instances p s" and "at_home i" and "sp_id (in_runSpec i) = p"
  shows "wf_spec_instances p (withInstance i s)"
  using assms set_update_subset [of "in_instanceId i" i s]
  by (fastforce simp: wf_spec_instances_def withInstance_def at_home_def distinct_update)

lemma wf_withoutInstance: "wf_spec_instances p s \<Longrightarrow> wf_spec_instances p (withoutInstance k s)"
proof -
  have "set (AList.delete k s) \<subseteq> set s" by (induction s) auto
  then show "wf_spec_instances p s \<Longrightarrow> ?thesis" by (auto simp: wf_spec_instances_def withoutInstance_def distinct_delete)
qed

interpretation mem: instance_store tracked memory_put memory_del wf_memory
proof
  fix s i k
  assume s: "wf_memory s" and i: "at_home i"
  have d: "distinct (map fst s)" using s by (simp add: wf_memory_def)
  let ?p = "sp_id (in_runSpec i)"
  note w = wf_instanceMap [OF s, of ?p]
  show "wf_memory (memory_put i s)"
    unfolding memory_put_def using wf_withInstance [OF w i] by (intro wf_update_spec s) simp
  show "wf_memory (memory_del i s)"
    unfolding memory_del_def using wf_withoutInstance [OF w] by (intro wf_update_spec s)
  show "tracked (memory_put i s) k = (if k = in_instanceId i then Some i else tracked s k)"
    using i by (auto simp: memory_put_def tracked_instanceMap instanceMap_update [OF d] withInstance_def update_conv at_home_def)
  show "tracked (memory_del i s) k = (if k = in_instanceId i then None else tracked s k)"
    using i by (auto simp: memory_del_def tracked_instanceMap instanceMap_update [OF d] withoutInstance_def delete_conv at_home_def)
qed

definition map_put :: "inst \<Rightarrow> (instance_id \<rightharpoonup> inst) \<Rightarrow> (instance_id \<rightharpoonup> inst)" where
  "map_put i m = m(in_instanceId i \<mapsto> i)"

definition map_del :: "inst \<Rightarrow> (instance_id \<rightharpoonup> inst) \<Rightarrow> (instance_id \<rightharpoonup> inst)" where
  "map_del i m = m(in_instanceId i := None)"

interpretation repo: instance_store "\<lambda>m. m" map_put map_del "\<lambda>m. True"
  by unfold_locales (auto simp: map_put_def map_del_def)

section \<open>Counting\<close>

lemma counts_append: "counts_of (xs @ ys) = add_counts (counts_of xs) (counts_of ys)"
  by (simp add: counts_of_def add_counts_def Let_def)

lemma counts_mset: "mset xs = mset ys \<Longrightarrow> counts_of xs = counts_of ys"
proof -
  have l: "length (filter P zs) = size (filter_mset P (mset zs))" for P and zs :: "inst list" by (metis mset_filter size_mset)
  show "mset xs = mset ys \<Longrightarrow> ?thesis" by (simp add: counts_of_def Let_def l)
qed

lemma delete_fresh: "k \<notin> fst ` set m \<Longrightarrow> AList.delete k m = m"
  by (induction m) auto

lemma mset_alist:
  assumes "distinct (map fst m)"
  shows "map_of m k = Some v \<Longrightarrow> mset m = add_mset (k, v) (mset (AList.delete k m))"
    and "mset (AList.update k w m) = add_mset (k, w) (mset (AList.delete k m))"
  using assms by (induction m) (auto simp: delete_fresh)

lemma all_mset: "mset (allInstances m) = (\<Sum>(p, s)\<in>#mset m. mset (map snd s))"
  by (induction m) (auto simp: allInstances_def)

lemma all_without:
  assumes "wf_memory m"
  shows "mset (allInstances m) = mset (map snd (instanceMap m p)) + mset (allInstances (AList.delete p m))"
proof (cases "map_of m p")
  case None
  then have "p \<notin> fst ` set m" by (simp add: map_of_eq_None_iff)
  then show ?thesis using None by (simp add: instanceMap_def delete_fresh)
next
  case (Some s)
  then show ?thesis
    using mset_alist(1) [of m p s] assms unfolding all_mset by (simp add: wf_memory_def instanceMap_def)
qed

lemma all_updated:
  assumes "wf_memory m"
  shows "mset (allInstances (updateApp_spec p f m)) = mset (map snd (f (instanceMap m p))) + mset (allInstances (AList.delete p m))"
  using mset_alist(2) [of m p "f (instanceMap m p)"] assms by (simp add: updateApp_spec_def all_mset wf_memory_def Let_def)

lemma counts_step:
  assumes "wf_memory m" and "counts = counts_of (allInstances m)" and "at_home i"
    and "new = (if keep then [i] else [])"
  shows "sub_counts (add_counts counts (counts_of new)) (counts_of (case tracked m (in_instanceId i) of None \<Rightarrow> [] | Some j \<Rightarrow> [j]))
    = counts_of (allInstances (if keep then memory_put i m else memory_del i m))"
proof -
  let ?k = "in_instanceId i" and ?p = "sp_id (in_runSpec i)"
  let ?s = "instanceMap m ?p" and ?rest = "allInstances (AList.delete ?p m)"
  define old where "old = (case tracked m ?k of None \<Rightarrow> [] | Some j \<Rightarrow> [j])"
  have d: "distinct (map fst ?s)" using wf_instanceMap [OF assms(1)] by (simp add: wf_spec_instances_def)
  have t: "tracked m ?k = map_of ?s ?k" using assms(3) by (simp add: tracked_instanceMap at_home_def)
  let ?others = "map snd (AList.delete ?k ?s) @ ?rest"
  have "mset (allInstances m) = mset (old @ ?others)"
  proof (cases "map_of ?s ?k")
    case None
    then have "?k \<notin> fst ` set ?s" by (simp add: map_of_eq_None_iff)
    then show ?thesis using all_without [OF assms(1), of ?p] None by (simp add: old_def t delete_fresh)
  next
    case (Some j)
    then show ?thesis using all_without [OF assms(1), of ?p] mset_alist(1) [OF d Some] by (simp add: old_def t)
  qed
  then have c: "counts = add_counts (counts_of old) (counts_of ?others)"
    using assms(2) counts_mset counts_append by metis
  have "mset (allInstances (if keep then memory_put i m else memory_del i m)) = mset (new @ ?others)"
    using all_updated [OF assms(1), of ?p] mset_alist(2) [OF d, of ?k i] assms(4)
    by (simp add: memory_put_def memory_del_def withInstance_def withoutInstance_def)
  then have n: "counts_of (allInstances (if keep then memory_put i m else memory_del i m)) = add_counts (counts_of new) (counts_of ?others)"
    using counts_mset counts_append by metis
  show ?thesis unfolding old_def [symmetric] n c by (simp add: add_counts_def sub_counts_def)
qed

lemma applied_memory [simp]: "tr_instances (applied eff tr) = apply_effect memory_put memory_del eff (tr_instances tr)"
  "tr_subscribers (applied eff tr) = tr_subscribers tr"
  by (auto simp: applied_def updateApp_tracker_def apply_effect_def memory_put_def memory_del_def Let_def split: update_effect.splits)

lemma applied_counts:
  assumes "wf_memory (tr_instances tr)" and "tr_counts tr = counts_of (allInstances (tr_instances tr))"
    and "\<And>i. effect_instance eff = Some i \<Longrightarrow> at_home i"
  shows "tr_counts (applied eff tr) = counts_of (allInstances (tr_instances (applied eff tr)))"
proof (cases eff)
  case (Update i old evs)
  then show ?thesis
    using counts_step [OF assms(1,2), of i "[i]" True] assms(3) by (simp add: applied_def updateApp_tracker_def Let_def memory_put_def)
next
  case (Expunge i evs)
  then show ?thesis
    using counts_step [OF assms(1,2), of i "[]" False] assms(3) by (simp add: applied_def updateApp_tracker_def Let_def memory_del_def)
qed (use assms in \<open>simp_all add: applied_def\<close>)

section \<open>Operations stay with their instance\<close>

text \<open>The run spec an operation brings along is the one of the instance's id.\<close>

fun operation_ok :: "operation \<Rightarrow> bool" where
  "operation_ok (Schedule i) \<longleftrightarrow> at_home i"
| "operation_ok (RevertTo i) \<longleftrightarrow> at_home i"
| "operation_ok (Provision iid agent spec tasks now) \<longleftrightarrow> sp_id spec = instance_runSpecId iid"
| "operation_ok (RescheduleReserved iid spec) \<longleftrightarrow> sp_id spec = instance_runSpecId iid"
| "operation_ok _ \<longleftrightarrow> True"

lemma mesosUpdate_instance:
  assumes "mesosUpdate c s now e = Inr eff" and "effect_instance eff = Some i"
  shows "in_instanceId i = in_instanceId e \<and> in_runSpec i = in_runSpec e"
  using mesosUpdate_cases [OF assms] assms(2) effect_for_task_cases [of e _ now i] by (metis apply_fields(2,3) abandoned_fields(2,3))

lemma resolve_instance:
  assumes "resolve now mi operation = Inr eff" and "effect_instance eff = Some i"
    and "operation_ok operation" and "\<And>e. mi = Some e \<Longrightarrow> at_home e \<and> in_instanceId e = op_instanceId operation"
  shows "at_home i \<and> in_instanceId i = op_instanceId operation"
proof (cases operation)
  case (MesosUpdate j c s t)
  then obtain e where "mi = Some e" "mesosUpdate c s t e = Inr eff"
    using assms(1,2) by (auto simp: updateExistingInstance_def split: option.splits)
  then show ?thesis using mesosUpdate_instance [OF _ assms(2)] assms(4) by (simp add: at_home_def)
next
  case (Schedule j)
  then show ?thesis using assms(1-3) by (auto simp: createInstance_def split: option.splits)
next
  case (Provision iid agent spec tasks t)
  then obtain e j where "mi = Some e" "provisioned agent spec tasks t e = Inr j" "eff = Update j (Some e) [updatedCondition j]"
    using assms(1) assms(2) by (auto simp: updateExistingInstance_def rbind_eq_Inr split: option.splits)
  then show ?thesis using Provision assms(2-4) by (auto simp: provisioned_def at_home_def split: if_splits)
next
  case (RescheduleReserved iid spec)
  then obtain e where "mi = Some e" "i = rescheduled spec now e"
    using assms(1,2) by (auto simp: updateExistingInstance_def Let_def split: option.splits)
  then show ?thesis using RescheduleReserved assms(3,4) by (simp add: rescheduled_def at_home_def)
next
  case (ReservationTimeout iid)
  then obtain e where "mi = Some e" "i = e"
    using assms(1,2) by (auto simp: updateExistingInstance_def reservationTimeout_def split: option.splits if_splits)
  then show ?thesis using assms(4) by simp
next
  case (ChangeGoal iid goal)
  then obtain e where "mi = Some e" "in_instanceId i = in_instanceId e" "in_runSpec i = in_runSpec e"
    using assms(1,2) by (auto simp: updateExistingInstance_def changeGoal_def Let_def split: option.splits if_splits)
  then show ?thesis using assms(4) by (simp add: at_home_def)
next
  case (Reserve iid r agent)
  then obtain e where "mi = Some e" "in_instanceId i = in_instanceId e" "in_runSpec i = in_runSpec e"
    using assms(1,2) by (auto simp: updateExistingInstance_def reserve_def reserved_def Let_def split: option.splits)
  then show ?thesis using assms(4) by (simp add: at_home_def)
next
  case (Unreserve iid)
  then obtain e where "mi = Some e" "i = e"
    using assms(1,2) by (auto simp: updateExistingInstance_def unreserve_def split: option.splits if_splits)
  then show ?thesis using assms(4) by simp
next
  case (ForceExpunge iid)
  then obtain e where "mi = Some e" "i = with_condition Killed e"
    using assms(1,2) by (auto simp: forceExpunge_def Let_def split: option.splits)
  then show ?thesis using assms(4) by (simp add: with_condition_def at_home_def)
next
  case (RevertTo j)
  then show ?thesis using assms(1-3) by auto
qed

lemma wf_memory_tracked:
  assumes "wf_memory m" and "tracked m k = Some e"
  shows "at_home e \<and> in_instanceId e = k"
proof -
  have "map_of (instanceMap m (instance_runSpecId k)) k = Some e" using assms(2) by (simp add: tracked_instanceMap)
  then show ?thesis using wf_instanceMap [OF assms(1), of "instance_runSpecId k"] by (auto simp: wf_spec_instances_def dest!: map_of_SomeD)
qed

lemma effect_at_home:
  assumes "wf_memory m" and "operation_ok operation" and "effect_instance (resolveUpdateEffect now deadline operation m) = Some i"
  shows "at_home i \<and> in_instanceId i = op_instanceId operation"
proof -
  obtain eff where "resolve now (tracked m (op_instanceId operation)) operation = Inr eff" "effect_instance eff = Some i"
    using assms(3) by (auto simp: resolveUpdateEffect_def caught_def split: if_splits sum.splits)
  then show ?thesis by (rule resolve_instance [OF _ _ assms(2)]) (use wf_memory_tracked [OF assms(1)] in blast)
qed

section \<open>The instances that are loaded\<close>

definition by_id :: "inst list \<Rightarrow> instance_id \<rightharpoonup> inst" where
  "by_id is = map_of (map (\<lambda>i. (in_instanceId i, i)) is)"

lemma by_id_iff:
  assumes "distinct (map in_instanceId is)"
  shows "by_id is k = Some i \<longleftrightarrow> i \<in> set is \<and> in_instanceId i = k"
proof -
  have "distinct (map fst (map (\<lambda>i. (in_instanceId i, i)) is))" using assms by (simp add: comp_def)
  then show ?thesis unfolding by_id_def by (subst map_of_eq_Some_iff) auto
qed

lemma all_iff_tracked:
  assumes "wf_memory m"
  shows "i \<in> set (allInstances m) \<longleftrightarrow> tracked m (in_instanceId i) = Some i"
proof
  assume "i \<in> set (allInstances m)"
  then obtain p s k where s: "(p, s) \<in> set m" "(k, i) \<in> set s" by (auto simp: allInstances_def)
  have m: "map_of m p = Some s" using s(1) assms by (simp add: wf_memory_def)
  have w: "wf_spec_instances p s" using s(1) assms by (auto simp: wf_memory_def)
  then have "map_of s k = Some i" "in_instanceId i = k" "instance_runSpecId k = p"
    using s(2) by (auto simp: wf_spec_instances_def)
  then show "tracked m (in_instanceId i) = Some i" using m by (simp add: tracked_def)
next
  assume "tracked m (in_instanceId i) = Some i"
  then show "i \<in> set (allInstances m)" by (force simp: tracked_def allInstances_def split: option.splits dest: map_of_SomeD)
qed

lemma snapshot_tracked: "wf_memory m \<Longrightarrow> by_id (allInstances m) = tracked m"
proof
  fix k
  assume w: "wf_memory m"
  let ?l = "map (\<lambda>i. (in_instanceId i, i)) (allInstances m)"
  show "by_id (allInstances m) k = tracked m k"
  proof (cases "map_of ?l k")
    case None
    have "tracked m k \<noteq> Some i" for i
    proof
      assume "tracked m k = Some i"
      then have "i \<in> set (allInstances m)" "in_instanceId i = k"
        using wf_memory_tracked [OF w] all_iff_tracked [OF w] by metis+
      then have "k \<in> in_instanceId ` set (allInstances m)" by blast
      then show False using None by (simp add: map_of_eq_None_iff image_image)
    qed
    then have "tracked m k = None" by blast
    then show ?thesis using None by (simp add: by_id_def)
  next
    case (Some i)
    then have "i \<in> set (allInstances m)" "in_instanceId i = k" by (auto dest!: map_of_SomeD)
    then show ?thesis using Some all_iff_tracked [OF w] by (metis by_id_def)
  qed
qed

lemma fold_withInstance:
  assumes "wf_spec_instances p s" and "\<forall>i\<in>set is. at_home i \<and> sp_id (in_runSpec i) = p" and "distinct (map in_instanceId is)"
  shows "wf_spec_instances p (fold (\<lambda>i. withInstance i) is s)
    \<and> map_of (fold (\<lambda>i. withInstance i) is s) = map_of s ++ by_id is \<and> (is \<noteq> [] \<longrightarrow> fold (\<lambda>i. withInstance i) is s \<noteq> [])"
  using assms
proof (induction "is" arbitrary: s)
  case (Cons i "is")
  have w: "wf_spec_instances p (withInstance i s)" using Cons.prems by (intro wf_withInstance) auto
  have fresh: "by_id is (in_instanceId i) = None"
    using Cons.prems(3) by (auto simp: by_id_def map_of_eq_None_iff)
  have m: "map_of (withInstance i s) = (map_of s)(in_instanceId i \<mapsto> i)" by (simp add: withInstance_def update_conv')
  have ne: "fold (\<lambda>i. withInstance i) is s' \<noteq> []" if "s' \<noteq> []" for s'
    using that
  proof (induction "is" arbitrary: s')
    case (Cons j "is")
    have "withInstance j s' \<noteq> []" by (cases s') (auto simp: withInstance_def)
    then show ?case by (simp add: Cons.IH)
  qed simp
  have "withInstance i s \<noteq> []" by (cases s) (auto simp: withInstance_def)
  moreover have "map_of (withInstance i s) ++ by_id is = map_of s ++ by_id (i # is)"
    unfolding m using fresh by (auto simp: by_id_def fun_eq_iff map_add_def split: option.splits)
  ultimately show ?case using Cons.IH [OF w] Cons.prems ne by simp
qed (simp add: by_id_def)

lemma forInstances_ok:
  assumes "\<forall>i\<in>set is. at_home i" and "distinct (map in_instanceId is)"
  shows "wf_memory (forInstances is) \<and> tracked (forInstances is) = by_id is"
proof
  define group where "group p = fold (\<lambda>i. withInstance i) (filter (\<lambda>i. sp_id (in_runSpec i) = p) is) []" for p
  let ?ps = "remdups (map (\<lambda>i. sp_id (in_runSpec i)) is)"
  have f: "forInstances is = map (\<lambda>p. (p, group p)) ?ps" by (simp add: forInstances_def group_def)
  have g: "wf_spec_instances p (group p)" "map_of (group p) = by_id (filter (\<lambda>i. sp_id (in_runSpec i) = p) is)"
      "p \<in> set ?ps \<longrightarrow> group p \<noteq> []" for p
  proof -
    have "distinct (map in_instanceId (filter (\<lambda>i. sp_id (in_runSpec i) = p) is))" using assms(2) by (rule distinct_map_filter)
    moreover have "wf_spec_instances p []" by (simp add: wf_spec_instances_def)
    moreover have "\<forall>i\<in>set (filter (\<lambda>i. sp_id (in_runSpec i) = p) is). at_home i \<and> sp_id (in_runSpec i) = p" using assms(1) by simp
    ultimately have *: "wf_spec_instances p (group p) \<and> map_of (group p) = map_of [] ++ by_id (filter (\<lambda>i. sp_id (in_runSpec i) = p) is)
        \<and> (filter (\<lambda>i. sp_id (in_runSpec i) = p) is \<noteq> [] \<longrightarrow> group p \<noteq> [])"
      unfolding group_def by (intro fold_withInstance)
    then show "wf_spec_instances p (group p)" "map_of (group p) = by_id (filter (\<lambda>i. sp_id (in_runSpec i) = p) is)" by simp_all
    show "p \<in> set ?ps \<longrightarrow> group p \<noteq> []" using * by (auto simp: filter_empty_conv)
  qed
  show "wf_memory (forInstances is)" using g(1,3) unfolding f by (simp add: wf_memory_def comp_def)
  show "tracked (forInstances is) = by_id is"
  proof
    fix k
    let ?p = "instance_runSpecId k"
    have m: "map_of (forInstances is) p = (if p \<in> set ?ps then Some (group p) else None)" for p
      unfolding f by (simp add: map_of_map_restrict restrict_map_def)
    have "by_id (filter (\<lambda>i. sp_id (in_runSpec i) = ?p) is) k = by_id is k"
    proof -
      have "distinct (map in_instanceId (filter (\<lambda>i. sp_id (in_runSpec i) = ?p) is))" using assms(2) by (rule distinct_map_filter)
      then have "by_id (filter (\<lambda>i. sp_id (in_runSpec i) = ?p) is) k = Some i \<longleftrightarrow> by_id is k = Some i" for i
        using by_id_iff assms by (auto simp: at_home_def)
      then show ?thesis by (metis option.exhaust)
    qed
    moreover have "by_id is k = None" if "?p \<notin> set ?ps"
    proof (rule ccontr)
      assume "by_id is k \<noteq> None"
      then obtain i where "i \<in> set is" "in_instanceId i = k" using by_id_iff [OF assms(2)] by blast
      then show False using that assms(1) by (auto simp: at_home_def)
    qed
    ultimately show "tracked (forInstances is) k = by_id is k" by (simp add: tracked_def m g(2))
  qed
qed

section \<open>The tracker and the repository\<close>

text \<open>
  The system around the actor: the repository, the operations in progress (at most one per run spec, whether its effect
  is stored yet) and what each subscriber has learnt. Handling one operation takes three steps: the actor
  decides on the effect, the repository stores it (or fails, then nothing changes), and the actor applies it.
\<close>

record 'a system =
  sy_tracker :: "'a tracker"
  sy_repository :: "instance_id \<rightharpoonup> inst"
  sy_inflight :: "(path_id \<times> bool \<times> update_effect \<times> 'a) list"
  sy_views :: "'a \<Rightarrow> instance_id \<rightharpoonup> inst"

fun see_output :: "'a \<Rightarrow> 'a tracker_output \<Rightarrow> (instance_id \<rightharpoonup> inst) \<Rightarrow> (instance_id \<rightharpoonup> inst)" where
  "see_output a (Snapshot b is) view = (if b = a then by_id is else view)"
| "see_output a (Change b (InstanceUpdated i prev evs)) view = (if b = a then map_put i view else view)"
| "see_output a (Change b (InstanceDeleted i prev evs)) view = (if b = a then map_del i view else view)"
| "see_output a _ view = view"

definition see :: "'a tracker_output list \<Rightarrow> ('a \<Rightarrow> instance_id \<rightharpoonup> inst) \<Rightarrow> 'a \<Rightarrow> instance_id \<rightharpoonup> inst" where
  "see out views a = fold (see_output a) out (views a)"

fun started :: "path_id \<Rightarrow> 'a tracker_output list \<Rightarrow> (path_id \<times> bool \<times> update_effect \<times> 'a) list" where
  "started p [StartStore i eff a] = [(p, False, eff, a)]"
| "started p [StartDelete k eff a] = [(p, False, eff, a)]"
| "started p [ForwardToSelf eff a] = [(p, True, eff, a)]"
| "started p _ = []"

inductive system_step :: "'a system \<Rightarrow> 'a system \<Rightarrow> bool" where
  request: "p = instance_runSpecId (op_instanceId operation) \<Longrightarrow> p \<notin> fst ` set (sy_inflight y) \<Longrightarrow> operation_ok operation \<Longrightarrow>
    tracker_receive now (UpdateContext deadline operation a) (sy_tracker y) = (tr, out) \<Longrightarrow>
    system_step y (y\<lparr>sy_tracker := tr, sy_inflight := started p out @ sy_inflight y\<rparr>)"
| stored: "(p, False, eff, a) \<in> set (sy_inflight y) \<Longrightarrow>
    system_step y (y\<lparr>sy_repository := apply_effect map_put map_del eff (sy_repository y),
      sy_inflight := AList.update p (True, eff, a) (sy_inflight y)\<rparr>)"
| not_stored: "(p, False, eff, a) \<in> set (sy_inflight y) \<Longrightarrow>
    system_step y (y\<lparr>sy_inflight := AList.delete p (sy_inflight y)\<rparr>)"
| applied: "(p, True, eff, a) \<in> set (sy_inflight y) \<Longrightarrow>
    tracker_receive now (RepositoryStateUpdated eff a) (sy_tracker y) = (tr, out) \<Longrightarrow>
    system_step y (y\<lparr>sy_tracker := tr, sy_inflight := AList.delete p (sy_inflight y), sy_views := see out (sy_views y)\<rparr>)"
| subscription: "msg = Subscribe a \<or> msg = Unsubscribe a \<Longrightarrow> tracker_receive now msg (sy_tracker y) = (tr, out) \<Longrightarrow>
    system_step y (y\<lparr>sy_tracker := tr, sy_views := see out (sy_views y)\<rparr>)"

inductive system_run :: "'a system \<Rightarrow> bool" where
  loaded: "\<forall>i\<in>set is. at_home i \<Longrightarrow> distinct (map in_instanceId is) \<Longrightarrow>
    system_run \<lparr>sy_tracker = initializing is, sy_repository = by_id is, sy_inflight = [], sy_views = (\<lambda>a. Map.empty)\<rparr>"
| step: "system_run y \<Longrightarrow> system_step y y' \<Longrightarrow> system_run y'"

definition belongs :: "path_id \<Rightarrow> update_effect \<Rightarrow> bool" where
  "belongs p eff \<longleftrightarrow> (case effect_instance eff of None \<Rightarrow> True | Some i \<Rightarrow> at_home i \<and> instance_runSpecId (in_instanceId i) = p)"

text \<open>The invariant: what is in the repository is what memory holds once the effects that are stored are applied.\<close>

definition ahead :: "'a system \<Rightarrow> instance_id \<rightharpoonup> inst" where
  "ahead y k = (let memory = tracked (tr_instances (sy_tracker y)) in
     case map_of (sy_inflight y) (instance_runSpecId k) of
       Some (True, eff, a) \<Rightarrow> apply_effect map_put map_del eff memory k
     | _ \<Rightarrow> memory k)"

definition tracker_inv :: "'a system \<Rightarrow> bool" where
  "tracker_inv y \<longleftrightarrow>
     wf_memory (tr_instances (sy_tracker y))
     \<and> tr_counts (sy_tracker y) = counts_of (allInstances (tr_instances (sy_tracker y)))
     \<and> distinct (tr_subscribers (sy_tracker y))
     \<and> distinct (map fst (sy_inflight y)) \<and> (\<forall>(p, st, eff, a)\<in>set (sy_inflight y). belongs p eff)
     \<and> sy_repository y = ahead y
     \<and> (\<forall>a\<in>set (tr_subscribers (sy_tracker y)). sy_views y a = tracked (tr_instances (sy_tracker y)))"

lemma belongs_home: "belongs p eff \<Longrightarrow> effect_instance eff = Some i \<Longrightarrow> at_home i"
  by (simp add: belongs_def)

lemma belongs_frame:
  "belongs p eff \<Longrightarrow> instance_runSpecId k \<noteq> p \<Longrightarrow> apply_effect map_put map_del eff m k = m k"
  by (rule repo.effect_frame) (auto simp: belongs_def)

lemma effect_pointwise: "m k = m' k \<Longrightarrow> apply_effect map_put map_del eff m k = apply_effect map_put map_del eff m' k"
  by (cases eff) (auto simp: apply_effect_def map_put_def map_del_def)

lemma memory_effect:
  assumes "wf_memory m" and "belongs p eff"
  shows "tracked (apply_effect memory_put memory_del eff m) = apply_effect map_put map_del eff (tracked m)"
proof
  fix k
  show "tracked (apply_effect memory_put memory_del eff m) k = apply_effect map_put map_del eff (tracked m) k"
    using mem.lookup_effect [OF assms(1), of eff k] repo.lookup_effect [where s = "tracked m" and eff = eff and k = k] belongs_home [OF assms(2)]
    by (simp split: update_effect.splits)
qed

lemma see_changes:
  assumes "distinct subs" and "a \<in> set subs"
  shows "see (map (\<lambda>b. Change b (InstanceUpdated i prev evs)) subs @ [ProcessThenAnswer c eff b]) views a = map_put i (views a)"
    and "see (map (\<lambda>b. Change b (InstanceDeleted i prev evs)) subs @ [ProcessThenAnswer c eff b]) views a = map_del i (views a)"
proof -
  have "fold (see_output a) (map (\<lambda>b. Change b (InstanceUpdated i prev evs)) subs) v = (if a \<in> set subs then map_put i v else v)"
    and "fold (see_output a) (map (\<lambda>b. Change b (InstanceDeleted i prev evs)) subs) v = (if a \<in> set subs then map_del i v else v)" for v
    using assms(1) by (induction subs arbitrary: v) auto
  then show "see (map (\<lambda>b. Change b (InstanceUpdated i prev evs)) subs @ [ProcessThenAnswer c eff b]) views a = map_put i (views a)"
    "see (map (\<lambda>b. Change b (InstanceDeleted i prev evs)) subs @ [ProcessThenAnswer c eff b]) views a = map_del i (views a)"
    using assms(2) by (simp_all add: see_def)
qed

lemma see_applied:
  assumes "distinct (tr_subscribers tr)" and "a \<in> set (tr_subscribers tr)"
  shows "see ((case change_of eff of None \<Rightarrow> [] | Some c \<Rightarrow> notifySubscribers c tr) @ [ProcessThenAnswer c' eff b]) views a
    = apply_effect map_put map_del eff (views a)"
  using see_changes [OF assms]
  by (cases eff) (simp_all add: change_of_def notifySubscribers_def apply_effect_def see_def)

lemma ahead_free: "instance_runSpecId k \<notin> fst ` set (sy_inflight y) \<Longrightarrow> ahead y k = tracked (tr_instances (sy_tracker y)) k"
  by (simp add: ahead_def map_of_eq_None_iff [THEN iffD2])

lemma started_effect:
  assumes "tracker_receive now (UpdateContext deadline operation a) tr = (tr', out)"
  shows "tr' = tr" and "started p out = (case resolveUpdateEffect now deadline operation (tr_instances tr) of
      Failure c \<Rightarrow> [] | Noop n \<Rightarrow> [(p, True, Noop n, a)] | eff \<Rightarrow> [(p, False, eff, a)])"
  using assms by (auto simp: Let_def split: update_effect.splits)

text \<open>Each kind of step keeps the invariant.\<close>

lemma request_keeps:
  assumes "tracker_inv y" and "p = instance_runSpecId (op_instanceId operation)" and "p \<notin> fst ` set (sy_inflight y)"
    and "operation_ok operation" and "tracker_receive now (UpdateContext deadline operation a) (sy_tracker y) = (tr, out)"
  shows "tracker_inv (y\<lparr>sy_tracker := tr, sy_inflight := started p out @ sy_inflight y\<rparr>)"
proof -
  let ?m = "tr_instances (sy_tracker y)" and ?eff = "resolveUpdateEffect now deadline operation (tr_instances (sy_tracker y))"
  let ?y = "y\<lparr>sy_tracker := tr, sy_inflight := started p out @ sy_inflight y\<rparr>"
  note s = started_effect(1) [OF assms(5)] started_effect(2) [OF assms(5), of p]
  have "wf_memory ?m" using assms(1) by (simp add: tracker_inv_def)
  then have b: "belongs p ?eff"
    using effect_at_home [OF _ assms(4), of ?m now deadline] assms(2) by (auto simp: belongs_def split: option.splits)
  have n: "apply_effect map_put map_del (Noop n) m = m" for n m by (simp add: apply_effect_def)
  have "ahead ?y = ahead y"
  proof
    fix k
    have "map_of (sy_inflight y) (instance_runSpecId k) = None" if "instance_runSpecId k = p"
      using that assms(3) by (simp add: map_of_eq_None_iff)
    then show "ahead ?y k = ahead y k"
      using n by (auto simp: ahead_def s(1) s(2) Let_def split: update_effect.splits)
  qed
  moreover have "distinct (map fst (started p out @ sy_inflight y))" "\<forall>(q, st, eff, a)\<in>set (started p out). belongs q eff"
    using assms(1,3) b unfolding s(2) by (auto simp: tracker_inv_def split: update_effect.splits)
  ultimately show ?thesis using assms(1) by (auto simp: tracker_inv_def s(1))
qed

lemma stored_keeps:
  assumes "tracker_inv y" and "(p, False, eff, a) \<in> set (sy_inflight y)"
  shows "tracker_inv (y\<lparr>sy_repository := apply_effect map_put map_del eff (sy_repository y),
      sy_inflight := AList.update p (True, eff, a) (sy_inflight y)\<rparr>)" (is "tracker_inv ?y")
proof -
  have d: "distinct (map fst (sy_inflight y))" and b: "belongs p eff" using assms by (auto simp: tracker_inv_def)
  have p: "map_of (sy_inflight y) p = Some (False, eff, a)" using d assms(2) by simp
  have "apply_effect map_put map_del eff (ahead y) k = ahead ?y k" for k
  proof (cases "instance_runSpecId k = p")
    case True
    then have "ahead y k = tracked (tr_instances (sy_tracker y)) k" by (simp add: ahead_def p)
    then have "apply_effect map_put map_del eff (ahead y) k = apply_effect map_put map_del eff (tracked (tr_instances (sy_tracker y))) k"
      by (rule effect_pointwise)
    then show ?thesis using True by (simp add: ahead_def update_conv')
  next
    case False
    then show ?thesis by (simp add: belongs_frame [OF b False] ahead_def update_conv')
  qed
  then have "apply_effect map_put map_del eff (ahead y) = ahead ?y" by (rule ext)
  moreover have "set (AList.update p (True, eff, a) (sy_inflight y)) \<subseteq> insert (p, True, eff, a) (set (sy_inflight y))"
    by (rule set_update_subset)
  then have "\<forall>(q, st, eff', c)\<in>set (AList.update p (True, eff, a) (sy_inflight y)). belongs q eff'"
    using assms(1) b by (auto simp: tracker_inv_def)
  ultimately show ?thesis using assms(1) by (auto simp: tracker_inv_def distinct_update)
qed

lemma delete_inflight:
  assumes "tracker_inv y"
  shows "distinct (map fst (AList.delete p (sy_inflight y)))" and "\<forall>(q, st, eff, a)\<in>set (AList.delete p (sy_inflight y)). belongs q eff"
proof -
  have "set (AList.delete p (sy_inflight y)) \<subseteq> set (sy_inflight y)" by (induction "sy_inflight y") (auto simp: AList.delete_eq)
  then show "distinct (map fst (AList.delete p (sy_inflight y)))" "\<forall>(q, st, eff, a)\<in>set (AList.delete p (sy_inflight y)). belongs q eff"
    using assms by (auto simp: tracker_inv_def distinct_delete)
qed

lemma not_stored_keeps:
  assumes "tracker_inv y" and "(p, False, eff, a) \<in> set (sy_inflight y)"
  shows "tracker_inv (y\<lparr>sy_inflight := AList.delete p (sy_inflight y)\<rparr>)"
proof -
  have "map_of (sy_inflight y) p = Some (False, eff, a)" using assms by (simp add: tracker_inv_def)
  then have "ahead (y\<lparr>sy_inflight := AList.delete p (sy_inflight y)\<rparr>) = ahead y"
    by (auto simp: fun_eq_iff ahead_def delete_conv' restrict_map_def)
  then show ?thesis using assms(1) delete_inflight [OF assms(1), of p] by (simp add: tracker_inv_def)
qed

lemma applied_keeps:
  assumes "tracker_inv y" and "(p, True, eff, a) \<in> set (sy_inflight y)"
    and "tracker_receive now (RepositoryStateUpdated eff a) (sy_tracker y) = (tr, out)"
  shows "tracker_inv (y\<lparr>sy_tracker := tr, sy_inflight := AList.delete p (sy_inflight y), sy_views := see out (sy_views y)\<rparr>)" (is "tracker_inv ?y")
proof -
  let ?tr = "sy_tracker y"
  have inv: "wf_memory (tr_instances ?tr)" "tr_counts ?tr = counts_of (allInstances (tr_instances ?tr))"
      "distinct (tr_subscribers ?tr)" "sy_repository y = ahead y" and b: "belongs p eff"
      "\<forall>a\<in>set (tr_subscribers ?tr). sy_views y a = tracked (tr_instances ?tr)"
    using assms(1,2) by (auto simp: tracker_inv_def)
  have p: "map_of (sy_inflight y) p = Some (True, eff, a)" using assms(1,2) by (simp add: tracker_inv_def)
  have tr: "tr = InstanceTracker.applied eff ?tr"
    and out: "out = (case change_of eff of None \<Rightarrow> [] | Some c \<Rightarrow> notifySubscribers c ?tr) @ [ProcessThenAnswer (change_of eff) eff a]"
    using assms(3) by (simp_all add: Let_def)
  note m = memory_effect [OF inv(1) b(1)]
  have "ahead y k = ahead ?y k" for k
  proof (cases "instance_runSpecId k = p")
    case True
    then show ?thesis by (simp add: ahead_def p tr m delete_conv' restrict_map_def)
  next
    case False
    then have t: "tracked (tr_instances ?tr) k = tracked (tr_instances tr) k"
      using belongs_frame [OF b(1) False] by (simp add: tr m)
    have d: "map_of (AList.delete p (sy_inflight y)) (instance_runSpecId k) = map_of (sy_inflight y) (instance_runSpecId k)"
      using False by (simp add: delete_conv' restrict_map_def)
    show ?thesis
    proof (cases "map_of (sy_inflight y) (instance_runSpecId k)")
      case None
      then show ?thesis by (simp add: ahead_def t d)
    next
      case (Some v)
      obtain st e c where v: "v = (st, e, c)" by (cases v)
      show ?thesis using effect_pointwise [where m = "tracked (tr_instances ?tr)" and m' = "tracked (tr_instances tr)" and eff = e and k = k] t
        by (cases st) (simp_all add: ahead_def t d Some v)
    qed
  qed
  then have "ahead y = ahead ?y" by (rule ext)
  moreover have "wf_memory (tr_instances tr)" using mem.effect_ok [OF inv(1)] belongs_home [OF b(1)] by (simp add: tr)
  moreover have "tr_counts tr = counts_of (allInstances (tr_instances tr))"
    unfolding tr by (rule applied_counts [OF inv(1,2) belongs_home [OF b(1)]])
  moreover have "see out (sy_views y) a' = tracked (tr_instances tr)" if "a' \<in> set (tr_subscribers ?tr)" for a'
    unfolding out using see_applied [OF inv(3) that] b(2) that m by (simp add: tr)
  moreover have "tr_subscribers tr = tr_subscribers ?tr" by (simp add: tr)
  ultimately show ?thesis using inv(3,4) delete_inflight [OF assms(1), of p] by (simp add: tracker_inv_def)
qed

lemma subscription_keeps:
  assumes "tracker_inv y" and "msg = Subscribe a \<or> msg = Unsubscribe a"
    and "tracker_receive now msg (sy_tracker y) = (tr, out)"
  shows "tracker_inv (y\<lparr>sy_tracker := tr, sy_views := see out (sy_views y)\<rparr>)"
proof -
  let ?m = "tr_instances (sy_tracker y)"
  have snap: "by_id (allInstances ?m) = tracked ?m" using assms(1) by (simp add: tracker_inv_def snapshot_tracked)
  have fields: "tr_instances tr = ?m" "tr_counts tr = tr_counts (sy_tracker y)" "distinct (tr_subscribers tr)"
    using assms by (auto simp: tracker_inv_def split: if_splits)
  have "see out (sy_views y) b = tracked ?m" if "b \<in> set (tr_subscribers tr)" for b
    using assms that snap by (auto simp: tracker_inv_def see_def split: if_splits)
  moreover have "ahead (y\<lparr>sy_tracker := tr, sy_views := see out (sy_views y)\<rparr>) = ahead y"
    by (simp add: fun_eq_iff ahead_def fields)
  ultimately show ?thesis using assms(1) fields by (simp add: tracker_inv_def)
qed

lemma system_invariant: "system_run y \<Longrightarrow> tracker_inv y"
proof (induction rule: system_run.induct)
  case (loaded "is")
  then have "wf_memory (forInstances is)" "tracked (forInstances is) = by_id is" using forInstances_ok by blast+
  then show ?case by (simp add: tracker_inv_def initializing_def ahead_def fun_eq_iff)
next
  case (step y y')
  show ?case
    using step.hyps(2)
  proof cases
    case (request p operation now deadline a tr out)
    then show ?thesis using request_keeps [OF step.IH] by blast
  next
    case (stored p eff a)
    then show ?thesis using stored_keeps [OF step.IH] by blast
  next
    case (not_stored p eff a)
    then show ?thesis using not_stored_keeps [OF step.IH] by blast
  next
    case (applied p eff a now tr out)
    then show ?thesis using applied_keeps [OF step.IH] by blast
  next
    case (subscription msg a now tr out)
    then show ?thesis using subscription_keeps [OF step.IH] by blast
  qed
qed


text \<open>An instance is scheduled, stored, and applied while somebody listens.\<close>

definition fresh_inst :: inst where
  "fresh_inst = scheduled 0 (sample_spec UnreachableDisabled) (task_instanceId sample_tid)"

definition loaded_system :: "nat system" where
  "loaded_system = \<lparr>sy_tracker = initializing [], sy_repository = by_id [], sy_inflight = [], sy_views = (\<lambda>a. Map.empty)\<rparr>"


section \<open>The queue\<close>

lemma sint_range: "- (2 ^ 31) \<le> sint (w :: 32 word) \<and> sint w < 2 ^ 31"
  using sint_ge [of w] sint_lt [of w] by simp

text \<open>There are as many streams as the configuration asks for, but for the one hash without an absolute value.\<close>

lemma queue_key_range:
  assumes "0 < n" and "sint hash \<noteq> - (2 ^ 31)"
  shows "0 \<le> queue_key hash n \<and> queue_key hash n < n"
proof -
  have "0 \<le> sint (math_abs hash)"
  proof (cases "sint hash < 0")
    case True
    have "- hash = word_of_int (- sint hash)" by simp
    moreover have "sint (word_of_int (- sint hash) :: 32 word) = - sint hash"
      using sint_range [of hash] assms(2) True unfolding signed_of_int by (simp add: signed_take_bit_int_eq_self)
    ultimately show ?thesis using True by (simp add: math_abs_def word_sless_alt)
  qed (simp add: math_abs_def word_sless_alt)
  then show ?thesis using assms(1) by (cases "sint (math_abs hash) = 0") (simp_all add: queue_key_def)
qed

lemma queue_key_negative: "queue_key 0x80000000 10 = - 8"
  by (simp add: queue_key_def math_abs_def word_sless_alt)

end
