(* ===== verification/Replace.thy ===== *)
theory Replace
  imports Instances
begin

text \<open>
  Replacing the instances of a run spec by instances of its new version (\<open>TaskReplaceActor\<close> and
  \<open>ReadinessBehavior\<close>): how many old instances are killed at once and how many instances may exist
  (\<open>computeRestartStrategy\<close>), and the actor that starts new instances, kills old ones as new ones become
  ready, and decides when the replacement is done.
\<close>

section \<open>The restart strategy\<close>

datatype replace_error = RequireFailed | AssumeFailed | StatusFailed

record restart_strategy =
  rs_nrToKillImmediately :: int
  rs_maxCapacity :: int

text \<open>
  The shares of the upgrade strategy are doubles: \<open>rnd\<close> is the rounding of an exact result to a double, which is
  monotone and leaves integers alone that a double can hold.
\<close>

definition rounds_like_double :: "(rat \<Rightarrow> rat) \<Rightarrow> bool" where
  "rounds_like_double rnd \<longleftrightarrow> mono rnd \<and> (\<forall>n. \<bar>n\<bar> \<le> 2 ^ 53 \<longrightarrow> rnd (of_int n) = of_int n)"

text \<open>\<open>Double.toInt\<close> cuts the fraction off and stops at the ends of the range.\<close>

definition double_toInt :: "rat \<Rightarrow> int" where
  "double_toInt q = max (- (2 ^ 31)) (min (2 ^ 31 - 1) (if q < 0 then \<lceil>q\<rceil> else \<lfloor>q\<rfloor>))"

definition minHealthy :: "(rat \<Rightarrow> rat) \<Rightarrow> spec_of_instance \<Rightarrow> int" where
  "minHealthy rnd spec = double_toInt (of_int \<lceil>rnd (of_int (sp_instances spec) * sp_minimumHealthCapacity spec)\<rceil>)"

definition wanted_maxCapacity :: "(rat \<Rightarrow> rat) \<Rightarrow> spec_of_instance \<Rightarrow> int" where
  "wanted_maxCapacity rnd spec = double_toInt (rnd (of_int (sp_instances spec) * rnd (1 + sp_maximumOverCapacity spec)))"

definition healthy_count :: "inst list \<Rightarrow> int" where
  "healthy_count is = int (length (filter (\<lambda>i. ins_goal (in_state i) = GoalRunning \<and> consideredHealthy i) is))"

definition computeRestartStrategy :: "(rat \<Rightarrow> rat) \<Rightarrow> spec_of_instance \<Rightarrow> inst list \<Rightarrow> replace_error + restart_strategy" where
  "computeRestartStrategy rnd spec currentInstances =
     (if \<not> sp_instances spec > 0 then Inl RequireFailed
      else
        let healthy = healthy_count currentInstances;
            minH = minHealthy rnd spec;
            maxCapacity0 = wanted_maxCapacity rnd spec;
            nrToKill0 = max 0 (healthy - minH);
            tight = (minH = maxCapacity0 \<and> maxCapacity0 \<le> healthy);
            nrToKill1 = (if tight \<and> sp_resident spec then healthy - minH + 1 else nrToKill0);
            maxCapacity = (if tight \<and> \<not> sp_resident spec then maxCapacity0 + 1 else maxCapacity0);
            current = int (length currentInstances);
            nrToKill = (if sp_instances spec < current then max (current - sp_instances spec) nrToKill1 else nrToKill1)
        in if \<not> nrToKill \<ge> 0 then Inl AssumeFailed
        else if \<not> maxCapacity > 0 then Inl AssumeFailed
        else if \<not> (minH < maxCapacity \<or> healthy - nrToKill < maxCapacity) then Inl AssumeFailed
        else Inr \<lparr>rs_nrToKillImmediately = nrToKill, rs_maxCapacity = maxCapacity\<rparr>)"

section \<open>The state of the actor\<close>

text \<open>
  The run spec, what kinds of checks it has, the names of the readiness checks of a task, and the order in which
  the sort leaves the instances to kill (its comparison is not a strict order, so the sort promises no more than a
  rearrangement).
\<close>

record replace_config =
  rc_spec :: spec_of_instance
  rc_hasHealthChecks :: bool
  rc_hasReadinessChecks :: bool
  rc_readinessChecks :: "task \<Rightarrow> string list"
  rc_sorted :: "(inst \<Rightarrow> inst \<Rightarrow> bool) \<Rightarrow> inst list \<Rightarrow> inst list"

record replace_state =
  rp_oldActive :: "instance_id list"
  rp_toKill :: "instance_id list"
  rp_started :: int
  rp_strategy :: restart_strategy
  rp_healthy :: "instance_id list"
  rp_ready :: "instance_id list"
  rp_subscriptions :: "(task_id \<times> string) list"
  rp_done :: bool

datatype replace_output =
    AddInstances int
  | KillOld instance_id goal
  | SetGoal instance_id goal
  | CheckReadiness task_id string
  | CancelReadiness task_id string
  | ReportReadiness task_id string bool
  | ResetDelay
  | Succeed

datatype replace_message =
    InstanceChangedMsg instance_id int path_id condition inst
  | InstanceHealthChanged instance_id int path_id "bool option"
  | ReadinessCheckResult task_id string bool
  | ReadinessCheckStreamDone task_id string
  | StatusFailureMsg
  | DoneMsg
  | CheckFinished

text \<open>A step of the actor: a new state and what it asks others to do.\<close>

type_synonym replace_step = "replace_state \<Rightarrow> replace_state \<times> replace_output list"

definition then_do :: "replace_step \<Rightarrow> replace_step \<Rightarrow> replace_step" where
  "then_do f g s = (let (s', out) = f s; (s'', out') = g s' in (s'', out @ out'))"

definition nothing :: replace_step where "nothing s = (s, [])"

definition add_id :: "instance_id \<Rightarrow> instance_id list \<Rightarrow> instance_id list" where
  "add_id k ks = (if k \<in> set ks then ks else ks @ [k])"

definition considerTerminal :: "condition \<Rightarrow> bool" where
  "considerTerminal c \<longleftrightarrow> c \<in> {Unreachable, UnreachableInactive, Error, Failed, Killed, Finished, Unknown, Gone, Dropped}"

definition isOldInstance :: "replace_config \<Rightarrow> inst \<Rightarrow> bool" where
  "isOldInstance cf i \<longleftrightarrow> sp_version (in_runSpec i) \<noteq> sp_version (rc_spec cf)"

definition kills_before :: "inst \<Rightarrow> inst \<Rightarrow> bool" where
  "kills_before i1 i2 = (case (consideredHealthy i1, consideredHealthy i2) of (_, False) \<Rightarrow> False | _ \<Rightarrow> True)"

definition replace_init :: "(rat \<Rightarrow> rat) \<Rightarrow> replace_config \<Rightarrow> inst list \<Rightarrow> replace_error + replace_state" where
  "replace_init rnd cf specInstances =
     rbind (computeRestartStrategy rnd (rc_spec cf) specInstances) (\<lambda>strategy.
       let instancesAlreadyStarted = filter (\<lambda>i. sp_version (in_runSpec i) = sp_version (rc_spec cf)) specInstances;
           oldInstances = filter (\<lambda>i. sp_version (in_runSpec i) \<noteq> sp_version (rc_spec cf)) specInstances;
           oldActiveInstances = filter (\<lambda>i. ins_goal (in_state i) = GoalRunning) oldInstances
       in Inr \<lparr>rp_oldActive = map in_instanceId oldActiveInstances,
            rp_toKill = map in_instanceId (rc_sorted cf kills_before oldActiveInstances),
            rp_started = int (length instancesAlreadyStarted), rp_strategy = strategy,
            rp_healthy = [], rp_ready = [], rp_subscriptions = [], rp_done = False\<rparr>)"

section \<open>What the actor does\<close>

definition stop_goal :: "replace_config \<Rightarrow> goal" where
  "stop_goal cf = (if sp_resident (rc_spec cf) then GoalStopped else GoalDecommissioned)"

definition instancesToStartNow :: "replace_config \<Rightarrow> replace_state \<Rightarrow> int" where
  "instancesToStartNow cf s =
     (let leftCapacity = max 0 (rs_maxCapacity (rp_strategy s) - int (length (rp_oldActive s)) - rp_started s);
          instancesNotStartedYet = max 0 (sp_instances (rc_spec cf) - rp_started s)
      in min instancesNotStartedYet leftCapacity)"

definition launchInstances :: "replace_config \<Rightarrow> replace_step" where
  "launchInstances cf s =
     (let n = instancesToStartNow cf s
      in if n > 0 then (s\<lparr>rp_started := rp_started s + n\<rparr>, [AddInstances n]) else (s, []))"

text \<open>The instance is looked up again before its goal is set; one that is gone by then is left alone.\<close>

definition killNextOldInstance :: "replace_config \<Rightarrow> replace_step" where
  "killNextOldInstance cf s =
     (case rp_toKill s of [] \<Rightarrow> (s, []) | k # ks \<Rightarrow> (s\<lparr>rp_toKill := ks\<rparr>, [KillOld k (stop_goal cf)]))"

definition targetCountReached :: "int \<Rightarrow> replace_state \<Rightarrow> bool" where
  "targetCountReached n s \<longleftrightarrow> int (length (rp_healthy s)) = n \<and> int (length (rp_ready s)) = n"

definition checkFinished :: "replace_config \<Rightarrow> replace_step" where
  "checkFinished cf s =
     (if targetCountReached (sp_instances (rc_spec cf)) s \<and> rp_oldActive s = [] then (s\<lparr>rp_done := True\<rparr>, [Succeed]) else (s, []))"

definition instanceConditionChanged :: "replace_config \<Rightarrow> instance_id \<Rightarrow> replace_step" where
  "instanceConditionChanged cf k =
     then_do (\<lambda>s. if k \<in> set (rp_healthy s) \<and> k \<in> set (rp_ready s) then killNextOldInstance cf s else (s, [])) (checkFinished cf)"

definition instanceTerminated :: "instance_id \<Rightarrow> replace_step" where
  "instanceTerminated k s = (s\<lparr>rp_healthy := removeAll k (rp_healthy s), rp_ready := removeAll k (rp_ready s)\<rparr>, [])"

definition mark_healthy :: "instance_id \<Rightarrow> replace_step" where
  "mark_healthy k s = (s\<lparr>rp_healthy := add_id k (rp_healthy s)\<rparr>, [])"

definition mark_ready :: "instance_id \<Rightarrow> replace_step" where
  "mark_ready k s = (s\<lparr>rp_ready := add_id k (rp_ready s)\<rparr>, [])"

definition initiateReadinessCheck :: "replace_config \<Rightarrow> bool \<Rightarrow> inst \<Rightarrow> replace_step" where
  "initiateReadinessCheck cf only_running i s =
     (let checks = concat (map (\<lambda>t. map (Pair (tk_id t)) (rc_readinessChecks cf t))
            (filter (\<lambda>t. \<not> only_running \<or> task_running t) (tasks_of i)))
      in (s\<lparr>rp_subscriptions := remdups (rp_subscriptions s @ checks)\<rparr>, map (\<lambda>(t, c). CheckReadiness t c) checks))"

text \<open>\<open>readinessBehavior\<close>, undefined where another behaviour gets the message.\<close>

definition running_new :: "replace_config \<Rightarrow> replace_message \<Rightarrow> inst option" where
  "running_new cf msg = (case msg of
     InstanceChangedMsg k version p c i \<Rightarrow>
       if version = sp_version (rc_spec cf) \<and> p = sp_id (rc_spec cf) \<and> c = Running then Some i else None
   | _ \<Rightarrow> None)"

definition instanceRunBehavior :: "replace_config \<Rightarrow> replace_message \<Rightarrow> replace_step option" where
  "instanceRunBehavior cf msg = (case running_new cf msg of
     None \<Rightarrow> None
   | Some i \<Rightarrow> Some (let k = in_instanceId i in
       if \<not> rc_hasReadinessChecks cf then then_do (mark_healthy k) (then_do (mark_ready k) (instanceConditionChanged cf k))
       else then_do (mark_healthy k) (initiateReadinessCheck cf True i)))"

definition instanceHealthBehavior :: "replace_config \<Rightarrow> replace_message \<Rightarrow> replace_state \<Rightarrow> replace_step option" where
  "instanceHealthBehavior cf msg s = (case (if rc_hasReadinessChecks cf then running_new cf msg else None) of
     Some i \<Rightarrow> Some (initiateReadinessCheck cf True i)
   | None \<Rightarrow>
       (case msg of
          InstanceHealthChanged k version p (Some True) \<Rightarrow>
            if version = sp_version (rc_spec cf) \<and> p = sp_id (rc_spec cf) \<and> k \<notin> set (rp_healthy s) then
              Some (then_do (mark_healthy k)
                (then_do (if \<not> rc_hasReadinessChecks cf then mark_ready k else nothing) (instanceConditionChanged cf k)))
            else None
        | _ \<Rightarrow> None))"

definition readinessCheckBehavior :: "replace_config \<Rightarrow> replace_message \<Rightarrow> replace_step option" where
  "readinessCheckBehavior cf msg = (case msg of
     ReadinessCheckStreamDone t c \<Rightarrow> Some (\<lambda>s. (s\<lparr>rp_subscriptions := removeAll (t, c) (rp_subscriptions s)\<rparr>, []))
   | ReadinessCheckResult t c is_ready \<Rightarrow>
       Some (then_do (\<lambda>s. (s, [ReportReadiness t c is_ready]))
         (if is_ready then
            then_do (mark_ready (task_instanceId t))
              (then_do (\<lambda>s. (s, if (t, c) \<in> set (rp_subscriptions s) then [CancelReadiness t c] else []))
                (instanceConditionChanged cf (task_instanceId t)))
          else nothing))
   | _ \<Rightarrow> None)"

definition readinessBehavior :: "replace_config \<Rightarrow> replace_message \<Rightarrow> replace_state \<Rightarrow> replace_step option" where
  "readinessBehavior cf msg s =
     (case (if rc_hasHealthChecks cf then instanceHealthBehavior cf msg s else instanceRunBehavior cf msg) of
        Some f \<Rightarrow> Some f
      | None \<Rightarrow> if rc_hasReadinessChecks cf then readinessCheckBehavior cf msg else None)"

text \<open>\<open>replaceBehavior\<close>: changes of instances of the run spec; everything else is left alone.\<close>

definition new_changed :: "condition \<Rightarrow> inst \<Rightarrow> instance_id \<Rightarrow> replace_step" where
  "new_changed c i k =
     (if considerTerminal c \<and> ins_goal (in_state i) = GoalRunning then instanceTerminated k
      else if considerTerminal c \<and> terminal_goal (ins_goal (in_state i)) then (\<lambda>s. (s\<lparr>rp_started := rp_started s - 1\<rparr>, []))
      else nothing)"

definition drop_old :: "instance_id \<Rightarrow> replace_step" where
  "drop_old k s = (s\<lparr>rp_oldActive := removeAll k (rp_oldActive s)\<rparr>, [])"

definition old_changed :: "replace_config \<Rightarrow> condition \<Rightarrow> inst \<Rightarrow> instance_id \<Rightarrow> replace_step" where
  "old_changed cf c i k =
     (if considerTerminal c \<and> ins_goal (in_state i) = GoalRunning then
        then_do (drop_old k) (then_do (instanceTerminated k) (\<lambda>s. (s, [SetGoal (in_instanceId i) (stop_goal cf)])))
      else if (considerTerminal c \<or> c = Scheduled) \<and> terminal_goal (ins_goal (in_state i)) then
        then_do (drop_old k) (then_do (instanceTerminated k) (launchInstances cf))
      else nothing)"

definition replaceBehavior :: "replace_config \<Rightarrow> replace_message \<Rightarrow> replace_state \<Rightarrow> replace_error + replace_state \<times> replace_output list" where
  "replaceBehavior cf msg s = (case msg of
     InstanceChangedMsg k version p c i \<Rightarrow>
       if p \<noteq> sp_id (rc_spec cf) then Inr (s, [])
       else if sp_id (in_runSpec i) \<noteq> sp_id (rc_spec cf) then Inl RequireFailed
       else Inr ((if isOldInstance cf i then old_changed cf c i k else new_changed c i k) s)
   | StatusFailureMsg \<Rightarrow> Inl StatusFailed
   | CheckFinished \<Rightarrow> Inr (checkFinished cf s)
   | _ \<Rightarrow> Inr (s, []))"

definition replace_receive :: "replace_config \<Rightarrow> replace_message \<Rightarrow> replace_state \<Rightarrow> replace_error + replace_state \<times> replace_output list" where
  "replace_receive cf msg s = (case readinessBehavior cf msg s of Some f \<Rightarrow> Inr (f s) | None \<Rightarrow> replaceBehavior cf msg s)"

definition reconcileHealthAndReadinessCheck :: "replace_config \<Rightarrow> inst \<Rightarrow> replace_step" where
  "reconcileHealthAndReadinessCheck cf i =
     then_do (if rc_hasHealthChecks cf \<and> ins_healthy (in_state i) \<noteq> Some True then nothing else mark_healthy (in_instanceId i))
       (if rc_hasReadinessChecks cf then initiateReadinessCheck cf False i else mark_ready (in_instanceId i))"

fun repeat_step :: "nat \<Rightarrow> replace_step \<Rightarrow> replace_step" where
  "repeat_step 0 f = nothing"
| "repeat_step (Suc n) f = then_do f (repeat_step n f)"

text \<open>What happens when the instances are loaded.\<close>

definition replace_load :: "(rat \<Rightarrow> rat) \<Rightarrow> replace_config \<Rightarrow> inst list \<Rightarrow> replace_error + replace_state \<times> replace_output list" where
  "replace_load rnd cf specInstances =
     rbind (replace_init rnd cf specInstances) (\<lambda>s. Inr (
       then_do (foldr (\<lambda>i. then_do (reconcileHealthAndReadinessCheck cf i))
           (filter (\<lambda>i. sp_version (in_runSpec i) = sp_version (rc_spec cf)) specInstances) nothing)
       (then_do (repeat_step (nat (rs_nrToKillImmediately (rp_strategy s))) (killNextOldInstance cf))
       (then_do (launchInstances cf) (then_do (\<lambda>s. (s, [ResetDelay])) (checkFinished cf)))) s))"

section \<open>What the strategy guarantees\<close>

definition valid_upgrade :: "spec_of_instance \<Rightarrow> bool" where
  "valid_upgrade spec \<longleftrightarrow> 0 \<le> sp_minimumHealthCapacity spec \<and> sp_minimumHealthCapacity spec \<le> 1
     \<and> 0 \<le> sp_maximumOverCapacity spec \<and> sp_maximumOverCapacity spec \<le> 1"

lemma round_int: "rounds_like_double rnd \<Longrightarrow> \<bar>n\<bar> \<le> 2 ^ 53 \<Longrightarrow> rnd (of_int n) = of_int n"
  by (simp add: rounds_like_double_def)

lemma round_between:
  assumes "rounds_like_double rnd" and "\<bar>a\<bar> \<le> 2 ^ 53" and "\<bar>b\<bar> \<le> 2 ^ 53" and "of_int a \<le> q" and "q \<le> of_int b"
  shows "of_int a \<le> rnd q \<and> rnd q \<le> of_int b"
proof -
  have "mono rnd" using assms(1) by (simp add: rounds_like_double_def)
  then have "rnd (of_int a) \<le> rnd q" "rnd q \<le> rnd (of_int b)" using assms(4,5) by (auto simp: mono_def)
  then show ?thesis using round_int [OF assms(1,2)] round_int [OF assms(1,3)] by simp
qed

lemma double_toInt_between:
  assumes "of_int a \<le> q" and "q \<le> of_int b" and "0 \<le> a" and "b < 2 ^ 31"
  shows "a \<le> double_toInt q \<and> double_toInt q \<le> b"
proof -
  have "a \<le> \<lfloor>q\<rfloor>" "\<lfloor>q\<rfloor> \<le> b" using assms(1,2) by (simp_all add: le_floor_iff floor_le_iff)
  moreover have "\<not> q < 0" using assms(1,3) by (metis leD of_int_0_le_iff order_trans)
  ultimately show ?thesis using assms(3,4) by (simp add: double_toInt_def)
qed

lemma minHealthy_between:
  assumes "rounds_like_double rnd" and "valid_upgrade spec" and "0 < sp_instances spec" and "sp_instances spec \<le> 2 ^ 30"
  shows "0 \<le> minHealthy rnd spec \<and> minHealthy rnd spec \<le> sp_instances spec"
proof -
  let ?n = "sp_instances spec" and ?q = "of_int (sp_instances spec) * sp_minimumHealthCapacity spec"
  have "0 \<le> ?q" "?q \<le> of_int ?n" using assms(2,3) by (auto simp: valid_upgrade_def intro!: mult_left_le)
  then have "of_int 0 \<le> rnd ?q \<and> rnd ?q \<le> of_int ?n"
    using assms(3,4) by (intro round_between [OF assms(1)]) auto
  then have "0 \<le> \<lceil>rnd ?q\<rceil>" "\<lceil>rnd ?q\<rceil> \<le> ?n" by (auto simp: ceiling_le_iff le_ceiling_iff)
  then show ?thesis
    unfolding minHealthy_def using assms(4) by (intro double_toInt_between) auto
qed

lemma maxCapacity_between:
  assumes "rounds_like_double rnd" and "valid_upgrade spec" and "0 < sp_instances spec" and "sp_instances spec < 2 ^ 30"
  shows "sp_instances spec \<le> wanted_maxCapacity rnd spec \<and> wanted_maxCapacity rnd spec \<le> 2 * sp_instances spec"
proof -
  let ?n = "sp_instances spec" and ?f = "rnd (1 + sp_maximumOverCapacity spec)"
  have f: "of_int 1 \<le> ?f \<and> ?f \<le> of_int 2"
    using assms(2) by (intro round_between [OF assms(1)]) (auto simp: valid_upgrade_def)
  have "of_int ?n * 1 \<le> of_int ?n * ?f" "of_int ?n * ?f \<le> of_int ?n * 2"
    using f assms(3) by (auto intro!: mult_left_mono)
  then have "of_int ?n \<le> rnd (of_int ?n * ?f) \<and> rnd (of_int ?n * ?f) \<le> of_int (2 * ?n)"
    using assms(3,4) by (intro round_between [OF assms(1)]) auto
  then show ?thesis unfolding wanted_maxCapacity_def using assms(3,4) by (intro double_toInt_between) auto
qed

text \<open>
  C19. For a run spec with instances and a valid upgrade strategy the restart strategy is always defined, whatever
  instances there are: none of the requirements and assumptions fails. New instances may be started up to a capacity between the
  number wanted and twice that number plus one. And unless there are more instances than wanted, the instances killed
  immediately leave the required number of healthy ones (one less for a resident run spec without room for more).
\<close>

theorem restart_strategy_ok:
  assumes "rounds_like_double rnd" and "valid_upgrade spec" and "0 < sp_instances spec" and "sp_instances spec < 2 ^ 30"
  shows "\<exists>s. computeRestartStrategy rnd spec current = Inr s \<and> 0 \<le> rs_nrToKillImmediately s
    \<and> sp_instances spec \<le> rs_maxCapacity s \<and> rs_maxCapacity s \<le> 2 * sp_instances spec + 1
    \<and> 0 \<le> minHealthy rnd spec \<and> minHealthy rnd spec \<le> sp_instances spec
    \<and> (int (length current) \<le> sp_instances spec \<longrightarrow>
        min (healthy_count current) (minHealthy rnd spec) - (if sp_resident spec then 1 else 0)
          \<le> healthy_count current - rs_nrToKillImmediately s)"
proof -
  have m: "0 \<le> minHealthy rnd spec" "minHealthy rnd spec \<le> sp_instances spec"
    using minHealthy_between [OF assms(1-3)] assms(4) by auto
  note c = maxCapacity_between [OF assms]
  have h: "healthy_count current \<le> int (length current)" "0 \<le> healthy_count current" by (simp_all add: healthy_count_def)
  let ?tight = "minHealthy rnd spec = wanted_maxCapacity rnd spec \<and> wanted_maxCapacity rnd spec \<le> healthy_count current"
  let ?k1 = "if ?tight \<and> sp_resident spec then healthy_count current - minHealthy rnd spec + 1 else max 0 (healthy_count current - minHealthy rnd spec)"
  let ?kill = "if sp_instances spec < int (length current) then max (int (length current) - sp_instances spec) ?k1 else ?k1"
  let ?cap = "if ?tight \<and> \<not> sp_resident spec then wanted_maxCapacity rnd spec + 1 else wanted_maxCapacity rnd spec"
  have k: "0 \<le> ?kill" and cap: "0 < ?cap" using m c h assms(3) by auto
  have start: "minHealthy rnd spec < ?cap \<or> healthy_count current - ?kill < ?cap" using m c h by auto
  have "computeRestartStrategy rnd spec current = Inr \<lparr>rs_nrToKillImmediately = ?kill, rs_maxCapacity = ?cap\<rparr>"
    using k cap start assms(3) by (simp add: computeRestartStrategy_def Let_def del: max.absorb1 max.absorb2)
  then show ?thesis using m c h k by auto
qed

theorem restart_strategy_ok_witness:
  "\<exists>s. computeRestartStrategy (\<lambda>q. q) (sample_spec UnreachableDisabled) [] = Inr s
     \<and> rs_nrToKillImmediately s = 0 \<and> 1 \<le> rs_maxCapacity s \<and> rs_maxCapacity s \<le> 3"
proof -
  have "rounds_like_double (\<lambda>q. q)" by (simp add: rounds_like_double_def mono_def)
  moreover have "valid_upgrade (sample_spec UnreachableDisabled)" "sp_instances (sample_spec UnreachableDisabled) = 1"
      "\<not> sp_resident (sample_spec UnreachableDisabled)"
    by (simp_all add: valid_upgrade_def sample_spec_def)
  ultimately show ?thesis
    using restart_strategy_ok [of "\<lambda>q. q" "sample_spec UnreachableDisabled" "[]"] by (auto simp: healthy_count_def)
qed

section \<open>Runs of the actor\<close>

text \<open>The messages the actor handles until it has succeeded, with everything it asked for.\<close>

inductive replace_run :: "(rat \<Rightarrow> rat) \<Rightarrow> replace_config \<Rightarrow> inst list \<Rightarrow> replace_state \<Rightarrow> replace_output list \<Rightarrow> bool"
  for rnd cf "is" where
  loaded: "replace_load rnd cf is = Inr (s, out) \<Longrightarrow> replace_run rnd cf is s out"
| message: "replace_run rnd cf is s outs \<Longrightarrow> \<not> rp_done s \<Longrightarrow> replace_receive cf msg s = Inr (s', out) \<Longrightarrow>
    replace_run rnd cf is s' (outs @ out)"

definition old_active :: "replace_config \<Rightarrow> inst list \<Rightarrow> inst list" where
  "old_active cf is = filter (\<lambda>i. isOldInstance cf i \<and> ins_goal (in_state i) = GoalRunning) is"

definition new_started :: "replace_config \<Rightarrow> inst list \<Rightarrow> inst list" where
  "new_started cf is = filter (\<lambda>i. \<not> isOldInstance cf i) is"

fun killed :: "replace_output list \<Rightarrow> instance_id list" where
  "killed [] = []"
| "killed (KillOld k g # out) = k # killed out"
| "killed (x # out) = killed out"

text \<open>
  A step conserves the queue of instances to kill, goes over the capacity only where it was over before, and succeeds only
  when it may.
\<close>

definition room :: "replace_config \<Rightarrow> int \<Rightarrow> int \<Rightarrow> replace_state \<Rightarrow> bool" where
  "room cf most new s \<longleftrightarrow>
     int (length (rp_oldActive s)) + rp_started s \<le> max (rs_maxCapacity (rp_strategy s)) most
     \<and> rp_started s \<le> max (sp_instances (rc_spec cf)) new"

definition may_be_done :: "replace_config \<Rightarrow> replace_state \<Rightarrow> bool" where
  "may_be_done cf s \<longleftrightarrow> (rp_done s \<longrightarrow> rp_oldActive s = [] \<and> targetCountReached (sp_instances (rc_spec cf)) s)"

definition good_step :: "replace_config \<Rightarrow> int \<Rightarrow> int \<Rightarrow> replace_step \<Rightarrow> bool" where
  "good_step cf most new f \<longleftrightarrow> (\<forall>s s' out. f s = (s', out) \<longrightarrow> room cf most new s \<longrightarrow>
     room cf most new s' \<and> rp_strategy s' = rp_strategy s \<and> killed out @ rp_toKill s' = rp_toKill s)"

definition good_end :: "replace_config \<Rightarrow> replace_step \<Rightarrow> bool" where
  "good_end cf f \<longleftrightarrow> (\<forall>s s' out. f s = (s', out) \<longrightarrow> \<not> rp_done s \<longrightarrow> may_be_done cf s')"

definition keeps_done :: "replace_step \<Rightarrow> bool" where
  "keeps_done f \<longleftrightarrow> (\<forall>s s' out. f s = (s', out) \<longrightarrow> rp_done s' = rp_done s)"

lemma killed_append [simp]: "killed (xs @ ys) = killed xs @ killed ys"
  by (induction xs rule: killed.induct) auto

lemma good_then: "good_step cf most new f \<Longrightarrow> good_step cf most new g \<Longrightarrow> good_step cf most new (then_do f g)"
  unfolding good_step_def then_do_def by (fastforce simp: Let_def split: prod.splits)

lemma keeps_then: "keeps_done f \<Longrightarrow> keeps_done g \<Longrightarrow> keeps_done (then_do f g)"
  unfolding keeps_done_def then_do_def by (fastforce simp: Let_def split: prod.splits)

lemma good_end_then: "keeps_done f \<Longrightarrow> good_end cf g \<Longrightarrow> good_end cf (then_do f g)"
  unfolding keeps_done_def good_end_def then_do_def by (fastforce simp: Let_def split: prod.splits)

lemma keeps_end: "keeps_done f \<Longrightarrow> good_end cf f"
  by (auto simp: keeps_done_def good_end_def may_be_done_def)

text \<open>A step that only notes something, or only reports.\<close>

lemma good_note:
  assumes "\<And>s. rp_oldActive (fst (f s)) = rp_oldActive s \<and> rp_started (fst (f s)) = rp_started s
    \<and> rp_strategy (fst (f s)) = rp_strategy s \<and> rp_toKill (fst (f s)) = rp_toKill s \<and> killed (snd (f s)) = []"
  shows "good_step cf most new f"
  unfolding good_step_def using assms by (metis append_Nil fst_conv room_def snd_conv)

lemma killed_checks: "killed (map (\<lambda>(t, c). CheckReadiness t c) cs) = []"
  by (induction cs) auto

lemma good_notes [intro, simp]:
  "good_step cf most new nothing" "good_step cf most new (mark_healthy k)" "good_step cf most new (mark_ready k)"
  "good_step cf most new (instanceTerminated k)" "good_step cf most new (initiateReadinessCheck cf b i)"
  "good_step cf most new (checkFinished cf)" "good_step cf most new (\<lambda>s. (s, [SetGoal k g]))"
  "good_step cf most new (\<lambda>s. (s, [ResetDelay]))" "good_step cf most new (\<lambda>s. (s, [ReportReadiness t c r]))"
  "good_step cf most new (\<lambda>s. (s, if (t, c) \<in> set (rp_subscriptions s) then [CancelReadiness t c] else []))"
  "good_step cf most new (\<lambda>s. (s\<lparr>rp_subscriptions := removeAll (t, c) (rp_subscriptions s)\<rparr>, []))"
  by (rule good_note; simp add: nothing_def mark_healthy_def mark_ready_def instanceTerminated_def initiateReadinessCheck_def
      checkFinished_def killed_checks Let_def)+

lemma keeps_notes [intro, simp]:
  "keeps_done nothing" "keeps_done (mark_healthy k)" "keeps_done (mark_ready k)"
  "keeps_done (instanceTerminated k)" "keeps_done (initiateReadinessCheck cf b i)" "keeps_done (\<lambda>s. (s, [SetGoal k g]))"
  "keeps_done (\<lambda>s. (s, [ResetDelay]))" "keeps_done (\<lambda>s. (s, [ReportReadiness t c r]))"
  "keeps_done (\<lambda>s. (s, if (t, c) \<in> set (rp_subscriptions s) then [CancelReadiness t c] else []))"
  "keeps_done (\<lambda>s. (s\<lparr>rp_subscriptions := removeAll (t, c) (rp_subscriptions s)\<rparr>, []))"
  "keeps_done (\<lambda>s. (s\<lparr>rp_started := rp_started s - 1\<rparr>, []))" "keeps_done (drop_old k)" "keeps_done (launchInstances cf)"
  "keeps_done (killNextOldInstance cf)"
  by (auto simp: keeps_done_def nothing_def mark_healthy_def mark_ready_def instanceTerminated_def initiateReadinessCheck_def
      drop_old_def launchInstances_def killNextOldInstance_def Let_def split: list.splits if_splits)

lemma good_launch [intro, simp]: "good_step cf most new (launchInstances cf)"
  by (auto simp: good_step_def launchInstances_def instancesToStartNow_def room_def Let_def split: if_splits)

lemma good_kill [intro, simp]: "good_step cf most new (killNextOldInstance cf)"
  by (auto simp: good_step_def killNextOldInstance_def room_def split: list.splits)

lemma good_drop [intro, simp]: "good_step cf most new (drop_old k)"
proof -
  have "length (removeAll k xs) \<le> length xs" for xs :: "instance_id list" by (rule length_removeAll_less_eq)
  then show ?thesis unfolding good_step_def drop_old_def room_def by (fastforce intro: order_trans [rotated])
qed

lemma good_decrement [intro, simp]: "good_step cf most new (\<lambda>s. (s\<lparr>rp_started := rp_started s - 1\<rparr>, []))"
  by (auto simp: good_step_def room_def)

lemma good_finish [intro, simp]: "good_end cf (checkFinished cf)"
  by (auto simp: good_end_def checkFinished_def may_be_done_def targetCountReached_def split: if_splits)

lemma good_choice: "good_step cf most new f \<Longrightarrow> good_step cf most new g \<Longrightarrow> good_step cf most new (\<lambda>s. if P s then f s else g s)"
  by (auto simp: good_step_def)

lemma keeps_choice: "keeps_done f \<Longrightarrow> keeps_done g \<Longrightarrow> keeps_done (\<lambda>s. if P s then f s else g s)"
  by (auto simp: keeps_done_def)

lemma good_changed [intro, simp]:
  "good_step cf most new (instanceConditionChanged cf k)" "good_end cf (instanceConditionChanged cf k)"
  unfolding instanceConditionChanged_def
  by (intro good_then good_choice; simp add: good_notes(1) [unfolded nothing_def [abs_def]])
    (intro good_end_then keeps_choice; simp add: keeps_notes(1) [unfolded nothing_def [abs_def]])

lemmas step_intros = good_then good_end_then keeps_then

lemma readiness_good:
  assumes "readinessBehavior cf msg s = Some f"
  shows "good_step cf most new f \<and> good_end cf f"
proof -
  have run: "good_step cf most new f \<and> good_end cf f" if "instanceRunBehavior cf msg = Some f" for f
    using that by (auto simp: instanceRunBehavior_def Let_def split: option.splits if_splits intro!: step_intros intro: keeps_end)
  have check: "good_step cf most new f \<and> good_end cf f" if "readinessCheckBehavior cf msg = Some f" for f
    using that by (auto simp: readinessCheckBehavior_def split: replace_message.splits if_splits intro!: step_intros intro: keeps_end)
  have health: "good_step cf most new f \<and> good_end cf f" if "instanceHealthBehavior cf msg s = Some f" for f
    using that by (auto simp: instanceHealthBehavior_def split: option.splits if_splits replace_message.splits bool.splits intro!: step_intros intro: keeps_end)
  show ?thesis
    using assms run check health by (auto simp: readinessBehavior_def split: option.splits if_splits)
qed

lemma old_changed_good: "good_step cf most new (old_changed cf c i k) \<and> keeps_done (old_changed cf c i k)"
  by (auto simp: old_changed_def intro!: step_intros)

lemma new_changed_good: "good_step cf most new (new_changed c i k) \<and> keeps_done (new_changed c i k)"
  by (auto simp: new_changed_def)

lemma good_stepD:
  "good_step cf most new f \<Longrightarrow> f s = (s', out) \<Longrightarrow> room cf most new s \<Longrightarrow>
    room cf most new s' \<and> rp_strategy s' = rp_strategy s \<and> killed out @ rp_toKill s' = rp_toKill s"
  by (simp add: good_step_def)

lemma good_endD: "good_end cf f \<Longrightarrow> f s = (s', out) \<Longrightarrow> \<not> rp_done s \<Longrightarrow> may_be_done cf s'"
  unfolding good_end_def by blast

lemma receive_good:
  assumes "replace_receive cf msg s = Inr (s', out)" and "room cf most new s" and "\<not> rp_done s"
  shows "room cf most new s' \<and> rp_strategy s' = rp_strategy s \<and> killed out @ rp_toKill s' = rp_toKill s \<and> may_be_done cf s'"
proof -
  have "\<exists>f. good_step cf most new f \<and> good_end cf f \<and> f s = (s', out)"
  proof (cases "readinessBehavior cf msg s")
    case (Some f)
    then show ?thesis using readiness_good [OF Some] assms(1) by (auto simp: replace_receive_def)
  next
    case None
    then have r: "replaceBehavior cf msg s = Inr (s', out)" using assms(1) by (simp add: replace_receive_def)
    have same: "\<exists>f. good_step cf most new f \<and> good_end cf f \<and> f s = (s', out)" if "s' = s" "out = []"
      using that by (intro exI [of _ nothing]) (auto simp: nothing_def intro: keeps_end)
    show ?thesis
    proof (cases msg)
      case (InstanceChangedMsg k v p c i)
      then show ?thesis
        using r same old_changed_good [of cf most new c i k] new_changed_good [of cf most new c i k] keeps_end
        by (auto simp: replaceBehavior_def split: if_splits)
    next
      case CheckFinished
      then show ?thesis using r by (intro exI [of _ "checkFinished cf"]) (auto simp: replaceBehavior_def)
    qed (use r same in \<open>auto simp: replaceBehavior_def\<close>)
  qed
  then show ?thesis using good_stepD good_endD assms(2,3) by blast
qed

lemma good_foldr: "(\<And>i. good_step cf most new (g i) \<and> keeps_done (g i)) \<Longrightarrow>
    good_step cf most new (foldr (\<lambda>i. then_do (g i)) is nothing) \<and> keeps_done (foldr (\<lambda>i. then_do (g i)) is nothing)"
  by (induction "is") (auto intro!: step_intros)

lemma good_repeat: "good_step cf most new f \<Longrightarrow> keeps_done f \<Longrightarrow> good_step cf most new (repeat_step n f) \<and> keeps_done (repeat_step n f)"
  by (induction n) (auto intro!: step_intros)

lemma reconcile_good: "good_step cf most new (reconcileHealthAndReadinessCheck cf i) \<and> keeps_done (reconcileHealthAndReadinessCheck cf i)"
  by (auto simp: reconcileHealthAndReadinessCheck_def intro!: step_intros)

definition order_to_kill :: "replace_config \<Rightarrow> inst list \<Rightarrow> instance_id list" where
  "order_to_kill cf is = map in_instanceId (rc_sorted cf kills_before (old_active cf is))"

lemma replace_init_fields:
  assumes "replace_init rnd cf is = Inr s"
  shows "computeRestartStrategy rnd (rc_spec cf) is = Inr (rp_strategy s) \<and> rp_toKill s = order_to_kill cf is
    \<and> room cf (int (length (old_active cf is) + length (new_started cf is))) (int (length (new_started cf is))) s \<and> \<not> rp_done s"
  using assms
  by (auto simp: replace_init_def rbind_eq_Inr Let_def order_to_kill_def room_def new_started_def old_active_def isOldInstance_def)

lemma load_good:
  assumes "replace_load rnd cf is = Inr (s, out)"
  shows "room cf (int (length (old_active cf is) + length (new_started cf is))) (int (length (new_started cf is))) s
    \<and> computeRestartStrategy rnd (rc_spec cf) is = Inr (rp_strategy s) \<and> killed out @ rp_toKill s = order_to_kill cf is \<and> may_be_done cf s"
proof -
  obtain s0 n where s0: "replace_init rnd cf is = Inr s0" and step:
    "then_do (foldr (\<lambda>i. then_do (reconcileHealthAndReadinessCheck cf i))
        (filter (\<lambda>i. sp_version (in_runSpec i) = sp_version (rc_spec cf)) is) nothing)
      (then_do (repeat_step n (killNextOldInstance cf))
      (then_do (launchInstances cf) (then_do (\<lambda>s. (s, [ResetDelay])) (checkFinished cf)))) s0 = (s, out)" (is "?f s0 = _")
    using assms by (auto simp: replace_load_def rbind_eq_Inr)
  note init = replace_init_fields [OF s0]
  let ?most = "int (length (old_active cf is) + length (new_started cf is))" and ?new = "int (length (new_started cf is))"
  have f: "good_step cf ?most ?new ?f" "good_end cf ?f"
    using good_foldr [of cf ?most ?new "reconcileHealthAndReadinessCheck cf"] good_repeat [of cf ?most ?new "killNextOldInstance cf"] reconcile_good
    by (auto intro!: step_intros)
  show ?thesis using good_stepD [OF f(1), of s0 s out] good_endD [OF f(2), of s0 s out] step init by simp
qed


text \<open>Two old instances, both needed, of an application without checks.\<close>

definition demo_spec :: "int \<Rightarrow> spec_of_instance" where
  "demo_spec version = sample_spec UnreachableDisabled\<lparr>sp_version := version, sp_instances := 2\<rparr>"

definition demo_id :: "64 word \<Rightarrow> instance_id" where
  "demo_id n = InstanceId (AbsolutePathId [''web'']) PrefixInstance (UUID 0 n)"

definition demo_inst :: "int \<Rightarrow> 64 word \<Rightarrow> condition \<Rightarrow> inst" where
  "demo_inst version n c = \<lparr>in_instanceId = demo_id n, in_agentInfo = None,
     in_state = \<lparr>ins_condition = c, ins_since = 0, ins_activeSince = None, ins_healthy = None, ins_goal = GoalRunning\<rparr>,
     in_tasksMap = [], in_runSpec = demo_spec version, in_reservation = None, in_role = ''*''\<rparr>"

definition demo_config :: replace_config where
  "demo_config = \<lparr>rc_spec = demo_spec 2, rc_hasHealthChecks = False, rc_hasReadinessChecks = False,
     rc_readinessChecks = (\<lambda>t. []), rc_sorted = (\<lambda>lt xs. xs)\<rparr>"

definition demo_olds :: "inst list" where
  "demo_olds = [demo_inst 1 1 Running, demo_inst 1 2 Running]"

definition demo_msg :: "64 word \<Rightarrow> condition \<Rightarrow> replace_message" where
  "demo_msg n c = InstanceChangedMsg (demo_id n) 2 (AbsolutePathId [''web'']) c (demo_inst 2 n c)"

lemmas demo_defs = demo_spec_def demo_id_def demo_inst_def demo_config_def demo_olds_def demo_msg_def sample_spec_def

lemma demo_strategy: "computeRestartStrategy (\<lambda>q. q) (rc_spec demo_config) demo_olds
    = Inr \<lparr>rs_nrToKillImmediately = 0, rs_maxCapacity = 4\<rparr>"
  by (simp add: computeRestartStrategy_def minHealthy_def wanted_maxCapacity_def double_toInt_def healthy_count_def consideredHealthy_def demo_defs)

definition demo_state :: "instance_id list \<Rightarrow> instance_id list \<Rightarrow> replace_state" where
  "demo_state kill ready = \<lparr>rp_oldActive = [demo_id 1, demo_id 2], rp_toKill = kill, rp_started = 2,
     rp_strategy = \<lparr>rs_nrToKillImmediately = 0, rs_maxCapacity = 4\<rparr>, rp_healthy = ready, rp_ready = ready,
     rp_subscriptions = [], rp_done = False\<rparr>"

lemma demo_load: "replace_load (\<lambda>q. q) demo_config demo_olds = Inr (demo_state [demo_id 1, demo_id 2] [], [AddInstances 2, ResetDelay])"
proof -
  have "replace_init (\<lambda>q. q) demo_config demo_olds = Inr (demo_state [demo_id 1, demo_id 2] []\<lparr>rp_started := 0\<rparr>)"
    using demo_strategy by (simp add: replace_init_def Let_def demo_state_def demo_defs)
  then show ?thesis
    by (simp add: replace_load_def then_do_def nothing_def launchInstances_def instancesToStartNow_def checkFinished_def
        targetCountReached_def demo_state_def demo_defs Let_def)
qed

lemmas demo_steps = replace_receive_def readinessBehavior_def instanceRunBehavior_def running_new_def replaceBehavior_def
  new_changed_def isOldInstance_def considerTerminal_def then_do_def mark_healthy_def mark_ready_def instanceConditionChanged_def
  killNextOldInstance_def checkFinished_def targetCountReached_def instanceTerminated_def add_id_def stop_goal_def Let_def

lemma demo_running: "ready = [] \<Longrightarrow> kill \<noteq> [] \<Longrightarrow> replace_receive demo_config (demo_msg 3 Running) (demo_state kill ready)
    = Inr (demo_state (tl kill) [demo_id 3], [KillOld (hd kill) GoalDecommissioned])"
  by (cases kill) (simp_all add: demo_steps demo_state_def demo_defs)

lemma demo_lost: "replace_receive demo_config (demo_msg 3 Unreachable) (demo_state kill [demo_id 3]) = Inr (demo_state kill [], [])"
  by (simp add: demo_steps demo_state_def demo_defs)

text \<open>
  One new instance that runs, is lost for a moment and runs again has both old instances killed, although two healthy instances
  are required and only one new instance has ever run.
\<close>

lemma one_new_kills_two:
  "replace_run (\<lambda>q. q) demo_config demo_olds (demo_state [] [demo_id 3])
     [AddInstances 2, ResetDelay, KillOld (demo_id 1) GoalDecommissioned, KillOld (demo_id 2) GoalDecommissioned]
   \<and> minHealthy (\<lambda>q. q) (rc_spec demo_config) = 2"
proof
  have 0: "replace_run (\<lambda>q. q) demo_config demo_olds (demo_state [demo_id 1, demo_id 2] []) [AddInstances 2, ResetDelay]"
    by (rule replace_run.loaded [OF demo_load])
  have d: "\<not> rp_done (demo_state kill ready)" for kill ready by (simp add: demo_state_def)
  have 1: "replace_run (\<lambda>q. q) demo_config demo_olds (demo_state [demo_id 2] [demo_id 3])
      [AddInstances 2, ResetDelay, KillOld (demo_id 1) GoalDecommissioned]"
    using replace_run.message [OF 0 d demo_running] by simp
  have 2: "replace_run (\<lambda>q. q) demo_config demo_olds (demo_state [demo_id 2] [])
      [AddInstances 2, ResetDelay, KillOld (demo_id 1) GoalDecommissioned]"
    using replace_run.message [OF 1 d demo_lost] by simp
  show "replace_run (\<lambda>q. q) demo_config demo_olds (demo_state [] [demo_id 3])
     [AddInstances 2, ResetDelay, KillOld (demo_id 1) GoalDecommissioned, KillOld (demo_id 2) GoalDecommissioned]"
    using replace_run.message [OF 2 d demo_running] by simp
  show "minHealthy (\<lambda>q. q) (rc_spec demo_config) = 2" by (simp add: minHealthy_def double_toInt_def demo_defs)
qed


end
