(* ===== verification/Scaling.thy ===== *)
theory Scaling
  imports Constraints
begin

text \<open>
  Which instances a change of scale decommissions (\<open>core/deployment/ScalingProposition.scala\<close>), with the
  choice that keeps \<open>GROUP_BY\<close> constraints even (\<open>selectInstancesToKill\<close> in \<open>mesos/Constraints.scala\<close>).
\<close>

section \<open>Instances by id\<close>

type_synonym instances_by_id = "(string \<times> mesos_instance) list"

definition instancesById :: "mesos_instance list \<Rightarrow> instances_by_id" where
  "instancesById xs = fold (\<lambda>i. AList.update (in_id i) i) xs []"

definition by_values :: "instances_by_id \<Rightarrow> mesos_instance list" where
  "by_values m = map snd m"

definition without_keys :: "instances_by_id \<Rightarrow> string list \<Rightarrow> instances_by_id" where
  "without_keys m ks = filter (\<lambda>(k, _). k \<notin> set ks) m"

section \<open>Even distributions\<close>

text \<open>A distribution is the list of the groups of running instances that have the same in a field.\<close>

type_synonym distribution = "instances_by_id list"

definition distribution_of :: "(mesos_instance \<Rightarrow> string option) \<Rightarrow> mesos_instance list \<Rightarrow> distribution" where
  "distribution_of f xs = map (\<lambda>k. instancesById (filter (\<lambda>i. f i = k) xs)) (remdups (map f xs))"

definition sizes_without :: "distribution \<Rightarrow> instances_by_id \<Rightarrow> nat list" where
  "sizes_without d without = map (\<lambda>m. length (without_keys m (map fst without))) d"

text \<open>There is a group wherever the code takes the largest and the smallest size.\<close>

definition distributionDifference :: "distribution \<Rightarrow> instances_by_id \<Rightarrow> int" where
  "distributionDifference d without = (let sizes = sizes_without d without; largest = foldr max sizes 0
     in int largest - int (foldr min sizes largest))"

definition isMoreEvenWithout :: "distribution \<Rightarrow> instances_by_id \<Rightarrow> bool" where
  "isMoreEvenWithout d selected = (let diffAfterKill = distributionDifference d selected
     in diffAfterKill \<le> 1 \<or> distributionDifference d [] > diffAfterKill)"

definition findInstancesToKill :: "distribution \<Rightarrow> instances_by_id \<Rightarrow> mesos_instance list" where
  "findInstancesToKill d without =
     (let updated = map (\<lambda>m. without_keys m (map fst without)) d; sizes = map length updated
      in if length (remdups sizes) = 1 then []
      else concat (map by_values (filter (\<lambda>m. length m = foldr max sizes 0) updated)))"

section \<open>Choosing for the constraints\<close>

datatype select_error = CanNotKillMore | EmptyMax

text \<open>The instances that are tried in a round: those the distributions propose, the least even first, then all.\<close>

definition tried :: "distribution list \<Rightarrow> mesos_instance list \<Rightarrow> instances_by_id \<Rightarrow> mesos_instance list" where
  "tried ds runningInstances toKill =
     concat (map (\<lambda>d. findInstancesToKill d toKill) (sort_key (\<lambda>d. - distributionDifference d toKill) ds))
       @ filter (\<lambda>i. in_id i \<notin> fst ` set toKill) runningInstances"

definition matchingInstance :: "distribution list \<Rightarrow> mesos_instance list \<Rightarrow> instances_by_id \<Rightarrow> mesos_instance option" where
  "matchingInstance ds runningInstances toKill =
     List.find (\<lambda>i. \<forall>d\<in>set ds. isMoreEvenWithout d (AList.update (in_id i) i toKill)) (tried ds runningInstances toKill)"

definition distributions :: "constraint list \<Rightarrow> mesos_instance list \<Rightarrow> distribution list" where
  "distributions constraints runningInstances =
     map (\<lambda>c. distribution_of (placed_reader (cn_field c)) runningInstances) (filter (\<lambda>c. cn_operator c = GROUP_BY) constraints)"

definition ids_ok :: "mesos_instance set \<Rightarrow> instances_by_id \<Rightarrow> bool" where
  "ids_ok S m = (\<forall>(k, i)\<in>set m. k = in_id i \<and> i \<in> S)"

lemma set_alist_update: "set (AList.update k v m) \<subseteq> insert (k, v) (set m)"
  by (induction m) auto

lemma keys_update: "fst ` set (AList.update k v m) = insert k (fst ` set m)"
  by (induction m) auto

lemma update_new: "k \<notin> fst ` set m \<Longrightarrow> AList.update k v m = m @ [(k, v)]"
  by (induction m) auto

lemma length_by_values [simp]: "length (by_values m) = length m"
  by (simp add: by_values_def)

lemma ids_ok_update: "ids_ok S m \<Longrightarrow> i \<in> S \<Longrightarrow> ids_ok S (AList.update (in_id i) i m)"
  using set_alist_update [of "in_id i" i m] by (auto simp: ids_ok_def)

lemma ids_ok_instancesById: "set xs \<subseteq> S \<Longrightarrow> ids_ok S (instancesById xs)"
proof -
  have "set xs \<subseteq> S \<Longrightarrow> ids_ok S m \<Longrightarrow> ids_ok S (fold (\<lambda>i. AList.update (in_id i) i) xs m)" for m
    by (induction xs arbitrary: m) (simp_all add: ids_ok_update)
  from this [of "[]"] show "set xs \<subseteq> S \<Longrightarrow> ?thesis" unfolding instancesById_def by (simp add: ids_ok_def)
qed

lemma ids_ok_values: "ids_ok S m \<Longrightarrow> i \<in> set (by_values (without_keys m ks)) \<Longrightarrow> i \<in> S \<and> in_id i \<notin> set ks"
  by (auto simp: ids_ok_def by_values_def without_keys_def)

lemma findInstancesToKill_new:
  assumes "i \<in> set (findInstancesToKill (distribution_of f xs) toKill)"
  shows "i \<in> set xs \<and> in_id i \<notin> fst ` set toKill"
proof -
  obtain m where "m \<in> set (distribution_of f xs)" "i \<in> set (by_values (without_keys m (map fst toKill)))"
    using assms by (auto simp: findInstancesToKill_def Let_def split: if_splits)
  moreover have "ids_ok (set xs) m" if "m \<in> set (distribution_of f xs)" for m
    using that by (auto simp: distribution_of_def intro!: ids_ok_instancesById)
  ultimately show ?thesis using ids_ok_values [of "set xs" m i "map fst toKill"] by simp
qed

lemma matchingInstance_new:
  assumes "matchingInstance (distributions constraints xs) xs toKill = Some i"
  shows "i \<in> set xs \<and> in_id i \<notin> fst ` set toKill"
    and "\<forall>d\<in>set (distributions constraints xs). isMoreEvenWithout d (AList.update (in_id i) i toKill)"
proof -
  have "i \<in> set (tried (distributions constraints xs) xs toKill)"
    using assms by (auto simp: matchingInstance_def find_Some_iff in_set_conv_nth)
  then show "i \<in> set xs \<and> in_id i \<notin> fst ` set toKill"
    unfolding tried_def distributions_def by (auto dest: findInstancesToKill_new)
  show "\<forall>d\<in>set (distributions constraints xs). isMoreEvenWithout d (AList.update (in_id i) i toKill)"
    using assms by (auto simp: matchingInstance_def find_Some_iff)
qed

text \<open>The loop ends: every round that does not stop it chooses an instance that was not chosen before.\<close>

function select_loop :: "constraint list \<Rightarrow> mesos_instance list \<Rightarrow> int \<Rightarrow> instances_by_id \<Rightarrow> instances_by_id" where
  "select_loop constraints runningInstances toKillCount toKill =
     (if int (length toKill) = toKillCount then toKill
      else case matchingInstance (distributions constraints runningInstances) runningInstances toKill of
          Some i \<Rightarrow> select_loop constraints runningInstances toKillCount (AList.update (in_id i) i toKill)
        | None \<Rightarrow> toKill)"
  by pat_completeness auto

termination
proof (relation "measure (\<lambda>(cs, xs, n, m). card (in_id ` set xs - fst ` set m))")
  fix cs xs n m i
  assume "matchingInstance (distributions cs xs) xs m = Some i"
  from matchingInstance_new(1) [OF this]
  have "in_id ` set xs - fst ` set (AList.update (in_id i) i m) \<subset> in_id ` set xs - fst ` set m"
    unfolding keys_update by blast
  then show "((cs, xs, n, AList.update (in_id i) i m), cs, xs, n, m) \<in> measure (\<lambda>(cs, xs, n, m). card (in_id ` set xs - fst ` set m))"
    by (simp add: psubset_card_mono)
qed simp

declare select_loop.simps [simp del]

text \<open>
  \<open>selectInstancesToKill\<close>. A negative number with no instances would take the largest of no sizes.
\<close>

definition selectInstancesToKill :: "constraint list \<Rightarrow> mesos_instance list \<Rightarrow> int \<Rightarrow> select_error + mesos_instance list" where
  "selectInstancesToKill constraints runningInstances toKillCount =
     (if \<not> toKillCount \<le> int (length runningInstances) then Inl CanNotKillMore
      else if int (length runningInstances) = toKillCount then Inr runningInstances
      else if distributions constraints runningInstances = [] then Inr []
      else if runningInstances = [] then Inl EmptyMax
      else Inr (by_values (select_loop constraints runningInstances toKillCount [])))"

lemma select_loop_spec:
  assumes "ids_ok (set xs) sel" and "distinct (map fst sel)" and "int (length sel) \<le> n"
    and "sel = [] \<or> (\<forall>d\<in>set (distributions cs xs). isMoreEvenWithout d sel)"
  shows "ids_ok (set xs) (select_loop cs xs n sel) \<and> distinct (map fst (select_loop cs xs n sel)) \<and> int (length (select_loop cs xs n sel)) \<le> n
    \<and> (select_loop cs xs n sel = [] \<or> (\<forall>d\<in>set (distributions cs xs). isMoreEvenWithout d (select_loop cs xs n sel)))"
  using assms
proof (induction cs xs n sel rule: select_loop.induct)
  case (1 cs xs n sel)
  show ?case
  proof (cases "int (length sel) = n \<or> matchingInstance (distributions cs xs) xs sel = None")
    case True
    then show ?thesis using "1.prems" by (auto simp: select_loop.simps [of cs xs n sel])
  next
    case False
    then obtain i where i: "matchingInstance (distributions cs xs) xs sel = Some i" and n: "int (length sel) \<noteq> n" by auto
    note new = matchingInstance_new [OF i]
    have upd: "AList.update (in_id i) i sel = sel @ [(in_id i, i)]" using new(1) by (simp add: update_new)
    have "select_loop cs xs n sel = select_loop cs xs n (AList.update (in_id i) i sel)"
      using n i by (simp add: select_loop.simps [of cs xs n sel])
    moreover have "ids_ok (set xs) (AList.update (in_id i) i sel)" by (rule ids_ok_update) (use "1.prems"(1) new(1) in auto)
    moreover have "distinct (map fst (AList.update (in_id i) i sel))"
        "int (length (AList.update (in_id i) i sel)) \<le> n"
      using "1.prems" new(1) n by (auto simp: upd)
    ultimately show ?thesis using "1.IH" [OF n i] new(2) by simp
  qed
qed

lemma ids_ok_map: "ids_ok S m \<Longrightarrow> map in_id (by_values m) = map fst m \<and> set (by_values m) \<subseteq> S"
  by (auto simp: ids_ok_def by_values_def)

lemma select_sound:
  assumes "distinct (map in_id xs)" and "0 \<le> n" and "n \<le> int (length xs)"
  shows "\<exists>ys. selectInstancesToKill cs xs n = Inr ys \<and> set ys \<subseteq> set xs \<and> distinct (map in_id ys) \<and> int (length ys) \<le> n"
proof -
  have "\<not> (xs = [] \<and> int (length xs) \<noteq> n)" using assms(2,3) by auto
  moreover have "set (by_values (select_loop cs xs n [])) \<subseteq> set xs \<and> distinct (map in_id (by_values (select_loop cs xs n [])))
      \<and> int (length (by_values (select_loop cs xs n []))) \<le> n"
    using select_loop_spec [of xs "[]" n cs] ids_ok_map [of "set xs" "select_loop cs xs n []"] assms(2)
    by (simp add: ids_ok_def)
  ultimately show ?thesis using assms by (auto simp: selectInstancesToKill_def)
qed

section \<open>The order of kills\<close>

datatype kill_selection = YoungestFirst | OldestFirst

fun kill_first :: "kill_selection \<Rightarrow> int \<Rightarrow> int \<Rightarrow> bool" where
  "kill_first YoungestFirst a b = (a > b)"
| "kill_first OldestFirst a b = (a < b)"

definition weight :: "condition \<Rightarrow> nat" where
  "weight c = (case c of Unreachable \<Rightarrow> 1 | Staging \<Rightarrow> 2 | Starting \<Rightarrow> 3 | Running \<Rightarrow> 4 | _ \<Rightarrow> 5)"

text \<open>An instance without tasks counts as staged now.\<close>

definition stagedAt :: "int \<Rightarrow> mesos_instance \<Rightarrow> int" where
  "stagedAt now i = (case in_stagedAt i of [] \<Rightarrow> now | t # ts \<Rightarrow> foldr max ts t)"

definition sortByConditionAndDate :: "int \<Rightarrow> kill_selection \<Rightarrow> mesos_instance \<Rightarrow> mesos_instance \<Rightarrow> bool" where
  "sortByConditionAndDate now select a b =
     (let weightA = weight (in_condition a); weightB = weight (in_condition b)
      in if weightA < weightB then True
      else if weightA > weightB then False
      else if in_condition a = Staging \<and> in_condition b = Staging then kill_first select (stagedAt now a) (stagedAt now b)
      else if in_condition a = Starting \<and> in_condition b = Starting then kill_first select (in_since a) (in_since b)
      else case (in_activeSince a, in_activeSince b) of
          (None, Some _) \<Rightarrow> True
        | (Some _, None) \<Rightarrow> False
        | (Some left, Some right) \<Rightarrow> kill_first select left right
        | (None, None) \<Rightarrow> True)"

text \<open>\<open>sortWith\<close>: sorting with the order \<open>Ordering.fromLessThan\<close>.\<close>

definition fromLessThan :: "('a \<Rightarrow> 'a \<Rightarrow> bool) \<Rightarrow> 'a \<Rightarrow> 'a \<Rightarrow> int" where
  "fromLessThan lt x y = (if lt x y then - 1 else if lt y x then 1 else 0)"

definition sortWith :: "('a \<Rightarrow> 'a \<Rightarrow> bool) \<Rightarrow> 'a list \<Rightarrow> 'a list" where
  "sortWith lt xs = sort_cmp (fromLessThan lt) xs"

section \<open>The proposition\<close>

definition goal_running :: "mesos_instance list \<Rightarrow> mesos_instance list" where
  "goal_running instances =
     filter (\<lambda>i. in_condition i \<noteq> UnreachableInactive) (filter (\<lambda>i. in_goal i = GoalRunning) instances)"

definition propose :: "mesos_instance list \<Rightarrow> mesos_instance list \<Rightarrow> (mesos_instance list \<Rightarrow> int \<Rightarrow> select_error + mesos_instance list)
    \<Rightarrow> int \<Rightarrow> kill_selection \<Rightarrow> int \<Rightarrow> select_error + (mesos_instance list \<times> int)" where
  "propose instances toDecommission meetConstraints scaleTo killSelection now =
     (let instancesGoalRunning = instancesById (goal_running instances);
          toDecommissionMap = instancesById toDecommission;
          sentencedAndRunning = filter (\<lambda>(k, _). k \<in> fst ` set toDecommissionMap) instancesGoalRunning;
          notSentencedAndRunning = filter (\<lambda>(k, _). k \<notin> fst ` set toDecommissionMap) instancesGoalRunning;
          decommissionCount = max (int (length instancesGoalRunning) - scaleTo) (int (length sentencedAndRunning))
      in rbind (meetConstraints (by_values notSentencedAndRunning) (decommissionCount - int (length sentencedAndRunning)))
        (\<lambda>killToMeetConstraints.
          let rest = by_values (without_keys notSentencedAndRunning (map in_id killToMeetConstraints));
              ordered = by_values sentencedAndRunning @ killToMeetConstraints
                @ sortWith (sortByConditionAndDate now killSelection) rest;
              instancesToDecommission = take (nat decommissionCount) ordered;
              numberOfInstancesToStart = scaleTo - int (length instancesGoalRunning) + decommissionCount
          in Inr (instancesToDecommission, numberOfInstancesToStart)))"

section \<open>The interface of the choice for constraints\<close>

text \<open>The instances of a list with different ids, by id.\<close>

lemma instancesById_distinct: "distinct (map in_id xs) \<Longrightarrow> instancesById xs = map (\<lambda>i. (in_id i, i)) xs"
proof -
  have "distinct (map in_id xs) \<Longrightarrow> in_id ` set xs \<inter> fst ` set m = {} \<Longrightarrow>
      fold (\<lambda>i. AList.update (in_id i) i) xs m = m @ map (\<lambda>i. (in_id i, i)) xs" for m
    by (induction xs arbitrary: m) (auto simp: update_new)
  from this [of "[]"] show "distinct (map in_id xs) \<Longrightarrow> ?thesis" by (simp add: instancesById_def)
qed

lemma keys_instancesById: "fst ` set (instancesById xs) = in_id ` set xs"
proof -
  have "fst ` set (fold (\<lambda>i. AList.update (in_id i) i) xs m) = in_id ` set xs \<union> fst ` set m" for m
    by (induction xs arbitrary: m) (auto simp: keys_update)
  then show ?thesis by (simp add: instancesById_def)
qed

lemma set_sortWith [simp]: "set (sortWith lt xs) = set xs"
  by (simp add: sortWith_def)

lemma mset_sortWith [simp]: "mset (sortWith lt xs) = mset xs"
  by (simp add: sortWith_def)

lemma length_sortWith [simp]: "length (sortWith lt xs) = length xs"
  by (simp add: sortWith_def)

lemma ordered_candidates:
  assumes "distinct (map in_id running)" and "set chosen \<subseteq> set (filter (\<lambda>i. in_id i \<notin> S) running)" and "distinct (map in_id chosen)"
  shows "set (filter (\<lambda>i. in_id i \<in> S) running @ chosen @ sortWith lt (filter (\<lambda>i. in_id i \<notin> in_id ` set chosen) (filter (\<lambda>i. in_id i \<notin> S) running)))
      = set running"
    and "distinct (map in_id (filter (\<lambda>i. in_id i \<in> S) running @ chosen @ sortWith lt (filter (\<lambda>i. in_id i \<notin> in_id ` set chosen) (filter (\<lambda>i. in_id i \<notin> S) running))))"
proof -
  have inj: "inj_on in_id (set running)" using assms(1) by (simp add: distinct_map)
  have "i \<in> set chosen" if i: "i \<in> set running" "in_id i \<in> in_id ` set chosen" for i
  proof -
    obtain j where j: "j \<in> set chosen" "in_id i = in_id j" using i(2) by blast
    then have "j \<in> set running" using assms(2) by auto
    then show ?thesis using inj_onD [OF inj j(2) i(1)] j(1) by simp
  qed
  then show "set (filter (\<lambda>i. in_id i \<in> S) running @ chosen @ sortWith lt (filter (\<lambda>i. in_id i \<notin> in_id ` set chosen) (filter (\<lambda>i. in_id i \<notin> S) running)))
      = set running"
    using assms(2) by auto
  have "mset (map in_id (sortWith lt xs)) = mset (map in_id xs)" for xs by simp
  then have "distinct (map in_id (sortWith lt xs)) \<longleftrightarrow> distinct (map in_id xs)" for xs using mset_eq_imp_distinct_iff by blast
  then show "distinct (map in_id (filter (\<lambda>i. in_id i \<in> S) running @ chosen @ sortWith lt (filter (\<lambda>i. in_id i \<notin> in_id ` set chosen) (filter (\<lambda>i. in_id i \<notin> S) running))))"
    using assms by (auto simp: distinct_map_filter) (metis image_eqI)
qed

text \<open>What scaling relies on: some of the given instances, no more than the number asked for.\<close>

locale constraint_choice =
  fixes chooser :: "mesos_instance list \<Rightarrow> int \<Rightarrow> select_error + mesos_instance list"
  assumes choose_sound: "distinct (map in_id xs) \<Longrightarrow> 0 \<le> n \<Longrightarrow> n \<le> int (length xs) \<Longrightarrow>
    \<exists>ys. chooser xs n = Inr ys \<and> set ys \<subseteq> set xs \<and> distinct (map in_id ys) \<and> int (length ys) \<le> n"
begin

lemma propose_parts:
  fixes toDecommission :: "mesos_instance list"
  assumes ids: "distinct (map in_id instances)" and "0 \<le> scaleTo"
  defines "running \<equiv> goal_running instances"
  defines "sentenced \<equiv> filter (\<lambda>i. in_id i \<in> in_id ` set toDecommission) running"
    and "free \<equiv> filter (\<lambda>i. in_id i \<notin> in_id ` set toDecommission) running"
  defines "kills \<equiv> max (int (length running) - scaleTo) (int (length sentenced))"
  shows "\<exists>chosen. chooser free (kills - int (length sentenced)) = Inr chosen \<and> set chosen \<subseteq> set free \<and> distinct (map in_id chosen)
    \<and> int (length chosen) \<le> kills - int (length sentenced)
    \<and> propose instances toDecommission chooser scaleTo select now
      = Inr (take (nat kills) (sentenced @ chosen @ sortWith (sortByConditionAndDate now select) (filter (\<lambda>i. in_id i \<notin> in_id ` set chosen) free)),
          scaleTo - int (length running) + kills)"
proof -
  have d: "distinct (map in_id running)" using ids by (simp add: running_def goal_running_def distinct_map_filter)
  have df: "distinct (map in_id free)" using d by (simp add: free_def distinct_map_filter)
  have "length sentenced + length free = length running"
    unfolding sentenced_def free_def by (rule sum_length_filter_compl)
  then have "0 \<le> kills - int (length sentenced)" "kills - int (length sentenced) \<le> int (length free)"
    using assms(2) by (auto simp: kills_def)
  from choose_sound [OF df this] obtain chosen where c: "chooser free (kills - int (length sentenced)) = Inr chosen"
      "set chosen \<subseteq> set free" "distinct (map in_id chosen)" "int (length chosen) \<le> kills - int (length sentenced)"
    by blast
  have vals: "filter (\<lambda>(k, _). P k) (map (\<lambda>i. (in_id i, i)) xs) = map (\<lambda>i. (in_id i, i)) (filter (\<lambda>i. P (in_id i)) xs)" for P xs
    by (induction xs) auto
  have by_vals: "by_values (map (\<lambda>i. (in_id i, i)) xs) = xs" for xs by (simp add: by_values_def comp_def)
  have "propose instances toDecommission chooser scaleTo select now
      = Inr (take (nat kills) (sentenced @ chosen @ sortWith (sortByConditionAndDate now select) (filter (\<lambda>i. in_id i \<notin> in_id ` set chosen) free)),
          scaleTo - int (length running) + kills)"
    unfolding propose_def Let_def running_def [symmetric] instancesById_distinct [OF d] keys_instancesById vals without_keys_def by_vals
      sentenced_def [symmetric] free_def [symmetric] length_map kills_def [symmetric] c(1) rbind_Inr set_map ..
  then show ?thesis using c by blast
qed

lemma propose_correct:
  assumes "distinct (map in_id instances)" and "0 \<le> scaleTo"
  shows "\<exists>decommission start. propose instances toDecommission chooser scaleTo select now = Inr (decommission, start) \<and> 0 \<le> start
    \<and> set decommission \<subseteq> set (goal_running instances) \<and> distinct (map in_id decommission)
    \<and> (\<forall>i\<in>set (goal_running instances). in_id i \<in> in_id ` set toDecommission \<longrightarrow> i \<in> set decommission)
    \<and> int (length (goal_running instances)) - int (length decommission) + start = scaleTo
    \<and> (0 < start \<longrightarrow> (\<forall>i\<in>set decommission. in_id i \<in> in_id ` set toDecommission))"
proof -
  let ?running = "goal_running instances"
  let ?sentenced = "filter (\<lambda>i. in_id i \<in> in_id ` set toDecommission) ?running"
  let ?free = "filter (\<lambda>i. in_id i \<notin> in_id ` set toDecommission) ?running"
  let ?kills = "max (int (length ?running) - scaleTo) (int (length ?sentenced))"
  obtain chosen where c: "set chosen \<subseteq> set ?free" "distinct (map in_id chosen)" "int (length chosen) \<le> ?kills - int (length ?sentenced)"
    and p: "propose instances toDecommission chooser scaleTo select now
      = Inr (take (nat ?kills) (?sentenced @ chosen @ sortWith (sortByConditionAndDate now select) (filter (\<lambda>i. in_id i \<notin> in_id ` set chosen) ?free)),
          scaleTo - int (length ?running) + ?kills)"
    using propose_parts [OF assms, of toDecommission select now] by blast
  let ?all = "?sentenced @ chosen @ sortWith (sortByConditionAndDate now select) (filter (\<lambda>i. in_id i \<notin> in_id ` set chosen) ?free)"
  have d: "distinct (map in_id ?running)" using assms(1) by (simp add: goal_running_def distinct_map_filter)
  have all: "set ?all = set ?running" "distinct (map in_id ?all)"
    using ordered_candidates [OF d c(1,2)] by blast+
  have "distinct ?all" "distinct ?running" using all(2) d unfolding distinct_map by blast+
  from distinct_card [OF this(1)] distinct_card [OF this(2)] have "length ?all = length ?running" unfolding all(1) by (rule trans [OF sym])
  moreover have le: "length ?sentenced \<le> length ?running" by simp
  ultimately have len: "int (length (take (nat ?kills) ?all)) = ?kills" using assms(2) by auto
  have "take (length ?sentenced) ?all = ?sentenced" by simp
  then have sent: "set ?sentenced \<subseteq> set (take (nat ?kills) ?all)"
    using set_take_subset_set_take [of "length ?sentenced" "nat ?kills" ?all] by auto
  define decommission where "decommission = take (nat ?kills) ?all"
  define start where "start = scaleTo - int (length ?running) + ?kills"
  have "set decommission \<subseteq> set ?running" unfolding decommission_def by (rule ord_le_eq_trans [OF set_take_subset all(1)])
  moreover have "distinct (map in_id decommission)" unfolding decommission_def take_map [symmetric] by (rule distinct_take [OF all(2)])
  moreover have "\<forall>i\<in>set decommission. in_id i \<in> in_id ` set toDecommission" if "0 < start"
  proof -
    have "nat ?kills = length ?sentenced" using that by (simp add: start_def)
    then show ?thesis by (simp add: decommission_def)
  qed
  moreover have "\<forall>i\<in>set ?running. in_id i \<in> in_id ` set toDecommission \<longrightarrow> i \<in> set decommission"
    using sent unfolding decommission_def by auto
  moreover have "0 \<le> start" "int (length ?running) - int (length decommission) + start = scaleTo"
    using len unfolding start_def decommission_def by linarith+
  moreover have "propose instances toDecommission chooser scaleTo select now = Inr (decommission, start)"
    unfolding p decommission_def start_def ..
  ultimately show ?thesis by blast
qed

end

interpretation choice: constraint_choice "selectInstancesToKill constraints"
  by unfold_locales (rule select_sound)



section \<open>Even after the choice\<close>

text \<open>How far the sizes of the groups of \<open>xs\<close> are apart once those in \<open>ys\<close> are gone.\<close>

definition imbalance :: "(mesos_instance \<Rightarrow> string option) \<Rightarrow> mesos_instance list \<Rightarrow> mesos_instance list \<Rightarrow> int" where
  "imbalance f xs ys = (let sizes = (\<lambda>k. int (count_in f k (filter (\<lambda>i. i \<notin> set ys) xs))) ` f ` set xs in Max sizes - Min sizes)"

lemma foldr_max_Max: "xs \<noteq> [] \<Longrightarrow> foldr max xs (0 :: nat) = Max (set xs)"
proof -
  have "foldr max xs (0 :: nat) = Max (insert 0 (set xs))" by (induction xs) (auto simp: insert_commute)
  then show "xs \<noteq> [] \<Longrightarrow> ?thesis" by (simp add: max_def)
qed

lemma foldr_min_Min:
  assumes "xs \<noteq> []" and "\<forall>x\<in>set xs. x \<le> (m :: nat)"
  shows "foldr min xs m = Min (set xs)"
proof -
  have "foldr min xs m = Min (insert m (set xs))" by (induction xs) (auto simp: insert_commute)
  also have "\<dots> = min m (Min (set xs))" using assms(1) by (simp add: Min_insert)
  also have "\<dots> = Min (set xs)" using assms Min_in [of "set xs"] by (simp add: min_absorb2)
  finally show ?thesis .
qed

lemma sizes_without_counts:
  assumes "distinct (map in_id xs)" and "set ys \<subseteq> set xs"
  shows "sizes_without (distribution_of f xs) (map (\<lambda>i. (in_id i, i)) ys)
    = map (\<lambda>k. count_in f k (filter (\<lambda>i. i \<notin> set ys) xs)) (remdups (map f xs))"
proof -
  have inj: "inj_on in_id (set xs)" using assms(1) by (simp add: distinct_map)
  have "length (without_keys (instancesById (filter (\<lambda>i. f i = k) xs)) (map in_id ys)) = count_in f k (filter (\<lambda>i. i \<notin> set ys) xs)" for k
  proof -
    have "instancesById (filter (\<lambda>i. f i = k) xs) = map (\<lambda>i. (in_id i, i)) (filter (\<lambda>i. f i = k) xs)"
      by (rule instancesById_distinct) (rule distinct_map_filter [OF assms(1)])
    then have "length (without_keys (instancesById (filter (\<lambda>i. f i = k) xs)) (map in_id ys))
        = length (filter (\<lambda>i. in_id i \<notin> in_id ` set ys) (filter (\<lambda>i. f i = k) xs))"
      by (simp add: without_keys_def filter_map comp_def case_prod_unfold)
    also have "filter (\<lambda>i. in_id i \<notin> in_id ` set ys) (filter (\<lambda>i. f i = k) xs) = filter (\<lambda>i. f i = k) (filter (\<lambda>i. i \<notin> set ys) xs)"
      unfolding filter_filter using inj assms(2) by (intro filter_cong) (auto dest: inj_onD)
    finally show ?thesis by (simp add: count_in_def)
  qed
  then show ?thesis by (simp add: sizes_without_def distribution_of_def comp_def)
qed

lemma distributionDifference_imbalance:
  assumes "distinct (map in_id xs)" and "set ys \<subseteq> set xs" and "xs \<noteq> []"
  shows "distributionDifference (distribution_of f xs) (map (\<lambda>i. (in_id i, i)) ys) = imbalance f xs ys"
proof -
  let ?c = "\<lambda>k. count_in f k (filter (\<lambda>i. i \<notin> set ys) xs)"
  let ?sizes = "map ?c (remdups (map f xs))"
  have ne: "?sizes \<noteq> []" using assms(3) by simp
  have set: "set ?sizes = ?c ` f ` set xs" by simp
  have "foldr min ?sizes (foldr max ?sizes 0) = Min (set ?sizes)"
    using foldr_max_Max [OF ne] by (intro foldr_min_Min [OF ne]) simp
  then have "distributionDifference (distribution_of f xs) (map (\<lambda>i. (in_id i, i)) ys) = int (Max (?c ` f ` set xs)) - int (Min (?c ` f ` set xs))"
    unfolding distributionDifference_def Let_def sizes_without_counts [OF assms(1,2)] foldr_max_Max [OF ne] set by simp
  moreover have "Max (int ` ?c ` f ` set xs) = int (Max (?c ` f ` set xs))" "Min (int ` ?c ` f ` set xs) = int (Min (?c ` f ` set xs))"
    using assms(3) by (auto intro!: mono_Max_commute [symmetric] mono_Min_commute [symmetric] monoI)
  ultimately show ?thesis by (simp add: imbalance_def Let_def image_image)
qed

text \<open>
  C40. The choice for the constraints of a run spec: of running instances with different ids it chooses no
  more than the number asked for, each once, and all of them exactly if all are asked for. If it
  chooses any but not all, then for every \<open>GROUP_BY\<close> constraint the groups that remain differ by one at
  most, or by less than before.
\<close>

theorem choice_keeps_even:
  assumes "distinct (map in_id xs)" and "0 \<le> n" and "n \<le> int (length xs)"
  shows "\<exists>ys. selectInstancesToKill constraints xs n = Inr ys \<and> set ys \<subseteq> set xs \<and> distinct (map in_id ys) \<and> int (length ys) \<le> n
    \<and> (n = int (length xs) \<longrightarrow> ys = xs)
    \<and> (n < int (length xs) \<and> ys \<noteq> [] \<longrightarrow> (\<forall>c\<in>set constraints. cn_operator c = GROUP_BY \<longrightarrow>
        imbalance (placed_reader (cn_field c)) xs ys \<le> 1
        \<or> imbalance (placed_reader (cn_field c)) xs ys < imbalance (placed_reader (cn_field c)) xs []))"
proof -
  obtain ys where ys: "selectInstancesToKill constraints xs n = Inr ys" "set ys \<subseteq> set xs" "distinct (map in_id ys)" "int (length ys) \<le> n"
    using select_sound [OF assms] by blast
  have whole: "ys = xs" if "n = int (length xs)" using ys(1) that by (simp add: selectInstancesToKill_def)
  have even: "imbalance (placed_reader (cn_field c)) xs ys \<le> 1
      \<or> imbalance (placed_reader (cn_field c)) xs ys < imbalance (placed_reader (cn_field c)) xs []"
    if n: "n < int (length xs)" "ys \<noteq> []" and c: "c \<in> set constraints" "cn_operator c = GROUP_BY" for c
  proof -
    let ?f = "placed_reader (cn_field c)" and ?sel = "select_loop constraints xs n []"
    have xs: "xs \<noteq> []" using n(1) assms(2) by auto
    have d: "distribution_of ?f xs \<in> set (distributions constraints xs)" using c by (auto simp: distributions_def)
    then have "ys = by_values ?sel" using ys(1) n xs by (auto simp: selectInstancesToKill_def split: if_splits)
    moreover have "ids_ok (set xs) ?sel" "?sel = [] \<or> isMoreEvenWithout (distribution_of ?f xs) ?sel"
      using select_loop_spec [of xs "[]" n constraints] assms(2) d by (auto simp: ids_ok_def)
    moreover have "?sel = map (\<lambda>i. (in_id i, i)) (by_values ?sel)"
      using \<open>ids_ok (set xs) ?sel\<close> by (auto simp: ids_ok_def by_values_def comp_def intro!: map_idI [symmetric])
    ultimately have "isMoreEvenWithout (distribution_of ?f xs) (map (\<lambda>i. (in_id i, i)) ys)" using n(2) by (auto simp: by_values_def)
    then show ?thesis
      using distributionDifference_imbalance [OF assms(1) ys(2) xs, of ?f] distributionDifference_imbalance [OF assms(1) _ xs, of "[]" ?f]
      by (simp add: isMoreEvenWithout_def Let_def)
  qed
  show ?thesis using ys whole even by blast
qed

theorem choice_keeps_even_witness:
  "\<exists>ys. selectInstancesToKill [group_by_host None]
      [sample_instance ''i1'' ''a'', sample_instance ''i2'' ''a'', sample_instance ''i3'' ''a'', sample_instance ''i4'' ''b''] 2 = Inr ys
    \<and> length ys = 2 \<and> imbalance in_hostname
      [sample_instance ''i1'' ''a'', sample_instance ''i2'' ''a'', sample_instance ''i3'' ''a'', sample_instance ''i4'' ''b''] ys \<le> 1"
proof -
  let ?is = "[sample_instance ''i1'' ''a'', sample_instance ''i2'' ''a'', sample_instance ''i3'' ''a'', sample_instance ''i4'' ''b'']"
  let ?c = "group_by_host None"
  have d: "distinct (map in_id ?is)" by code_simp
  obtain ys where y: "selectInstancesToKill [?c] ?is 2 = Inr ys" "ys \<noteq> [] \<longrightarrow> imbalance (placed_reader (cn_field ?c)) ?is ys \<le> 1
      \<or> imbalance (placed_reader (cn_field ?c)) ?is ys < imbalance (placed_reader (cn_field ?c)) ?is []"
    using choice_keeps_even [OF d, of 2 "[?c]"] by (auto simp: group_by_host_def)
  have "map_sum id length (selectInstancesToKill [?c] ?is 2) = Inr 2" by code_simp
  then have len: "length ys = 2" using y(1) by simp
  have "imbalance (placed_reader (cn_field ?c)) ?is [] = 2" by code_simp
  moreover have "placed_reader (cn_field ?c) = in_hostname" by (auto simp: placed_reader_def group_by_host_def hostnameField_def)
  ultimately show ?thesis using y len by auto
qed

section \<open>Who is killed first\<close>

text \<open>A time that is missing comes before all others.\<close>

fun none_first :: "int option \<Rightarrow> int option \<Rightarrow> bool" where
  "none_first None b = True"
| "none_first (Some a) None = False"
| "none_first (Some a) (Some b) = (a \<le> b)"

definition kill_time :: "int \<Rightarrow> kill_selection \<Rightarrow> mesos_instance \<Rightarrow> int option" where
  "kill_time now select i = map_option (\<lambda>t. case select of YoungestFirst \<Rightarrow> - t | OldestFirst \<Rightarrow> t)
     (case in_condition i of Staging \<Rightarrow> Some (stagedAt now i) | Starting \<Rightarrow> Some (in_since i) | _ \<Rightarrow> in_activeSince i)"

lemma weight_simps: "weight c = 2 \<longleftrightarrow> c = Staging" "weight c = 3 \<longleftrightarrow> c = Starting"
  by (cases c; simp add: weight_def)+

lemma kill_order_key:
  "fromLessThan (sortByConditionAndDate now select) a b \<le> 0 \<longleftrightarrow>
    weight (in_condition a) < weight (in_condition b)
    \<or> weight (in_condition a) = weight (in_condition b) \<and> none_first (kill_time now select a) (kill_time now select b)"
proof (cases "weight (in_condition a) = weight (in_condition b)")
  case False
  then show ?thesis by (auto simp: fromLessThan_def sortByConditionAndDate_def Let_def)
next
  case True
  have same: "in_condition a = Staging \<longleftrightarrow> in_condition b = Staging" "in_condition a = Starting \<longleftrightarrow> in_condition b = Starting"
    using weight_simps True by metis+
  consider "in_condition a = Staging" | "in_condition a = Starting"
    | "in_condition a \<noteq> Staging" "in_condition a \<noteq> Starting" "in_condition b \<noteq> Staging" "in_condition b \<noteq> Starting"
    using same by blast
  then show ?thesis
  proof cases
    case 3
    then have "kill_time now select i = map_option (\<lambda>t. case select of YoungestFirst \<Rightarrow> - t | OldestFirst \<Rightarrow> t) (in_activeSince i)" if "i = a \<or> i = b" for i
      using that by (cases "in_condition i") (auto simp: kill_time_def)
    then show ?thesis using 3 True
      by (cases select; cases "in_activeSince a"; cases "in_activeSince b") (simp_all add: fromLessThan_def sortByConditionAndDate_def Let_def)
  qed (use same True in \<open>cases select; simp add: fromLessThan_def sortByConditionAndDate_def Let_def kill_time_def\<close>)+
qed

interpretation kill_order: comparator "fromLessThan (sortByConditionAndDate now select)"
proof
  have total: "none_first x y \<or> none_first y x" and trans: "none_first x y \<Longrightarrow> none_first y z \<Longrightarrow> none_first x z" for x y z
    by (cases x; cases y; cases z; auto)+
  show "fromLessThan (sortByConditionAndDate now select) x y \<le> 0 \<or> fromLessThan (sortByConditionAndDate now select) y x \<le> 0" for x y
    unfolding kill_order_key using total by (metis linorder_less_linear)
  show "fromLessThan (sortByConditionAndDate now select) x z \<le> 0"
    if "fromLessThan (sortByConditionAndDate now select) x y \<le> 0" "fromLessThan (sortByConditionAndDate now select) y z \<le> 0" for x y z
    using that unfolding kill_order_key by (elim disjE conjE) (auto intro: trans)
qed

lemma sorted_take:
  assumes "sorted_wrt P xs" and "v \<in> set (take m xs)" and "s \<in> set xs" and "s \<notin> set (take m xs)"
  shows "P v s"
proof -
  have "set xs = set (take m xs) \<union> set (drop m xs)" by (metis append_take_drop_id set_append)
  then have "s \<in> set (drop m xs)" using assms(3,4) by auto
  moreover have "sorted_wrt P (take m xs @ drop m xs)" using assms(1) by simp
  ultimately show ?thesis using assms(2) by (simp only: sorted_wrt_append)
qed

lemma select_without_group_by:
  assumes "\<forall>c\<in>set constraints. cn_operator c \<noteq> GROUP_BY" and "selectInstancesToKill constraints xs n = Inr ys"
  shows "ys = [] \<or> ys = xs \<and> n = int (length xs)"
proof -
  have "distributions constraints xs = []" using assms(1) by (simp add: distributions_def filter_empty_conv)
  then show ?thesis using assms(2) by (auto simp: selectInstancesToKill_def split: if_splits)
qed

text \<open>
  Who goes first, for a run spec without \<open>GROUP_BY\<close>: an instance that was not sentenced and is
  decommissioned does not come after one that stays, in the order by condition and then by the time the
  run spec selects for. Unreachable, staging, starting and running instances come in this order, before
  all others, so a scheduled one goes only if no running one stays.
\<close>

theorem kill_order:
  assumes "distinct (map in_id instances)" and "0 \<le> scaleTo" and "\<forall>c\<in>set constraints. cn_operator c \<noteq> GROUP_BY"
    and p: "propose instances toDecommission (selectInstancesToKill constraints) scaleTo select now = Inr (decommission, start)"
    and v: "v \<in> set decommission" "in_id v \<notin> in_id ` set toDecommission"
    and s: "s \<in> set (goal_running instances)" "s \<notin> set decommission"
  shows "(sortByConditionAndDate now select v s \<or> \<not> sortByConditionAndDate now select s v)
    \<and> weight (in_condition v) \<le> weight (in_condition s)
    \<and> (in_condition v = Scheduled \<longrightarrow> in_condition s \<noteq> Running)"
proof -
  let ?running = "goal_running instances"
  let ?sentenced = "filter (\<lambda>i. in_id i \<in> in_id ` set toDecommission) ?running"
  let ?free = "filter (\<lambda>i. in_id i \<notin> in_id ` set toDecommission) ?running"
  let ?kills = "max (int (length ?running) - scaleTo) (int (length ?sentenced))"
  let ?lt = "sortByConditionAndDate now select"
  obtain chosen where c: "selectInstancesToKill constraints ?free (?kills - int (length ?sentenced)) = Inr chosen"
      "set chosen \<subseteq> set ?free" "distinct (map in_id chosen)"
    and p': "propose instances toDecommission (selectInstancesToKill constraints) scaleTo select now
      = Inr (take (nat ?kills) (?sentenced @ chosen @ sortWith ?lt (filter (\<lambda>i. in_id i \<notin> in_id ` set chosen) ?free)),
          scaleTo - int (length ?running) + ?kills)"
    using choice.propose_parts [OF assms(1,2), of constraints toDecommission select now] by blast
  have d: "distinct (map in_id ?running)" using assms(1) by (simp add: goal_running_def distinct_map_filter)
  let ?all = "?sentenced @ chosen @ sortWith ?lt (filter (\<lambda>i. in_id i \<notin> in_id ` set chosen) ?free)"
  have all: "set ?all = set ?running" by (rule ordered_candidates(1) [OF d c(2,3)])
  have dec: "decommission = take (nat ?kills) ?all" using p p' by simp
  have "chosen = []"
  proof (rule ccontr)
    assume "chosen \<noteq> []"
    then have full: "chosen = ?free" "?kills - int (length ?sentenced) = int (length ?free)"
      using select_without_group_by [OF assms(3) c(1)] by blast+
    then have "nat ?kills = length ?sentenced + length ?free" by linarith
    then have "set decommission = set ?all" unfolding dec full(1) by auto
    then show False using all s by blast
  qed
  then have dec: "decommission = take (nat ?kills) (?sentenced @ sortWith ?lt ?free)" using dec by simp
  have split: "take (nat ?kills) (?sentenced @ sortWith ?lt ?free) = ?sentenced @ take (nat ?kills - length ?sentenced) (sortWith ?lt ?free)"
    by simp
  let ?m = "nat ?kills - length ?sentenced"
  have v': "v \<in> set (take ?m (sortWith ?lt ?free))" using v unfolding dec split by auto
  have s': "s \<in> set (sortWith ?lt ?free)" "s \<notin> set (take ?m (sortWith ?lt ?free))" using s unfolding dec split by auto
  have "sorted_wrt (\<lambda>x y. fromLessThan ?lt x y \<le> 0) (sortWith ?lt ?free)" unfolding sortWith_def by (rule kill_order.sorted_sort)
  from sorted_take [OF this v' s'] have le: "fromLessThan ?lt v s \<le> 0" .
  then have w: "weight (in_condition v) \<le> weight (in_condition s)" unfolding kill_order_key by auto
  moreover have "?lt v s \<or> \<not> ?lt s v" using le by (auto simp: fromLessThan_def split: if_splits)
  moreover have "in_condition v = Scheduled \<longrightarrow> in_condition s \<noteq> Running" using w by (auto simp: weight_def)
  ultimately show ?thesis by blast
qed

theorem kill_order_witness:
  "let running = sample_instance ''i1'' ''a''; scheduled = (sample_instance ''i2'' ''a'')\<lparr>in_condition := Scheduled, in_activeSince := None\<rparr>
   in propose [running, scheduled] [] (selectInstancesToKill []) 1 YoungestFirst 9 = Inr ([running], 0)
    \<and> weight (in_condition running) \<le> weight (in_condition scheduled)"
proof -
  let ?r = "sample_instance ''i1'' ''a''" and ?s = "(sample_instance ''i2'' ''a'')\<lparr>in_condition := Scheduled, in_activeSince := None\<rparr>"
  have d: "distinct (map in_id [?r, ?s])" "(0 :: int) \<le> 1" "\<forall>c\<in>set []. cn_operator c \<noteq> GROUP_BY" by code_simp+
  have p: "propose [?r, ?s] [] (selectInstancesToKill []) 1 YoungestFirst 9 = Inr ([?r], 0)" by code_simp
  have v: "?r \<in> set [?r]" "in_id ?r \<notin> in_id ` set []" "?s \<in> set (goal_running [?r, ?s])" "?s \<notin> set [?r]" by code_simp+
  show ?thesis using kill_order [OF d p v] p by (simp add: Let_def)
qed

text \<open>The order is not strict: two instances of the same weight that never were active come before each other.\<close>

lemma never_active_both_first:
  assumes "weight (in_condition a) = weight (in_condition b)" and "in_condition a \<notin> {Staging, Starting}"
    and "in_activeSince a = None" and "in_activeSince b = None"
  shows "sortByConditionAndDate now select a b \<and> sortByConditionAndDate now select b a"
  using assms by (simp add: sortByConditionAndDate_def Let_def)

end
