(* ===== verification/RootGroup.thy ===== *)
theory RootGroup
  imports GroupTree
begin

text \<open>
  The operations that edit a tree of groups (\<open>state/RootGroup.scala\<close>), and what they do to its contents:
  each is shown to be an update of the map from identifiers to what a group holds itself. The strategy
  for new groups, a field of the root group in the code, is an argument.
\<close>

section \<open>New groups\<close>

datatype edit_error = NoSuchGroup path_id | NoSuchKey path_id | RequirementFailed

datatype role_behavior = Off | Top

fun behavior_option :: "role_behavior \<Rightarrow> bool option" where
  "behavior_option Off = Some False"
| "behavior_option Top = Some True"

datatype new_group_strategy = Fail | UsingConfig role_behavior

text \<open>\<open>Group.apply\<close> settles whether the role is enforced; a top-level group says so, no other does.\<close>

definition make_group :: "path_id \<Rightarrow> (path_id \<times> ('c, 'o) run_spec) list \<Rightarrow> (path_id \<times> ('c, 'o) run_spec) list
    \<Rightarrow> (path_id \<times> ('c, 'o) group) list \<Rightarrow> path_id list \<Rightarrow> nat \<Rightarrow> bool option \<Rightarrow> ('c, 'o) group" where
  "make_group i apps pods groups deps version enforceRole =
     Group i apps pods groups deps version
       (if isTopLevel i then (case enforceRole of None \<Rightarrow> Some False | Some b \<Rightarrow> Some b) else None)"

definition empty_group :: "path_id \<Rightarrow> bool option \<Rightarrow> ('c, 'o) group" where
  "empty_group i enforceRole = make_group i [] [] [] [] 0 enforceRole"

fun new_group :: "new_group_strategy \<Rightarrow> path_id \<Rightarrow> edit_error + ('c, 'o) group" where
  "new_group Fail i = Inl (NoSuchGroup i)"
| "new_group (UsingConfig behavior) i =
     Inr (empty_group i (if isTopLevel i then behavior_option behavior else None))"

definition group_or_new :: "new_group_strategy \<Rightarrow> ('c, 'o) group \<Rightarrow> path_id \<Rightarrow> edit_error + ('c, 'o) group" where
  "group_or_new st t i = (case group_at t i of Some g \<Rightarrow> Inr g | None \<Rightarrow> new_group st i)"

fun containsApps :: "('c, 'o) group \<Rightarrow> bool" where
  "containsApps (Group i apps pods groups deps ver enf) = (apps \<noteq> [] \<or> list_ex (\<lambda>(k, g). containsApps g) groups)"

fun containsPods :: "('c, 'o) group \<Rightarrow> bool" where
  "containsPods (Group i apps pods groups deps ver enf) = (pods \<noteq> [] \<or> list_ex (\<lambda>(k, g). containsPods g) groups)"

definition containsAppsOrPodsOrGroups :: "('c, 'o) group \<Rightarrow> bool" where
  "containsAppsOrPodsOrGroups g = (gr_apps g \<noteq> [] \<or> gr_groups g \<noteq> [] \<or> gr_pods g \<noteq> [])"

definition withDependencies :: "path_id list \<Rightarrow> ('c, 'o) group \<Rightarrow> ('c, 'o) group" where
  "withDependencies deps g =
     Group (gr_id g) (gr_apps g) (gr_pods g) (gr_groups g) deps (gr_version g) (gr_enforceRole g)"

text \<open>Setting the enforcement of a role fails for a group that is not top-level; removing it sets it to false.\<close>

definition withEnforceRole :: "bool \<Rightarrow> ('c, 'o) group \<Rightarrow> edit_error + ('c, 'o) group" where
  "withEnforceRole b g = (if isTopLevel (gr_id g)
     then Inr (Group (gr_id g) (gr_apps g) (gr_pods g) (gr_groups g) (gr_dependencies g) (gr_version g) (Some b))
     else Inl RequirementFailed)"

definition withoutEnforceRole :: "('c, 'o) group \<Rightarrow> edit_error + ('c, 'o) group" where
  "withoutEnforceRole g = withEnforceRole False g"

section \<open>Putting a group\<close>

text \<open>The private \<open>updateVersion\<close> of a group with all groups below it.\<close>

fun set_version :: "nat \<Rightarrow> ('c, 'o) group \<Rightarrow> ('c, 'o) group" where
  "set_version version (Group i apps pods groups deps ver enf) =
     make_group i apps pods (map (\<lambda>(k, g). (k, set_version version g)) groups) deps version enf"

text \<open>\<open>updatedWith\<close>: \<open>fromGroup\<close> takes everything but the role of the group.\<close>

definition updatedWith :: "('c, 'o) group \<Rightarrow> edit_error + ('c, 'o) group" where
  "updatedWith g = (if isRoot (gr_id g)
     then Inr (Group path_root (gr_apps g) (gr_pods g) (gr_groups g) (gr_dependencies g) (gr_version g) None)
     else Inl RequirementFailed)"

text \<open>The tree is rebuilt from the new group up to the root.\<close>

definition with_child :: "nat \<Rightarrow> ('c, 'o) group \<Rightarrow> ('c, 'o) group \<Rightarrow> ('c, 'o) group" where
  "with_child version result oldParent = make_group (gr_id oldParent) (gr_apps oldParent) (gr_pods oldParent)
     (AList.update (gr_id result) result (gr_groups oldParent)) (gr_dependencies oldParent) version (gr_enforceRole oldParent)"

fun rebuildTree :: "new_group_strategy \<Rightarrow> ('c, 'o) group \<Rightarrow> nat \<Rightarrow> path_id list \<Rightarrow> ('c, 'o) group \<Rightarrow> edit_error + ('c, 'o) group" where
  "rebuildTree st t version [] result = Inr result"
| "rebuildTree st t version (head # tail) result =
     rbind (group_or_new st t head) (\<lambda>oldParent.
       rebuildTree st t version tail (with_child version result oldParent))"

definition putGroup :: "new_group_strategy \<Rightarrow> ('c, 'o) group \<Rightarrow> ('c, 'o) group \<Rightarrow> nat \<Rightarrow> edit_error + ('c, 'o) group" where
  "putGroup st t added version =
     rbind (rebuildTree st t version (allParents (gr_id added)) added) (\<lambda>g. updatedWith (set_version version g))"

text \<open>\<open>makeGroup\<close> asks for a new group before it looks whether there is one.\<close>

definition makeGroup :: "new_group_strategy \<Rightarrow> ('c, 'o) group \<Rightarrow> path_id \<Rightarrow> edit_error + ('c, 'o) group" where
  "makeGroup st t groupId =
     rbind (new_group st groupId) (\<lambda>g. case group_at t groupId of
       None \<Rightarrow> putGroup st t g (gr_version t) | Some _ \<Rightarrow> Inr t)"

section \<open>Updates\<close>

fun update_all_apps :: "(('c, 'o) run_spec \<Rightarrow> ('c, 'o) run_spec) \<Rightarrow> nat \<Rightarrow> ('c, 'o) group \<Rightarrow> ('c, 'o) group" where
  "update_all_apps app version (Group i apps pods groups deps ver enf) =
     make_group i (map (\<lambda>(k, a). (k, app a)) apps) pods
       (map (\<lambda>(k, g). (k, update_all_apps app version g)) groups) deps version enf"

definition updateTransitiveApps :: "new_group_strategy \<Rightarrow> ('c, 'o) group \<Rightarrow> path_id
    \<Rightarrow> (('c, 'o) run_spec \<Rightarrow> ('c, 'o) run_spec) \<Rightarrow> nat \<Rightarrow> edit_error + ('c, 'o) group" where
  "updateTransitiveApps st t groupId app version =
     rbind (group_or_new st t groupId) (\<lambda>oldGroup. putGroup st t (update_all_apps app version oldGroup) version)"

definition updateApps :: "new_group_strategy \<Rightarrow> ('c, 'o) group \<Rightarrow> path_id
    \<Rightarrow> ((path_id \<times> ('c, 'o) run_spec) list \<Rightarrow> (path_id \<times> ('c, 'o) run_spec) list) \<Rightarrow> nat \<Rightarrow> edit_error + ('c, 'o) group" where
  "updateApps st t groupId apps version =
     rbind (group_or_new st t groupId) (\<lambda>oldGroup.
       putGroup st t (make_group (gr_id oldGroup) (apps (gr_apps oldGroup)) (gr_pods oldGroup) (gr_groups oldGroup)
         (gr_dependencies oldGroup) version (gr_enforceRole oldGroup)) version)"

definition updateDependencies :: "new_group_strategy \<Rightarrow> ('c, 'o) group \<Rightarrow> path_id
    \<Rightarrow> (path_id list \<Rightarrow> path_id list) \<Rightarrow> nat \<Rightarrow> edit_error + ('c, 'o) group" where
  "updateDependencies st t groupId dependencies version =
     rbind (group_or_new st t groupId) (\<lambda>oldGroup.
       putGroup st t (withDependencies (dependencies (gr_dependencies oldGroup)) oldGroup) version)"

text \<open>A group whose id a new run spec takes goes, unless it contains run specs.\<close>

definition without_group :: "path_id \<Rightarrow> (path_id \<times> ('c, 'o) group) list \<Rightarrow> (path_id \<times> ('c, 'o) group) list" where
  "without_group i groups = filter (\<lambda>(k, g). gr_id g \<noteq> i \<or> containsApps g \<or> containsPods g) groups"

definition updateApp :: "new_group_strategy \<Rightarrow> ('c, 'o) group \<Rightarrow> path_id
    \<Rightarrow> (('c, 'o) run_spec option \<Rightarrow> ('c, 'o) run_spec) \<Rightarrow> nat \<Rightarrow> edit_error + ('c, 'o) group" where
  "updateApp st t appId fn version =
     rbind (group_or_new st t (path_parent appId)) (\<lambda>oldGroup.
       let newApp = fn (app_at t appId)
       in if rs_id newApp \<noteq> appId then Inl RequirementFailed
          else putGroup st t (make_group (gr_id oldGroup) (AList.update (rs_id newApp) newApp (gr_apps oldGroup)) (gr_pods oldGroup)
            (without_group (rs_id newApp) (gr_groups oldGroup)) (gr_dependencies oldGroup) version (gr_enforceRole oldGroup)) version)"

definition updatePod :: "new_group_strategy \<Rightarrow> ('c, 'o) group \<Rightarrow> path_id
    \<Rightarrow> (('c, 'o) run_spec option \<Rightarrow> ('c, 'o) run_spec) \<Rightarrow> nat \<Rightarrow> edit_error + ('c, 'o) group" where
  "updatePod st t podId fn version =
     rbind (group_or_new st t (path_parent podId)) (\<lambda>oldGroup.
       let newPod = fn (pod_at t podId)
       in if rs_id newPod \<noteq> podId then Inl RequirementFailed
          else putGroup st t (make_group (gr_id oldGroup) (gr_apps oldGroup) (AList.update (rs_id newPod) newPod (gr_pods oldGroup))
            (without_group (rs_id newPod) (gr_groups oldGroup)) (gr_dependencies oldGroup) version (gr_enforceRole oldGroup)) version)"

definition updateGroup :: "new_group_strategy \<Rightarrow> ('c, 'o) group \<Rightarrow> path_id
    \<Rightarrow> (('c, 'o) group option \<Rightarrow> ('c, 'o) group) \<Rightarrow> edit_error + ('c, 'o) group" where
  "updateGroup st t groupId fn = (let g = fn (group_at t groupId) in putGroup st t g (gr_version g))"

definition updateVersion :: "('c, 'o) group \<Rightarrow> nat \<Rightarrow> edit_error + ('c, 'o) group" where
  "updateVersion t version = updatedWith (set_version version t)"

definition removeGroup :: "new_group_strategy \<Rightarrow> ('c, 'o) group \<Rightarrow> path_id \<Rightarrow> nat \<Rightarrow> edit_error + ('c, 'o) group" where
  "removeGroup st t groupId version =
     (if isRoot groupId then Inl RequirementFailed
      else case group_at t groupId of
        None \<Rightarrow> updateVersion t version
      | Some oldGroup \<Rightarrow> (case group_at t (path_parent (gr_id oldGroup)) of
          None \<Rightarrow> Inl (NoSuchKey (path_parent (gr_id oldGroup)))
        | Some oldParent \<Rightarrow> putGroup st t (make_group (gr_id oldParent) (gr_apps oldParent) (gr_pods oldParent)
            (AList.delete (gr_id oldGroup) (gr_groups oldParent)) (gr_dependencies oldParent) version (gr_enforceRole oldParent)) version))"

definition removeApp :: "new_group_strategy \<Rightarrow> ('c, 'o) group \<Rightarrow> path_id \<Rightarrow> nat \<Rightarrow> edit_error + ('c, 'o) group" where
  "removeApp st t appId version =
     (case app_at t appId of
        None \<Rightarrow> updateVersion t version
      | Some oldApp \<Rightarrow> (case group_at t (path_parent (rs_id oldApp)) of
          None \<Rightarrow> Inl (NoSuchKey (path_parent (rs_id oldApp)))
        | Some oldGroup \<Rightarrow> putGroup st t (make_group (gr_id oldGroup) (AList.delete (rs_id oldApp) (gr_apps oldGroup)) (gr_pods oldGroup)
            (gr_groups oldGroup) (gr_dependencies oldGroup) version (gr_enforceRole oldGroup)) version))"

definition removePod :: "new_group_strategy \<Rightarrow> ('c, 'o) group \<Rightarrow> path_id \<Rightarrow> nat \<Rightarrow> edit_error + ('c, 'o) group" where
  "removePod st t podId version =
     (case pod_at t podId of
        None \<Rightarrow> updateVersion t version
      | Some oldPod \<Rightarrow> (case group_at t (path_parent (rs_id oldPod)) of
          None \<Rightarrow> Inl (NoSuchKey (path_parent (rs_id oldPod)))
        | Some oldGroup \<Rightarrow> putGroup st t (make_group (gr_id oldGroup) (gr_apps oldGroup) (AList.delete (rs_id oldPod) (gr_pods oldGroup))
            (gr_groups oldGroup) (gr_dependencies oldGroup) version (gr_enforceRole oldGroup)) version))"

fun normalize_versions :: "('c, 'o) group \<Rightarrow> ('c, 'o) group" where
  "normalize_versions (Group i apps pods groups deps ver enf) =
     make_group i (map (\<lambda>(k, a). (k, a\<lparr>rs_versionInfo := NoVersion\<rparr>)) apps) (map (\<lambda>(k, p). (k, p\<lparr>rs_versionInfo := NoVersion\<rparr>)) pods)
       (map (\<lambda>(k, g). (k, normalize_versions g)) groups) deps 0 enf"

definition withNormalizedVersions :: "('c, 'o) group \<Rightarrow> edit_error + ('c, 'o) group" where
  "withNormalizedVersions t = updatedWith (normalize_versions t)"


section \<open>Contents\<close>

text \<open>What a group holds itself, its groups aside, and the contents of a tree: the map from ids to that.\<close>

record ('c, 'o) node =
  nd_apps :: "path_id \<rightharpoonup> ('c, 'o) run_spec"
  nd_pods :: "path_id \<rightharpoonup> ('c, 'o) run_spec"
  nd_deps :: "path_id set"
  nd_enforceRole :: "bool option"

definition node_of :: "('c, 'o) group \<Rightarrow> ('c, 'o) node" where
  "node_of g = \<lparr>nd_apps = map_of (gr_apps g), nd_pods = map_of (gr_pods g), nd_deps = set (gr_dependencies g), nd_enforceRole = gr_enforceRole g\<rparr>"

type_synonym ('c, 'o) contents = "path_id \<rightharpoonup> ('c, 'o) node"

definition contents_of :: "('c, 'o) group \<Rightarrow> ('c, 'o) contents" where
  "contents_of t i = map_option node_of (group_at t i)"

text \<open>The group that a path leads to from a group.\<close>

fun down :: "('c, 'o) group \<Rightarrow> string list \<Rightarrow> ('c, 'o) group option" where
  "down g [] = Some g"
| "down g (x # xs) = (case map_of (gr_groups g) (AbsolutePathId (path_of (gr_id g) @ [x])) of
     None \<Rightarrow> None | Some h \<Rightarrow> down h xs)"

lemma absolute_path: "is_absolute i \<Longrightarrow> AbsolutePathId (path_of i) = i"
  by (cases i) simp_all

lemma wf_groups_distinct: "wf_group g \<Longrightarrow> distinct (map fst (gr_groups g))"
  by (cases g) simp

lemma child_path:
  assumes "wf_group g" and "(k, h) \<in> set (gr_groups g)"
  shows "\<exists>x. k = AbsolutePathId (path_of (gr_id g) @ [x]) \<and> gr_id h = k \<and> wf_group h"
proof -
  have s: "k = gr_id h" "below (gr_id g) k" "wf_group h" using wf_sub [OF assms] by auto
  then obtain x where "path_of k = path_of (gr_id g) @ [x]" using below_prefix wf_group_absolute [OF assms(1)] by blast
  then have "k = AbsolutePathId (path_of (gr_id g) @ [x])" using s(2) absolute_path [of k] by (simp add: below_def)
  then show ?thesis using s(1,3) by (intro exI [of _ x]) simp
qed

lemma down_wf:
  "wf_group g \<Longrightarrow> down g p = Some h \<Longrightarrow> wf_group h \<and> gr_id h = AbsolutePathId (path_of (gr_id g) @ p)"
proof (induction p arbitrary: g)
  case Nil
  then show ?case using absolute_path [OF wf_group_absolute [OF Nil(1)]] by simp
next
  case (Cons x p)
  then obtain d where d: "map_of (gr_groups g) (AbsolutePathId (path_of (gr_id g) @ [x])) = Some d" "down d p = Some h"
    by (auto split: option.splits)
  then have "wf_group d" "gr_id d = AbsolutePathId (path_of (gr_id g) @ [x])"
    using child_path [OF Cons.prems(1) map_of_SomeD] by blast+
  then show ?case using Cons.IH [of d] d(2) by simp
qed

lemma down_iff:
  "wf_group g \<Longrightarrow> down g p = Some h \<longleftrightarrow> p = [] \<and> h = g \<or> (AbsolutePathId (path_of (gr_id g) @ p), h) \<in> set (transitiveGroups g)"
proof (induction p arbitrary: g)
  case Nil
  have "(gr_id g, h) \<notin> set (transitiveGroups g)" using transitiveGroups_wf [OF Nil, of "gr_id g" h] by auto
  then show ?case using absolute_path [OF wf_group_absolute [OF Nil]] by auto
next
  case (Cons x p)
  let ?c = "AbsolutePathId (path_of (gr_id g) @ [x])" and ?k = "AbsolutePathId (path_of (gr_id g) @ x # p)"
  have through: "c = ?c" if c: "(c, d) \<in> set (gr_groups g)" and "(?k, h) \<in> set (transitiveGroups d) \<or> c = ?k \<and> d = h" for c d
  proof -
    obtain y where y: "c = AbsolutePathId (path_of (gr_id g) @ [y])" "gr_id d = c" "wf_group d"
      using child_path [OF Cons.prems c] by blast
    have "strict_prefix (path_of (gr_id d)) (path_of ?k) \<or> c = ?k" using that(2) transitiveGroups_wf [OF y(3)] by blast
    then show ?thesis using y by (auto simp: strict_prefix_def prefix_def)
  qed
  show ?case
  proof (cases "map_of (gr_groups g) ?c")
    case None
    then have "(?c, d) \<notin> set (gr_groups g)" for d by (metis map_of_eq_None_iff fst_conv image_eqI)
    then have "(?k, h) \<notin> set (transitiveGroups g)" using through in_transitiveGroups by metis
    then show ?thesis using None by simp
  next
    case (Some d)
    then have d: "(?c, d) \<in> set (gr_groups g)" by (rule map_of_SomeD)
    then have w: "wf_group d" "gr_id d = ?c" using child_path [OF Cons.prems d] by blast+
    have only: "d' = d" if "(?c, d') \<in> set (gr_groups g)" for d'
      using that d wf_groups_distinct [OF Cons.prems] by (meson eq_key_imp_eq_value)
    have own: "(?k, h) \<in> set (gr_groups g) \<longleftrightarrow> p = [] \<and> h = d"
    proof
      assume k: "(?k, h) \<in> set (gr_groups g)"
      then have "?k = ?c" by (rule through) simp
      then show "p = [] \<and> h = d" using only k by simp
    qed (use d in simp)
    have "(?k, h) \<in> set (transitiveGroups d)" if c: "(c, d') \<in> set (gr_groups g)" and t: "(?k, h) \<in> set (transitiveGroups d')" for c d'
      using through [OF c] only c t by blast
    then have "(?k, h) \<in> set (transitiveGroups g) \<longleftrightarrow> p = [] \<and> h = d \<or> (?k, h) \<in> set (transitiveGroups d)"
      unfolding in_transitiveGroups [of ?k h g] own using d by blast
    then show ?thesis using Cons.IH [OF w(1)] Some w(2) by simp
  qed
qed


lemma down_append: "down g (p @ q) = Option.bind (down g p) (\<lambda>h. down h q)"
  by (induction p arbitrary: g) (auto split: option.splits)

text \<open>A well-formed tree from the root.\<close>

definition wf_tree :: "('c, 'o) group \<Rightarrow> bool" where
  "wf_tree t = (wf_group t \<and> gr_id t = path_root)"

lemma group_at_down: "wf_tree t \<Longrightarrow> group_at t i = (if is_absolute i then down t (path_of i) else None)"
proof -
  assume t: "wf_tree t"
  have "is_absolute i" if "group_at t i = Some h" for h
    using group_at_wf [of t i h] wf_group_absolute [of h] that t by (auto simp: wf_tree_def)
  moreover have "group_at t i = Some h \<longleftrightarrow> down t (path_of i) = Some h" if "is_absolute i" for h
    using that t group_at_iff [of t i h] down_iff [of t "path_of i" h] absolute_path [OF that]
    by (cases i) (auto simp: wf_tree_def path_root_def)
  ultimately show ?thesis by (cases "group_at t i"; cases "down t (path_of i)") auto
qed

definition node_at :: "('c, 'o) group \<Rightarrow> string list \<Rightarrow> ('c, 'o) node option" where
  "node_at g p = map_option node_of (down g p)"

lemma contents_node: "wf_tree t \<Longrightarrow> contents_of t i = (if is_absolute i then node_at t (path_of i) else None)"
  by (simp add: contents_of_def node_at_def group_at_down)

lemma node_at_Nil [simp]: "node_at g [] = Some (node_of g)"
  by (simp add: node_at_def)

section \<open>Rebuilding\<close>

text \<open>Of two groups with one id and one role, the other parts may differ.\<close>

lemma make_group_sel [simp]:
  "gr_id (make_group i apps pods groups deps v enf) = i" "gr_apps (make_group i apps pods groups deps v enf) = apps"
  "gr_pods (make_group i apps pods groups deps v enf) = pods" "gr_groups (make_group i apps pods groups deps v enf) = groups"
  "gr_dependencies (make_group i apps pods groups deps v enf) = deps" "gr_version (make_group i apps pods groups deps v enf) = v"
  by (simp_all add: make_group_def)

lemma make_group_same: "wf_group g \<Longrightarrow>
  make_group (gr_id g) apps pods groups deps v (gr_enforceRole g) = Group (gr_id g) apps pods groups deps v (gr_enforceRole g)"
  by (cases g) (auto simp: make_group_def split: option.splits)

lemma wf_rebuild:
  assumes "wf_group g" and "distinct (map fst (apps @ pods))" and "distinct (map fst groups)"
    and "\<And>k s. (k, s) \<in> set apps \<Longrightarrow> k = rs_id s \<and> below (gr_id g) k \<and> rs_kind s = App"
    and "\<And>k s. (k, s) \<in> set pods \<Longrightarrow> k = rs_id s \<and> below (gr_id g) k \<and> rs_kind s = Pod"
    and "\<And>k h. (k, h) \<in> set groups \<Longrightarrow> k = gr_id h \<and> below (gr_id g) k \<and> wf_group h"
  shows "wf_group (Group (gr_id g) apps pods groups deps v (gr_enforceRole g))"
proof -
  have "is_absolute (gr_id g)" "gr_enforceRole g \<noteq> None \<longleftrightarrow> isTopLevel (gr_id g)" using assms(1) by (cases g, simp)+
  then show ?thesis using assms(2-6) unfolding wf_group.simps list_all_iff by blast
qed

lemma wf_parts:
  assumes "wf_group g"
  shows "distinct (map fst (gr_apps g @ gr_pods g))"
    and "(k, s) \<in> set (gr_apps g) \<Longrightarrow> k = rs_id s \<and> below (gr_id g) k \<and> rs_kind s = App"
    and "(k, s) \<in> set (gr_pods g) \<Longrightarrow> k = rs_id s \<and> below (gr_id g) k \<and> rs_kind s = Pod"
  using assms by (cases g, fastforce simp: list_all_iff)+

lemma set_update: "(k', x) \<in> set (AList.update k v al) \<Longrightarrow> k' = k \<and> x = v \<or> (k', x) \<in> set al"
  by (induction al) (auto split: if_splits)

lemma allParents_snoc: "allParents (AbsolutePathId (p @ [x])) = AbsolutePathId p # allParents (AbsolutePathId p)"
  by (subst allParents.simps) (simp add: butlast_parent)

lemma allParents_root: "allParents (AbsolutePathId []) = []"
  by (subst allParents.simps) simp

lemma below_snoc: "below (AbsolutePathId p) (AbsolutePathId (p @ [x]))"
  by (simp add: below_def butlast_parent)

lemma with_child:
  assumes "wf_group g" and "gr_id g = AbsolutePathId p" and "wf_group h" and "gr_id h = AbsolutePathId (p @ [x])"
  shows "wf_group (with_child v h g)" and "gr_id (with_child v h g) = AbsolutePathId p" and "node_of (with_child v h g) = node_of g"
    and "down (with_child v h g) (y # ys) = (if y = x then down h ys else down g (y # ys))"
proof -
  obtain apps pods groups deps ver enf where g: "g = Group (AbsolutePathId p) apps pods groups deps ver enf"
    using assms(2) by (cases g) auto
  have w: "with_child v h g = Group (AbsolutePathId p) apps pods (AList.update (AbsolutePathId (p @ [x])) h groups) deps v enf"
    using make_group_same [OF assms(1)] by (simp add: with_child_def assms(4) g)
  have gs: "k = gr_id d \<and> below (gr_id g) k \<and> wf_group d" if "(k, d) \<in> set (AList.update (AbsolutePathId (p @ [x])) h groups)" for k d
    using set_update [OF that] assms(3,4) below_snoc [of p x] wf_sub [OF assms(1)] by (auto simp: g)
  have "wf_group (Group (gr_id g) apps pods (AList.update (AbsolutePathId (p @ [x])) h groups) deps v (gr_enforceRole g))"
    by (rule wf_rebuild [OF assms(1)])
      (use wf_parts [OF assms(1)] wf_groups_distinct [OF assms(1)] gs in \<open>simp_all add: g distinct_update\<close>)
  then show "wf_group (with_child v h g)" unfolding w by (simp add: g)
  show "gr_id (with_child v h g) = AbsolutePathId p" "node_of (with_child v h g) = node_of g"
    unfolding w by (simp_all add: g node_of_def)
  show "down (with_child v h g) (y # ys) = (if y = x then down h ys else down g (y # ys))"
    unfolding w by (simp add: g update_conv' split: option.split)
qed

text \<open>The missing groups on the way to an id.\<close>

definition new_node :: "new_group_strategy \<Rightarrow> path_id \<Rightarrow> ('c, 'o) node" where
  "new_node st i = \<lparr>nd_apps = Map.empty, nd_pods = Map.empty, nd_deps = {}, nd_enforceRole =
     (if isTopLevel i then (case st of Fail \<Rightarrow> None | UsingConfig b \<Rightarrow> behavior_option b) else None)\<rparr>"

definition mkdirs :: "new_group_strategy \<Rightarrow> path_id \<Rightarrow> ('c, 'o) contents \<Rightarrow> ('c, 'o) contents" where
  "mkdirs st i c = (\<lambda>j. if c j = None \<and> is_absolute j \<and> prefix (path_of j) (path_of i) then Some (new_node st j) else c j)"

lemma group_or_new:
  assumes "wf_tree t" and "group_or_new st t (AbsolutePathId p) = Inr g"
  shows "wf_group g" and "gr_id g = AbsolutePathId p"
    and "mkdirs st (AbsolutePathId p) (contents_of t) (AbsolutePathId p) = Some (node_of g)" and "down g (x # xs) = down t (p @ x # xs)"
proof -
  have "wf_group g \<and> gr_id g = AbsolutePathId p \<and> mkdirs st (AbsolutePathId p) (contents_of t) (AbsolutePathId p) = Some (node_of g)
      \<and> (\<forall>x xs. down g (x # xs) = down t (p @ x # xs))"
  proof (cases "down t p")
    case None
    then obtain b where st: "st = UsingConfig b"
      using assms(2) by (cases st) (simp_all add: group_or_new_def group_at_down [OF assms(1)])
    then have g: "g = empty_group (AbsolutePathId p) (if isTopLevel (AbsolutePathId p) then behavior_option b else None)"
      using assms(2) None by (simp add: group_or_new_def group_at_down [OF assms(1)])
    have "behavior_option b \<noteq> None" by (cases b) simp_all
    then show ?thesis
      using None st by (auto simp: g empty_group_def make_group_def mkdirs_def contents_of_def group_at_down [OF assms(1)] new_node_def
          node_of_def down_append)
  next
    case (Some h)
    then have "g = h" using assms(2) by (simp add: group_or_new_def group_at_down [OF assms(1)])
    moreover have "wf_group h \<and> gr_id h = AbsolutePathId p"
      using down_wf [of t p h] assms(1) Some by (auto simp: wf_tree_def path_root_def)
    ultimately show ?thesis using Some by (simp add: mkdirs_def contents_of_def group_at_down [OF assms(1)] down_append)
  qed
  then show "wf_group g" "gr_id g = AbsolutePathId p"
    "mkdirs st (AbsolutePathId p) (contents_of t) (AbsolutePathId p) = Some (node_of g)" "down g (x # xs) = down t (p @ x # xs)"
    by blast+
qed


lemma node_at_Cons: "node_at g (x # xs) = (case map_of (gr_groups g) (AbsolutePathId (path_of (gr_id g) @ [x])) of
    None \<Rightarrow> None | Some h \<Rightarrow> node_at h xs)"
  by (simp add: node_at_def split: option.split)

text \<open>What a tree holds after a group with contents of its own was put at a path.\<close>

definition graft :: "new_group_strategy \<Rightarrow> string list \<Rightarrow> (string list \<rightharpoonup> ('c, 'o) node) \<Rightarrow> ('c, 'o) contents \<Rightarrow> ('c, 'o) contents" where
  "graft st p sub c = (\<lambda>j. if is_absolute j \<and> prefix p (path_of j) then sub (drop (length p) (path_of j))
     else mkdirs st (AbsolutePathId p) c j)"

lemma rebuildTree:
  assumes "wf_tree t"
  shows "wf_group h \<Longrightarrow> gr_id h = AbsolutePathId p \<Longrightarrow> rebuildTree st t v (allParents (AbsolutePathId p)) h = Inr r \<Longrightarrow>
    wf_tree r \<and> contents_of r = graft st p (node_at h) (contents_of t)"
proof (induction p arbitrary: h rule: rev_induct)
  case Nil
  then have r: "r = h" "wf_tree r" by (simp_all add: allParents_root wf_tree_def path_root_def)
  have "contents_of r j = graft st [] (node_at h) (contents_of t) j" for j
    using r contents_node [OF assms, of j] by (simp add: contents_node graft_def mkdirs_def)
  then show ?case using r(2) by blast
next
  case (snoc x p)
  obtain g where g: "group_or_new st t (AbsolutePathId p) = Inr g" and
    r: "rebuildTree st t v (allParents (AbsolutePathId p)) (with_child v h g) = Inr r"
    using snoc.prems(3) by (auto simp: allParents_snoc rbind_eq_Inr)
  note old = group_or_new [OF assms g]
  note new = with_child [OF old(1,2) snoc.prems(1,2)]
  have ih: "wf_tree r \<and> contents_of r = graft st p (node_at (with_child v h g)) (contents_of t)"
    by (rule snoc.IH [OF new(1,2) r])
  have "graft st p (node_at (with_child v h g)) (contents_of t) j = graft st (p @ [x]) (node_at h) (contents_of t) j" for j
  proof (cases "is_absolute j \<and> prefix p (path_of j)")
    case False
    then have "\<not> (is_absolute j \<and> prefix (p @ [x]) (path_of j))" by (auto simp: prefix_def)
    moreover have "prefix (path_of j) (p @ [x]) \<longleftrightarrow> prefix (path_of j) p" if "is_absolute j"
      using False that by (auto simp: prefix_snoc)
    ultimately show ?thesis using False by (auto simp: graft_def mkdirs_def)
  next
    case True
    then obtain q where q: "path_of j = p @ q" and abs: "is_absolute j" by (auto simp: prefix_def)
    have j: "j = AbsolutePathId (p @ q)" using q absolute_path [OF abs] by simp
    show ?thesis
    proof (cases q)
      case Nil
      then have "graft st (p @ [x]) (node_at h) (contents_of t) j = mkdirs st (AbsolutePathId (p @ [x])) (contents_of t) (AbsolutePathId p)"
        using j by (simp add: graft_def)
      also have "\<dots> = Some (node_of g)" using old(3) by (auto simp: mkdirs_def)
      finally show ?thesis using j Nil new(3) by (simp add: graft_def)
    next
      case (Cons y ys)
      have "node_at (with_child v h g) (y # ys) = (if y = x then node_at h ys else node_at t (p @ y # ys))"
        unfolding node_at_def using new(4) old(4) by simp
      moreover have "contents_of t j = node_at t (p @ y # ys)" using contents_node [OF assms, of j] j Cons by simp
      ultimately show ?thesis using j Cons by (auto simp: graft_def mkdirs_def)
    qed
  qed
  then show ?case using ih by presburger
qed

text \<open>A version changes no contents.\<close>

lemma set_version_id [simp]: "gr_id (set_version v g) = gr_id g"
  by (cases g) (simp add: make_group_def)

lemma set_version_wf: "wf_group g \<Longrightarrow> wf_group (set_version v g)"
proof (induction g)
  case (Group i apps pods groups deps ver enf)
  let ?g = "Group i apps pods groups deps ver enf" and ?groups = "map (\<lambda>(k, g). (k, set_version v g)) groups"
  have s: "set_version v ?g = Group (gr_id ?g) apps pods ?groups deps v (gr_enforceRole ?g)"
    using make_group_same [OF Group.prems] by simp
  have "distinct (map fst ?groups)" using Group.prems by (simp add: comp_def case_prod_unfold)
  moreover have "k = gr_id h \<and> below i k \<and> wf_group h" if kh: "(k, h) \<in> set ?groups" for k h
  proof -
    obtain d where d: "(k, d) \<in> set groups" "h = set_version v d" using kh by auto
    then have w: "k = gr_id d" "below i k" "wf_group d" using wf_sub [OF Group.prems, of k d] by auto
    then have "wf_group h" using Group.IH [OF d(1)] d(2) by simp
    then show ?thesis using w d(2) by (metis set_version_id)
  qed
  ultimately show ?case
    unfolding s using wf_parts [OF Group.prems] by (intro wf_rebuild [OF Group.prems]) simp_all
qed

lemma set_version_node: "wf_group g \<Longrightarrow> node_of (set_version v g) = node_of g"
  by (cases g) (auto simp: node_of_def make_group_def split: option.splits)

lemma map_of_set_version: "map_of (map (\<lambda>(k, g). (k, set_version v g)) gs) k = map_option (set_version v) (map_of gs k)"
  by (induction gs) auto

lemma down_set_version: "wf_group g \<Longrightarrow> down (set_version v g) p = map_option (set_version v) (down g p)"
proof (induction p arbitrary: g)
  case (Cons x p)
  obtain i apps pods groups deps ver enf where g: "g = Group i apps pods groups deps ver enf" by (cases g)
  have "wf_group h" if "map_of groups k = Some h" for k h
    using wf_sub [OF Cons.prems, of k h] map_of_SomeD [OF that] by (simp add: g)
  then show ?case using Cons.IH by (auto simp: g make_group_def map_of_set_version split: option.splits)
qed simp

lemma set_version_versions: "wf_group g \<Longrightarrow> down (set_version v g) p = Some h \<Longrightarrow> gr_version h = v"
proof -
  assume "wf_group g" and "down (set_version v g) p = Some h"
  then obtain d where "h = set_version v d" by (auto simp: down_set_version)
  then show ?thesis by (cases d) (simp add: make_group_def)
qed


lemma updatedWith_tree: "wf_tree t \<Longrightarrow> updatedWith t = Inr t"
  by (cases t) (auto simp: wf_tree_def updatedWith_def path_root_def isTopLevel_def)

lemma set_version_tree: "wf_tree t \<Longrightarrow> wf_tree (set_version v t)"
  by (simp add: wf_tree_def set_version_wf)

lemma set_version_contents:
  assumes "wf_tree t"
  shows "contents_of (set_version v t) = contents_of t"
proof
  fix i
  have w: "wf_group t" using assms by (simp add: wf_tree_def)
  have "map_option node_of (map_option (set_version v) (down t p)) = map_option node_of (down t p)" for p
    using down_wf [OF w, of p] by (cases "down t p") (simp_all add: set_version_node)
  then show "contents_of (set_version v t) i = contents_of t i"
    unfolding contents_of_def group_at_down [OF assms] group_at_down [OF set_version_tree [OF assms]] down_set_version [OF w] by simp
qed

definition all_versions :: "nat \<Rightarrow> ('c, 'o) group \<Rightarrow> bool" where
  "all_versions v t = (\<forall>i g. group_at t i = Some g \<longrightarrow> gr_version g = v)"

lemma set_version_all: "wf_tree t \<Longrightarrow> all_versions v (set_version v t)"
  unfolding all_versions_def using set_version_versions [of t v]
  by (simp add: group_at_down [OF set_version_tree]) (simp add: wf_tree_def)

lemma putGroup_contents:
  assumes "wf_tree t" and "wf_group h" and "gr_id h = AbsolutePathId p" and "putGroup st t h v = Inr r"
  shows "wf_tree r \<and> all_versions v r \<and> contents_of r = graft st p (node_at h) (contents_of t)"
proof -
  obtain g where g: "rebuildTree st t v (allParents (AbsolutePathId p)) h = Inr g" "updatedWith (set_version v g) = Inr r"
    using assms(3,4) by (auto simp: putGroup_def rbind_eq_Inr)
  note c = rebuildTree [OF assms(1-3) g(1)]
  then have "r = set_version v g" using g(2) updatedWith_tree [OF set_version_tree, of g v] by simp
  then show ?thesis using c set_version_tree set_version_contents set_version_all by metis
qed

lemma group_or_new_total: "st \<noteq> Fail \<or> group_at t i \<noteq> None \<Longrightarrow> \<exists>g. group_or_new st t i = Inr g"
  by (cases st; cases "group_at t i") (simp_all add: group_or_new_def)

lemma rebuildTree_total:
  assumes "wf_tree t"
  shows "wf_group h \<Longrightarrow> gr_id h = AbsolutePathId p \<Longrightarrow> st \<noteq> Fail \<or> down t (butlast p) \<noteq> None \<Longrightarrow>
    \<exists>r. rebuildTree st t v (allParents (AbsolutePathId p)) h = Inr r"
proof (induction p arbitrary: h rule: rev_induct)
  case (snoc x p)
  then have "st \<noteq> Fail \<or> group_at t (AbsolutePathId p) \<noteq> None" by (simp add: group_at_down [OF assms])
  then obtain g where g: "group_or_new st t (AbsolutePathId p) = Inr g" using group_or_new_total by blast
  have "down t (butlast p) \<noteq> None" if "down t p \<noteq> None"
    using that by (cases p rule: rev_cases) (auto simp: down_append split: Option.bind_splits)
  then have up: "st \<noteq> Fail \<or> down t (butlast p) \<noteq> None" using snoc.prems(3) by auto
  note old = group_or_new [OF assms g]
  note new = with_child [OF old(1,2) snoc.prems(1,2)]
  show ?case using snoc.IH [OF new(1,2) up] g by (simp add: allParents_snoc)
qed (simp add: allParents_root)

lemma putGroup_total:
  assumes "wf_tree t" and "wf_group h" and "gr_id h = AbsolutePathId p" and "st \<noteq> Fail \<or> down t (butlast p) \<noteq> None"
  shows "\<exists>r. putGroup st t h v = Inr r"
proof -
  obtain g where g: "rebuildTree st t v (allParents (AbsolutePathId p)) h = Inr g" using rebuildTree_total [OF assms] by blast
  then show ?thesis
    using rebuildTree [OF assms(1-3) g] updatedWith_tree [OF set_version_tree, of g v] assms(3) by (simp add: putGroup_def)
qed

text \<open>Without a way to make groups, only the parent of what is put decides.\<close>

lemma putGroup_Fail:
  assumes "wf_tree t" and "gr_id h = AbsolutePathId (p @ [x])" and "down t p = None"
  shows "putGroup Fail t h v = Inl (NoSuchGroup (AbsolutePathId p))"
  by (simp add: putGroup_def assms allParents_snoc group_or_new_def group_at_down [OF assms(1)])


section \<open>The contents after an edit\<close>

text \<open>An edit that succeeds, with the contents it leaves.\<close>

definition edited :: "nat \<Rightarrow> ('c, 'o) contents \<Rightarrow> edit_error + ('c, 'o) group \<Rightarrow> bool" where
  "edited v c result = (\<exists>t. result = Inr t \<and> wf_tree t \<and> all_versions v t \<and> contents_of t = c)"

lemma group_or_new_error: "group_or_new st t i = Inl e \<longleftrightarrow> st = Fail \<and> group_at t i = None \<and> e = NoSuchGroup i"
  by (cases st) (auto simp: group_or_new_def split: option.splits)

lemma putGroup_edited:
  assumes t: "wf_tree t" and g: "group_or_new st t (AbsolutePathId p) = Inr g" and h: "wf_group h" "gr_id h = AbsolutePathId p"
    and c: "graft st p (node_at h) (contents_of t) = c"
  shows "edited v c (putGroup st t h v)"
proof -
  have "st \<noteq> Fail \<or> down t p \<noteq> None" using g group_at_down [OF t] by (cases st) (auto simp: group_or_new_def split: option.splits)
  moreover have "down t (butlast p) \<noteq> None" if "down t p \<noteq> None"
    using that by (cases p rule: rev_cases) (auto simp: down_append split: Option.bind_splits)
  ultimately obtain r where r: "putGroup st t h v = Inr r" using putGroup_total [OF t h, of st v] by blast
  show ?thesis unfolding edited_def using putGroup_contents [OF t h r] r c by blast
qed

definition modify :: "path_id \<Rightarrow> (('c, 'o) node \<Rightarrow> ('c, 'o) node) \<Rightarrow> ('c, 'o) contents \<Rightarrow> ('c, 'o) contents" where
  "modify i f c = c(i := map_option f (c i))"

text \<open>Everything at or below an id.\<close>

definition at_or_below :: "path_id \<Rightarrow> path_id \<Rightarrow> bool" where
  "at_or_below i j = (is_absolute j \<and> prefix (path_of i) (path_of j))"

definition del_group :: "path_id \<Rightarrow> ('c, 'o) contents \<Rightarrow> ('c, 'o) contents" where
  "del_group i c = (\<lambda>j. if at_or_below i j then None else c j)"

definition occupied :: "path_id \<Rightarrow> ('c, 'o) contents \<Rightarrow> bool" where
  "occupied i c = (\<exists>j n. at_or_below i j \<and> c j = Some n \<and> (nd_apps n \<noteq> Map.empty \<or> nd_pods n \<noteq> Map.empty))"

definition vacate :: "path_id \<Rightarrow> ('c, 'o) contents \<Rightarrow> ('c, 'o) contents" where
  "vacate i c = (if occupied i c then c else del_group i c)"

definition set_deps :: "new_group_strategy \<Rightarrow> path_id \<Rightarrow> (path_id set \<Rightarrow> path_id set) \<Rightarrow> ('c, 'o) contents \<Rightarrow> ('c, 'o) contents" where
  "set_deps st i f c = modify i (\<lambda>n. n\<lparr>nd_deps := f (nd_deps n)\<rparr>) (mkdirs st i c)"

definition put_app :: "new_group_strategy \<Rightarrow> path_id \<Rightarrow> ('c, 'o) run_spec \<Rightarrow> ('c, 'o) contents \<Rightarrow> ('c, 'o) contents" where
  "put_app st i s c =
     modify (path_parent i) (\<lambda>n. n\<lparr>nd_apps := (nd_apps n)(i \<mapsto> s)\<rparr>) (vacate i (mkdirs st (path_parent i) c))"

definition put_pod :: "new_group_strategy \<Rightarrow> path_id \<Rightarrow> ('c, 'o) run_spec \<Rightarrow> ('c, 'o) contents \<Rightarrow> ('c, 'o) contents" where
  "put_pod st i s c =
     modify (path_parent i) (\<lambda>n. n\<lparr>nd_pods := (nd_pods n)(i \<mapsto> s)\<rparr>) (vacate i (mkdirs st (path_parent i) c))"

definition del_app :: "path_id \<Rightarrow> ('c, 'o) contents \<Rightarrow> ('c, 'o) contents" where
  "del_app i c = modify (path_parent i) (\<lambda>n. n\<lparr>nd_apps := (nd_apps n)(i := None)\<rparr>) c"

definition del_pod :: "path_id \<Rightarrow> ('c, 'o) contents \<Rightarrow> ('c, 'o) contents" where
  "del_pod i c = modify (path_parent i) (\<lambda>n. n\<lparr>nd_pods := (nd_pods n)(i := None)\<rparr>) c"

lemma parent_snoc [simp]: "path_parent (AbsolutePathId (p @ [x])) = AbsolutePathId p"
  by (simp add: butlast_parent)

lemma graft_same:
  assumes "wf_tree t" and "\<And>x xs. node_at h (x # xs) = node_at t (p @ x # xs)"
  shows "graft st p (node_at h) (contents_of t) = (mkdirs st (AbsolutePathId p) (contents_of t))(AbsolutePathId p \<mapsto> node_of h)"
proof
  fix j
  show "graft st p (node_at h) (contents_of t) j = ((mkdirs st (AbsolutePathId p) (contents_of t))(AbsolutePathId p \<mapsto> node_of h)) j"
  proof (cases "is_absolute j \<and> prefix p (path_of j)")
    case True
    then obtain q where j: "j = AbsolutePathId (p @ q)" by (metis absolute_path prefixE)
    then show ?thesis using assms contents_node [OF assms(1), of j]
      by (cases q) (auto simp: graft_def mkdirs_def)
  qed (auto simp: graft_def)
qed

lemma graft_drop:
  assumes "wf_tree t" and "\<And>y ys. node_at h (y # ys) = (if y = x then None else node_at t (p @ y # ys))"
  shows "graft st p (node_at h) (contents_of t)
    = (del_group (AbsolutePathId (p @ [x])) (mkdirs st (AbsolutePathId p) (contents_of t)))(AbsolutePathId p \<mapsto> node_of h)"
proof
  fix j
  show "graft st p (node_at h) (contents_of t) j
    = ((del_group (AbsolutePathId (p @ [x])) (mkdirs st (AbsolutePathId p) (contents_of t)))(AbsolutePathId p \<mapsto> node_of h)) j"
  proof (cases "is_absolute j \<and> prefix p (path_of j)")
    case True
    then obtain q where j: "j = AbsolutePathId (p @ q)" by (metis absolute_path prefixE)
    then show ?thesis using assms contents_node [OF assms(1), of j]
      by (cases q) (auto simp: graft_def mkdirs_def del_group_def at_or_below_def)
  next
    case False
    then show ?thesis by (auto simp: graft_def del_group_def at_or_below_def prefix_def)
  qed
qed

text \<open>The groups that contain run specs.\<close>

lemma contains_iff:
  assumes C: "\<And>g. C g \<longleftrightarrow> own g \<noteq> [] \<or> (\<exists>k d. (k, d) \<in> set (gr_groups g) \<and> C d)"
    and own: "\<And>g. sel (node_of g) = map_of (own g)"
  shows "wf_group g \<Longrightarrow> C g \<longleftrightarrow> (\<exists>q n. node_at g q = Some n \<and> sel n \<noteq> Map.empty)"
proof (induction g)
  case (Group i apps pods groups deps ver enf)
  let ?g = "Group i apps pods groups deps ver enf"
  have ih: "C d \<longleftrightarrow> (\<exists>q n. node_at d q = Some n \<and> sel n \<noteq> Map.empty)" if "(k, d) \<in> set groups" for k d
    using Group.IH [OF that] wf_sub [OF Group.prems, of k d] that by simp
  have child: "(\<exists>k. (k, d) \<in> set groups) \<longleftrightarrow> (\<exists>x. map_of groups (AbsolutePathId (path_of i @ [x])) = Some d)" for d
    using child_path [OF Group.prems] wf_groups_distinct [OF Group.prems] by (force dest: map_of_SomeD)
  have "C ?g \<longleftrightarrow> own ?g \<noteq> [] \<or> (\<exists>x d. map_of groups (AbsolutePathId (path_of i @ [x])) = Some d \<and> C d)"
    unfolding C [of ?g] group.sel using child by blast
  also have "\<dots> \<longleftrightarrow> own ?g \<noteq> [] \<or> (\<exists>x d q n. map_of groups (AbsolutePathId (path_of i @ [x])) = Some d \<and> node_at d q = Some n \<and> sel n \<noteq> Map.empty)"
    using ih by (blast dest: map_of_SomeD)
  also have "\<dots> \<longleftrightarrow> (\<exists>q n. node_at ?g q = Some n \<and> sel n \<noteq> Map.empty)"
  proof -
    have "(\<exists>q n. node_at ?g q = Some n \<and> sel n \<noteq> Map.empty)
        \<longleftrightarrow> sel (node_of ?g) \<noteq> Map.empty \<or> (\<exists>x xs n. node_at ?g (x # xs) = Some n \<and> sel n \<noteq> Map.empty)"
      by (metis neq_Nil_conv node_at_Nil option.inject)
    moreover have "sel (node_of ?g) \<noteq> Map.empty \<longleftrightarrow> own ?g \<noteq> []" by (simp add: own)
    moreover have "node_at ?g (x # xs) = Some n \<longleftrightarrow> (\<exists>d. map_of groups (AbsolutePathId (path_of i @ [x])) = Some d \<and> node_at d xs = Some n)"
      for x xs n by (simp add: node_at_Cons split: option.split)
    ultimately show ?thesis by blast
  qed
  finally show ?case .
qed

lemma containsApps_iff: "wf_group g \<Longrightarrow> containsApps g \<longleftrightarrow> (\<exists>q n. node_at g q = Some n \<and> nd_apps n \<noteq> Map.empty)"
proof (rule contains_iff [where own = gr_apps])
  show "containsApps h \<longleftrightarrow> gr_apps h \<noteq> [] \<or> (\<exists>k d. (k, d) \<in> set (gr_groups h) \<and> containsApps d)" for h :: "('c, 'o) group"
    by (cases h) (auto simp: list_ex_iff)
qed (simp add: node_of_def)

lemma containsPods_iff: "wf_group g \<Longrightarrow> containsPods g \<longleftrightarrow> (\<exists>q n. node_at g q = Some n \<and> nd_pods n \<noteq> Map.empty)"
proof (rule contains_iff [where own = gr_pods])
  show "containsPods h \<longleftrightarrow> gr_pods h \<noteq> [] \<or> (\<exists>k d. (k, d) \<in> set (gr_groups h) \<and> containsPods d)" for h :: "('c, 'o) group"
    by (cases h) (auto simp: list_ex_iff)
qed (simp add: node_of_def)


lemma map_of_filter_snd: "distinct (map fst al) \<Longrightarrow>
  map_of (filter (\<lambda>(k, d). P d) al) k = (case map_of al k of None \<Rightarrow> None | Some d \<Rightarrow> if P d then Some d else None)"
  by (induction al) (auto simp: map_of_eq_None_iff split: option.splits)

lemma node_at_group:
  assumes "wf_group g" and "map_of (gr_groups g) (AbsolutePathId (path_of (gr_id g) @ [x])) = Some d"
  shows "wf_group d" and "gr_id d = AbsolutePathId (path_of (gr_id g) @ [x])" and "node_at g (x # xs) = node_at d xs"
  using child_path [OF assms(1) map_of_SomeD [OF assms(2)]] assms(2) by (auto simp: node_at_Cons)

lemma occupied_node:
  assumes "wf_tree t"
  shows "occupied (AbsolutePathId (p @ [x])) (mkdirs st (AbsolutePathId p) (contents_of t))
    \<longleftrightarrow> (\<exists>q n. node_at t (p @ x # q) = Some n \<and> (nd_apps n \<noteq> Map.empty \<or> nd_pods n \<noteq> Map.empty))"
proof -
  have "at_or_below (AbsolutePathId (p @ [x])) j \<longleftrightarrow> (\<exists>q. j = AbsolutePathId (p @ x # q))" for j
    by (cases j) (auto simp: at_or_below_def prefix_def)
  moreover have "mkdirs st (AbsolutePathId p) (contents_of t) (AbsolutePathId (p @ x # q)) = node_at t (p @ x # q)" for q
    using contents_node [OF assms, of "AbsolutePathId (p @ x # q)"] by (auto simp: mkdirs_def)
  ultimately show ?thesis unfolding occupied_def by metis
qed

lemma vacate_graft:
  assumes "wf_tree t" and "wf_group g" and "gr_id g = AbsolutePathId p" and old: "\<And>y ys. node_at g (y # ys) = node_at t (p @ y # ys)"
    and "gr_id h = AbsolutePathId p" and "gr_groups h = without_group (AbsolutePathId (p @ [x])) (gr_groups g)"
  shows "graft st p (node_at h) (contents_of t)
    = (vacate (AbsolutePathId (p @ [x])) (mkdirs st (AbsolutePathId p) (contents_of t)))(AbsolutePathId p \<mapsto> node_of h)"
proof -
  let ?i = "AbsolutePathId (p @ [x])" and ?c = "mkdirs st (AbsolutePathId p) (contents_of t)"
  have child: "map_of (gr_groups h) (AbsolutePathId (p @ [y])) = (case map_of (gr_groups g) (AbsolutePathId (p @ [y])) of None \<Rightarrow> None
      | Some d \<Rightarrow> if y \<noteq> x \<or> containsApps d \<or> containsPods d then Some d else None)" for y
  proof -
    have "gr_id d = AbsolutePathId (p @ [y])" if "map_of (gr_groups g) (AbsolutePathId (p @ [y])) = Some d" for d
      using node_at_group(2) [OF assms(2), of y d] that assms(3) by simp
    then show ?thesis
      unfolding assms(6) without_group_def map_of_filter_snd [OF wf_groups_distinct [OF assms(2)]] by (auto split: option.split)
  qed
  have cont: "containsApps d \<or> containsPods d \<longleftrightarrow> occupied ?i ?c" if "map_of (gr_groups g) ?i = Some d" for d
  proof -
    note d = node_at_group [OF assms(2), of x d, unfolded assms(3) path_of.simps, OF that]
    show ?thesis unfolding occupied_node [OF assms(1)] containsApps_iff [OF d(1)] containsPods_iff [OF d(1)] old [symmetric] d(3) by blast
  qed
  have other: "node_at h (y # ys) = (if y = x \<and> \<not> occupied ?i ?c then None else node_at t (p @ y # ys))" for y ys
    using child [of y] cont old [of y ys] by (auto simp: node_at_Cons assms(3,5) split: option.splits)
  show ?thesis
  proof (cases "occupied ?i ?c")
    case True
    then show ?thesis using graft_same [OF assms(1)] other by (simp add: vacate_def)
  next
    case False
    then show ?thesis using graft_drop [OF assms(1), of h x] other by (simp add: vacate_def)
  qed
qed

text \<open>A group made from an old one, with its run specs and, perhaps, without a child that was in the way.\<close>

lemma wf_without_group:
  assumes "wf_group g" and "distinct (map fst (apps @ pods))"
    and "\<And>k s. (k, s) \<in> set apps \<Longrightarrow> k = rs_id s \<and> below (gr_id g) k \<and> rs_kind s = App"
    and "\<And>k s. (k, s) \<in> set pods \<Longrightarrow> k = rs_id s \<and> below (gr_id g) k \<and> rs_kind s = Pod"
  shows "wf_group (make_group (gr_id g) apps pods (without_group i (gr_groups g)) deps v (gr_enforceRole g))"
  unfolding make_group_same [OF assms(1)]
  by (rule wf_rebuild [OF assms(1,2)])
    (use assms(3,4) wf_sub [OF assms(1)] wf_groups_distinct [OF assms(1)] in \<open>auto simp: without_group_def distinct_map_filter\<close>)

lemma edit_specs:
  assumes "wf_tree t" and "group_or_new st t (AbsolutePathId p) = Inr g" and "distinct (map fst (apps @ pods))"
    and "\<And>k s. (k, s) \<in> set apps \<Longrightarrow> k = rs_id s \<and> below (AbsolutePathId p) k \<and> rs_kind s = App"
    and "\<And>k s. (k, s) \<in> set pods \<Longrightarrow> k = rs_id s \<and> below (AbsolutePathId p) k \<and> rs_kind s = Pod"
  shows "edited v (modify (AbsolutePathId p) (\<lambda>n. n\<lparr>nd_apps := map_of apps, nd_pods := map_of pods\<rparr>)
      (vacate (AbsolutePathId (p @ [x])) (mkdirs st (AbsolutePathId p) (contents_of t))))
    (putGroup st t (make_group (gr_id g) apps pods (without_group (AbsolutePathId (p @ [x])) (gr_groups g))
      (gr_dependencies g) v (gr_enforceRole g)) v)"
proof -
  let ?h = "make_group (gr_id g) apps pods (without_group (AbsolutePathId (p @ [x])) (gr_groups g)) (gr_dependencies g) v (gr_enforceRole g)"
    and ?c = "mkdirs st (AbsolutePathId p) (contents_of t)"
  note g = group_or_new [OF assms(1,2)]
  have wf: "wf_group ?h" using assms(3-5) by (intro wf_without_group [OF g(1)]) (simp_all only: g(2))
  have "graft st p (node_at ?h) (contents_of t) = (vacate (AbsolutePathId (p @ [x])) ?c)(AbsolutePathId p \<mapsto> node_of ?h)"
    by (rule vacate_graft [OF assms(1) g(1,2)]) (simp_all add: node_at_def g(2,4) del: down.simps)
  moreover have "node_of ?h = (node_of g)\<lparr>nd_apps := map_of apps, nd_pods := map_of pods\<rparr>"
    unfolding make_group_same [OF g(1)] by (simp add: node_of_def)
  moreover have "vacate (AbsolutePathId (p @ [x])) ?c (AbsolutePathId p) = Some (node_of g)"
    using g(3) by (simp add: vacate_def del_group_def at_or_below_def)
  ultimately show ?thesis by (intro putGroup_edited [OF assms(1,2) wf]) (simp_all add: modify_def g(2))
qed


lemma modify_cong: "(\<And>n. c i = Some n \<Longrightarrow> f n = f' n) \<Longrightarrow> modify i f c = modify i f' c"
  by (cases "c i") (simp_all add: modify_def)

lemma edit_own:
  assumes "wf_tree t" and "group_or_new st t (AbsolutePathId p) = Inr g" and "wf_group h" and "gr_id h = AbsolutePathId p"
    and "gr_groups h = gr_groups g"
  shows "edited v (modify (AbsolutePathId p) (\<lambda>n. node_of h) (mkdirs st (AbsolutePathId p) (contents_of t))) (putGroup st t h v)"
proof -
  note g = group_or_new [OF assms(1,2)]
  have "node_at h (y # ys) = node_at t (p @ y # ys)" for y ys
    using g(4) [of y ys] by (simp add: node_at_def assms(4,5) g(2))
  then have "graft st p (node_at h) (contents_of t) = (mkdirs st (AbsolutePathId p) (contents_of t))(AbsolutePathId p \<mapsto> node_of h)"
    by (rule graft_same [OF assms(1)])
  then show ?thesis using g(3) by (intro putGroup_edited [OF assms(1-4)]) (simp add: modify_def)
qed

lemma contents_closed:
  assumes "wf_tree t" and "contents_of t i \<noteq> None" and "is_absolute j" and "prefix (path_of j) (path_of i)"
  shows "contents_of t j \<noteq> None"
proof -
  obtain q where "path_of i = path_of j @ q" using assms(4) by (rule prefixE)
  moreover have "down t (path_of i) \<noteq> None"
    using assms(2) group_at_down [OF assms(1), of i] by (auto simp: contents_of_def split: if_splits)
  ultimately have "down t (path_of j) \<noteq> None" by (auto simp: down_append split: Option.bind_splits)
  then show ?thesis using assms(3) group_at_down [OF assms(1), of j] by (simp add: contents_of_def)
qed

lemma mkdirs_present: "wf_tree t \<Longrightarrow> contents_of t i \<noteq> None \<Longrightarrow> mkdirs st i (contents_of t) = contents_of t"
  by (rule ext) (use contents_closed in \<open>auto simp: mkdirs_def\<close>)

lemma group_or_new_present: "group_at t i = Some g \<Longrightarrow> group_or_new st t i = Inr g"
  by (simp add: group_or_new_def)

lemma app_at_contents: "wf_tree t \<Longrightarrow> app_at t i = Option.bind (contents_of t (path_parent i)) (\<lambda>n. nd_apps n i)"
  and pod_at_contents: "wf_tree t \<Longrightarrow> pod_at t i = Option.bind (contents_of t (path_parent i)) (\<lambda>n. nd_pods n i)"
proof -
  assume t: "wf_tree t"
  then have w: "wf_group t" "gr_id t = path_root" by (simp_all add: wf_tree_def)
  have up: "path_parent i = path_root" if "below (gr_id t) i" using that w(2) by (simp add: below_def)
  have r: "group_at t path_root = Some t" using group_at_down [OF t] by (simp add: path_root_def)
  have bind: "Option.bind (contents_of t (path_parent i)) (\<lambda>n. nd_apps n i) = Option.bind (group_at t (path_parent i)) (\<lambda>h. map_of (gr_apps h) i)"
    "Option.bind (contents_of t (path_parent i)) (\<lambda>n. nd_pods n i) = Option.bind (group_at t (path_parent i)) (\<lambda>h. map_of (gr_pods h) i)"
    by (cases "group_at t (path_parent i)", simp_all add: contents_of_def node_of_def)+
  show "app_at t i = Option.bind (contents_of t (path_parent i)) (\<lambda>n. nd_apps n i)"
  proof (cases "map_of (gr_apps t) i")
    case (Some s)
    have "below (gr_id t) i" using wf_parts(2) [OF w(1) map_of_SomeD [OF Some]] by blast
    from up [OF this] show ?thesis unfolding app_at_def bind using r Some by simp
  qed (simp add: app_at_def bind)
  show "pod_at t i = Option.bind (contents_of t (path_parent i)) (\<lambda>n. nd_pods n i)"
  proof (cases "map_of (gr_pods t) i")
    case (Some s)
    have "below (gr_id t) i" using wf_parts(3) [OF w(1) map_of_SomeD [OF Some]] by blast
    from up [OF this] show ?thesis unfolding pod_at_def bind using r Some by simp
  qed (simp add: pod_at_def bind)
qed

lemma distinct_update_disjoint:
  "distinct (map fst (al @ bl)) \<Longrightarrow> i \<notin> fst ` set bl \<Longrightarrow> distinct (map fst (AList.update i a al @ bl))"
  "distinct (map fst (bl @ al)) \<Longrightarrow> i \<notin> fst ` set bl \<Longrightarrow> distinct (map fst (bl @ AList.update i a al))"
  by (auto simp: distinct_update dom_update)

lemma update_own:
  assumes "\<And>k a. (k, a) \<in> set al \<Longrightarrow> k = rs_id a \<and> below (AbsolutePathId p) k \<and> rs_kind a = K"
    and "rs_id s = AbsolutePathId (p @ [x])" and "rs_kind s = K" and "(k, a) \<in> set (AList.update (AbsolutePathId (p @ [x])) s al)"
  shows "k = rs_id a \<and> below (AbsolutePathId p) k \<and> rs_kind a = K"
proof (cases "(k, a) \<in> set al")
  case False
  then show ?thesis using set_update [OF assms(4)] assms(2,3) below_snoc by simp
qed (rule assms(1))

text \<open>The contents after the operations on run specs.\<close>

lemma updateApp_edited:
  assumes t: "wf_tree t" and g: "group_or_new st t (AbsolutePathId p) = Inr g" and id: "rs_id s = AbsolutePathId (p @ [x])"
    and s: "fn (app_at t (AbsolutePathId (p @ [x]))) = s" "rs_kind s = App" and pod: "pod_at t (AbsolutePathId (p @ [x])) = None"
  shows "edited v (put_app st (AbsolutePathId (p @ [x])) s (contents_of t)) (updateApp st t (AbsolutePathId (p @ [x])) fn v)"
proof -
  let ?i = "AbsolutePathId (p @ [x])"
  have u: "updateApp st t ?i fn v = putGroup st t (make_group (gr_id g) (AList.update ?i s (gr_apps g)) (gr_pods g) (without_group ?i (gr_groups g))
      (gr_dependencies g) v (gr_enforceRole g)) v"
    using g id s(1) by (simp add: updateApp_def)
  note old = group_or_new [OF t g]
  have node: "mkdirs st (AbsolutePathId p) (contents_of t) (AbsolutePathId p) = Some (node_of g)" by (rule old(3))
  have "map_of (gr_pods g) ?i = None"
    using pod node by (auto simp: pod_at_contents [OF t] mkdirs_def node_of_def new_node_def split: if_splits Option.bind_splits)
  then have free: "?i \<notin> fst ` set (gr_pods g)" by (simp add: map_of_eq_None_iff)
  have "edited v (modify (AbsolutePathId p) (\<lambda>n. n\<lparr>nd_apps := map_of (AList.update ?i s (gr_apps g)), nd_pods := map_of (gr_pods g)\<rparr>)
      (vacate ?i (mkdirs st (AbsolutePathId p) (contents_of t)))) (updateApp st t ?i fn v)"
    unfolding u
  proof (rule edit_specs [OF t g])
    show "distinct (map fst (AList.update ?i s (gr_apps g) @ gr_pods g))"
      by (rule distinct_update_disjoint(1) [OF wf_parts(1) [OF old(1)] free])
    show "k = rs_id a \<and> below (AbsolutePathId p) k \<and> rs_kind a = App" if "(k, a) \<in> set (AList.update ?i s (gr_apps g))" for k a
      using wf_parts(2) [OF old(1)] unfolding old(2) by (rule update_own [OF _ id s(2) that])
    show "k = rs_id a \<and> below (AbsolutePathId p) k \<and> rs_kind a = Pod" if "(k, a) \<in> set (gr_pods g)" for k a
      using wf_parts(3) [OF old(1) that] unfolding old(2) .
  qed
  also have "modify (AbsolutePathId p) (\<lambda>n. n\<lparr>nd_apps := map_of (AList.update ?i s (gr_apps g)), nd_pods := map_of (gr_pods g)\<rparr>)
      (vacate ?i (mkdirs st (AbsolutePathId p) (contents_of t))) = put_app st ?i s (contents_of t)"
    unfolding put_app_def parent_snoc
    by (rule modify_cong) (use node in \<open>auto simp: vacate_def del_group_def at_or_below_def node_of_def update_conv' split: if_splits\<close>)
  finally show ?thesis .
qed

lemma updatePod_edited:
  assumes t: "wf_tree t" and g: "group_or_new st t (AbsolutePathId p) = Inr g" and id: "rs_id s = AbsolutePathId (p @ [x])"
    and s: "fn (pod_at t (AbsolutePathId (p @ [x]))) = s" "rs_kind s = Pod" and app: "app_at t (AbsolutePathId (p @ [x])) = None"
  shows "edited v (put_pod st (AbsolutePathId (p @ [x])) s (contents_of t)) (updatePod st t (AbsolutePathId (p @ [x])) fn v)"
proof -
  let ?i = "AbsolutePathId (p @ [x])"
  have u: "updatePod st t ?i fn v = putGroup st t (make_group (gr_id g) (gr_apps g) (AList.update ?i s (gr_pods g)) (without_group ?i (gr_groups g))
      (gr_dependencies g) v (gr_enforceRole g)) v"
    using g id s(1) by (simp add: updatePod_def)
  note old = group_or_new [OF t g]
  have node: "mkdirs st (AbsolutePathId p) (contents_of t) (AbsolutePathId p) = Some (node_of g)" by (rule old(3))
  have "map_of (gr_apps g) ?i = None"
    using app node by (auto simp: app_at_contents [OF t] mkdirs_def node_of_def new_node_def split: if_splits Option.bind_splits)
  then have free: "?i \<notin> fst ` set (gr_apps g)" by (simp add: map_of_eq_None_iff)
  have "edited v (modify (AbsolutePathId p) (\<lambda>n. n\<lparr>nd_apps := map_of (gr_apps g), nd_pods := map_of (AList.update ?i s (gr_pods g))\<rparr>)
      (vacate ?i (mkdirs st (AbsolutePathId p) (contents_of t)))) (updatePod st t ?i fn v)"
    unfolding u
  proof (rule edit_specs [OF t g])
    show "distinct (map fst (gr_apps g @ AList.update ?i s (gr_pods g)))"
      by (rule distinct_update_disjoint(2) [OF wf_parts(1) [OF old(1)] free])
    show "k = rs_id a \<and> below (AbsolutePathId p) k \<and> rs_kind a = Pod" if "(k, a) \<in> set (AList.update ?i s (gr_pods g))" for k a
      using wf_parts(3) [OF old(1)] unfolding old(2) by (rule update_own [OF _ id s(2) that])
    show "k = rs_id a \<and> below (AbsolutePathId p) k \<and> rs_kind a = App" if "(k, a) \<in> set (gr_apps g)" for k a
      using wf_parts(2) [OF old(1) that] unfolding old(2) .
  qed
  also have "modify (AbsolutePathId p) (\<lambda>n. n\<lparr>nd_apps := map_of (gr_apps g), nd_pods := map_of (AList.update ?i s (gr_pods g))\<rparr>)
      (vacate ?i (mkdirs st (AbsolutePathId p) (contents_of t))) = put_pod st ?i s (contents_of t)"
    unfolding put_pod_def parent_snoc
    by (rule modify_cong) (use node in \<open>auto simp: vacate_def del_group_def at_or_below_def node_of_def update_conv' split: if_splits\<close>)
  finally show ?thesis .
qed

lemma updateDependencies_edited:
  assumes t: "wf_tree t" and g: "group_or_new st t (AbsolutePathId p) = Inr g" and f: "\<And>ds. set (f ds) = F (set ds)"
  shows "edited v (set_deps st (AbsolutePathId p) F (contents_of t)) (updateDependencies st t (AbsolutePathId p) f v)"
proof -
  have u: "updateDependencies st t (AbsolutePathId p) f v = putGroup st t (withDependencies (f (gr_dependencies g)) g) v"
    using g by (simp add: updateDependencies_def)
  note old = group_or_new [OF t g]
  have "wf_group (withDependencies (f (gr_dependencies g)) g)"
    unfolding withDependencies_def
    by (rule wf_rebuild [OF old(1)]) (use wf_parts [OF old(1)] wf_groups_distinct [OF old(1)] wf_sub [OF old(1)] in blast)+
  then have "edited v (modify (AbsolutePathId p) (\<lambda>n. node_of (withDependencies (f (gr_dependencies g)) g))
      (mkdirs st (AbsolutePathId p) (contents_of t))) (updateDependencies st t (AbsolutePathId p) f v)"
    unfolding u by (rule edit_own [OF t g]) (simp_all add: withDependencies_def old(2))
  also have "modify (AbsolutePathId p) (\<lambda>n. node_of (withDependencies (f (gr_dependencies g)) g)) (mkdirs st (AbsolutePathId p) (contents_of t))
      = set_deps st (AbsolutePathId p) F (contents_of t)"
    unfolding set_deps_def by (rule modify_cong) (use old(3) in \<open>auto simp: withDependencies_def node_of_def f\<close>)
  finally show ?thesis .
qed


lemma updateVersion_edited: "wf_tree t \<Longrightarrow> edited v (contents_of t) (updateVersion t v)"
  using updatedWith_tree [OF set_version_tree, of t v] set_version_tree set_version_contents set_version_all
  by (auto simp: updateVersion_def edited_def)

text \<open>A group that exists, with fewer run specs.\<close>

lemma edit_fewer:
  assumes t: "wf_tree t" and g: "group_at t i = Some g" and sub: "set apps \<subseteq> set (gr_apps g)" "set pods \<subseteq> set (gr_pods g)"
    and d: "distinct (map fst apps)" "distinct (map fst pods)"
  shows "edited v (modify i (\<lambda>n. n\<lparr>nd_apps := map_of apps, nd_pods := map_of pods\<rparr>) (contents_of t))
    (putGroup st t (make_group (gr_id g) apps pods (gr_groups g) (gr_dependencies g) v (gr_enforceRole g)) v)"
proof -
  let ?h = "make_group (gr_id g) apps pods (gr_groups g) (gr_dependencies g) v (gr_enforceRole g)"
  have w: "wf_group g" "gr_id g = i" using group_at_wf [OF _ g] t by (simp_all add: wf_tree_def)
  obtain p where i: "i = AbsolutePathId p" using wf_group_absolute [OF w(1)] unfolding w(2) by (cases i) simp_all
  have "fst ` set (gr_apps g) \<inter> fst ` set (gr_pods g) = {}" using wf_parts(1) [OF w(1)] by simp
  then have "fst ` set apps \<inter> fst ` set pods = {}" using image_mono [OF sub(1), of fst] image_mono [OF sub(2), of fst] by blast
  then have "distinct (map fst (apps @ pods))" using d by simp
  then have "wf_group (Group (gr_id g) apps pods (gr_groups g) (gr_dependencies g) v (gr_enforceRole g))"
    by (rule wf_rebuild [OF w(1)])
      (rule wf_groups_distinct [OF w(1)], rule wf_parts(2) [OF w(1) subsetD [OF sub(1)]], assumption,
        rule wf_parts(3) [OF w(1) subsetD [OF sub(2)]], assumption, use wf_sub [OF w(1)] in blast)
  then have h: "wf_group ?h" unfolding make_group_same [OF w(1)] .
  have c: "contents_of t i = Some (node_of g)" using g by (simp add: contents_of_def)
  have "edited v (modify (AbsolutePathId p) (\<lambda>n. node_of ?h) (mkdirs st (AbsolutePathId p) (contents_of t))) (putGroup st t ?h v)"
    by (rule edit_own [OF t _ h]) (use group_or_new_present [OF g] w(2) i in simp_all)
  also have "mkdirs st (AbsolutePathId p) (contents_of t) = contents_of t" using mkdirs_present [OF t] c i by simp
  also have "modify (AbsolutePathId p) (\<lambda>n. node_of ?h) (contents_of t)
      = modify i (\<lambda>n. n\<lparr>nd_apps := map_of apps, nd_pods := map_of pods\<rparr>) (contents_of t)"
    unfolding i [symmetric] make_group_same [OF w(1)] by (rule modify_cong) (use c in \<open>simp add: node_of_def\<close>)
  finally show ?thesis .
qed

lemma modify_id: "(\<And>n. c i = Some n \<Longrightarrow> f n = n) \<Longrightarrow> modify i f c = c"
  by (cases "c i") (auto simp: modify_def)

lemma lookup_id:
  assumes "wf_tree t"
  shows "app_at t i = Some s \<Longrightarrow> rs_id s = i" and "pod_at t i = Some s \<Longrightarrow> rs_id s = i"
proof -
  have w: "wf_group t" using assms by (simp add: wf_tree_def)
  show "app_at t i = Some s \<Longrightarrow> rs_id s = i" "pod_at t i = Some s \<Longrightarrow> rs_id s = i"
    unfolding app_pod_at using apps.spec_at_iff [OF w] pods.spec_at_iff [OF w] by blast+
qed

lemma removeApp_edited:
  assumes t: "wf_tree t"
  shows "edited v (del_app i (contents_of t)) (removeApp st t i v)"
proof (cases "app_at t i")
  case None
  then have "del_app i (contents_of t) = contents_of t"
    unfolding del_app_def app_at_contents [OF t] by (intro modify_id) (simp add: fun_upd_idem)
  then show ?thesis using updateVersion_edited [OF t, of v] None by (simp add: removeApp_def)
next
  case (Some a)
  then obtain g where g: "group_at t (path_parent i) = Some g"
    by (auto simp: app_at_contents [OF t] contents_of_def split: Option.bind_splits)
  have u: "removeApp st t i v = putGroup st t (make_group (gr_id g) (AList.delete i (gr_apps g)) (gr_pods g) (gr_groups g) (gr_dependencies g) v (gr_enforceRole g)) v"
    using g Some lookup_id [OF t, of i a] by (simp add: removeApp_def)
  have w: "wf_group g" using group_at_wf [OF _ g] t by (simp add: wf_tree_def)
  have "edited v (modify (path_parent i) (\<lambda>n. n\<lparr>nd_apps := map_of (AList.delete i (gr_apps g)), nd_pods := map_of (gr_pods g)\<rparr>) (contents_of t)) (removeApp st t i v)"
    unfolding u by (rule edit_fewer [OF t g]) (use wf_own [OF w] in \<open>auto simp: AList.delete_eq distinct_map_filter\<close>)
  also have "modify (path_parent i) (\<lambda>n. n\<lparr>nd_apps := map_of (AList.delete i (gr_apps g)), nd_pods := map_of (gr_pods g)\<rparr>) (contents_of t)
      = del_app i (contents_of t)"
    unfolding del_app_def by (rule modify_cong) (use g in \<open>auto simp: contents_of_def node_of_def AList.delete_conv'\<close>)
  finally show ?thesis .
qed

lemma removePod_edited:
  assumes t: "wf_tree t"
  shows "edited v (del_pod i (contents_of t)) (removePod st t i v)"
proof (cases "pod_at t i")
  case None
  then have "del_pod i (contents_of t) = contents_of t"
    unfolding del_pod_def pod_at_contents [OF t] by (intro modify_id) (simp add: fun_upd_idem)
  then show ?thesis using updateVersion_edited [OF t, of v] None by (simp add: removePod_def)
next
  case (Some a)
  then obtain g where g: "group_at t (path_parent i) = Some g"
    by (auto simp: pod_at_contents [OF t] contents_of_def split: Option.bind_splits)
  have u: "removePod st t i v = putGroup st t (make_group (gr_id g) (gr_apps g) (AList.delete i (gr_pods g)) (gr_groups g) (gr_dependencies g) v (gr_enforceRole g)) v"
    using g Some lookup_id [OF t, of i a] by (simp add: removePod_def)
  have w: "wf_group g" using group_at_wf [OF _ g] t by (simp add: wf_tree_def)
  have "edited v (modify (path_parent i) (\<lambda>n. n\<lparr>nd_apps := map_of (gr_apps g), nd_pods := map_of (AList.delete i (gr_pods g))\<rparr>) (contents_of t)) (removePod st t i v)"
    unfolding u by (rule edit_fewer [OF t g]) (use wf_own [OF w] in \<open>auto simp: AList.delete_eq distinct_map_filter\<close>)
  also have "modify (path_parent i) (\<lambda>n. n\<lparr>nd_apps := map_of (gr_apps g), nd_pods := map_of (AList.delete i (gr_pods g))\<rparr>) (contents_of t)
      = del_pod i (contents_of t)"
    unfolding del_pod_def by (rule modify_cong) (use g in \<open>auto simp: contents_of_def node_of_def AList.delete_conv'\<close>)
  finally show ?thesis .
qed


lemma removeGroup_edited:
  assumes t: "wf_tree t"
  shows "edited v (del_group (AbsolutePathId (p @ [x])) (contents_of t)) (removeGroup st t (AbsolutePathId (p @ [x])) v)"
proof (cases "group_at t (AbsolutePathId (p @ [x]))")
  case None
  have "contents_of t j = None" if "at_or_below (AbsolutePathId (p @ [x])) j" for j
    by (rule ccontr) (use None contents_closed [OF t, of j "AbsolutePathId (p @ [x])"] that in \<open>simp add: at_or_below_def contents_of_def\<close>)
  then have "del_group (AbsolutePathId (p @ [x])) (contents_of t) = contents_of t" by (auto simp: del_group_def)
  then show ?thesis using updateVersion_edited [OF t, of v] None by (simp add: removeGroup_def)
next
  case (Some d)
  let ?i = "AbsolutePathId (p @ [x])"
  have d: "gr_id d = ?i" using group_at_wf [OF _ Some] t by (simp add: wf_tree_def)
  have "contents_of t (AbsolutePathId p) \<noteq> None"
    by (rule contents_closed [OF t, of ?i]) (simp_all add: contents_of_def Some)
  then obtain g where g: "group_at t (AbsolutePathId p) = Some g" by (auto simp: contents_of_def)
  let ?h = "make_group (gr_id g) (gr_apps g) (gr_pods g) (AList.delete ?i (gr_groups g)) (gr_dependencies g) v (gr_enforceRole g)"
  note old = group_or_new [OF t group_or_new_present [OF g]]
  have "wf_group (Group (gr_id g) (gr_apps g) (gr_pods g) (AList.delete ?i (gr_groups g)) (gr_dependencies g) v (gr_enforceRole g))"
    by (rule wf_rebuild [OF old(1) wf_parts(1) [OF old(1)]])
      (use wf_parts(2,3) [OF old(1)] wf_groups_distinct [OF old(1)] wf_sub [OF old(1)] in \<open>auto simp: AList.delete_eq distinct_map_filter\<close>)
  then have h: "wf_group ?h" unfolding make_group_same [OF old(1)] .
  have "node_at ?h (y # ys) = (if y = x then None else node_at t (p @ y # ys))" for y ys
    using old(4) [of y ys] by (simp add: node_at_def old(2) AList.delete_conv')
  then have "graft st p (node_at ?h) (contents_of t) = (del_group ?i (mkdirs st (AbsolutePathId p) (contents_of t)))(AbsolutePathId p \<mapsto> node_of ?h)"
    by (rule graft_drop [OF t])
  moreover have "removeGroup st t ?i v = putGroup st t ?h v" using Some g d by (simp add: removeGroup_def)
  moreover have "mkdirs st (AbsolutePathId p) (contents_of t) = contents_of t"
    using g by (intro mkdirs_present [OF t]) (simp add: contents_of_def)
  moreover have "(del_group ?i (contents_of t))(AbsolutePathId p \<mapsto> node_of ?h) = del_group ?i (contents_of t)"
    unfolding make_group_same [OF old(1)] using g by (auto simp: del_group_def at_or_below_def contents_of_def node_of_def)
  ultimately show ?thesis using putGroup_edited [OF t group_or_new_present [OF g] h, where v = v and st = st] by (simp add: old(2))
qed

lemma makeGroup_edited:
  fixes t g :: "('c, 'o) group"
  assumes t: "wf_tree t" and "new_group st (AbsolutePathId p) = Inr g"
  shows "\<exists>r. makeGroup st t (AbsolutePathId p) = Inr r \<and> wf_tree r \<and> contents_of r = mkdirs st (AbsolutePathId p) (contents_of t)"
proof (cases "group_at t (AbsolutePathId p)")
  case None
  then have n: "group_or_new st t (AbsolutePathId p) = Inr g" using assms(2) by (simp add: group_or_new_def)
  note old = group_or_new [OF t n]
  have "edited (gr_version t) (modify (AbsolutePathId p) (\<lambda>n. node_of g) (mkdirs st (AbsolutePathId p) (contents_of t))) (putGroup st t g (gr_version t))"
    by (rule edit_own [OF t n old(1,2) refl])
  moreover have "makeGroup st t (AbsolutePathId p) = putGroup st t g (gr_version t)" using None assms(2) by (simp add: makeGroup_def)
  moreover have "modify (AbsolutePathId p) (\<lambda>n. node_of g) (mkdirs st (AbsolutePathId p) (contents_of t)) = mkdirs st (AbsolutePathId p) (contents_of t)"
    by (rule modify_id) (use old(3) in simp)
  ultimately show ?thesis by (auto simp: edited_def)
next
  case (Some h)
  then have "makeGroup st t (AbsolutePathId p) = Inr t" using assms(2) by (simp add: makeGroup_def)
  then show ?thesis using mkdirs_present [OF t, of "AbsolutePathId p"] t Some by (simp add: contents_of_def)
qed

section \<open>Looking up after an edit\<close>

definition c_app :: "('c, 'o) contents \<Rightarrow> path_id \<Rightarrow> ('c, 'o) run_spec option" where
  "c_app c i = Option.bind (c (path_parent i)) (\<lambda>n. nd_apps n i)"

definition c_pod :: "('c, 'o) contents \<Rightarrow> path_id \<Rightarrow> ('c, 'o) run_spec option" where
  "c_pod c i = Option.bind (c (path_parent i)) (\<lambda>n. nd_pods n i)"

lemma lookup_mkdirs: "c_app (mkdirs st k c) i = c_app c i" "c_pod (mkdirs st k c) i = c_pod c i"
  by (auto simp: c_app_def c_pod_def mkdirs_def new_node_def split: Option.bind_splits)

lemma lookup_vacate: "c_app (vacate k c) i = c_app c i" "c_pod (vacate k c) i = c_pod c i"
proof -
  have "nd_apps n = Map.empty \<and> nd_pods n = Map.empty" if "\<not> occupied k c" "at_or_below k j" "c j = Some n" for j n
    using that by (auto simp: occupied_def)
  then show "c_app (vacate k c) i = c_app c i" "c_pod (vacate k c) i = c_pod c i"
    by (cases "c (path_parent i)"; fastforce simp: c_app_def c_pod_def vacate_def del_group_def)+
qed

lemma lookup_modify:
  "c_app (modify k f c) i = (if path_parent i = k then Option.bind (c k) (\<lambda>n. nd_apps (f n) i) else c_app c i)"
  "c_pod (modify k f c) i = (if path_parent i = k then Option.bind (c k) (\<lambda>n. nd_pods (f n) i) else c_pod c i)"
  by (cases "c k", auto simp: c_app_def c_pod_def modify_def)+

lemma lookup_modify_same:
  "(\<And>n. nd_apps (f n) = nd_apps n) \<Longrightarrow> c_app (modify k f c) i = c_app c i"
  "(\<And>n. nd_pods (f n) = nd_pods n) \<Longrightarrow> c_pod (modify k f c) i = c_pod c i"
  by (cases "c k", auto simp: c_app_def c_pod_def modify_def)+

text \<open>The laws of the two kinds of run specs: of one kind, what is put is found, and nothing else changes.\<close>

locale spec_map =
  fixes look other :: "('c, 'o) contents \<Rightarrow> path_id \<Rightarrow> ('c, 'o) run_spec option"
    and put :: "path_id \<Rightarrow> ('c, 'o) run_spec \<Rightarrow> ('c, 'o) contents \<Rightarrow> ('c, 'o) contents"
    and del :: "path_id \<Rightarrow> ('c, 'o) contents \<Rightarrow> ('c, 'o) contents"
  assumes look_put: "is_absolute i \<Longrightarrow> path_of i \<noteq> [] \<Longrightarrow> look (put i s c) j = (if j = i then Some s else look c j)"
    and look_del: "look (del i c) j = (if j = i then None else look c j)"
    and other_put: "other (put i s c) j = other c j"
    and other_del: "other (del i c) j = other c j"
begin

lemma put_put: "is_absolute i \<Longrightarrow> path_of i \<noteq> [] \<Longrightarrow> look (put i s (put i s' c)) = look (put i s c)"
  by (auto simp: look_put fun_eq_iff)

lemma del_put: "is_absolute i \<Longrightarrow> path_of i \<noteq> [] \<Longrightarrow> look c i = None \<Longrightarrow> look (del i (put i s c)) = look c"
  by (auto simp: look_put look_del fun_eq_iff)

end

lemma vacate_parent: "is_absolute i \<Longrightarrow> path_of i \<noteq> [] \<Longrightarrow> vacate i c (path_parent i) = c (path_parent i)"
  by (cases i; cases "path_of i" rule: rev_cases) (auto simp: vacate_def del_group_def at_or_below_def butlast_parent)

lemma mkdirs_self: "is_absolute i \<Longrightarrow> mkdirs st i c i \<noteq> None"
  by (simp add: mkdirs_def)

lemma parent_absolute: "is_absolute i \<Longrightarrow> is_absolute (path_parent i)"
  by (cases i) (simp_all add: butlast_parent)

interpretation app_map: spec_map c_app c_pod "put_app st" del_app for st
proof
  show "c_app (put_app st i s c) j = (if j = i then Some s else c_app c j)" if i: "is_absolute i" "path_of i \<noteq> []"
    for i j s and c :: "('c, 'o) contents"
  proof -
    obtain n where "mkdirs st (path_parent i) c (path_parent i) = Some n"
      using mkdirs_self [OF parent_absolute [OF i(1)]] by blast
    then have n: "vacate i (mkdirs st (path_parent i) c) (path_parent i) = Some n" by (simp add: vacate_parent [OF i])
    moreover from n have "c_app c k = nd_apps n k" if k: "path_parent k = path_parent i" for k
      using lookup_vacate(1) [of i "mkdirs st (path_parent i) c" k] lookup_mkdirs(1) [of st "path_parent i" c k] k n by (simp add: c_app_def)
    ultimately show ?thesis by (auto simp: put_app_def lookup_modify lookup_vacate lookup_mkdirs)
  qed
  show "c_app (del_app i c) j = (if j = i then None else c_app c j)" for i j and c :: "('c, 'o) contents"
    by (cases "c (path_parent i)") (auto simp: del_app_def c_app_def modify_def)
  show "c_pod (put_app st i s c) j = c_pod c j" for i j s and c :: "('c, 'o) contents"
    unfolding put_app_def by (subst lookup_modify_same(2)) (simp_all add: lookup_vacate lookup_mkdirs)
  show "c_pod (del_app i c) j = c_pod c j" for i j and c :: "('c, 'o) contents"
    unfolding del_app_def by (rule lookup_modify_same(2)) simp
qed

interpretation pod_map: spec_map c_pod c_app "put_pod st" del_pod for st
proof
  show "c_pod (put_pod st i s c) j = (if j = i then Some s else c_pod c j)" if i: "is_absolute i" "path_of i \<noteq> []"
    for i j s and c :: "('c, 'o) contents"
  proof -
    obtain n where "mkdirs st (path_parent i) c (path_parent i) = Some n"
      using mkdirs_self [OF parent_absolute [OF i(1)]] by blast
    then have n: "vacate i (mkdirs st (path_parent i) c) (path_parent i) = Some n" by (simp add: vacate_parent [OF i])
    moreover from n have "c_pod c k = nd_pods n k" if k: "path_parent k = path_parent i" for k
      using lookup_vacate(2) [of i "mkdirs st (path_parent i) c" k] lookup_mkdirs(2) [of st "path_parent i" c k] k n by (simp add: c_pod_def)
    ultimately show ?thesis by (auto simp: put_pod_def lookup_modify lookup_vacate lookup_mkdirs)
  qed
  show "c_pod (del_pod i c) j = (if j = i then None else c_pod c j)" for i j and c :: "('c, 'o) contents"
    by (cases "c (path_parent i)") (auto simp: del_pod_def c_pod_def modify_def)
  show "c_app (put_pod st i s c) j = c_app c j" for i j s and c :: "('c, 'o) contents"
    unfolding put_pod_def by (subst lookup_modify_same(1)) (simp_all add: lookup_vacate lookup_mkdirs)
  show "c_app (del_pod i c) j = c_app c j" for i j and c :: "('c, 'o) contents"
    unfolding del_pod_def by (rule lookup_modify_same(1)) simp
qed


section \<open>Run specs of a tree\<close>

lemma spec_place:
  assumes t: "wf_tree t"
  shows "app_at t i = Some s \<Longrightarrow> rs_kind s = App \<and> rs_id s = i \<and> is_absolute i \<and> path_of i \<noteq> [] \<and> group_at t (path_parent i) \<noteq> None"
    and "pod_at t i = Some s \<Longrightarrow> rs_kind s = Pod \<and> rs_id s = i \<and> is_absolute i \<and> path_of i \<noteq> [] \<and> group_at t (path_parent i) \<noteq> None"
proof -
  have "\<exists>g. group_at t (path_parent i) = Some g \<and> map_of (gr_apps g) i = Some s" if "app_at t i = Some s"
    using that by (auto simp: app_at_contents [OF t] contents_of_def node_of_def split: Option.bind_splits)
  moreover have "\<exists>g. group_at t (path_parent i) = Some g \<and> map_of (gr_pods g) i = Some s" if "pod_at t i = Some s"
    using that by (auto simp: pod_at_contents [OF t] contents_of_def node_of_def split: Option.bind_splits)
  moreover have "wf_group g" if "group_at t (path_parent i) = Some g" for g
    using group_at_wf [OF _ that] t by (simp add: wf_tree_def)
  ultimately show "app_at t i = Some s \<Longrightarrow> rs_kind s = App \<and> rs_id s = i \<and> is_absolute i \<and> path_of i \<noteq> [] \<and> group_at t (path_parent i) \<noteq> None"
    "pod_at t i = Some s \<Longrightarrow> rs_kind s = Pod \<and> rs_id s = i \<and> is_absolute i \<and> path_of i \<noteq> [] \<and> group_at t (path_parent i) \<noteq> None"
    using wf_parts(2,3) unfolding below_def by (metis map_of_SomeD option.distinct(1))+
qed

lemma app_or_pod:
  assumes t: "wf_tree t"
  shows "app_at t i = None \<or> pod_at t i = None"
proof (cases "group_at t (path_parent i)")
  case (Some g)
  then have "wf_group g" using group_at_wf [OF _ Some] t by (simp add: wf_tree_def)
  from wf_parts(1) [OF this] have "map_of (gr_apps g) i = None \<or> map_of (gr_pods g) i = None"
    by (auto simp: map_of_eq_None_iff)
  then show ?thesis using Some by (simp add: app_at_contents [OF t] pod_at_contents [OF t] contents_of_def node_of_def)
qed (simp add: app_at_contents [OF t] contents_of_def)

text \<open>Each kind of run spec from the run specs.\<close>

lemma spec_of_kind:
  assumes t: "wf_tree t"
  shows "app_at t i = (case runSpec t i of Some s \<Rightarrow> if rs_kind s = App then Some s else None | None \<Rightarrow> None)"
    and "pod_at t i = (case runSpec t i of Some s \<Rightarrow> if rs_kind s = Pod then Some s else None | None \<Rightarrow> None)"
  using spec_place [OF t, of i] app_or_pod [OF t, of i] by (auto simp: runSpec_def split: option.splits)

lemma lookup_contents: "wf_tree t \<Longrightarrow> app_at t = c_app (contents_of t)" "wf_tree t \<Longrightarrow> pod_at t = c_pod (contents_of t)"
  by (simp_all add: fun_eq_iff app_at_contents pod_at_contents c_app_def c_pod_def)


lemma runSpec_contents: "wf_tree t \<Longrightarrow> runSpec t i = (case c_app (contents_of t) i of Some a \<Rightarrow> Some a | None \<Rightarrow> c_pod (contents_of t) i)"
  by (simp add: runSpec_def lookup_contents split: option.split)

lemma runSpec_place:
  assumes "wf_tree t" and "runSpec t i = Some s"
  shows "rs_id s = i \<and> (\<exists>p x. i = AbsolutePathId (p @ [x])) \<and> group_at t (path_parent i) \<noteq> None"
proof -
  have "rs_id s = i \<and> is_absolute i \<and> path_of i \<noteq> [] \<and> group_at t (path_parent i) \<noteq> None"
    using spec_place [OF assms(1)] assms(2) unfolding runSpec_def by (auto split: option.splits)
  moreover from this have "i = AbsolutePathId (butlast (path_of i) @ [last (path_of i)])" using absolute_path [of i] by simp
  ultimately show ?thesis by blast
qed

lemma transitive_ids: "wf_group g \<Longrightarrow> transitiveAppIds g = map rs_id (transitiveApps g) \<and> transitivePodIds g = map rs_id (transitivePods g)"
proof (induction g)
  case (Group i apps pods groups deps ver enf)
  let ?g = "Group i apps pods groups deps ver enf"
  have "map fst apps = map rs_id (map snd apps)" "map fst pods = map rs_id (map snd pods)"
    using wf_parts(2,3) [OF Group.prems] by (auto simp: case_prod_beta)
  moreover have "map (\<lambda>(k, g). transitiveAppIds g) groups = map (\<lambda>(k, g). map rs_id (transitiveApps g)) groups"
    "map (\<lambda>(k, g). transitivePodIds g) groups = map (\<lambda>(k, g). map rs_id (transitivePods g)) groups"
    using Group.IH wf_sub [OF Group.prems] by (force intro!: map_cong)+
  ultimately show ?case by (simp add: map_concat comp_def case_prod_unfold cong: map_cong)
qed

lemma specs_all:
  assumes "wf_tree t" and "list_all P (transitiveRunSpecs t)" and "runSpec t i = Some s"
  shows "P s \<and> rs_id s = i"
  using assms runSpec_iff [of t i s] by (auto simp: wf_tree_def list_all_iff)

section \<open>The tree as a map of run specs\<close>


definition sample_tree_app :: "(unit, unit) run_spec" where
  "sample_tree_app = \<lparr>rs_kind = App, rs_id = AbsolutePathId [''a'', ''b'', ''app''], rs_instances = 1, rs_dependencies = [],
     rs_versionInfo = NoVersion, rs_config = (), rs_other = ()\<rparr>"

definition sample_root :: "(unit, unit) group" where
  "sample_root = Group path_root [] [] [(AbsolutePathId [''a''], Group (AbsolutePathId [''a'']) [] [] [] [] 0 (Some True))] [] 0 None"


text \<open>
  Which edits fail. Setting dependencies fails exactly if the group is missing and the strategy
  does not make groups; \<open>makeGroup\<close> fails with that strategy even where the group exists; removing an app
  or a pod never fails, removing a group only for the root. Role enforcement can be set only at the top.
\<close>

theorem edits_that_fail:
  assumes "wf_tree t"
  shows "(updateDependencies st t (AbsolutePathId p) f v = Inl e \<longleftrightarrow>
      st = Fail \<and> group_at t (AbsolutePathId p) = None \<and> e = NoSuchGroup (AbsolutePathId p))
    \<and> makeGroup Fail t i = Inl (NoSuchGroup i)
    \<and> \<not> isl (makeGroup (UsingConfig b) t (AbsolutePathId p))
    \<and> \<not> isl (removeApp st t i v) \<and> \<not> isl (removePod st t i v)
    \<and> (isl (removeGroup st t (AbsolutePathId p) v) \<longleftrightarrow> p = [])
    \<and> (isl (withEnforceRole enforce g) \<longleftrightarrow> \<not> isTopLevel (gr_id g))"
proof -
  have ok: "\<not> isl result" if "edited v c result" for c and result :: "edit_error + ('a, 'b) group"
    using that by (auto simp: edited_def)
  have deps: "updateDependencies st t (AbsolutePathId p) f v = Inl e \<longleftrightarrow> st = Fail \<and> group_at t (AbsolutePathId p) = None \<and> e = NoSuchGroup (AbsolutePathId p)"
  proof (cases "group_or_new st t (AbsolutePathId p)")
    case (Inl e')
    then show ?thesis using group_or_new_error [of st t "AbsolutePathId p" e'] by (auto simp: updateDependencies_def)
  next
    case (Inr g)
    have "edited v (set_deps st (AbsolutePathId p) (\<lambda>D. set (f (gr_dependencies g))) (contents_of t))
        (updateDependencies st t (AbsolutePathId p) (\<lambda>ds. f (gr_dependencies g)) v)"
      by (rule updateDependencies_edited [OF assms Inr]) simp
    moreover have "updateDependencies st t (AbsolutePathId p) (\<lambda>ds. f (gr_dependencies g)) v = updateDependencies st t (AbsolutePathId p) f v"
      using Inr by (simp add: updateDependencies_def)
    ultimately show ?thesis using Inr group_or_new_error [of st t "AbsolutePathId p" e] by (auto simp: edited_def)
  qed
  have "\<not> isl (makeGroup (UsingConfig b) t (AbsolutePathId p))"
    using makeGroup_edited [OF assms, of "UsingConfig b" p] by auto
  moreover have "isl (removeGroup st t (AbsolutePathId p) v) \<longleftrightarrow> p = []"
    using ok [OF removeGroup_edited [OF assms]] by (cases p rule: rev_cases) (auto simp: removeGroup_def)
  ultimately show ?thesis using deps ok [OF removeApp_edited [OF assms]] ok [OF removePod_edited [OF assms]] by (simp add: makeGroup_def withEnforceRole_def)
qed

theorem edits_that_fail_witness:
  "\<not> Option.is_none (group_at sample_root (AbsolutePathId [''a''])) \<and> makeGroup Fail sample_root (AbsolutePathId [''a'']) = Inl (NoSuchGroup (AbsolutePathId [''a'']))"
proof -
  have "wf_tree sample_root" by code_simp
  moreover have "\<not> Option.is_none (group_at sample_root (AbsolutePathId [''a'']))" by code_simp
  ultimately show ?thesis using edits_that_fail [of sample_root] by blast
qed

end
