(* ===== verification/Versioning.thy ===== *)
theory Versioning
  imports RootGroup Deployment
begin

text \<open>
  The versions a new tree of groups gets (\<open>upgrade/GroupVersioningUtil.scala\<close>, \<open>state/VersionInfo.scala\<close>):
  each changed run spec gets the new version, as one of a configuration, of a scaling or of a restart,
  and what the deployment plan makes of that.
\<close>

section \<open>Version information\<close>

definition forNewConfig :: "nat \<Rightarrow> version_info" where
  "forNewConfig newVersion = FullVersionInfo newVersion newVersion newVersion"

fun lastConfigChangeVersion :: "version_info \<Rightarrow> nat" where
  "lastConfigChangeVersion (FullVersionInfo version lastScalingAt lastConfigChangeAt) = lastConfigChangeAt"
| "lastConfigChangeVersion (OnlyVersion version) = version"
| "lastConfigChangeVersion NoVersion = 0"

text \<open>Information that is not full counts as that of a new configuration.\<close>

definition full_info :: "version_info \<Rightarrow> version_info" where
  "full_info info = (case info of FullVersionInfo _ _ _ \<Rightarrow> info | _ \<Rightarrow> forNewConfig (vi_version info))"

fun copy_scaling :: "nat \<Rightarrow> version_info \<Rightarrow> version_info" where
  "copy_scaling newVersion (FullVersionInfo version scaling config) = FullVersionInfo newVersion newVersion config"
| "copy_scaling newVersion info = info"

fun copy_config :: "nat \<Rightarrow> version_info \<Rightarrow> version_info" where
  "copy_config newVersion (FullVersionInfo version scaling config) = FullVersionInfo newVersion scaling newVersion"
| "copy_config newVersion info = info"

definition withScaleChange :: "version_info \<Rightarrow> nat \<Rightarrow> version_info" where
  "withScaleChange info newVersion = copy_scaling newVersion (full_info info)"

definition withRestartChange :: "version_info \<Rightarrow> nat \<Rightarrow> version_info" where
  "withRestartChange info newVersion = copy_config newVersion (full_info info)"

definition withConfigChange :: "version_info \<Rightarrow> nat \<Rightarrow> version_info" where
  "withConfigChange info newVersion = forNewConfig newVersion"

section \<open>Versions of changed run specs\<close>

text \<open>The exceptions are those of comparing an app with a pod and those of editing the tree.\<close>

type_synonym 'a versioned = "(state_error + edit_error) + 'a"

definition of_spec :: "state_error + 'a \<Rightarrow> 'a versioned" where
  "of_spec r = (case r of Inl e \<Rightarrow> Inl (Inl e) | Inr x \<Rightarrow> Inr x)"

definition of_edit :: "edit_error + 'a \<Rightarrow> 'a versioned" where
  "of_edit r = (case r of Inl e \<Rightarrow> Inl (Inr e) | Inr x \<Rightarrow> Inr x)"

definition updateVersionInfo :: "nat \<Rightarrow> ('c, 'o) run_spec option \<Rightarrow> ('c, 'o) run_spec \<Rightarrow> state_error + ('c, 'o) run_spec" where
  "updateVersionInfo version maybeOld new =
     rbind (case maybeOld of
         None \<Rightarrow> Inr (forNewConfig version)
       | Some old \<Rightarrow> rbind (isUpgrade old new) (\<lambda>upgrade.
           if upgrade then Inr (withConfigChange (rs_versionInfo old) version)
           else rbind (isOnlyScaleChange old new) (\<lambda>scaling.
             Inr (if scaling then withScaleChange (rs_versionInfo old) version
               else if rs_versionInfo old \<noteq> rs_versionInfo new \<and> rs_versionInfo new = NoVersion
               then withRestartChange (rs_versionInfo old) version
               else rs_versionInfo old))))
       (\<lambda>info. Inr (new\<lparr>rs_versionInfo := info\<rparr>))"

text \<open>The run specs whose version changes, as a list of none or one for each.\<close>

definition changed_spec :: "nat \<Rightarrow> (path_id \<Rightarrow> ('c, 'o) run_spec option) \<Rightarrow> ('c, 'o) run_spec \<Rightarrow> ('c, 'o) run_spec list versioned" where
  "changed_spec version from new =
     rbind (of_spec (updateVersionInfo version (from (rs_id new)) new)) (\<lambda>updated.
       Inr (if rs_versionInfo updated \<noteq> rs_versionInfo new then [updated] else []))"

definition updateVersionInfoForChangedApps :: "new_group_strategy \<Rightarrow> nat \<Rightarrow> ('c, 'o) group \<Rightarrow> ('c, 'o) group \<Rightarrow> ('c, 'o) group versioned" where
  "updateVersionInfoForChangedApps st version from to =
     rbind (mapR (changed_spec version (app_at from)) (transitiveApps to)) (\<lambda>updated.
       rbind (of_edit (updateVersion to version)) (\<lambda>updatedTo.
         foldR (\<lambda>app result. of_edit (updateApp st result (rs_id app) (\<lambda>_. app) version)) (concat updated) updatedTo))"

definition updateVersionInfoForChangedPods :: "new_group_strategy \<Rightarrow> nat \<Rightarrow> ('c, 'o) group \<Rightarrow> ('c, 'o) group \<Rightarrow> ('c, 'o) group versioned" where
  "updateVersionInfoForChangedPods st version from to =
     rbind (mapR (changed_spec version (pod_at from)) (transitivePods to)) (\<lambda>updated.
       rbind (of_edit (updateVersion to version)) (\<lambda>updatedTo.
         foldR (\<lambda>pod result. of_edit (updatePod st result (rs_id pod) (\<lambda>_. pod) version)) (concat updated) updatedTo))"

section \<open>The new versions\<close>

text \<open>The version information of a run spec next to the one it replaces, of the same kind and id.\<close>

definition new_info :: "nat \<Rightarrow> ('c, 'o) run_spec option \<Rightarrow> ('c, 'o) run_spec \<Rightarrow> version_info" where
  "new_info version maybeOld new = (case maybeOld of
       None \<Rightarrow> forNewConfig version
     | Some old \<Rightarrow>
         if isUpgrade old new = Inr True then forNewConfig version
         else if rs_instances old \<noteq> rs_instances new then withScaleChange (rs_versionInfo old) version
         else if rs_versionInfo old \<noteq> rs_versionInfo new \<and> rs_versionInfo new = NoVersion
         then withRestartChange (rs_versionInfo old) version
         else rs_versionInfo old)"

lemma updateVersionInfo_new:
  assumes "\<And>old. maybeOld = Some old \<Longrightarrow> rs_kind old = rs_kind new"
  shows "updateVersionInfo version maybeOld new = Inr (new\<lparr>rs_versionInfo := new_info version maybeOld new\<rparr>)"
proof (cases maybeOld)
  case (Some old)
  then have "\<exists>b. isUpgrade old new = Inr b" using assms by (simp add: isUpgrade_def)
  then show ?thesis using Some by (auto simp: updateVersionInfo_def new_info_def isOnlyScaleChange_def withConfigChange_def)
qed (simp add: updateVersionInfo_def new_info_def)


text \<open>What the apps and the pods of a tree share: a kind, a lookup, all of them, and an update.\<close>

locale run_specs_of_kind =
  fixes K :: spec_kind
    and look other :: "('c, 'o) group \<Rightarrow> path_id \<Rightarrow> ('c, 'o) run_spec option"
    and everywhere :: "('c, 'o) group \<Rightarrow> ('c, 'o) run_spec list"
    and update :: "new_group_strategy \<Rightarrow> ('c, 'o) group \<Rightarrow> path_id \<Rightarrow> (('c, 'o) run_spec option \<Rightarrow> ('c, 'o) run_spec) \<Rightarrow> nat
      \<Rightarrow> edit_error + ('c, 'o) group"
  assumes everywhere_iff: "wf_tree t \<Longrightarrow> s \<in> set (everywhere t) \<longleftrightarrow> look t (rs_id s) = Some s"
    and look_kind: "wf_tree t \<Longrightarrow> look t i = Some s \<Longrightarrow> rs_kind s = K \<and> rs_id s = i \<and> (\<exists>p x. i = AbsolutePathId (p @ [x])) \<and> other t i = None"
    and update_look: "wf_tree t \<Longrightarrow> rs_id s = AbsolutePathId (p @ [x]) \<Longrightarrow> rs_kind s = K \<Longrightarrow> other t (rs_id s) = None \<Longrightarrow>
      \<exists>r. update (UsingConfig b) t (rs_id s) (\<lambda>_. s) v = Inr r \<and> wf_tree r \<and> all_versions v r
        \<and> (\<forall>j. look r j = (if j = rs_id s then Some s else look t j)) \<and> (\<forall>j. other r j = other t j)"
    and look_contents: "wf_tree t \<Longrightarrow> wf_tree u \<Longrightarrow> contents_of t = contents_of u \<Longrightarrow> look t = look u \<and> other t = other u"
begin

lemma put_all:
  "wf_tree t \<Longrightarrow> all_versions v t \<Longrightarrow>
    (\<And>s. s \<in> set us \<Longrightarrow> rs_kind s = K \<and> (\<exists>p x. rs_id s = AbsolutePathId (p @ [x])) \<and> other t (rs_id s) = None \<and> F (rs_id s) = Some s) \<Longrightarrow>
    \<exists>r. foldR (\<lambda>s result. of_edit (update (UsingConfig b) result (rs_id s) (\<lambda>_. s) v)) us t = Inr r \<and> wf_tree r \<and> all_versions v r
      \<and> (\<forall>j. look r j = (if j \<in> rs_id ` set us then F j else look t j)) \<and> (\<forall>j. other r j = other t j)"
proof (induction us arbitrary: t)
  case (Cons u us)
  obtain p x where u: "rs_id u = AbsolutePathId (p @ [x])" "rs_kind u = K" "other t (rs_id u) = None" "F (rs_id u) = Some u"
    using Cons.prems(3) [OF list.set_intros(1)] by blast
  obtain r where r: "update (UsingConfig b) t (rs_id u) (\<lambda>_. u) v = Inr r" "wf_tree r" "all_versions v r"
      "\<forall>j. look r j = (if j = rs_id u then Some u else look t j)" "\<forall>j. other r j = other t j"
    using update_look [OF Cons.prems(1) u(1-3)] by blast
  have "\<exists>r'. foldR (\<lambda>s result. of_edit (update (UsingConfig b) result (rs_id s) (\<lambda>_. s) v)) us r = Inr r' \<and> wf_tree r' \<and> all_versions v r'
      \<and> (\<forall>j. look r' j = (if j \<in> rs_id ` set us then F j else look r j)) \<and> (\<forall>j. other r' j = other r j)"
    by (rule Cons.IH [OF r(2,3)]) (use Cons.prems(3) r(5) in simp)
  then show ?case using r u(4) by (auto simp: of_edit_def)
qed simp

lemma changed_all:
  assumes "wf_tree from" and "wf_tree to"
  shows "mapR (changed_spec v (look from)) (everywhere to) = Inr (map (\<lambda>new. let updated = new\<lparr>rs_versionInfo := new_info v (look from (rs_id new)) new\<rparr>
      in if rs_versionInfo updated \<noteq> rs_versionInfo new then [updated] else []) (everywhere to))"
proof (rule mapR_Inr_map)
  fix new assume "new \<in> set (everywhere to)"
  then have "look to (rs_id new) = Some new" using everywhere_iff [OF assms(2)] by blast
  then have "rs_kind old = rs_kind new" if "look from (rs_id new) = Some old" for old
    using conjunct1 [OF look_kind [OF assms(1) that]] conjunct1 [OF look_kind [OF assms(2)]] by metis
  from updateVersionInfo_new [of "look from (rs_id new)" new v, OF this]
  show "changed_spec v (look from) new = Inr (let updated = new\<lparr>rs_versionInfo := new_info v (look from (rs_id new)) new\<rparr>
      in if rs_versionInfo updated \<noteq> rs_versionInfo new then [updated] else [])"
    by (simp add: changed_spec_def of_spec_def Let_def)
qed

lemma versions_all:
  assumes "wf_tree from" and "wf_tree to"
  shows "\<exists>r. rbind (mapR (changed_spec v (look from)) (everywhere to)) (\<lambda>updated.
       rbind (of_edit (updateVersion to v)) (\<lambda>updatedTo.
         foldR (\<lambda>s result. of_edit (update (UsingConfig b) result (rs_id s) (\<lambda>_. s) v)) (concat updated) updatedTo)) = Inr r
    \<and> wf_tree r \<and> all_versions v r
    \<and> (\<forall>i. look r i = map_option (\<lambda>s. s\<lparr>rs_versionInfo := new_info v (look from i) s\<rparr>) (look to i)) \<and> (\<forall>i. other r i = other to i)"
proof -
  let ?new = "\<lambda>s. s\<lparr>rs_versionInfo := new_info v (look from (rs_id s)) s\<rparr>"
  let ?us = "map ?new (filter (\<lambda>s. rs_versionInfo (?new s) \<noteq> rs_versionInfo s) (everywhere to))"
  let ?F = "\<lambda>i. map_option ?new (look to i)"
  have us: "concat (map (\<lambda>new. let updated = ?new new in if rs_versionInfo updated \<noteq> rs_versionInfo new then [updated] else []) xs)
      = map ?new (filter (\<lambda>s. rs_versionInfo (?new s) \<noteq> rs_versionInfo s) xs)" for xs
    by (induction xs) (simp_all add: Let_def)
  obtain t where t: "updateVersion to v = Inr t" "wf_tree t" "all_versions v t" "contents_of t = contents_of to"
    using updateVersion_edited [OF assms(2), of v] by (auto simp: edited_def)
  have same: "look t = look to" "other t = other to" using look_contents [OF t(2) assms(2) t(4)] by blast+
  have "rs_kind s = K \<and> (\<exists>p x. rs_id s = AbsolutePathId (p @ [x])) \<and> other t (rs_id s) = None \<and> ?F (rs_id s) = Some s" if s: "s \<in> set ?us" for s
  proof -
    obtain x where x: "x \<in> set (everywhere to)" "s = ?new x" using s by auto
    then have l: "look to (rs_id x) = Some x" using everywhere_iff [OF assms(2)] by blast
    then show ?thesis using look_kind [OF assms(2) l] x(2) same by simp
  qed
  from put_all [OF t(2,3) this, where b = b] obtain r
    where r: "foldR (\<lambda>s result. of_edit (update (UsingConfig b) result (rs_id s) (\<lambda>_. s) v)) ?us t = Inr r" "wf_tree r" "all_versions v r"
      and look: "\<forall>j. look r j = (if j \<in> rs_id ` set ?us then ?F j else look to j)" and other: "\<forall>j. other r j = other to j"
    unfolding same by blast
  have "look r i = map_option (\<lambda>s. s\<lparr>rs_versionInfo := new_info v (look from i) s\<rparr>) (look to i)" for i
  proof (cases "look to i")
    case None
    then show ?thesis using look by simp
  next
    case (Some s)
    then have id: "rs_id s = i" using look_kind [OF assms(2)] by blast
    show ?thesis
    proof (cases "i \<in> rs_id ` set ?us")
      case True
      then show ?thesis using look Some id by simp
    next
      case False
      have "s \<in> set (everywhere to)" using everywhere_iff [OF assms(2), of s] Some id by simp
      then have "rs_versionInfo (?new s) = rs_versionInfo s" using False id by (force simp: image_iff)
      then have "s\<lparr>rs_versionInfo := new_info v (look from i) s\<rparr> = s" using id by simp
      then show ?thesis using look False Some by simp
    qed
  qed
  then show ?thesis
    unfolding changed_all [OF assms] rbind_Inr t(1) of_edit_def sum.case us using r(1) [unfolded of_edit_def] r(2,3) other by blast
qed

end

lemma update_is_put:
  assumes "wf_tree t" and "edited v c result" and "\<And>r. result = Inr r \<Longrightarrow> wf_tree r \<Longrightarrow> contents_of r = c \<Longrightarrow> P r"
  shows "\<exists>r. result = Inr r \<and> wf_tree r \<and> all_versions v r \<and> P r"
  using assms by (auto simp: edited_def)

interpretation versioned_apps: run_specs_of_kind App app_at pod_at transitiveApps updateApp
proof
  show "s \<in> set (transitiveApps t) \<longleftrightarrow> app_at t (rs_id s) = Some s" if "wf_tree t" for s and t :: "('c, 'o) group"
    unfolding app_pod_at using apps.spec_at_iff that by (auto simp: wf_tree_def)
  show "rs_kind s = App \<and> rs_id s = i \<and> (\<exists>p x. i = AbsolutePathId (p @ [x])) \<and> pod_at t i = None"
    if t: "wf_tree t" and s: "app_at t i = Some s" for i s and t :: "('c, 'o) group"
    using spec_place(1) [OF t s] app_or_pod [OF t, of i] runSpec_place [OF t, of i s] s by (auto simp: runSpec_def)
  show "\<exists>r. updateApp (UsingConfig b) t (rs_id s) (\<lambda>_. s) v = Inr r \<and> wf_tree r \<and> all_versions v r
      \<and> (\<forall>j. app_at r j = (if j = rs_id s then Some s else app_at t j)) \<and> (\<forall>j. pod_at r j = pod_at t j)"
    if t: "wf_tree t" and s: "rs_id s = AbsolutePathId (p @ [x])" "rs_kind s = App" "pod_at t (rs_id s) = None" for s p x b v and t :: "('c, 'o) group"
  proof -
    obtain g where g: "group_or_new (UsingConfig b) t (AbsolutePathId p) = Inr g" using group_or_new_total [of "UsingConfig b"] by blast
    show ?thesis unfolding s(1)
      by (rule update_is_put [OF t updateApp_edited [OF t g s(1) refl s(2) s(3) [unfolded s(1)]]])
        (simp add: lookup_contents t app_map.look_put app_map.other_put)
  qed
qed (simp add: lookup_contents)

interpretation versioned_pods: run_specs_of_kind Pod pod_at app_at transitivePods updatePod
proof
  show "s \<in> set (transitivePods t) \<longleftrightarrow> pod_at t (rs_id s) = Some s" if "wf_tree t" for s and t :: "('c, 'o) group"
    unfolding app_pod_at using pods.spec_at_iff that by (auto simp: wf_tree_def)
  show "rs_kind s = Pod \<and> rs_id s = i \<and> (\<exists>p x. i = AbsolutePathId (p @ [x])) \<and> app_at t i = None"
    if t: "wf_tree t" and s: "pod_at t i = Some s" for i s and t :: "('c, 'o) group"
    using spec_place(2) [OF t s] app_or_pod [OF t, of i] runSpec_place [OF t, of i s] s by (auto simp: runSpec_def)
  show "\<exists>r. updatePod (UsingConfig b) t (rs_id s) (\<lambda>_. s) v = Inr r \<and> wf_tree r \<and> all_versions v r
      \<and> (\<forall>j. pod_at r j = (if j = rs_id s then Some s else pod_at t j)) \<and> (\<forall>j. app_at r j = app_at t j)"
    if t: "wf_tree t" and s: "rs_id s = AbsolutePathId (p @ [x])" "rs_kind s = Pod" "app_at t (rs_id s) = None" for s p x b v and t :: "('c, 'o) group"
  proof -
    obtain g where g: "group_or_new (UsingConfig b) t (AbsolutePathId p) = Inr g" using group_or_new_total [of "UsingConfig b"] by blast
    show ?thesis unfolding s(1)
      by (rule update_is_put [OF t updatePod_edited [OF t g s(1) refl s(2) s(3) [unfolded s(1)]]])
        (simp add: lookup_contents t pod_map.look_put pod_map.other_put)
  qed
qed (simp add: lookup_contents)


section \<open>From a new tree to its plan\<close>

text \<open>The group manager versions the apps, then the pods, and makes the plan.\<close>

definition versioned_root :: "new_group_strategy \<Rightarrow> nat \<Rightarrow> ('c, 'o) group \<Rightarrow> ('c, 'o) group \<Rightarrow> ('c, 'o) group versioned" where
  "versioned_root st version from unversioned =
     rbind (updateVersionInfoForChangedApps st version from unversioned) (updateVersionInfoForChangedPods st version from)"

text \<open>The run spec of the old tree that a new one replaces: of its kind.\<close>

definition replaced :: "('c, 'o) group \<Rightarrow> ('c, 'o) run_spec \<Rightarrow> ('c, 'o) run_spec option" where
  "replaced from s = (case rs_kind s of App \<Rightarrow> app_at from (rs_id s) | Pod \<Rightarrow> pod_at from (rs_id s))"

lemma versioned_root_specs:
  assumes "wf_tree from" and "wf_tree to"
  shows "\<exists>r. versioned_root (UsingConfig b) v from to = Inr r \<and> wf_tree r \<and> all_versions v r
    \<and> (\<forall>i. runSpec r i = map_option (\<lambda>s. s\<lparr>rs_versionInfo := new_info v (replaced from s) s\<rparr>) (runSpec to i))"
proof -
  obtain r1 where r1: "updateVersionInfoForChangedApps (UsingConfig b) v from to = Inr r1" "wf_tree r1"
    and apps1: "\<forall>i. app_at r1 i = map_option (\<lambda>s. s\<lparr>rs_versionInfo := new_info v (app_at from i) s\<rparr>) (app_at to i)"
    and pods1: "\<forall>i. pod_at r1 i = pod_at to i"
    using versioned_apps.versions_all [OF assms, of v b] unfolding updateVersionInfoForChangedApps_def by blast
  obtain r where r: "updateVersionInfoForChangedPods (UsingConfig b) v from r1 = Inr r" "wf_tree r" "all_versions v r"
    and pods: "\<forall>i. pod_at r i = map_option (\<lambda>s. s\<lparr>rs_versionInfo := new_info v (pod_at from i) s\<rparr>) (pod_at r1 i)"
    and apps: "\<forall>i. app_at r i = app_at r1 i"
    using versioned_pods.versions_all [OF assms(1) r1(2), of v b] unfolding updateVersionInfoForChangedPods_def by blast
  have "runSpec r i = map_option (\<lambda>s. s\<lparr>rs_versionInfo := new_info v (replaced from s) s\<rparr>) (runSpec to i)" for i
  proof (cases "app_at to i")
    case None
    then show ?thesis
      using apps pods apps1 pods1 spec_place(2) [OF assms(2), of i] by (cases "pod_at to i") (simp_all add: runSpec_def replaced_def)
  next
    case (Some a)
    then show ?thesis using apps apps1 spec_place(1) [OF assms(2) Some] by (simp add: runSpec_def replaced_def)
  qed
  then show ?thesis using r1(1) r by (simp add: versioned_root_def)
qed

lemma isUpgrade_info: "isUpgrade old (new\<lparr>rs_versionInfo := info\<rparr>) = isUpgrade old new"
  by (simp add: isUpgrade_def)

text \<open>
  What becomes of a run spec of a new tree that replaces one of its kind: once it is versioned, the
  plan restarts it exactly if it is an upgrade or was marked by taking its version away, scales it if
  only the number of instances differs or it goes to zero, and does nothing otherwise. The version is
  a new one.
\<close>

theorem versioned_action:
  assumes "runSpec from (rs_id new) = Some old" and "rs_id old = rs_id new" and "rs_kind old = rs_kind new"
    and "version \<noteq> vi_version (rs_versionInfo old)"
    and "versioned = new\<lparr>rs_versionInfo := new_info version (Some old) new\<rparr>"
  shows "updateVersionInfo version (Some old) new = Inr versioned
    \<and> spec_action from toKill versioned = Inr (
      if rs_instances new = 0 then [ScaleApplication versioned 0 (toKill (rs_id new))]
      else if isUpgrade old new = Inr True then [RestartApplication versioned]
      else if rs_instances old \<noteq> rs_instances new then [ScaleApplication versioned (rs_instances new) (toKill (rs_id new))]
      else if rs_versionInfo new = NoVersion \<and> rs_versionInfo old \<noteq> NoVersion then [RestartApplication versioned]
      else [])"
proof -
  obtain up where up: "isUpgrade old new = Inr up" using assms(3) by (simp add: isUpgrade_def)
  then have up': "isUpgrade old versioned = Inr up" unfolding assms(5) isUpgrade_info .
  have "vi_version (withRestartChange (rs_versionInfo old) version) = version"
    by (cases "rs_versionInfo old") (simp_all add: withRestartChange_def full_info_def forNewConfig_def)
  then have marked: "rs_versionInfo old \<noteq> withRestartChange (rs_versionInfo old) version"
    "vi_version (rs_versionInfo old) \<noteq> vi_version (withRestartChange (rs_versionInfo old) version)"
    using assms(4) by auto
  have restart: "needsRestart old versioned = Inr (up \<or> rs_versionInfo new = NoVersion \<and> rs_versionInfo old \<noteq> NoVersion)"
    if "rs_instances old = rs_instances new \<or> up"
    using that marked up up'
    by (cases "rs_kind old") (auto simp: needsRestart_def assms(5) new_info_def)
  have "spec_action from toKill versioned = Inr (
      if rs_instances new = 0 then [ScaleApplication versioned 0 (toKill (rs_id new))]
      else if up then [RestartApplication versioned]
      else if rs_instances old \<noteq> rs_instances new then [ScaleApplication versioned (rs_instances new) (toKill (rs_id new))]
      else if rs_versionInfo new = NoVersion \<and> rs_versionInfo old \<noteq> NoVersion then [RestartApplication versioned]
      else [])"
    using assms(1) up' restart
    by (auto simp: spec_action_def isOnlyScaleChange_def isScaledToZero_def assms(5))
  then show ?thesis
    using updateVersionInfo_new [of "Some old" new version] assms(3,5) up by simp
qed

text \<open>
  C14. Sending the tree that is deployed again, with other version information but nothing marked for a
  restart, is no deployment: every run spec gets the version it has, and the plan has no steps.
\<close>

theorem redeploy_nothing:
  fixes live sent :: "('c, 'o) group" and toKill :: "path_id \<Rightarrow> 'i list"
  assumes "wf_tree live" and "wf_tree sent"
    and same: "\<And>i. runSpec sent i = map_option (\<lambda>s. s\<lparr>rs_versionInfo := info i\<rparr>) (runSpec live i)"
    and unmarked: "\<And>i s. runSpec live i = Some s \<Longrightarrow> info i = NoVersion \<Longrightarrow> rs_versionInfo s = NoVersion"
  shows "\<exists>r. versioned_root (UsingConfig b) version live sent = Inr r \<and> all_versions version r
    \<and> (\<forall>i. runSpec r i = runSpec live i) \<and> deployment_plan live r toKill = Some (Inr [])"
proof -
  obtain r where r: "versioned_root (UsingConfig b) version live sent = Inr r" "wf_tree r" "all_versions version r"
    and specs: "\<forall>i. runSpec r i = map_option (\<lambda>s. s\<lparr>rs_versionInfo := new_info version (replaced live s) s\<rparr>) (runSpec sent i)"
    using versioned_root_specs [OF assms(1,2)] by blast
  have eq: "runSpec r i = runSpec live i" for i
  proof (cases "runSpec live i")
    case None
    then show ?thesis using specs same by simp
  next
    case (Some s)
    let ?s = "s\<lparr>rs_versionInfo := info i\<rparr>"
    have "rs_id s = i" using runSpec_place [OF assms(1) Some] by blast
    then have "replaced live ?s = Some s"
      using Some by (cases "rs_kind s") (simp_all add: replaced_def spec_of_kind [OF assms(1)])
    moreover have "isUpgrade s ?s = Inr False" by (simp add: isUpgrade_def)
    ultimately have "new_info version (replaced live ?s) ?s = rs_versionInfo s" using unmarked [OF Some] by (auto simp: new_info_def)
    then show ?thesis using specs same Some by simp
  qed
  have w: "wf_group live" "wf_group r" using assms(1) r(2) by (simp_all add: wf_tree_def)
  have own: "runSpec r (rs_id s) = Some s" if "s \<in> set (transitiveRunSpecs r)" for s
    using that runSpec_iff [OF w(2), of "rs_id s" s] by blast
  have kept: "group_exists r (rs_id s)" if "s \<in> set (transitiveRunSpecs live)" for s
    using that runSpec_iff [OF w(1), of "rs_id s" s] eq by (simp add: group_exists_def)
  have ids: "group_exists r i" if "i \<in> set (transitiveRunSpecIds live)" for i
    using that kept transitive_ids [OF w(1)] by (auto simp: transitiveRunSpecIds_def transitiveRunSpecs_def)
  have none: "affectedApplications live r = []"
    using own eq ids by (auto simp: affectedApplications_def filter_empty_conv)
  have "stop_step live r = ([] :: ('c, 'o, 'i) action list)" "start_step live r = ([] :: ('c, 'o, 'i) action list)"
    using kept own eq by (auto simp: stop_step_def start_step_def filter_empty_conv group_exists_def)
  moreover have "dependencyOrderedSteps live r [] toKill = Some (Inr [])"
    by (simp add: dependencyOrderedSteps_def runSpecsGroupedByLongestPath_def group_by_def)
  ultimately have "deployment_plan live r toKill = Some (Inr [])" by (simp add: deployment_plan_def none)
  then show ?thesis using r eq by blast
qed


definition web_app :: "nat \<Rightarrow> version_info \<Rightarrow> (unit, unit) run_spec" where
  "web_app n info = \<lparr>rs_kind = App, rs_id = AbsolutePathId [''web''], rs_instances = int n, rs_dependencies = [],
     rs_versionInfo = info, rs_config = (), rs_other = ()\<rparr>"

definition web_tree :: "(unit, unit) run_spec \<Rightarrow> (unit, unit) group" where
  "web_tree app = Group path_root [(AbsolutePathId [''web''], app)] [] [] [] 1 None"

theorem versioned_action_witness:
  "updateVersionInfo 5 (Some (web_app 2 (OnlyVersion 3))) (web_app 2 NoVersion) = Inr (web_app 2 (FullVersionInfo 5 3 5))
    \<and> spec_action (web_tree (web_app 2 (OnlyVersion 3))) (\<lambda>i. [] :: nat list) (web_app 2 (FullVersionInfo 5 3 5))
      = Inr [RestartApplication (web_app 2 (FullVersionInfo 5 3 5))]"
proof -
  let ?old = "web_app 2 (OnlyVersion 3)" and ?new = "web_app 2 NoVersion"
  have h: "runSpec (web_tree ?old) (rs_id ?new) = Some ?old" "rs_id ?old = rs_id ?new" "rs_kind ?old = rs_kind ?new"
    "5 \<noteq> vi_version (rs_versionInfo ?old)"
    "web_app 2 (FullVersionInfo 5 3 5) = ?new\<lparr>rs_versionInfo := new_info 5 (Some ?old) ?new\<rparr>" by code_simp+
  have "\<not> rs_instances ?new = 0 \<and> isUpgrade ?old ?new = Inr False \<and> rs_instances ?old = rs_instances ?new
    \<and> rs_versionInfo ?new = NoVersion \<and> rs_versionInfo ?old \<noteq> NoVersion" by code_simp
  then show ?thesis using versioned_action [OF h, of "\<lambda>i. [] :: nat list"] by simp
qed

lemma web_tree_spec:
  assumes "wf_tree (web_tree s)" and "rs_id s = AbsolutePathId [''web'']"
  shows "runSpec (web_tree s) i = (if i = AbsolutePathId [''web''] then Some s else None)"
proof -
  have "list_all (\<lambda>x. x = s) (transitiveRunSpecs (web_tree s)) \<and> s \<in> set (transitiveRunSpecs (web_tree s))"
    by (simp add: transitiveRunSpecs_def web_tree_def)
  then show ?thesis
    using specs_all [OF assms(1), of "\<lambda>x. x = s" i] runSpec_iff [of "web_tree s" "AbsolutePathId [''web'']" s] assms
    by (cases "runSpec (web_tree s) i") (auto simp: wf_tree_def)
qed

theorem redeploy_nothing_witness:
  "\<exists>r. versioned_root (UsingConfig Off) 5 (web_tree (web_app 2 (FullVersionInfo 3 3 1))) (web_tree (web_app 2 (OnlyVersion 4))) = Inr r
    \<and> runSpec r (AbsolutePathId [''web'']) = Some (web_app 2 (FullVersionInfo 3 3 1))
    \<and> deployment_plan (web_tree (web_app 2 (FullVersionInfo 3 3 1))) r (\<lambda>i. [] :: nat list) = Some (Inr [])"
proof -
  let ?live = "web_tree (web_app 2 (FullVersionInfo 3 3 1))" and ?sent = "web_tree (web_app 2 (OnlyVersion 4))"
  have w: "wf_tree ?live" "wf_tree ?sent" by code_simp+
  have ids: "rs_id (web_app n info) = AbsolutePathId [''web'']" for n info by (simp add: web_app_def)
  have other: "web_app n info\<lparr>rs_versionInfo := info'\<rparr> = web_app n info'" for n info info' by (simp add: web_app_def)
  note specs = web_tree_spec [OF w(1) ids] web_tree_spec [OF w(2) ids]
  have "\<exists>r. versioned_root (UsingConfig Off) 5 ?live ?sent = Inr r \<and> all_versions 5 r
    \<and> (\<forall>i. runSpec r i = runSpec ?live i) \<and> deployment_plan ?live r (\<lambda>i. [] :: nat list) = Some (Inr [])"
    by (rule redeploy_nothing [OF w, where info = "\<lambda>i. OnlyVersion 4"]) (simp_all add: specs other del: One_nat_def)
  then show ?thesis by (auto simp: specs simp del: One_nat_def)
qed

end
