(* ===== verification/LaunchDelays.thy ===== *)
theory LaunchDelays
  imports Versioning
begin

text \<open>
  Launch delays (\<open>core/launchqueue/impl/RateLimiter.scala\<close> and \<open>RateLimiterActor.scala\<close>): how long the next
  instance of a run spec waits after failures, which versions of a run spec share a delay, and what the
  subscribers of the actor know.
\<close>

section \<open>Delays\<close>

text \<open>Instants and durations are nanoseconds. Adding a duration to a timestamp drops what is below a millisecond.\<close>

definition plus_duration :: "int \<Rightarrow> int \<Rightarrow> int" where
  "plus_duration t d = t + d div 1000000 * 1000000"

record backoff_strategy =
  bs_backoff :: int
  bs_maxLaunchDelay :: int
  bs_factor :: rat

record delay =
  dl_referenceTimestamp :: int
  dl_currentDelay :: int
  dl_maxLaunchDelay :: int

definition deadline :: "delay \<Rightarrow> int" where
  "deadline d = plus_duration (dl_referenceTimestamp d) (dl_currentDelay d)"

text \<open>\<open>toLong\<close> of a number that is not negative: cut off, and at most the largest of 64 bits.\<close>

definition toLong :: "rat \<Rightarrow> int" where
  "toLong q = min 9223372036854775807 \<lfloor>q\<rfloor>"

definition increased :: "int \<Rightarrow> backoff_strategy \<Rightarrow> delay \<Rightarrow> delay" where
  "increased now strategy d =
     (let delayTimesFactor = toLong (of_int (dl_currentDelay d) * bs_factor strategy)
      in \<lparr>dl_referenceTimestamp = now, dl_currentDelay = min (bs_maxLaunchDelay strategy) delayTimesFactor,
          dl_maxLaunchDelay = bs_maxLaunchDelay strategy\<rparr>)"

definition new_delay :: "int \<Rightarrow> backoff_strategy \<Rightarrow> delay" where
  "new_delay timestamp strategy =
     \<lparr>dl_referenceTimestamp = timestamp, dl_currentDelay = min (bs_backoff strategy) (bs_maxLaunchDelay strategy),
      dl_maxLaunchDelay = bs_maxLaunchDelay strategy\<rparr>"

section \<open>The rate limiter\<close>

type_synonym config_ref = "path_id \<times> nat"

definition configRef :: "('c, 'o) run_spec \<Rightarrow> config_ref" where
  "configRef s = (rs_id s, lastConfigChangeVersion (rs_versionInfo s))"

type_synonym launch_delays = "(config_ref \<times> delay) list"

definition cleanUpOverdueDelays :: "int \<Rightarrow> launch_delays \<Rightarrow> config_ref list \<times> launch_delays" where
  "cleanUpOverdueDelays now delays =
     (let overdue = map fst (filter (\<lambda>(ref, d). now > plus_duration (dl_referenceTimestamp d) (dl_maxLaunchDelay d)) delays)
      in (overdue, filter (\<lambda>(ref, d). ref \<notin> set overdue) delays))"

text \<open>An update names a config and its delay, if any.\<close>

type_synonym delay_update = "config_ref \<times> delay option"

definition currentDelays :: "launch_delays \<Rightarrow> delay_update list" where
  "currentDelays delays = map (\<lambda>(ref, d). (ref, Some d)) delays"

definition getDelay :: "launch_delays \<Rightarrow> config_ref \<Rightarrow> delay option" where
  "getDelay delays ref = map_of delays ref"

definition addDelay :: "int \<Rightarrow> config_ref \<Rightarrow> backoff_strategy \<Rightarrow> launch_delays \<Rightarrow> launch_delays" where
  "addDelay now ref strategy delays =
     AList.update ref (case getDelay delays ref of Some d \<Rightarrow> increased now strategy d | None \<Rightarrow> new_delay now strategy) delays"

definition resetDelay :: "config_ref \<Rightarrow> launch_delays \<Rightarrow> launch_delays" where
  "resetDelay ref delays = (case getDelay delays ref of Some _ \<Rightarrow> AList.delete ref delays | None \<Rightarrow> delays)"

definition advanceDelay :: "int \<Rightarrow> config_ref \<Rightarrow> launch_delays \<Rightarrow> launch_delays" where
  "advanceDelay now ref delays = (case getDelay delays ref of
       Some d \<Rightarrow> AList.update ref \<lparr>dl_referenceTimestamp = now, dl_currentDelay = dl_currentDelay d, dl_maxLaunchDelay = dl_maxLaunchDelay d\<rparr> delays
     | None \<Rightarrow> delays)"

section \<open>The actor\<close>

datatype 'a limiter_message = CleanupOverdueDelays | Subscribe 'a | Unsubscribe 'a | GetDelay 'a config_ref
  | AddDelay config_ref backoff_strategy | DecreaseDelay config_ref | AdvanceDelay config_ref | ResetDelay config_ref

record 'a limiter =
  lm_delays :: launch_delays
  lm_subscribers :: "'a list"

definition notify :: "'a limiter \<Rightarrow> delay_update \<Rightarrow> ('a \<times> delay_update) list" where
  "notify st update = map (\<lambda>a. (a, update)) (lm_subscribers st)"

definition limiter_receive :: "int \<Rightarrow> 'a limiter_message \<Rightarrow> 'a limiter \<Rightarrow> 'a limiter \<times> ('a \<times> delay_update) list" where
  "limiter_receive now msg st = (case msg of
       CleanupOverdueDelays \<Rightarrow> (let (overdue, delays) = cleanUpOverdueDelays now (lm_delays st)
         in (st\<lparr>lm_delays := delays\<rparr>, concat (map (\<lambda>ref. notify st (ref, None)) overdue)))
     | Subscribe sender \<Rightarrow> if sender \<notin> set (lm_subscribers st)
         then (st\<lparr>lm_subscribers := sender # lm_subscribers st\<rparr>, map (\<lambda>update. (sender, update)) (currentDelays (lm_delays st)))
         else (st, [])
     | Unsubscribe sender \<Rightarrow> (st\<lparr>lm_subscribers := filter (\<lambda>a. a \<noteq> sender) (lm_subscribers st)\<rparr>, [])
     | GetDelay sender ref \<Rightarrow> (st, [(sender, (ref, getDelay (lm_delays st) ref))])
     | AddDelay ref strategy \<Rightarrow> (let delays = addDelay now ref strategy (lm_delays st)
         in (st\<lparr>lm_delays := delays\<rparr>, notify st (ref, getDelay delays ref)))
     | DecreaseDelay ref \<Rightarrow> (st, [])
     | AdvanceDelay ref \<Rightarrow> (let delays = advanceDelay now ref (lm_delays st)
         in (st\<lparr>lm_delays := delays\<rparr>, notify st (ref, getDelay delays ref)))
     | ResetDelay ref \<Rightarrow> (st\<lparr>lm_delays := resetDelay ref (lm_delays st)\<rparr>, notify st (ref, None)))"

section \<open>What subscribers know\<close>

text \<open>A subscriber keeps what the updates it got since it subscribed tell it.\<close>

definition learn :: "delay_update list \<Rightarrow> (config_ref \<rightharpoonup> delay) \<Rightarrow> (config_ref \<rightharpoonup> delay)" where
  "learn updates known = fold (\<lambda>(ref, d) known. known(ref := d)) updates known"

definition sent_to :: "'a \<Rightarrow> ('a \<times> delay_update) list \<Rightarrow> delay_update list" where
  "sent_to a out = map snd (filter (\<lambda>(b, _). b = a) out)"

inductive limiter_run :: "'a limiter \<Rightarrow> ('a \<Rightarrow> config_ref \<rightharpoonup> delay) \<Rightarrow> bool" where
  start: "limiter_run \<lparr>lm_delays = [], lm_subscribers = []\<rparr> (\<lambda>a. Map.empty)"
| message: "limiter_run st known \<Longrightarrow> limiter_receive now msg st = (st', out) \<Longrightarrow>
    limiter_run st' (\<lambda>a. learn (sent_to a out) (if msg = Subscribe a \<and> a \<notin> set (lm_subscribers st) then Map.empty else known a))"

lemma learn_simps [simp]: "learn [] known = known" "learn (u # us) known = learn us (known(fst u := snd u))"
  by (simp_all add: learn_def case_prod_unfold)

lemma sent_to_simps [simp]:
  "sent_to a [] = []"
  "sent_to a (m # out) = (if fst m = a then snd m # sent_to a out else sent_to a out)"
  "sent_to a (out @ out') = sent_to a out @ sent_to a out'"
  by (auto simp: sent_to_def)

lemma sent_to_notify: "distinct (lm_subscribers st) \<Longrightarrow> sent_to a (notify st u) = (if a \<in> set (lm_subscribers st) then [u] else [])"
proof -
  have "distinct xs \<Longrightarrow> sent_to a (map (\<lambda>a. (a, u)) xs) = (if a \<in> set xs then [u] else [])" for xs
    by (induction xs) auto
  then show "distinct (lm_subscribers st) \<Longrightarrow> ?thesis" by (simp add: notify_def)
qed

lemma sent_to_one: "sent_to a (map (Pair b) us) = (if b = a then us else [])"
  by (induction us) auto

lemma sent_to_overdue:
  "distinct (lm_subscribers st) \<Longrightarrow> a \<in> set (lm_subscribers st) \<Longrightarrow>
    sent_to a (concat (map (\<lambda>ref. notify st (ref, None)) refs)) = map (\<lambda>ref. (ref, None)) refs"
  by (induction refs) (simp_all add: sent_to_notify)

lemma learn_gone: "learn (map (\<lambda>ref. (ref, None)) refs) known = (\<lambda>ref. if ref \<in> set refs then None else known ref)"
  by (induction refs arbitrary: known) (auto simp: fun_eq_iff)

lemma learn_current: "distinct (map fst delays) \<Longrightarrow> learn (currentDelays delays) known = known ++ map_of delays"
proof (induction delays arbitrary: known)
  case (Cons e delays)
  then have "learn (currentDelays (e # delays)) known = known(fst e \<mapsto> snd e) ++ map_of delays"
    by (simp add: currentDelays_def case_prod_unfold)
  moreover have "fst e \<notin> dom (map_of delays)" using Cons.prems by (simp add: dom_map_of_conv_image_fst)
  ultimately show ?case by (cases e) (auto simp: map_add_def fun_eq_iff domIff split: option.splits)
qed (simp add: currentDelays_def)

lemma map_of_without: "map_of (filter (\<lambda>(ref, d). ref \<notin> S) delays) = (\<lambda>ref. if ref \<in> S then None else map_of delays ref)"
  by (induction delays) auto

lemma limiter_run_wf: "limiter_run st known \<Longrightarrow> distinct (map fst (lm_delays st)) \<and> distinct (lm_subscribers st)"
proof (induction rule: limiter_run.induct)
  case (message st known now msg st' out)
  then show ?case
    by (cases msg) (auto simp: limiter_receive_def cleanUpOverdueDelays_def addDelay_def advanceDelay_def resetDelay_def Let_def distinct_update
      distinct_delete distinct_map_filter split: if_splits option.splits)
qed simp

text \<open>
  C17. Every subscriber of the rate limiter knows the delays: what the updates tell it that it got since
  it subscribed is exactly what the limiter holds, after any sequence of messages.
\<close>

theorem subscribers_know:
  assumes "limiter_run st known" and "a \<in> set (lm_subscribers st)"
  shows "known a = getDelay (lm_delays st)"
  using assms
proof (induction arbitrary: a rule: limiter_run.induct)
  case (message st known now msg st' out)
  have wf: "distinct (map fst (lm_delays st))" "distinct (lm_subscribers st)" using limiter_run_wf [OF message.hyps(1)] by blast+
  note message.IH [simp]
  show ?case
  proof (cases msg)
    case CleanupOverdueDelays
    obtain overdue where c: "cleanUpOverdueDelays now (lm_delays st) = (overdue, filter (\<lambda>(ref, d). ref \<notin> set overdue) (lm_delays st))"
      by (simp add: cleanUpOverdueDelays_def Let_def)
    then have "st' = st\<lparr>lm_delays := filter (\<lambda>(ref, d). ref \<notin> set overdue) (lm_delays st)\<rparr>"
        "out = concat (map (\<lambda>ref. notify st (ref, None)) overdue)"
      using message.hyps(2) CleanupOverdueDelays by (simp_all add: limiter_receive_def)
    then show ?thesis using CleanupOverdueDelays message.prems wf
      by (auto simp: sent_to_overdue learn_gone map_of_without getDelay_def)
  next
    case (Subscribe b)
    then show ?thesis using message.hyps(2) message.prems wf
      by (auto simp: limiter_receive_def sent_to_one learn_current getDelay_def split: if_splits)
  qed (use message.hyps(2) message.prems wf in \<open>auto simp: limiter_receive_def Let_def sent_to_notify getDelay_def addDelay_def advanceDelay_def
      resetDelay_def update_conv' delete_conv' fun_eq_iff split: option.splits if_splits\<close>)
qed simp

definition sample_strategy :: backoff_strategy where
  "sample_strategy = \<lparr>bs_backoff = 1000000000, bs_maxLaunchDelay = 300000000000, bs_factor = 23 / 20\<rparr>"

theorem subscribers_know_witness:
  "\<exists>st known. limiter_run st known \<and> lm_subscribers st = [''queue''] \<and> known ''queue'' = getDelay (lm_delays st)
    \<and> map_option dl_currentDelay (known ''queue'' (path_root, 1)) = Some 1000000000"
proof -
  let ?ref = "(path_root, 1 :: nat)"
  let ?s1 = "\<lparr>lm_delays = [], lm_subscribers = [''queue'']\<rparr>"
  let ?d = "\<lparr>dl_referenceTimestamp = 5, dl_currentDelay = 1000000000, dl_maxLaunchDelay = 300000000000\<rparr>"
  let ?s2 = "\<lparr>lm_delays = [(?ref, ?d)], lm_subscribers = [''queue'']\<rparr>"
  have 1: "limiter_receive 4 (Subscribe ''queue'') \<lparr>lm_delays = [], lm_subscribers = []\<rparr> = (?s1, [])"
    and 2: "limiter_receive 5 (AddDelay ?ref sample_strategy) ?s1 = (?s2, [(''queue'', (?ref, Some ?d))])"
    by code_simp+
  obtain known where "limiter_run ?s2 known" using limiter_run.message [OF limiter_run.message [OF limiter_run.start 1] 2] by blast
  from subscribers_know [OF this, of "''queue''"] this show ?thesis
    by (intro exI [of _ ?s2] exI [of _ known]) (simp add: getDelay_def)
qed

section \<open>Growth and bounds\<close>

text \<open>A strategy as validation allows it: nothing is negative, and the largest delay fits into 64 bits.\<close>

definition sane_strategy :: "backoff_strategy \<Rightarrow> bool" where
  "sane_strategy s = (0 \<le> bs_backoff s \<and> 0 \<le> bs_maxLaunchDelay s \<and> bs_maxLaunchDelay s \<le> 9223372036854775807 \<and> 0 \<le> bs_factor s)"

text \<open>The delay after so many failures in a row.\<close>

primrec delay_after :: "backoff_strategy \<Rightarrow> nat \<Rightarrow> int" where
  "delay_after s 0 = min (bs_backoff s) (bs_maxLaunchDelay s)"
| "delay_after s (Suc n) = min (bs_maxLaunchDelay s) \<lfloor>of_int (delay_after s n) * bs_factor s\<rfloor>"

lemma delay_after_bounds: "sane_strategy s \<Longrightarrow> 0 \<le> delay_after s n \<and> delay_after s n \<le> bs_maxLaunchDelay s"
  by (induction n) (auto simp: sane_strategy_def)

lemma toLong_min: "sane_strategy s \<Longrightarrow> min (bs_maxLaunchDelay s) (toLong q) = min (bs_maxLaunchDelay s) \<lfloor>q\<rfloor>"
  unfolding toLong_def sane_strategy_def min.assoc [symmetric] by (simp only: min_absorb1)

fun failures :: "int list \<Rightarrow> config_ref \<Rightarrow> backoff_strategy \<Rightarrow> launch_delays \<Rightarrow> launch_delays" where
  "failures [] ref s delays = delays"
| "failures (now # nows) ref s delays = failures nows ref s (addDelay now ref s delays)"

lemma failures_append: "failures (xs @ ys) ref s delays = failures ys ref s (failures xs ref s delays)"
  by (induction xs arbitrary: delays) simp_all

text \<open>
  After failures in a row, the delay is the backoff of the strategy times its factor for each failure
  but the first, cut off at each step and never more than the maximum, counted from the last failure. It
  does not shrink if the factor is at least one.
\<close>

theorem delay_grows:
  assumes "sane_strategy s" and "getDelay delays ref = None"
  shows "getDelay (failures (nows @ [now]) ref s delays) ref = Some \<lparr>dl_referenceTimestamp = now, dl_currentDelay = delay_after s (length nows),
      dl_maxLaunchDelay = bs_maxLaunchDelay s\<rparr>
    \<and> 0 \<le> delay_after s (length nows) \<and> delay_after s (length nows) \<le> bs_maxLaunchDelay s
    \<and> (1 \<le> bs_factor s \<longrightarrow> delay_after s (length nows) \<le> delay_after s (Suc (length nows)))"
proof -
  have "getDelay (failures (nows @ [now]) ref s delays) ref = Some \<lparr>dl_referenceTimestamp = now, dl_currentDelay = delay_after s (length nows),
      dl_maxLaunchDelay = bs_maxLaunchDelay s\<rparr>"
  proof (induction nows arbitrary: now rule: rev_induct)
    case Nil
    then show ?case using assms(2) by (simp add: addDelay_def new_delay_def getDelay_def update_conv')
  next
    case (snoc t nows)
    from snoc [of t] show ?case
      unfolding failures_append [of "nows @ [t]" "[now]"]
      using toLong_min [OF assms(1)] by (simp add: addDelay_def increased_def getDelay_def update_conv' Let_def)
  qed
  moreover have "delay_after s n \<le> delay_after s (Suc n)" if "1 \<le> bs_factor s" for n
  proof -
    have "(of_int (delay_after s n) :: rat) * 1 \<le> of_int (delay_after s n) * bs_factor s"
      using delay_after_bounds [OF assms(1), of n] that by (intro mult_left_mono) simp_all
    then show ?thesis using delay_after_bounds [OF assms(1), of n] by (simp add: le_floor_iff)
  qed
  ultimately show ?thesis using delay_after_bounds [OF assms(1)] by blast
qed

theorem delay_grows_witness:
  "map_option dl_currentDelay (getDelay (failures [1, 2, 3] (path_root, 1) sample_strategy []) (path_root, 1)) = Some 1322500000"
proof -
  have s: "sane_strategy sample_strategy" "Option.is_none (getDelay [] (path_root, 1))" by code_simp+
  have "delay_after sample_strategy 2 = 1322500000" by code_simp
  then show ?thesis using delay_grows [OF s(1), of "[]" "(path_root, 1)" "[1, 2]" 3] s(2) by (simp add: Option.is_none_def numeral_2_eq_2)
qed

text \<open>
  Overdue delays can go: whatever the clean-up removes is a delay whose deadline has passed, given
  delays within their maximum, and it keeps every other.
\<close>

lemma cleanup_passed:
  assumes "\<forall>(ref, d)\<in>set delays. dl_currentDelay d \<le> dl_maxLaunchDelay d" and "cleanUpOverdueDelays now delays = (overdue, rest)"
    and "distinct (map fst delays)"
  shows "getDelay rest ref = (case getDelay delays ref of Some d \<Rightarrow> if ref \<in> set overdue then None else Some d | None \<Rightarrow> None)
    \<and> (getDelay delays ref = Some d \<and> ref \<in> set overdue \<longrightarrow> deadline d < now)"
proof -
  have rest: "rest = filter (\<lambda>(ref, d). ref \<notin> set overdue) delays"
    and over: "overdue = map fst (filter (\<lambda>(ref, d). now > plus_duration (dl_referenceTimestamp d) (dl_maxLaunchDelay d)) delays)"
    using assms(2) by (auto simp: cleanUpOverdueDelays_def Let_def)
  have "deadline d < now" if d: "map_of delays ref = Some d" "ref \<in> set overdue"
  proof -
    obtain d' where d': "(ref, d') \<in> set delays" "now > plus_duration (dl_referenceTimestamp d') (dl_maxLaunchDelay d')"
      using d(2) over by auto
    then have "d' = d" using d(1) assms(3) by (simp add: map_of_is_SomeI)
    moreover have "dl_currentDelay d \<le> dl_maxLaunchDelay d" using assms(1) map_of_SomeD [OF d(1)] by blast
    then have "dl_currentDelay d div 1000000 * 1000000 \<le> dl_maxLaunchDelay d div 1000000 * 1000000" by (simp add: zdiv_mono1)
    ultimately show ?thesis using d'(2) by (simp add: deadline_def plus_duration_def)
  qed
  moreover have "getDelay rest ref = (case getDelay delays ref of Some d \<Rightarrow> if ref \<in> set overdue then None else Some d | None \<Rightarrow> None)"
    unfolding rest getDelay_def map_of_without by (simp split: option.split)
  ultimately show ?thesis by (auto simp: getDelay_def)
qed

section \<open>Which versions share a delay\<close>

text \<open>
  A run spec that replaces one of its kind keeps the delay of the old one exactly if it is neither an
  upgrade nor marked for a restart: scaling keeps it. A restart that somebody asks for gives the run
  spec a fresh one.
\<close>

theorem delay_is_shared:
  assumes "rs_kind old = rs_kind new" and "rs_id old = rs_id new"
    and "version \<noteq> lastConfigChangeVersion (rs_versionInfo old)" and "updateVersionInfo version (Some old) new = Inr versioned"
  shows "configRef versioned = configRef old \<longleftrightarrow> isUpgrade old new = Inr False
      \<and> (rs_instances old = rs_instances new \<longrightarrow> rs_versionInfo new = NoVersion \<longrightarrow> rs_versionInfo old = NoVersion)"
proof -
  obtain up where up: "isUpgrade old new = Inr up" using assms(1) by (simp add: isUpgrade_def)
  have v: "versioned = new\<lparr>rs_versionInfo := new_info version (Some old) new\<rparr>"
    using updateVersionInfo_new [of "Some old" new version] assms(1,4) by simp
  have scaled: "lastConfigChangeVersion (withScaleChange info version) = lastConfigChangeVersion info"
    and restarted: "lastConfigChangeVersion (withRestartChange info version) = version"
    and fresh: "lastConfigChangeVersion (forNewConfig version) = version" for info
    by (cases info; simp add: withScaleChange_def withRestartChange_def full_info_def forNewConfig_def)+
  show ?thesis
    using assms(2,3) up unfolding v configRef_def new_info_def by (auto simp: scaled restarted fresh)
qed

theorem delay_is_shared_witness:
  "configRef (web_app 3 (FullVersionInfo 5 5 1)) = configRef (web_app 2 (FullVersionInfo 3 3 1))
    \<and> updateVersionInfo 5 (Some (web_app 2 (FullVersionInfo 3 3 1))) (web_app 3 NoVersion) = Inr (web_app 3 (FullVersionInfo 5 5 1))"
proof -
  let ?old = "web_app 2 (FullVersionInfo 3 3 1)" and ?new = "web_app 3 NoVersion"
  have h: "rs_kind ?old = rs_kind ?new" "rs_id ?old = rs_id ?new" "5 \<noteq> lastConfigChangeVersion (rs_versionInfo ?old)"
    "updateVersionInfo 5 (Some ?old) ?new = Inr (web_app 3 (FullVersionInfo 5 5 1))" by code_simp+
  have "isUpgrade ?old ?new = Inr False \<and> rs_instances ?old \<noteq> rs_instances ?new" by code_simp
  then show ?thesis using delay_is_shared [OF h] h(4) by blast
qed

end
