(* ===== verification/Revert.thy ===== *)
theory Revert
  imports RootGroup
begin

text \<open>
  Taking a deployment back (\<open>core/deployment/impl/DeploymentPlanReverter.scala\<close>): the changes between two
  trees are computed and their reverse is applied to a third, which other deployments may have changed.
\<close>

section \<open>The changes of a plan\<close>

text \<open>The groups by their ids before and after, unchanged ones included.\<close>

type_synonym ('c, 'o) group_change = "('c, 'o) group option \<times> ('c, 'o) group option"

type_synonym ('c, 'o) spec_change = "('c, 'o) run_spec option \<times> ('c, 'o) run_spec option"

definition changesOnIds :: "(path_id \<times> 'a) list \<Rightarrow> (path_id \<times> 'a) list \<Rightarrow> ('a option \<times> 'a option) list" where
  "changesOnIds originalById targetById =
     map (\<lambda>i. (map_of originalById i, map_of targetById i)) (remdups (map fst originalById @ map fst targetById))"

definition groupChanges :: "('c, 'o) group \<Rightarrow> ('c, 'o) group \<Rightarrow> ('c, 'o) group_change list" where
  "groupChanges original target = changesOnIds (transitiveGroupsById original) (transitiveGroupsById target)"

definition runSpecChanges :: "('c, 'o) group \<Rightarrow> ('c, 'o) group \<Rightarrow> ('c, 'o) spec_change list" where
  "runSpecChanges original target =
     filter (\<lambda>(old, new). old \<noteq> new)
       (map (\<lambda>i. (runSpec original i, runSpec target i)) (transitiveRunSpecIds original @ transitiveRunSpecIds target))"

section \<open>Run specs\<close>

definition revert_spec :: "new_group_strategy \<Rightarrow> nat \<Rightarrow> ('c, 'o) spec_change \<Rightarrow> ('c, 'o) group \<Rightarrow> edit_error + ('c, 'o) group" where
  "revert_spec st version change result =
     (case change of
        (Some oldRun, _) \<Rightarrow> (case rs_kind oldRun of
            App \<Rightarrow> updateApp st result (rs_id oldRun) (\<lambda>_. oldRun) version
          | Pod \<Rightarrow> updatePod st result (rs_id oldRun) (\<lambda>_. oldRun) version)
      | (None, Some newRun) \<Rightarrow> (case rs_kind newRun of
            App \<Rightarrow> removeApp st result (rs_id newRun) version
          | Pod \<Rightarrow> removePod st result (rs_id newRun) version)
      | (None, None) \<Rightarrow> Inr result)"

definition revertRunSpecChanges :: "new_group_strategy \<Rightarrow> nat \<Rightarrow> ('c, 'o) spec_change list \<Rightarrow> ('c, 'o) group \<Rightarrow> edit_error + ('c, 'o) group" where
  "revertRunSpecChanges st version changes rootGroup = foldR (revert_spec st version) changes rootGroup"

section \<open>Groups\<close>

text \<open>Sets of dependencies as lists.\<close>

definition set_union :: "'a list \<Rightarrow> 'a list \<Rightarrow> 'a list" where
  "set_union xs ys = xs @ filter (\<lambda>y. y \<notin> set xs) ys"

definition set_minus :: "'a list \<Rightarrow> 'a list \<Rightarrow> 'a list" where
  "set_minus xs ys = filter (\<lambda>x. x \<notin> set ys) xs"

definition revertGroupRemoval :: "('c, 'o) group \<Rightarrow> path_id list \<Rightarrow> path_id list" where
  "revertGroupRemoval oldGroup dependencies =
     (if set_minus (gr_dependencies oldGroup) dependencies \<noteq> [] then set_union dependencies (gr_dependencies oldGroup) else dependencies)"

definition revertDependencyChanges :: "('c, 'o) group \<Rightarrow> ('c, 'o) group \<Rightarrow> path_id list \<Rightarrow> path_id list" where
  "revertDependencyChanges oldGroup newGroup dependencies =
     (let removed = set_minus (gr_dependencies oldGroup) (gr_dependencies newGroup);
          added = set_minus (gr_dependencies newGroup) (gr_dependencies oldGroup)
      in if removed \<noteq> [] \<or> added \<noteq> [] then set_minus (set_union dependencies removed) added else dependencies)"

definition isGroupUnchanged :: "('c, 'o) group \<Rightarrow> ('c, 'o) group \<Rightarrow> bool" where
  "isGroupUnchanged newGroup g = (\<not> containsAppsOrPodsOrGroups g \<and> gr_id g = gr_id newGroup
     \<and> set (gr_dependencies g) = set (gr_dependencies newGroup))"

definition revertGroupAddition :: "new_group_strategy \<Rightarrow> nat \<Rightarrow> ('c, 'o) group \<Rightarrow> ('c, 'o) group \<Rightarrow> edit_error + ('c, 'o) group" where
  "revertGroupAddition st version result newGroup =
     (if (case group_at result (gr_id newGroup) of Some g \<Rightarrow> isGroupUnchanged newGroup g | None \<Rightarrow> False)
      then removeGroup st result (gr_id newGroup) version
      else if gr_dependencies newGroup \<noteq> []
      then updateDependencies st result (gr_id newGroup) (\<lambda>ds. set_minus ds (gr_dependencies newGroup)) version
      else Inr result)"

text \<open>Inner groups first: descending order of the ids.\<close>

definition change_id :: "('c, 'o) group_change \<Rightarrow> path_id" where
  "change_id change = (case change of (Some g, _) \<Rightarrow> gr_id g | (None, Some g) \<Rightarrow> gr_id g | (None, None) \<Rightarrow> path_root)"

definition sortedGroupChanges :: "('c, 'o) group_change list \<Rightarrow> ('c, 'o) group_change list" where
  "sortedGroupChanges changes = sort_cmp (\<lambda>change1 change2. path_compare (change_id change2) (change_id change1)) changes"

definition revert_group :: "new_group_strategy \<Rightarrow> nat \<Rightarrow> ('c, 'o) group_change \<Rightarrow> ('c, 'o) group \<Rightarrow> edit_error + ('c, 'o) group" where
  "revert_group st version change result =
     (case change of
        (Some oldGroup, None) \<Rightarrow> updateDependencies st result (gr_id oldGroup) (revertGroupRemoval oldGroup) version
      | (Some oldGroup, Some newGroup) \<Rightarrow>
          updateDependencies st result (gr_id oldGroup) (revertDependencyChanges oldGroup newGroup) version
      | (None, Some newGroup) \<Rightarrow> revertGroupAddition st version result newGroup
      | (None, None) \<Rightarrow> Inr result)"

definition revertGroupChanges :: "new_group_strategy \<Rightarrow> nat \<Rightarrow> ('c, 'o) group_change list \<Rightarrow> ('c, 'o) group \<Rightarrow> edit_error + ('c, 'o) group" where
  "revertGroupChanges st version changes rootGroup = foldR (revert_group st version) (sortedGroupChanges changes) rootGroup"

text \<open>Run specs first, so that their groups can be found empty.\<close>

definition revert :: "new_group_strategy \<Rightarrow> ('c, 'o) group \<Rightarrow> ('c, 'o) group \<Rightarrow> nat \<Rightarrow> ('c, 'o) group \<Rightarrow> edit_error + ('c, 'o) group" where
  "revert st original target newVersion rootGroup =
     rbind (revertRunSpecChanges st newVersion (runSpecChanges original target) rootGroup)
       (revertGroupChanges st newVersion (groupChanges original target))"

section \<open>Reverting the run specs\<close>

text \<open>What reverting a change does to the contents.\<close>

definition put_spec :: "new_group_strategy \<Rightarrow> path_id \<Rightarrow> ('c, 'o) run_spec \<Rightarrow> ('c, 'o) contents \<Rightarrow> ('c, 'o) contents" where
  "put_spec st i s c = (case rs_kind s of App \<Rightarrow> put_app st i s c | Pod \<Rightarrow> put_pod st i s c)"

definition del_spec :: "path_id \<Rightarrow> ('c, 'o) run_spec \<Rightarrow> ('c, 'o) contents \<Rightarrow> ('c, 'o) contents" where
  "del_spec i s c = (case rs_kind s of App \<Rightarrow> del_app i c | Pod \<Rightarrow> del_pod i c)"

lemma group_or_new_config: "\<exists>g. group_or_new (UsingConfig b) t i = Inr g"
  using group_or_new_total [of "UsingConfig b" t i] by simp

lemma revert_spec_put:
  assumes t: "wf_tree t" and i: "rs_id s = AbsolutePathId (p @ [x])"
    and k: "\<And>s'. runSpec t (rs_id s) = Some s' \<Longrightarrow> rs_kind s' = rs_kind s"
  shows "edited v (put_spec (UsingConfig b) (rs_id s) s (contents_of t)) (revert_spec (UsingConfig b) v (Some s, new) t)"
proof -
  obtain g where g: "group_or_new (UsingConfig b) t (AbsolutePathId p) = Inr g" using group_or_new_config by blast
  show ?thesis
  proof (cases "rs_kind s")
    case App
    then have "pod_at t (rs_id s) = None" using k by (auto simp: spec_of_kind [OF t] split: option.splits)
    then show ?thesis using updateApp_edited [OF t g i, of "\<lambda>_. s" v] App i by (simp add: revert_spec_def put_spec_def)
  next
    case Pod
    then have "app_at t (rs_id s) = None" using k by (auto simp: spec_of_kind [OF t] split: option.splits)
    then show ?thesis using updatePod_edited [OF t g i, of "\<lambda>_. s" v] Pod i by (simp add: revert_spec_def put_spec_def)
  qed
qed

lemma revert_spec_del:
  "wf_tree t \<Longrightarrow> edited v (del_spec (rs_id s) s (contents_of t)) (revert_spec st v (None, Some s) t)"
  using removeApp_edited removePod_edited by (cases "rs_kind s") (simp_all add: revert_spec_def del_spec_def)

lemma runSpec_after_put:
  assumes "wf_tree t" and "wf_tree r" and c: "contents_of r = put_spec st i s (contents_of t)" and i: "i = AbsolutePathId (p @ [x])"
    and k: "\<And>s'. runSpec t i = Some s' \<Longrightarrow> rs_kind s' = rs_kind s"
  shows "runSpec r j = (if j = i then Some s else runSpec t j)"
proof (cases "rs_kind s")
  case App
  have "c_pod (contents_of t) i = None"
    using k App by (auto simp: lookup_contents(2) [OF assms(1), symmetric] spec_of_kind [OF assms(1)] split: option.splits)
  then show ?thesis using App i
    by (simp add: runSpec_contents [OF assms(1)] runSpec_contents [OF assms(2)] c put_spec_def app_map.look_put app_map.other_put split: option.split)
next
  case Pod
  have "c_app (contents_of t) i = None"
    using k Pod by (auto simp: lookup_contents(1) [OF assms(1), symmetric] spec_of_kind [OF assms(1)] split: option.splits)
  then show ?thesis using Pod i
    by (simp add: runSpec_contents [OF assms(1)] runSpec_contents [OF assms(2)] c put_spec_def pod_map.look_put pod_map.other_put split: option.split)
qed

lemma runSpec_after_del:
  assumes "wf_tree t" and "wf_tree r" and c: "contents_of r = del_spec i s (contents_of t)"
    and k: "\<And>s'. runSpec t i = Some s' \<Longrightarrow> rs_kind s' = rs_kind s"
  shows "runSpec r j = (if j = i then None else runSpec t j)"
proof (cases "rs_kind s")
  case App
  have "c_pod (contents_of t) i = None"
    using k App by (auto simp: lookup_contents(2) [OF assms(1), symmetric] spec_of_kind [OF assms(1)] split: option.splits)
  then show ?thesis using App
    by (simp add: runSpec_contents [OF assms(1)] runSpec_contents [OF assms(2)] c del_spec_def app_map.look_del app_map.other_del split: option.split)
next
  case Pod
  have "c_app (contents_of t) i = None"
    using k Pod by (auto simp: lookup_contents(1) [OF assms(1), symmetric] spec_of_kind [OF assms(1)] split: option.splits)
  then show ?thesis using Pod
    by (simp add: runSpec_contents [OF assms(1)] runSpec_contents [OF assms(2)] c del_spec_def pod_map.look_del pod_map.other_del split: option.split)
qed


text \<open>The changes are those of the ids whose run spec differs.\<close>

definition spec_change_id :: "('c, 'o) spec_change \<Rightarrow> path_id" where
  "spec_change_id change = (case change of (Some s, _) \<Rightarrow> rs_id s | (None, Some s) \<Rightarrow> rs_id s | (None, None) \<Rightarrow> path_root)"

lemma spec_change_id_at:
  assumes "wf_tree original" and "wf_tree target" and "runSpec original i \<noteq> None \<or> runSpec target i \<noteq> None"
  shows "spec_change_id (runSpec original i, runSpec target i) = i"
  using assms(3) runSpec_place [OF assms(1), of i] runSpec_place [OF assms(2), of i]
  by (cases "runSpec original i"; cases "runSpec target i") (simp_all add: spec_change_id_def)

lemma runSpecChanges_iff:
  assumes "wf_tree original" and "wf_tree target"
  shows "change \<in> set (runSpecChanges original target) \<longleftrightarrow>
    (\<exists>i. runSpec original i \<noteq> runSpec target i \<and> change = (runSpec original i, runSpec target i) \<and> spec_change_id change = i)"
proof -
  have w: "wf_group original" "wf_group target" using assms by (simp_all add: wf_tree_def)
  have ids: "i \<in> set (transitiveRunSpecIds t) \<longleftrightarrow> runSpec t i \<noteq> None" if "wf_group t" for t :: "('a, 'b) group" and i
    using transitive_ids [OF that] group_exists_iff [OF that, of i]
    by (auto simp: transitiveRunSpecIds_def transitiveRunSpecs_def group_exists_def image_Un)
  note id = spec_change_id_at [OF assms]
  have "change \<in> set (runSpecChanges original target) \<longleftrightarrow> (\<exists>i. (i \<in> set (transitiveRunSpecIds original) \<or> i \<in> set (transitiveRunSpecIds target))
      \<and> runSpec original i \<noteq> runSpec target i \<and> change = (runSpec original i, runSpec target i))"
    unfolding runSpecChanges_def by auto
  also have "\<dots> \<longleftrightarrow> (\<exists>i. runSpec original i \<noteq> runSpec target i \<and> change = (runSpec original i, runSpec target i) \<and> spec_change_id change = i)"
    unfolding ids [OF w(1)] ids [OF w(2)] using id by metis
  finally show ?thesis .
qed

lemma changed_ids:
  assumes "wf_tree original" and "wf_tree target"
  shows "i \<in> spec_change_id ` set (runSpecChanges original target) \<longleftrightarrow> runSpec original i \<noteq> runSpec target i"
proof
  assume "runSpec original i \<noteq> runSpec target i"
  moreover from this have "spec_change_id (runSpec original i, runSpec target i) = i" by (intro spec_change_id_at [OF assms]) auto
  ultimately have "(runSpec original i, runSpec target i) \<in> set (runSpecChanges original target)"
    unfolding runSpecChanges_iff [OF assms] by blast
  then show "i \<in> spec_change_id ` set (runSpecChanges original target)"
    using \<open>spec_change_id _ = i\<close> by (metis image_eqI)
qed (use runSpecChanges_iff [OF assms] in blast)

text \<open>
  Reverting some of the changes in a tree where a changed run spec still is what one of the two trees has;
  whatever the single changes preserve is preserved.
\<close>

lemma revert_specs:
  fixes original target :: "('c, 'o) group"
  assumes trees: "wf_tree original" "wf_tree target"
    and kinds: "\<And>i s s'. runSpec original i = Some s \<Longrightarrow> runSpec target i = Some s' \<Longrightarrow> rs_kind s = rs_kind s'"
    and put: "\<And>t s. wf_tree t \<Longrightarrow> P (contents_of t) \<Longrightarrow> runSpec original (rs_id s) = Some s \<Longrightarrow> P (put_spec (UsingConfig b) (rs_id s) s (contents_of t))"
    and del: "\<And>t s. wf_tree t \<Longrightarrow> P (contents_of t) \<Longrightarrow> runSpec original (rs_id s) = None \<Longrightarrow> P (del_spec (rs_id s) s (contents_of t))"
  shows "wf_tree t \<Longrightarrow> P (contents_of t) \<Longrightarrow> set changes \<subseteq> set (runSpecChanges original target) \<Longrightarrow>
    (\<And>i. runSpec original i \<noteq> runSpec target i \<Longrightarrow> runSpec t i \<in> {runSpec original i, runSpec target i}) \<Longrightarrow>
    \<exists>r. revertRunSpecChanges (UsingConfig b) v changes t = Inr r \<and> wf_tree r \<and> P (contents_of r)
      \<and> (\<forall>i. runSpec r i = (if i \<in> spec_change_id ` set changes then runSpec original i else runSpec t i))"
proof (induction changes arbitrary: t)
  case Nil
  then show ?case by (simp add: revertRunSpecChanges_def)
next
  case (Cons ch changes)
  obtain i where i: "runSpec original i \<noteq> runSpec target i" "ch = (runSpec original i, runSpec target i)" "spec_change_id ch = i"
    using Cons.prems(3) runSpecChanges_iff [OF trees, of ch] by auto
  note cur = Cons.prems(4) [OF i(1)]
  have "\<exists>r. revert_spec (UsingConfig b) v ch t = Inr r \<and> wf_tree r \<and> P (contents_of r)
      \<and> (\<forall>j. runSpec r j = (if j = i then runSpec original i else runSpec t j))"
  proof (cases "runSpec original i")
    case (Some s)
    obtain p x where s: "rs_id s = i" "i = AbsolutePathId (p @ [x])" using runSpec_place [OF trees(1) Some] by blast
    have k: "rs_kind s' = rs_kind s" if "runSpec t i = Some s'" for s'
      using that cur kinds [OF Some, of s'] Some by auto
    have id: "rs_id s = AbsolutePathId (p @ [x])" using s by simp
    have "edited v (put_spec (UsingConfig b) (rs_id s) s (contents_of t)) (revert_spec (UsingConfig b) v (Some s, runSpec target i) t)"
      by (rule revert_spec_put [OF Cons.prems(1) id]) (rule k, simp only: s(1))
    then have "edited v (put_spec (UsingConfig b) i s (contents_of t)) (revert_spec (UsingConfig b) v ch t)"
      unfolding s(1) i(2) Some .
    then obtain r where r: "revert_spec (UsingConfig b) v ch t = Inr r" "wf_tree r" "contents_of r = put_spec (UsingConfig b) i s (contents_of t)"
      by (auto simp: edited_def)
    moreover have "P (contents_of r)" using put [OF Cons.prems(1,2), of s] r(3) s Some by simp
    ultimately show ?thesis using runSpec_after_put [OF Cons.prems(1) r(2,3) s(2) k] Some by auto
  next
    case None
    then obtain s where n: "runSpec target i = Some s" using i(1) by fastforce
    then have s: "rs_id s = i" using runSpec_place [OF trees(2)] by blast
    have k: "rs_kind s' = rs_kind s" if "runSpec t i = Some s'" for s' using that cur None n by auto
    obtain r where r: "revert_spec (UsingConfig b) v ch t = Inr r" "wf_tree r" "contents_of r = del_spec i s (contents_of t)"
      using revert_spec_del [OF Cons.prems(1), where v = v and s = s and st = "UsingConfig b"] i(2) None n s by (auto simp: edited_def)
    moreover have "P (contents_of r)" using del [OF Cons.prems(1,2), of s] r(3) s None by simp
    ultimately show ?thesis using runSpec_after_del [OF Cons.prems(1) r(2,3) k] None by auto
  qed
  then obtain r where r: "revert_spec (UsingConfig b) v ch t = Inr r" "wf_tree r" "P (contents_of r)"
      "\<forall>j. runSpec r j = (if j = i then runSpec original i else runSpec t j)" by blast
  have "\<exists>r'. revertRunSpecChanges (UsingConfig b) v changes r = Inr r' \<and> wf_tree r' \<and> P (contents_of r')
      \<and> (\<forall>j. runSpec r' j = (if j \<in> spec_change_id ` set changes then runSpec original j else runSpec r j))"
    using Cons.prems(3,4) r(4) by (intro Cons.IH [OF r(2,3)]) auto
  then show ?case using r(1,4) i(3) by (auto simp: revertRunSpecChanges_def)
qed


section \<open>Reverting the groups\<close>

lemma set_set_ops [simp]: "set (set_union xs ys) = set xs \<union> set ys" "set (set_minus xs ys) = set xs - set ys"
  by (auto simp: set_union_def set_minus_def)

lemma set_minus_empty: "set_minus xs ys = [] \<longleftrightarrow> set xs \<subseteq> set ys"
  by (auto simp: set_minus_def filter_empty_conv)

lemma set_revertGroupRemoval: "set (revertGroupRemoval g ds) = set ds \<union> set (gr_dependencies g)"
  by (auto simp: revertGroupRemoval_def set_minus_empty)

lemma set_revertDependencyChanges: "set (revertDependencyChanges g h ds) =
  set ds \<union> (set (gr_dependencies g) - set (gr_dependencies h)) - (set (gr_dependencies h) - set (gr_dependencies g))"
  by (auto simp: revertDependencyChanges_def Let_def set_minus_empty)

text \<open>A group without run specs and groups.\<close>

definition bare_at :: "path_id \<Rightarrow> path_id set \<Rightarrow> ('c, 'o) contents \<Rightarrow> bool" where
  "bare_at i deps c = ((\<exists>n. c i = Some n \<and> nd_apps n = Map.empty \<and> nd_pods n = Map.empty \<and> nd_deps n = deps)
     \<and> (\<forall>j. at_or_below i j \<and> j \<noteq> i \<longrightarrow> c j = None))"

lemma below_down:
  assumes t: "wf_tree t" and g: "group_at t i = Some g"
  shows "gr_groups g = [] \<longleftrightarrow> (\<forall>j. at_or_below i j \<and> j \<noteq> i \<longrightarrow> contents_of t j = None)"
proof -
  have w: "wf_group g" "gr_id g = i" using group_at_wf [OF _ g] t by (simp_all add: wf_tree_def)
  obtain p where i: "i = AbsolutePathId p" using wf_group_absolute [OF w(1)] unfolding w(2) by (cases i) simp_all
  have d: "down t p = Some g" using g group_at_down [OF t, of i] i by simp
  have "(at_or_below i j \<and> j \<noteq> i) \<longleftrightarrow> (\<exists>x xs. j = AbsolutePathId (p @ x # xs))" for j
    by (cases j) (auto simp: i at_or_below_def prefix_def, metis append_Nil2 neq_Nil_conv)
  moreover have "contents_of t (AbsolutePathId (p @ x # xs)) = node_at g (x # xs)" for x xs
    using d by (simp add: contents_of_def group_at_down [OF t] down_append node_at_def)
  ultimately have "(\<forall>j. at_or_below i j \<and> j \<noteq> i \<longrightarrow> contents_of t j = None) \<longleftrightarrow> (\<forall>x xs. node_at g (x # xs) = None)" by metis
  moreover have "\<exists>x. node_at g [x] \<noteq> None" if kh: "(k, h) \<in> set (gr_groups g)" for k h
  proof -
    obtain x where "k = AbsolutePathId (path_of (gr_id g) @ [x])" using child_path [OF w(1) kh] by blast
    then have "map_of (gr_groups g) (AbsolutePathId (path_of (gr_id g) @ [x])) \<noteq> None" using kh by (metis map_of_eq_None_iff fst_conv image_eqI)
    then show ?thesis by (intro exI [of _ x]) (auto simp: node_at_Cons)
  qed
  ultimately show ?thesis by (cases "gr_groups g") (fastforce simp: node_at_Cons)+
qed

lemma unchanged_bare:
  assumes t: "wf_tree t" and "gr_id newGroup = i"
  shows "(case group_at t i of Some g \<Rightarrow> isGroupUnchanged newGroup g | None \<Rightarrow> False) \<longleftrightarrow> bare_at i (set (gr_dependencies newGroup)) (contents_of t)"
proof (cases "group_at t i")
  case (Some g)
  have "gr_id g = i" using group_at_wf [OF _ Some] t by (simp add: wf_tree_def)
  then show ?thesis
    unfolding bare_at_def below_down [OF t Some, symmetric]
    using Some assms(2) by (auto simp: isGroupUnchanged_def containsAppsOrPodsOrGroups_def contents_of_def node_of_def)
qed (simp add: bare_at_def contents_of_def)

text \<open>What reverting the change of a group does to the contents.\<close>

definition revert_deps :: "('c, 'o) group_change \<Rightarrow> path_id set \<Rightarrow> path_id set" where
  "revert_deps change ds = (case change of
       (Some old, None) \<Rightarrow> ds \<union> set (gr_dependencies old)
     | (Some old, Some new) \<Rightarrow> ds \<union> (set (gr_dependencies old) - set (gr_dependencies new)) - (set (gr_dependencies new) - set (gr_dependencies old))
     | (None, Some new) \<Rightarrow> ds - set (gr_dependencies new)
     | (None, None) \<Rightarrow> ds)"

definition group_reverted :: "new_group_strategy \<Rightarrow> ('c, 'o) group_change \<Rightarrow> path_id \<Rightarrow> ('c, 'o) contents \<Rightarrow> ('c, 'o) contents" where
  "group_reverted st change i c =
     (if fst change \<noteq> None then set_deps st i (revert_deps change) c
      else let deps = set (gr_dependencies (the (snd change)))
        in if bare_at i deps c then del_group i c else if deps \<noteq> {} then set_deps st i (revert_deps change) c else c)"

lemma edited_ok: "edited v c result \<Longrightarrow> \<exists>t. result = Inr t \<and> wf_tree t \<and> contents_of t = c"
  by (auto simp: edited_def)

lemma revert_group_contents:
  fixes original target t :: "('c, 'o) group"
  assumes trees: "wf_tree original" "wf_tree target" and t: "wf_tree t"
    and ch: "ch = (group_at original i, group_at target i)" "ch \<noteq> (None, None)"
  shows "\<exists>r. revert_group (UsingConfig b) v ch t = Inr r \<and> wf_tree r \<and> contents_of r = group_reverted (UsingConfig b) ch i (contents_of t)"
proof -
  have id: "gr_id h = i" "wf_group h" if "group_at original i = Some h \<or> group_at target i = Some h" for h
    using that group_at_wf trees by (auto simp: wf_tree_def)
  have "is_absolute i" using ch id wf_group_absolute by (metis not_None_eq)
  then obtain p where i: "i = AbsolutePathId p" by (cases i) simp_all
  obtain g where g: "group_or_new (UsingConfig b) t (AbsolutePathId p) = Inr g" using group_or_new_config by blast
  show ?thesis
  proof (cases "group_at original i")
    case (Some old)
    then have o: "gr_id old = i" using id by blast
    show ?thesis
    proof (cases "group_at target i")
      case None
      have "edited v (set_deps (UsingConfig b) (AbsolutePathId p) (\<lambda>D. D \<union> set (gr_dependencies old)) (contents_of t))
          (updateDependencies (UsingConfig b) t (AbsolutePathId p) (revertGroupRemoval old) v)"
        by (rule updateDependencies_edited [OF t g]) (rule set_revertGroupRemoval)
      then show ?thesis
        by (intro edited_ok [where v = v]) (use Some None o i ch(1) in \<open>simp add: revert_group_def group_reverted_def revert_deps_def [abs_def]\<close>)
    next
      case new: (Some new)
      have "edited v (set_deps (UsingConfig b) (AbsolutePathId p)
            (\<lambda>D. D \<union> (set (gr_dependencies old) - set (gr_dependencies new)) - (set (gr_dependencies new) - set (gr_dependencies old))) (contents_of t))
          (updateDependencies (UsingConfig b) t (AbsolutePathId p) (revertDependencyChanges old new) v)"
        by (rule updateDependencies_edited [OF t g]) (rule set_revertDependencyChanges)
      then show ?thesis
        by (intro edited_ok [where v = v]) (use Some new o i ch(1) in \<open>simp add: revert_group_def group_reverted_def revert_deps_def [abs_def]\<close>)
    qed
  next
    case None
    then obtain new where new: "group_at target i = Some new" using ch by auto
    then have n: "gr_id new = AbsolutePathId p" using id i by blast
    have "i \<noteq> path_root" using None trees(1) group_at_down [OF trees(1), of path_root] by (auto simp: path_root_def)
    then obtain q x where p: "p = q @ [x]" using i by (cases p rule: rev_cases) (auto simp: path_root_def)
    have "edited v (set_deps (UsingConfig b) (AbsolutePathId p) (\<lambda>D. D - set (gr_dependencies new)) (contents_of t))
        (updateDependencies (UsingConfig b) t (AbsolutePathId p) (\<lambda>ds. set_minus ds (gr_dependencies new)) v)"
      by (rule updateDependencies_edited [OF t g]) simp
    note deps = edited_ok [OF this] and gone = edited_ok [OF removeGroup_edited [OF t, of v q x "UsingConfig b"], folded p]
    have "revert_group (UsingConfig b) v ch t = (if bare_at i (set (gr_dependencies new)) (contents_of t)
        then removeGroup (UsingConfig b) t (AbsolutePathId p) v
        else if gr_dependencies new \<noteq> [] then updateDependencies (UsingConfig b) t (AbsolutePathId p) (\<lambda>ds. set_minus ds (gr_dependencies new)) v
        else Inr t)"
      unfolding unchanged_bare [OF t n [folded i], symmetric] using None new ch(1) by (simp add: revert_group_def revertGroupAddition_def n i)
    moreover have "group_reverted (UsingConfig b) ch i (contents_of t) = (if bare_at i (set (gr_dependencies new)) (contents_of t)
        then del_group (AbsolutePathId p) (contents_of t)
        else if gr_dependencies new \<noteq> [] then set_deps (UsingConfig b) (AbsolutePathId p) (\<lambda>D. D - set (gr_dependencies new)) (contents_of t)
        else contents_of t)"
      using None new ch(1) by (simp add: group_reverted_def revert_deps_def [abs_def] i Let_def)
    ultimately show ?thesis using deps gone t by simp
  qed
qed


lemma lookup_set_deps: "c_app (set_deps st i f c) j = c_app c j" "c_pod (set_deps st i f c) j = c_pod c j"
  unfolding set_deps_def by (simp_all add: lookup_modify_same lookup_mkdirs)

lemma lookup_del_bare:
  assumes "bare_at i deps c"
  shows "c_app (del_group i c) j = c_app c j" "c_pod (del_group i c) j = c_pod c j"
proof -
  obtain n where "c i = Some n" "nd_apps n = Map.empty" "nd_pods n = Map.empty"
    and "\<forall>j. at_or_below i j \<and> j \<noteq> i \<longrightarrow> c j = None"
    using assms unfolding bare_at_def by blast
  then show "c_app (del_group i c) j = c_app c j" "c_pod (del_group i c) j = c_pod c j"
    by (cases "path_parent j = i"; simp add: c_app_def c_pod_def del_group_def)+
qed

lemma lookup_group_reverted: "c_app (group_reverted st ch i c) j = c_app c j" "c_pod (group_reverted st ch i c) j = c_pod c j"
  by (simp_all add: group_reverted_def Let_def lookup_set_deps lookup_del_bare)

lemma change_id_at:
  assumes "wf_tree original" and "wf_tree target" and "group_at original i \<noteq> None \<or> group_at target i \<noteq> None"
  shows "change_id (group_at original i, group_at target i) = i"
  using assms group_at_wf by (cases "group_at original i"; cases "group_at target i") (auto simp: change_id_def wf_tree_def)

lemma groupChanges_iff:
  assumes "wf_tree original" and "wf_tree target"
  shows "ch \<in> set (groupChanges original target) \<longleftrightarrow>
    (\<exists>i. ch = (group_at original i, group_at target i) \<and> ch \<noteq> (None, None) \<and> change_id ch = i)"
proof -
  note id = change_id_at [OF assms]
  have nn: "(group_at original i, group_at target i) \<noteq> (None, None) \<longleftrightarrow> group_at original i \<noteq> None \<or> group_at target i \<noteq> None" for i
    by simp
  have dom: "i \<in> fst ` set (transitiveGroupsById t) \<longleftrightarrow> group_at t i \<noteq> None" for t :: "('a, 'b) group" and i
    by (simp add: group_at_def map_of_eq_None_iff)
  have "ch \<in> set (groupChanges original target) \<longleftrightarrow> (\<exists>i. (group_at original i \<noteq> None \<or> group_at target i \<noteq> None)
      \<and> ch = (group_at original i, group_at target i))"
    unfolding groupChanges_def changesOnIds_def dom [symmetric] by (auto simp: group_at_def)
  also have "\<dots> \<longleftrightarrow> (\<exists>i. ch = (group_at original i, group_at target i) \<and> ch \<noteq> (None, None) \<and> change_id ch = i)"
    using id nn by metis
  finally show ?thesis .
qed

lemma revert_groups_specs:
  fixes original target :: "('c, 'o) group"
  assumes "wf_tree original" "wf_tree target"
  shows "wf_tree t \<Longrightarrow> set changes \<subseteq> set (groupChanges original target) \<Longrightarrow>
    \<exists>r. foldR (revert_group (UsingConfig b) v) changes t = Inr r \<and> wf_tree r \<and> (\<forall>i. runSpec r i = runSpec t i)"
proof (induction changes arbitrary: t)
  case (Cons ch changes)
  have "ch \<in> set (groupChanges original target)" using Cons.prems(2) by simp
  then obtain i where i: "ch = (group_at original i, group_at target i)" "ch \<noteq> (None, None)"
    unfolding groupChanges_iff [OF assms] by blast
  obtain s where s: "revert_group (UsingConfig b) v ch t = Inr s" "wf_tree s" "contents_of s = group_reverted (UsingConfig b) ch i (contents_of t)"
    using revert_group_contents [OF assms Cons.prems(1) i] by blast
  have "runSpec s j = runSpec t j" for j
    by (simp add: runSpec_contents [OF s(2)] runSpec_contents [OF Cons.prems(1)] s(3) lookup_group_reverted split: option.split)
  then show ?case using Cons.IH [OF s(2)] Cons.prems(2) s(1) by simp
qed simp

text \<open>
  Reverting a deployment restores the run specs it changed, removed ones included, and leaves those of
  other deployments alone, whatever else has changed in the tree: it needs only that the run specs of
  the plan were locked, so that they still are as the plan left them.
\<close>

theorem revert_run_specs:
  assumes "wf_tree original" and "wf_tree target" and "wf_tree now"
    and "\<And>i s s'. runSpec original i = Some s \<Longrightarrow> runSpec target i = Some s' \<Longrightarrow> rs_kind s = rs_kind s'"
    and "\<And>i. runSpec original i \<noteq> runSpec target i \<Longrightarrow> runSpec now i = runSpec target i"
  shows "\<exists>r. revert (UsingConfig b) original target version now = Inr r \<and> wf_tree r
    \<and> (\<forall>i. runSpec r i = (if runSpec original i \<noteq> runSpec target i then runSpec original i else runSpec now i))"
proof -
  have "\<exists>t. revertRunSpecChanges (UsingConfig b) version (runSpecChanges original target) now = Inr t \<and> wf_tree t \<and> True
      \<and> (\<forall>i. runSpec t i = (if i \<in> spec_change_id ` set (runSpecChanges original target) then runSpec original i else runSpec now i))"
    by (rule revert_specs [where P = "\<lambda>c. True", OF assms(1,2)]) (use assms(3-5) in auto)
  then obtain t where t: "revertRunSpecChanges (UsingConfig b) version (runSpecChanges original target) now = Inr t" "wf_tree t"
    and specs: "\<forall>i. runSpec t i = (if i \<in> spec_change_id ` set (runSpecChanges original target) then runSpec original i else runSpec now i)"
    by blast
  have changed: "i \<in> spec_change_id ` set (runSpecChanges original target) \<longleftrightarrow> runSpec original i \<noteq> runSpec target i" for i
    by (rule changed_ids [OF assms(1,2)])
  obtain r where "revertGroupChanges (UsingConfig b) version (groupChanges original target) t = Inr r" "wf_tree r" "\<forall>i. runSpec r i = runSpec t i"
    using revert_groups_specs [OF assms(1,2) t(2), of "sortedGroupChanges (groupChanges original target)" b version]
    by (auto simp: revertGroupChanges_def sortedGroupChanges_def)
  then show ?thesis using t(1) specs changed by (simp add: revert_def)
qed


section \<open>Reverting what no other deployment has changed\<close>

text \<open>The groups and their dependencies while the changes of the groups \<open>R\<close> still have to be reverted.\<close>

definition expected_deps :: "('c, 'o) group \<Rightarrow> ('c, 'o) group \<Rightarrow> path_id set \<Rightarrow> path_id \<Rightarrow> path_id set option \<Rightarrow> bool" where
  "expected_deps original target R g d =
     (if g \<in> R then (case contents_of target g of
         Some n \<Rightarrow> d = Some (nd_deps n)
       | None \<Rightarrow> d = None \<or> d = Some {} \<and> contents_of original g \<noteq> None)
     else d = map_option nd_deps (contents_of original g))"

definition reverting :: "('c, 'o) group \<Rightarrow> ('c, 'o) group \<Rightarrow> path_id set \<Rightarrow> ('c, 'o) contents \<Rightarrow> bool" where
  "reverting original target R c = (\<forall>g. expected_deps original target R g (map_option nd_deps (c g)))"

lemma reverting_deps: "(\<And>g. map_option nd_deps (c' g) = map_option nd_deps (c g)) \<Longrightarrow> reverting original target R c \<Longrightarrow> reverting original target R c'"
  by (simp add: reverting_def)

lemma deps_modify: "(\<And>n. nd_deps (f n) = nd_deps n) \<Longrightarrow> map_option nd_deps (modify i f c g) = map_option nd_deps (c g)"
  by (cases "c g") (auto simp: modify_def)

lemma reverting_mkdirs:
  assumes "wf_tree original" and "reverting original target R c" and "contents_of original i \<noteq> None"
    and "\<And>g. at_or_below g i \<Longrightarrow> is_absolute g \<Longrightarrow> c g = None \<Longrightarrow> g \<in> R"
  shows "reverting original target R (mkdirs st i c)"
  unfolding reverting_def
proof (rule allI)
  fix g
  have old: "expected_deps original target R g (map_option nd_deps (c g))" using assms(2) by (simp add: reverting_def)
  show "expected_deps original target R g (map_option nd_deps (mkdirs st i c g))"
  proof (cases "c g = None \<and> is_absolute g \<and> prefix (path_of g) (path_of i)")
    case False
    then have "mkdirs st i c g = c g" by (auto simp: mkdirs_def)
    then show ?thesis using old by simp
  next
    case True
    have "is_absolute i" using assms(1,3) by (auto simp: contents_node split: if_splits)
    then have "g \<in> R" using assms(4) [of g] True by (simp add: at_or_below_def)
    moreover have "contents_of original g \<noteq> None" using contents_closed [OF assms(1,3)] True by blast
    moreover have "contents_of target g = None" using old \<open>g \<in> R\<close> True by (auto simp: expected_deps_def split: option.splits)
    moreover have "mkdirs st i c g = Some (new_node st g)" using True by (simp add: mkdirs_def)
    ultimately show ?thesis by (simp add: expected_deps_def new_node_def)
  qed
qed

text \<open>No run spec stands where a group is.\<close>

lemma put_spec_reverting:
  assumes trees: "wf_tree original" "wf_tree target" and t: "wf_tree t" and s: "runSpec original (rs_id s) = Some s"
    and free: "group_at original (rs_id s) = None" "group_at target (rs_id s) = None"
    and r: "reverting original target UNIV (contents_of t)"
  shows "reverting original target UNIV (put_spec st (rs_id s) s (contents_of t))"
proof -
  let ?i = "rs_id s" and ?c = "contents_of t"
  obtain p x where i: "?i = AbsolutePathId (p @ [x])" and up: "contents_of original (path_parent ?i) \<noteq> None"
    using runSpec_place [OF trees(1) s] by (auto simp: contents_of_def)
  have "contents_of original ?i = None" "contents_of target ?i = None" using free by (simp_all add: contents_of_def)
  moreover have "expected_deps original target UNIV ?i (map_option nd_deps (?c ?i))" using r unfolding reverting_def by blast
  ultimately have "?c ?i = None" by (simp add: expected_deps_def)
  then have "?c j = None" if "at_or_below ?i j" for j
    by (rule contrapos_pp) (use contents_closed [OF t, of j ?i] that i in \<open>simp add: at_or_below_def\<close>)
  moreover have "\<not> prefix (path_of j) p" if "at_or_below ?i j" for j using that by (auto simp: at_or_below_def i prefix_def)
  ultimately have none: "mkdirs st (path_parent ?i) ?c j = None" if "at_or_below ?i j" for j
    using that by (simp add: mkdirs_def i)
  then have vac: "vacate ?i (mkdirs st (path_parent ?i) ?c) = mkdirs st (path_parent ?i) ?c" by (auto simp: vacate_def del_group_def)
  have "reverting original target UNIV (mkdirs st (path_parent ?i) ?c)" by (rule reverting_mkdirs [OF trees(1) r up]) simp
  then show ?thesis
    by (rule reverting_deps [rotated]) (cases "rs_kind s"; simp add: put_spec_def put_app_def put_pod_def vac deps_modify)
qed

lemma del_spec_reverting: "reverting original target R c \<Longrightarrow> reverting original target R (del_spec i s c)"
  by (erule reverting_deps [rotated]) (cases "rs_kind s"; simp add: del_spec_def del_app_def del_pod_def deps_modify)


lemma node_place:
  assumes t: "wf_tree t" and "contents_of t g = Some n" and "nd_apps n i \<noteq> None \<or> nd_pods n i \<noteq> None"
  shows "path_parent i = g"
proof -
  obtain h where h: "group_at t g = Some h" "n = node_of h" using assms(2) by (auto simp: contents_of_def)
  have w: "wf_group h" "gr_id h = g" using group_at_wf [OF _ h(1)] t by (simp_all add: wf_tree_def)
  obtain s where "map_of (gr_apps h) i = Some s \<or> map_of (gr_pods h) i = Some s" using assms(3) h(2) by (auto simp: node_of_def)
  then have "below (gr_id h) i" using wf_parts(2,3) [OF w(1)] by (meson map_of_SomeD)
  then show ?thesis using w(2) by (simp add: below_def)
qed

lemma group_reverted_reverting:
  fixes original target t :: "('c, 'o) group"
  assumes trees: "wf_tree original" "wf_tree target" and t: "wf_tree t" and specs: "\<And>j. runSpec t j = runSpec original j"
    and ch: "ch = (group_at original g, group_at target g)" "ch \<noteq> (None, None)" and R: "g \<notin> R" "\<And>j. at_or_below g j \<Longrightarrow> j \<notin> R"
    and r: "reverting original target (insert g R) (contents_of t)"
  shows "reverting original target R (group_reverted st ch g (contents_of t))"
proof -
  let ?c = "contents_of t"
  have exp: "expected_deps original target (insert g R) h (map_option nd_deps (?c h))" for h
    using r unfolding reverting_def by blast
  have abs: "is_absolute g" using ch trees group_at_down by (metis not_None_eq)
  \<comment> \<open>what is expected of other groups does not depend on whether this one is done\<close>
  have others: "reverting original target R c" if c: "\<And>h. h \<noteq> g \<Longrightarrow> expected_deps original target (insert g R) h (map_option nd_deps (c h))"
    and "map_option nd_deps (c g) = map_option nd_deps (contents_of original g)" for c
    unfolding reverting_def
  proof (rule allI)
    fix h
    show "expected_deps original target R h (map_option nd_deps (c h))"
      using c [of h] that(2) R(1) by (cases "h = g") (simp_all add: expected_deps_def)
  qed
  show ?thesis
  proof (cases "contents_of original g")
    case (Some n)
    then obtain old where old: "group_at original g = Some old" "nd_deps n = set (gr_dependencies old)"
      by (auto simp: contents_of_def node_of_def)
    have "reverting original target (insert g R) (mkdirs st g ?c)"
    proof (rule reverting_mkdirs [OF trees(1) r])
      show "h \<in> insert g R" if h: "at_or_below h g" "is_absolute h" "?c h = None" for h
      proof (rule ccontr)
        assume "h \<notin> insert g R"
        then have "contents_of original h = None" using exp [of h] h(3) by (simp add: expected_deps_def)
        then show False using contents_closed [OF trees(1), of g h] Some h(1,2) by (simp add: at_or_below_def)
      qed
    qed (simp add: Some)
    then have e: "expected_deps original target (insert g R) h (map_option nd_deps (mkdirs st g ?c h))" for h
      unfolding reverting_def by blast
    obtain m where m: "mkdirs st g ?c g = Some m" using mkdirs_self [OF abs] by blast
    have "revert_deps ch (nd_deps m) = nd_deps n"
    proof (cases "group_at target g")
      case None
      then have "nd_deps m = {}" using e [of g] m by (simp add: expected_deps_def contents_of_def)
      then show ?thesis using ch(1) old None by (simp add: revert_deps_def)
    next
      case (Some new)
      then have "nd_deps m = set (gr_dependencies new)" using e [of g] m by (simp add: expected_deps_def contents_of_def node_of_def)
      then show ?thesis using ch(1) old Some by (auto simp: revert_deps_def)
    qed
    moreover have "group_reverted st ch g ?c = modify g (\<lambda>n. n\<lparr>nd_deps := revert_deps ch (nd_deps n)\<rparr>) (mkdirs st g ?c)"
      using ch(1) old(1) by (simp add: group_reverted_def set_deps_def)
    ultimately show ?thesis using Some e m by (intro others) (simp_all add: modify_def)
  next
    case None
    then obtain new where new: "group_at target g = Some new" and o: "group_at original g = None"
      using ch by (auto simp: contents_of_def)
    then obtain n where n: "?c g = Some n" "nd_deps n = set (gr_dependencies new)"
      using exp [of g] by (auto simp: expected_deps_def contents_of_def node_of_def)
    have below: "?c j = None" if j: "at_or_below g j" "j \<noteq> g" for j
    proof (rule ccontr)
      assume "?c j \<noteq> None"
      then have "contents_of original j \<noteq> None" using exp [of j] R(2) [OF j(1)] j(2)
        by (cases "contents_of original j") (auto simp: expected_deps_def)
      then show False using contents_closed [OF trees(1), of j g] None j(1) abs by (simp add: at_or_below_def)
    qed
    have "c_app ?c i = None \<and> c_pod ?c i = None" if "path_parent i = g" for i
    proof -
      have "runSpec original i = None" using runSpec_place [OF trees(1), of i] o that by (cases "runSpec original i") auto
      then show ?thesis using specs [of i] by (simp add: runSpec_contents [OF t] split: option.splits)
    qed
    then have "nd_apps n i = None \<and> nd_pods n i = None" if "path_parent i = g" for i
      using n(1) that by (simp add: c_app_def c_pod_def)
    then have "nd_apps n i = None \<and> nd_pods n i = None" for i using node_place [OF t n(1), of i] by blast
    then have "bare_at g (set (gr_dependencies new)) ?c" using n below by (auto simp: bare_at_def fun_eq_iff)
    then have d: "group_reverted st ch g ?c = del_group g ?c" using ch(1) o new by (simp add: group_reverted_def)
    have "del_group g ?c h = ?c h" if "h \<noteq> g" for h using below that by (auto simp: del_group_def)
    then show ?thesis unfolding d using exp None abs by (intro others) (simp_all add: del_group_def at_or_below_def)
  qed
qed


text \<open>The order in which the changes are reverted.\<close>

lemma seq_compare_longer: "seq_compare compareTo (xs @ z # zs) xs > 0"
proof (induction xs)
  case (Cons x xs)
  have "compareTo x x = 0" by (simp add: compareTo_zero)
  then show ?case using Cons by (simp add: Let_def)
qed simp

lemma path_compare_below: "no_dots (path_of j) \<Longrightarrow> at_or_below g j \<Longrightarrow> j \<noteq> g \<Longrightarrow> is_absolute g \<Longrightarrow> path_compare j g > 0"
proof -
  assume j: "no_dots (path_of j)" "at_or_below g j" "j \<noteq> g" "is_absolute g"
  then obtain q where q: "path_of j = path_of g @ q" by (auto simp: at_or_below_def prefix_def)
  then have "q \<noteq> []" using j absolute_eq [of g j] by (auto simp: at_or_below_def)
  moreover have "no_dots (path_of g)" using j(1) q by (auto simp: no_dots_def)
  ultimately show "path_compare j g > 0"
    using j(1) q by (cases q) (simp_all add: path_compare_def canonical_pieces_def canonical_fixed seq_compare_longer)
qed

interpretation change_order: comparator "\<lambda>change1 change2. path_compare (change_id change2) (change_id change1)"
  by unfold_locales (use piece_order.cmp_total piece_order.cmp_trans in \<open>auto simp: path_compare_def\<close>)

lemma revert_groups_all:
  fixes original target :: "('c, 'o) group"
  assumes trees: "wf_tree original" "wf_tree target"
    and plain: "\<And>i. group_at original i \<noteq> None \<or> group_at target i \<noteq> None \<Longrightarrow> no_dots (path_of i)"
  shows "wf_tree t \<Longrightarrow> (\<And>j. runSpec t j = runSpec original j) \<Longrightarrow> set changes \<subseteq> set (groupChanges original target) \<Longrightarrow>
    sorted_wrt (\<lambda>change1 change2. path_compare (change_id change2) (change_id change1) \<le> 0) changes \<Longrightarrow> distinct (map change_id changes) \<Longrightarrow>
    reverting original target (change_id ` set changes) (contents_of t) \<Longrightarrow>
    \<exists>r. foldR (revert_group (UsingConfig b) v) changes t = Inr r \<and> wf_tree r \<and> (\<forall>j. runSpec r j = runSpec original j)
      \<and> reverting original target {} (contents_of r)"
proof (induction changes arbitrary: t)
  case (Cons ch changes)
  have "ch \<in> set (groupChanges original target)" using Cons.prems(3) by simp
  then obtain i where i: "ch = (group_at original i, group_at target i)" "ch \<noteq> (None, None)" "change_id ch = i"
    unfolding groupChanges_iff [OF trees] by blast
  have abs: "is_absolute i" using i trees group_at_down by (metis not_None_eq)
  obtain s where s: "revert_group (UsingConfig b) v ch t = Inr s" "wf_tree s" "contents_of s = group_reverted (UsingConfig b) ch i (contents_of t)"
    using revert_group_contents [OF trees Cons.prems(1) i(1,2)] by blast
  have "runSpec s j = runSpec t j" for j
    by (simp add: runSpec_contents [OF s(2)] runSpec_contents [OF Cons.prems(1)] s(3) lookup_group_reverted split: option.split)
  then have specs: "\<And>j. runSpec s j = runSpec original j" using Cons.prems(2) by simp
  have R: "i \<notin> change_id ` set changes" using Cons.prems(5) i(3) by auto
  have later: "j \<notin> change_id ` set changes" if j: "at_or_below i j" for j
  proof
    assume "j \<in> change_id ` set changes"
    then obtain d where d: "d \<in> set changes" "j = change_id d" by blast
    then have "path_compare j i \<le> 0" using Cons.prems(4) i(3) by simp
    moreover have "no_dots (path_of j)"
    proof -
      have "d \<in> set (groupChanges original target)" using d(1) Cons.prems(3) by auto
      then show ?thesis unfolding groupChanges_iff [OF trees] using plain d(2) by (metis prod.inject)
    qed
    moreover have "j \<noteq> i" using R d by auto
    ultimately show False using path_compare_below [OF _ j _ abs] by force
  qed
  have "reverting original target (insert i (change_id ` set changes)) (contents_of t)" using Cons.prems(6) i(3) by simp
  then have "reverting original target (change_id ` set changes) (contents_of s)"
    unfolding s(3) by (intro group_reverted_reverting [OF trees Cons.prems(1,2) i(1,2) R later])
  then show ?case using Cons.IH [OF s(2) specs] Cons.prems(3-5) s(1) by simp
qed simp


lemma groupChanges_distinct:
  fixes original target :: "('c, 'o) group"
  assumes "wf_tree original" and "wf_tree target"
  shows "distinct (map change_id (groupChanges original target))"
proof -
  let ?ids = "remdups (map fst (transitiveGroupsById original) @ map fst (transitiveGroupsById target))"
  have "change_id (group_at original i, group_at target i) = i" if "i \<in> set ?ids" for i
    by (rule change_id_at [OF assms]) (use that in \<open>auto simp: group_at_def map_of_eq_None_iff\<close>)
  then have "map change_id (groupChanges original target) = ?ids"
    unfolding groupChanges_def changesOnIds_def map_map comp_def group_at_def [symmetric] by (simp only: map_idI)
  then show ?thesis by simp
qed

text \<open>Every group of either tree has a change.\<close>

lemma reverting_changes:
  fixes original target :: "('c, 'o) group"
  assumes trees: "wf_tree original" "wf_tree target" and r: "reverting original target UNIV c"
  shows "reverting original target (change_id ` set (groupChanges original target)) c"
proof -
  have "expected_deps original target (change_id ` set (groupChanges original target)) g (map_option nd_deps (c g))" for g
  proof (cases "g \<in> change_id ` set (groupChanges original target)")
    case True
    then show ?thesis using r unfolding reverting_def expected_deps_def by simp
  next
    case False
    have "group_at original g = None \<and> group_at target g = None"
    proof (rule ccontr)
      assume "\<not> (group_at original g = None \<and> group_at target g = None)"
      then have some: "group_at original g \<noteq> None \<or> group_at target g \<noteq> None" unfolding de_Morgan_conj .
      then have "(group_at original g, group_at target g) \<in> set (groupChanges original target)"
        unfolding groupChanges_iff [OF trees] using change_id_at [OF trees some] some by (intro exI [of _ g]) simp
      then show False using False change_id_at [OF trees some] by (metis image_eqI)
    qed
    moreover have "expected_deps original target UNIV g (map_option nd_deps (c g))" using r unfolding reverting_def by blast
    ultimately show ?thesis using False by (simp add: expected_deps_def contents_of_def)
  qed
  then show ?thesis by (simp add: reverting_def)
qed



text \<open>What the hypotheses of the theorems come down to for a given tree.\<close>

lemma groups_all: "list_all (\<lambda>(k, g). P k) (transitiveGroupsById t) \<Longrightarrow> group_at t i \<noteq> None \<Longrightarrow> P i"
  by (auto simp: group_at_def list_all_iff dest!: map_of_SomeD)

definition undo_app :: "string list \<Rightarrow> string \<Rightarrow> path_id \<times> (string, unit) run_spec" where
  "undo_app path cfg = (let i = AbsolutePathId path in (i,
     \<lparr>rs_kind = App, rs_id = i, rs_instances = 1, rs_dependencies = [], rs_versionInfo = OnlyVersion 1, rs_config = cfg, rs_other = ()\<rparr>))"

definition undo_group :: "string \<Rightarrow> (path_id \<times> (string, unit) run_spec) list \<Rightarrow> path_id list \<Rightarrow> bool \<Rightarrow> path_id \<times> (string, unit) group" where
  "undo_group name' apps deps enforce = (AbsolutePathId [name'], Group (AbsolutePathId [name']) apps [] [] deps 1 (Some enforce))"

definition undo_root :: "(path_id \<times> (string, unit) run_spec) list \<Rightarrow> (path_id \<times> (string, unit) group) list \<Rightarrow> (string, unit) group" where
  "undo_root apps groups = Group path_root apps [] groups [] 1 None"

definition undo_before :: "(string, unit) group" where
  "undo_before = undo_root [undo_app [''job''] ''v1'']
     [undo_group ''db'' [undo_app [''db'', ''store''] ''v1''] [] False,
      undo_group ''web'' [undo_app [''web'', ''ui''] ''v1''] [AbsolutePathId [''db'']] False]"

definition undo_after :: "(string, unit) group" where
  "undo_after = undo_root []
     [undo_group ''db'' [undo_app [''db'', ''store''] ''v2''] [AbsolutePathId [''cache'']] False,
      undo_group ''cache'' [undo_app [''cache'', ''one''] ''v1''] [] False]"

lemma undo_hypotheses:
  "wf_tree undo_before" "wf_tree undo_after"
  "\<And>i s s'. runSpec undo_before i = Some s \<Longrightarrow> runSpec undo_after i = Some s' \<Longrightarrow> rs_kind s = rs_kind s'"
  "\<And>i. group_at undo_before i \<noteq> None \<or> group_at undo_after i \<noteq> None \<Longrightarrow> no_dots (path_of i)"
  "\<And>i. runSpec undo_before i \<noteq> None \<Longrightarrow> group_at undo_before i = None \<and> group_at undo_after i = None"
proof -
  show w: "wf_tree undo_before" "wf_tree undo_after" by code_simp+
  have apps: "list_all (\<lambda>s. rs_kind s = App) (transitiveRunSpecs undo_before)" "list_all (\<lambda>s. rs_kind s = App) (transitiveRunSpecs undo_after)"
    by code_simp+
  show "rs_kind s = rs_kind s'" if "runSpec undo_before i = Some s" "runSpec undo_after i = Some s'" for i s s'
    using specs_all [OF w(1) apps(1) that(1)] specs_all [OF w(2) apps(2) that(2)] by simp
  have plain: "list_all (\<lambda>(k, g). no_dots (path_of k)) (transitiveGroupsById undo_before)"
    "list_all (\<lambda>(k, g). no_dots (path_of k)) (transitiveGroupsById undo_after)" by code_simp+
  show "no_dots (path_of i)" if "group_at undo_before i \<noteq> None \<or> group_at undo_after i \<noteq> None" for i
    using groups_all [OF plain(1)] groups_all [OF plain(2)] that by blast
  have free: "list_all (\<lambda>s. Option.is_none (group_at undo_before (rs_id s)) \<and> Option.is_none (group_at undo_after (rs_id s))) (transitiveRunSpecs undo_before)"
    by code_simp
  show "group_at undo_before i = None \<and> group_at undo_after i = None" if "runSpec undo_before i \<noteq> None" for i
    using specs_all [OF w(1) free, of i] that by (auto simp: Option.is_none_def)
qed


theorem revert_run_specs_witness:
  "\<exists>now r. updateApp (UsingConfig Off) undo_after (AbsolutePathId [''new'']) (\<lambda>_. snd (undo_app [''new''] ''v1'')) 2 = Inr now
    \<and> revert (UsingConfig Off) undo_before undo_after 3 now = Inr r
    \<and> runSpec r (AbsolutePathId [''new'']) = Some (snd (undo_app [''new''] ''v1''))
    \<and> runSpec r (AbsolutePathId [''db'', ''store'']) = Some (snd (undo_app [''db'', ''store''] ''v1''))"
proof -
  let ?new = "AbsolutePathId ([] @ [''new''])" and ?s = "snd (undo_app [''new''] ''v1'')"
  obtain g where g: "group_or_new (UsingConfig Off) undo_after (AbsolutePathId []) = Inr g" using group_or_new_config by blast
  have p: "Option.is_none (pod_at undo_after ?new) \<and> rs_id ?s = ?new \<and> rs_kind ?s = App
    \<and> Option.is_none (runSpec undo_before ?new) \<and> Option.is_none (runSpec undo_after ?new)" by code_simp
  then have "edited 2 (put_app (UsingConfig Off) ?new ?s (contents_of undo_after)) (updateApp (UsingConfig Off) undo_after ?new (\<lambda>_. ?s) 2)"
    by (intro updateApp_edited [OF undo_hypotheses(2) g]) (simp_all add: Option.is_none_def)
  then obtain now where n: "updateApp (UsingConfig Off) undo_after ?new (\<lambda>_. ?s) 2 = Inr now" "wf_tree now"
      "contents_of now = put_spec (UsingConfig Off) ?new ?s (contents_of undo_after)"
    using p by (auto simp: edited_def put_spec_def)
  have now: "runSpec now j = (if j = ?new then Some ?s else runSpec undo_after j)" for j
    by (rule runSpec_after_put [OF undo_hypotheses(2) n(2,3) refl]) (use p in \<open>simp add: Option.is_none_def\<close>)
  have "\<exists>r. revert (UsingConfig Off) undo_before undo_after 3 now = Inr r \<and> wf_tree r
    \<and> (\<forall>i. runSpec r i = (if runSpec undo_before i \<noteq> runSpec undo_after i then runSpec undo_before i else runSpec now i))"
  proof (rule revert_run_specs [OF undo_hypotheses(1,2) n(2)])
    show "runSpec now i = runSpec undo_after i" if "runSpec undo_before i \<noteq> runSpec undo_after i" for i
      using that p by (auto simp: now Option.is_none_def)
  qed (fact undo_hypotheses(3))
  then obtain r where r: "revert (UsingConfig Off) undo_before undo_after 3 now = Inr r"
    and specs: "\<forall>i. runSpec r i = (if runSpec undo_before i \<noteq> runSpec undo_after i then runSpec undo_before i else runSpec now i)"
    by blast
  have "runSpec undo_before (AbsolutePathId [''db'', ''store'']) = Some (snd (undo_app [''db'', ''store''] ''v1''))
    \<and> runSpec undo_before (AbsolutePathId [''db'', ''store'']) \<noteq> runSpec undo_after (AbsolutePathId [''db'', ''store''])"
    by code_simp
  then show ?thesis using n(1) r specs now p by (intro exI [of _ now] exI [of _ r]) (simp add: Option.is_none_def)
qed

text \<open>
  What is not restored. A top-level group that was removed comes back with the configured default for
  the role, whatever it had.
\<close>

theorem revert_forgets_role:
  "case revert (UsingConfig Off) (undo_root [] [undo_group ''a'' [] [] True]) (undo_root [] []) 2 (undo_root [] []) of
     Inr r \<Rightarrow> (case group_at r (AbsolutePathId [''a'']) of Some g \<Rightarrow> gr_enforceRole g = Some False | None \<Rightarrow> False)
   | Inl e \<Rightarrow> False"
  by code_simp

text \<open>
  An app that a group with dependencies and without run specs has replaced comes back beside the group:
  the group, already gone, is made again to take its dependencies from it.
\<close>

theorem revert_app_and_group:
  "case revert (UsingConfig Off) (undo_root [undo_app [''a''] ''v1''] []) (undo_root [] [undo_group ''a'' [] [AbsolutePathId [''b'']] False]) 2
      (undo_root [] [undo_group ''a'' [] [AbsolutePathId [''b'']] False]) of
     Inr r \<Rightarrow> \<not> Option.is_none (runSpec r (AbsolutePathId [''a''])) \<and> \<not> Option.is_none (group_at r (AbsolutePathId [''a'']))
   | Inl e \<Rightarrow> False"
  by code_simp

end
