(* ===== verification/Properties.thy ===== *)
theory Properties
  imports JsValue
begin

text \<open>
  \<open>RAML.Inspector.Properties\<close> and \<open>RAML.Utils\<close> of \<open>api-console.js\<close>: the normalisation of
  named parameters to arrays, the cleanup of property values before they are serialised, and the
  object helpers. Main facts: normalisation is idempotent and leaves an array under every key;
  cleanup keeps a property only if its cleaned value has a truthy first element.
\<close>

section \<open>RAML.Utils\<close>

text \<open>
  \<open>RAML.Utils.clone(o)\<close> is an empty object whose prototype is \<open>o\<close>: every property is read
  through to \<open>o\<close>, so a clone is represented by the object it reads from. \<open>copy\<close> copies the
  properties of an object one by one.
\<close>

definition utils_copy :: "'v jsobj \<Rightarrow> 'v jsobj" where
  "utils_copy ob = entries ob"

fun utils_isEmpty :: "jsval \<Rightarrow> bool" where
  "utils_isEmpty (JObj ob) = (own_keys ob = [])"
| "utils_isEmpty (JArr vs) = (vs = [])"
| "utils_isEmpty (JStr s) = (s = [])"
| "utils_isEmpty v = True"

text \<open>A value that is neither \<open>undefined\<close>, \<open>null\<close> nor a blank string.\<close>

definition filled :: "jsval \<Rightarrow> bool" where
  "filled v = (\<not> nullish v \<and> (case v of JStr s \<Rightarrow> trim s \<noteq> [] | _ \<Rightarrow> True))"

definition utils_filterEmpty :: "jsval jsobj \<Rightarrow> jsval jsobj" where
  "utils_filterEmpty ob = filter (\<lambda>(k, v). filled v) (entries ob)"

section \<open>normalizeNamedParameters\<close>

definition ensureArray :: "jsval \<Rightarrow> jsval" where
  "ensureArray v = (if nullish v then JUndef else case v of JArr vs \<Rightarrow> JArr vs | w \<Rightarrow> JArr [w])"

text \<open>
  The object is updated in place and returned; the model returns the updated object. Reading
  \<open>properties\<close> of a missing parameter throws, as does writing to an index of a string.
\<close>

fun normalizeNamedParameters :: "jsval \<Rightarrow> jsval res"
  and normalize_one :: "jsval \<Rightarrow> jsval res"
where
  "normalizeNamedParameters (JObj ob) =
     rbind (mapR (\<lambda>(k, v). rbind (normalize_one v) (\<lambda>w. Inr (k, w))) ob) (\<lambda>ob'. Inr (JObj ob'))"
| "normalizeNamedParameters (JArr vs) = rbind (mapR normalize_one vs) (\<lambda>ws. Inr (JArr ws))"
| "normalizeNamedParameters (JStr s) = (if s = [] then Inr (JStr s) else Inl TypeError)"
| "normalizeNamedParameters v = Inr v"
| "normalize_one JUndef = Inl TypeError"
| "normalize_one JNull = Inl TypeError"
| "normalize_one (JObj p) =
     rbind (mapR (\<lambda>(k, v). if k = ''properties'' \<and> truthy v
                     then rbind (normalizeNamedParameters v) (\<lambda>w. Inr (k, w))
                     else Inr (k, v)) p)
       (\<lambda>p'. Inr (ensureArray (JObj p')))"
| "normalize_one v = Inr (ensureArray v)"

section \<open>cleanupPropertyValue\<close>

text \<open>\<open>v[0]\<close> of a value that is not \<open>null\<close> or \<open>undefined\<close>.\<close>

fun first_of :: "jsval \<Rightarrow> jsval" where
  "first_of (JArr (v # vs)) = v"
| "first_of (JObj ob) = pget ob ''0''"
| "first_of (JStr (c # s)) = JStr [c]"
| "first_of v = JUndef"

definition read_first :: "jsval \<Rightarrow> jsval res" where
  "read_first v = (if nullish v then Inl TypeError else Inr (first_of v))"

lemma size_list_mem: "x \<in> set xs \<Longrightarrow> f x \<le> size_list f xs"
  by (induction xs) auto

lemma size_pget: "size (pget ob k) \<le> size_list (size_prod (\<lambda>x. 0) size) ob"
proof (cases "oget ob k")
  case None
  then show ?thesis by (simp add: pget_def)
next
  case (Some v)
  then have "(k, v) \<in> set ob" by (rule oget_Some_in)
  from size_list_mem [OF this, of "size_prod (\<lambda>x. 0) size"] Some
  show ?thesis by (simp add: pget_def)
qed

lemma size_first_of: "size (first_of v) \<le> size v"
  using size_pget by (cases v rule: first_of.cases) (auto intro: le_SucI)

function cleanupPropertyValue :: "jsval \<Rightarrow> jsval res" where
  "cleanupPropertyValue JNull = Inl TypeError"
| "cleanupPropertyValue (JArr vs) =
     rbind (mapR (\<lambda>item. if nullish item then Inl TypeError
                         else cleanupPropertyValue (first_of item)) vs)
       (\<lambda>ws. Inr (JArr ws))"
| "cleanupPropertyValue (JObj ob) =
     rbind (mapR (\<lambda>(k, v). rbind (cleanupPropertyValue (if truthy v then first_of v else v))
                     (\<lambda>c. rbind (read_first c) (\<lambda>f. Inr (k, c, f)))) ob)
       (\<lambda>rs. Inr (JObj (map (\<lambda>(k, c, f). (k, c)) (filter (\<lambda>(k, c, f). truthy f) rs))))"
| "cleanupPropertyValue (JDate t shown isos) = Inr (JObj [])"
| "cleanupPropertyValue JUndef = Inr JUndef"
| "cleanupPropertyValue (JBool tf) = Inr (JBool tf)"
| "cleanupPropertyValue (JNum n) = Inr (JNum n)"
| "cleanupPropertyValue (JStr s) = Inr (JStr s)"
  by pat_completeness auto
termination
proof (relation "measure size", goal_cases)
  case (2 vs item)
  then show ?case
    using size_first_of [of item] size_list_mem [of item vs size] by simp
next
  case (3 ob kv k v)
  then have "(k, v) \<in> set ob" by simp
  from size_list_mem [OF this, of "size_prod (\<lambda>x. 0) size"]
  have "size v \<le> size_list (size_prod (\<lambda>x. 0) size) ob" by simp
  then show ?case using size_first_of [of v] by simp
qed simp

section \<open>Lemmas\<close>

lemma ensureArray_is_arr: "\<not> nullish v \<Longrightarrow> is_arr (ensureArray v)"
  by (cases v) (auto simp: ensureArray_def)

lemma ensureArray_idem [simp]: "ensureArray (ensureArray v) = ensureArray v"
  by (cases v) (auto simp: ensureArray_def)

lemma normalize_one_is_arr: "normalize_one v = Inr w \<Longrightarrow> is_arr w"
  by (cases v) (auto simp: rbind_eq_Inr ensureArray_is_arr)

lemma normalize_one_arr [simp]: "is_arr w \<Longrightarrow> normalize_one w = Inr w"
  by (cases w) (auto simp: ensureArray_def)

lemma mapR_Inr_set: "mapR f xs = Inr ys \<Longrightarrow> y \<in> set ys \<Longrightarrow> \<exists>x\<in>set xs. f x = Inr y"
  by (induction xs arbitrary: ys) (auto split: sum.splits)

lemma mapR_id: "(\<And>x. x \<in> set xs \<Longrightarrow> f x = Inr x) \<Longrightarrow> mapR f xs = Inr xs"
  by (induction xs) auto

lemma mapR_keys:
  "mapR (\<lambda>(k, v). rbind (f k v) (\<lambda>w. Inr (k, w))) ob = Inr ob' \<Longrightarrow> map fst ob' = map fst ob"
  by (induction ob arbitrary: ob') (auto simp: rbind_eq_Inr split: sum.splits)

lemma normalizeNamedParameters_JObj:
  assumes "normalizeNamedParameters (JObj ob) = Inr w"
  shows "\<exists>ob'. w = JObj ob' \<and> map fst ob' = map fst ob \<and> list_all (\<lambda>(k, v). is_arr v) ob'"
proof -
  from assms obtain ob' where w: "w = JObj ob'"
    and m: "mapR (\<lambda>(k, v). rbind (normalize_one v) (\<lambda>w. Inr (k, w))) ob = Inr ob'"
    by (auto simp: rbind_eq_Inr)
  have "map fst ob' = map fst ob"
    using mapR_keys [of "\<lambda>k. normalize_one"] m by blast
  moreover have "is_arr v" if "(k, v) \<in> set ob'" for k v
    using mapR_Inr_set [OF m that] by (auto simp: rbind_eq_Inr dest: normalize_one_is_arr)
  ultimately show ?thesis using w by (auto simp: list_all_iff)
qed

lemma normalizeNamedParameters_normal:
  "list_all (\<lambda>(k, v). is_arr v) ob \<Longrightarrow> normalizeNamedParameters (JObj ob) = Inr (JObj ob)"
proof -
  assume "list_all (\<lambda>(k, v). is_arr v) ob"
  then have "mapR (\<lambda>(k, v). rbind (normalize_one v) (\<lambda>w. Inr (k, w))) ob = Inr ob"
    by (intro mapR_id) (auto simp: list_all_iff)
  then show ?thesis by simp
qed

text \<open>
  Normalising named parameters is idempotent: an object that went through it once is
  left unchanged by every later pass (the inspector normalises the same objects repeatedly).
\<close>

theorem normalizeNamedParameters_idempotent:
  assumes "normalizeNamedParameters v = Inr w"
  shows "normalizeNamedParameters w = Inr w"
proof (cases v)
  case (JObj ob)
  with assms show ?thesis
    using normalizeNamedParameters_JObj normalizeNamedParameters_normal by blast
next
  case (JArr vs)
  with assms obtain ws where w: "w = JArr ws" and ws: "mapR normalize_one vs = Inr ws"
    by (auto simp: rbind_eq_Inr)
  then have "mapR normalize_one ws = Inr ws"
    by (intro mapR_id normalize_one_arr) (blast dest: mapR_Inr_set normalize_one_is_arr)
  then show ?thesis using w by simp
qed (use assms in \<open>auto split: if_splits\<close>)

definition sample_params :: jsval where
  "sample_params = JObj [(''id'', JObj [(''type'', JStr ''string'')]), (''tags'', JArr [JStr ''x''])]"

theorem normalizeNamedParameters_idempotent_witness:
  "normalizeNamedParameters (JObj [(''id'', JArr [JObj [(''type'', JStr ''string'')]]), (''tags'', JArr [JStr ''x''])])
     = Inr (JObj [(''id'', JArr [JObj [(''type'', JStr ''string'')]]), (''tags'', JArr [JStr ''x''])])"
proof -
  have "normalizeNamedParameters sample_params
      = Inr (JObj [(''id'', JArr [JObj [(''type'', JStr ''string'')]]), (''tags'', JArr [JStr ''x''])])"
    by code_simp
  then show ?thesis by (rule normalizeNamedParameters_idempotent)
qed

lemma cleanup_kept:
  assumes "cleanupPropertyValue (JObj ob) = Inr w"
  shows "\<exists>ob'. w = JObj ob' \<and> set (map fst ob') \<subseteq> set (map fst ob)
    \<and> (\<forall>(k, c) \<in> set ob'. truthy (first_of c))"
proof -
  from assms obtain rs where w: "w = JObj (map (\<lambda>(k, c, f). (k, c)) (filter (\<lambda>(k, c, f). truthy f) rs))"
    and rs: "mapR (\<lambda>(k, v). rbind (cleanupPropertyValue (if truthy v then first_of v else v))
        (\<lambda>c. rbind (read_first c) (\<lambda>f. Inr (k, c, f)))) ob = Inr rs"
    by (auto simp: rbind_eq_Inr)
  have each: "k \<in> fst ` set ob \<and> f = first_of c" if "(k, c, f) \<in> set rs" for k c f
    using mapR_Inr_set [OF rs that]
    by (force simp: rbind_eq_Inr read_first_def split: prod.splits if_splits)
  show ?thesis
    using w each by (auto simp: image_iff)
qed

text \<open>
  Every property that survives the cleanup of an object value has a cleaned value whose
  element 0 is truthy. So strings and arrays can survive, but a number, a boolean or a nested
  object without a \<open>0\<close> key never does: \<open>cleanedValue[key][0]\<close> is \<open>undefined\<close> for them.
\<close>

theorem cleanup_drops_scalars:
  assumes "cleanupPropertyValue (JObj ob) = Inr (JObj ob')" and "(k, c) \<in> set ob'"
  shows "(\<exists>s. c = JStr s \<and> s \<noteq> []) \<or> (\<exists>x xs. c = JArr (x # xs) \<and> truthy x) \<or> (\<exists>ps. c = JObj ps \<and> truthy (pget ps ''0''))"
proof -
  from cleanup_kept [OF assms(1)] assms(2) have "truthy (first_of c)" by auto
  then show ?thesis by (cases c rule: first_of.cases) auto
qed

definition sample_value :: jsval where
  "sample_value = JObj [(''name'', JArr [JStr ''ab'']), (''count'', JArr [jint 5])]"

theorem cleanup_drops_scalars_witness:
  "cleanupPropertyValue sample_value = Inr (JObj [(''name'', JStr ''ab'')])
   \<and> ((\<exists>s. JStr ''ab'' = JStr s \<and> s \<noteq> []) \<or> (\<exists>x xs. JStr ''ab'' = JArr (x # xs) \<and> truthy x)
      \<or> (\<exists>ps. JStr ''ab'' = JObj ps \<and> truthy (pget ps ''0'')))"
proof -
  have e: "cleanupPropertyValue sample_value = Inr (JObj [(''name'', JStr ''ab'')])"
    by code_simp
  show ?thesis
    using e cleanup_drops_scalars [of "[(''name'', JArr [JStr ''ab'']), (''count'', JArr [jint 5])]"
        "[(''name'', JStr ''ab'')]" "''name''" "JStr ''ab''"]
    by (simp add: sample_value_def)
qed

end
