(* ===== verification/UriCodec.thy ===== *)
theory UriCodec
  imports JsValue
begin

text \<open>
  The query-string codec of the OAuth 2.0 client in \<open>docs/api-console/scripts/api-console.js\<close>
  (\<open>encodeComponent\<close>, \<open>decodeComponent\<close>, \<open>uriEncode\<close>, \<open>uriDecode\<close>), over the language's
  \<open>encodeURIComponent\<close> and \<open>decodeURIComponent\<close>. Main facts: the encoder emits unreserved
  characters and upper-case percent escapes only, decoding inverts encoding on well-formed
  UTF-8, and decoding an encoded parameter object gives the object back.
\<close>

section \<open>Percent encoding\<close>

definition hex_digit :: "nat \<Rightarrow> char" where
  "hex_digit n = (if n < 10 then char_of (48 + n) else char_of (55 + n))"

definition pct :: "char \<Rightarrow> string" where
  "pct c = [CHR ''%'', hex_digit (of_char c div 16), hex_digit (of_char c mod 16)]"

text \<open>The characters \<open>encodeURIComponent\<close> leaves alone.\<close>

definition uri_mark :: "char \<Rightarrow> bool" where
  "uri_mark c = (c \<in> set ''-_.!~*'' \<or> c = CHR 0x27 \<or> c = CHR ''('' \<or> c = CHR '')'')"

definition uri_safe :: "char \<Rightarrow> bool" where
  "uri_safe c = (is_alnum c \<or> uri_mark c)"

definition percent_encode :: "(char \<Rightarrow> bool) \<Rightarrow> string \<Rightarrow> string" where
  "percent_encode safe s = concat (map (\<lambda>c. if safe c then [c] else pct c) s)"

definition encodeURIComponent :: "string \<Rightarrow> string" where
  "encodeURIComponent s = percent_encode uri_safe s"

text \<open>The characters of the class \<open>[!'()]\<close>, which the code passes to \<open>escape\<close>, and \<open>*\<close>.\<close>

definition sub_delim :: "char \<Rightarrow> bool" where
  "sub_delim c = (c = CHR ''!'' \<or> c = CHR 0x27 \<or> c = CHR ''('' \<or> c = CHR '')'')"

definition encode_component :: "string \<Rightarrow> string" where
  "encode_component str =
     concat (map (\<lambda>c. if c = CHR ''*'' then ''%2A'' else [c])
       (concat (map (\<lambda>c. if sub_delim c then pct c else [c]) (encodeURIComponent str))))"

definition unreserved :: "char \<Rightarrow> bool" where
  "unreserved c = (is_alnum c \<or> c \<in> set ''-_.~'')"

section \<open>UTF-8 and percent decoding\<close>

text \<open>How many continuation bytes follow a lead byte.\<close>

definition utf8_need :: "nat \<Rightarrow> nat option" where
  "utf8_need b =
     (if b < 128 then Some 0
      else if 194 \<le> b \<and> b < 224 then Some 1
      else if 224 \<le> b \<and> b < 240 then Some 2
      else if 240 \<le> b \<and> b < 245 then Some 3
      else None)"

text \<open>No overlong forms, no surrogates, nothing above \<open>U+10FFFF\<close>.\<close>

definition utf8_second_ok :: "nat \<Rightarrow> nat \<Rightarrow> bool" where
  "utf8_second_ok b c =
     ((b = 224 \<longrightarrow> 160 \<le> c) \<and> (b = 237 \<longrightarrow> c < 160) \<and> (b = 240 \<longrightarrow> 144 \<le> c) \<and> (b = 244 \<longrightarrow> c < 144))"

definition utf8_seq :: "nat \<Rightarrow> nat list \<Rightarrow> bool" where
  "utf8_seq b cs =
     (list_all (\<lambda>c. 128 \<le> c \<and> c < 192) cs
      \<and> (case cs of [] \<Rightarrow> True | c # _ \<Rightarrow> utf8_second_ok b c))"

function valid_utf8 :: "string \<Rightarrow> bool" where
  "valid_utf8 [] = True"
| "valid_utf8 (c # s) =
     (case utf8_need (of_char c) of
        None \<Rightarrow> False
      | Some n \<Rightarrow> n \<le> length s \<and> utf8_seq (of_char c) (map of_char (take n s)) \<and> valid_utf8 (drop n s))"
  by pat_completeness auto
termination
  by (relation "measure length") auto

fun pct_byte :: "string \<Rightarrow> (nat \<times> string) option" where
  "pct_byte (p # a # b # r) =
     (if p = CHR ''%'' then
        (case (hex_val a, hex_val b) of (Some x, Some y) \<Rightarrow> Some (16 * x + y, r) | _ \<Rightarrow> None)
      else None)"
| "pct_byte _ = None"

fun pct_bytes :: "nat \<Rightarrow> string \<Rightarrow> (nat list \<times> string) option" where
  "pct_bytes 0 s = Some ([], s)"
| "pct_bytes (Suc n) s =
     (case pct_byte s of
        None \<Rightarrow> None
      | Some (b, r) \<Rightarrow> map_option (\<lambda>(bs, r'). (b # bs, r')) (pct_bytes n r))"

lemma pct_byte_shorter: "pct_byte s = Some (b, r) \<Longrightarrow> length r < length s"
  by (cases s rule: pct_byte.cases) (auto split: if_splits option.splits)

lemma pct_bytes_shorter: "pct_bytes n s = Some (bs, r) \<Longrightarrow> length r \<le> length s"
  by (induction n arbitrary: s bs r)
     (fastforce split: option.splits dest!: pct_byte_shorter)+

text \<open>
  \<open>decodeURIComponent\<close>: a percent escape that is malformed, or that does not continue a UTF-8
  sequence where one is due, throws \<open>URIError\<close>.
\<close>

function decodeURIComponent :: "string \<Rightarrow> string res" where
  "decodeURIComponent [] = Inr []"
| "decodeURIComponent (c # s) =
     (if c \<noteq> CHR ''%'' then rbind (decodeURIComponent s) (\<lambda>t. Inr (c # t))
      else case pct_byte (c # s) of
        None \<Rightarrow> Inl URIError
      | Some (b, r) \<Rightarrow>
          (case utf8_need b of
             None \<Rightarrow> Inl URIError
           | Some n \<Rightarrow>
               (case pct_bytes n r of
                  None \<Rightarrow> Inl URIError
                | Some (bs, r') \<Rightarrow>
                    if utf8_seq b bs
                    then rbind (decodeURIComponent r') (\<lambda>t. Inr (map char_of (b # bs) @ t))
                    else Inl URIError)))"
  by pat_completeness auto
termination
  by (relation "measure length") (auto dest!: pct_byte_shorter pct_bytes_shorter)

definition decode_component :: "string \<Rightarrow> string res" where
  "decode_component str = decodeURIComponent str"

section \<open>Query strings\<close>

text \<open>\<open>uriEncode(obj, sep, eq)\<close>; every caller takes the default separators.\<close>

definition encode_entry :: "char \<Rightarrow> string \<times> jsval \<Rightarrow> string list" where
  "encode_entry eqc kv =
     (let keyStr = encode_component (fst kv) @ [eqc]
      in case snd kv of
           JArr vs \<Rightarrow> map (\<lambda>v. keyStr @ encode_component (to_string v)) vs
         | v \<Rightarrow> if nullish v then [] else [keyStr @ encode_component (to_string v)])"

definition uri_encode_with :: "char \<Rightarrow> char \<Rightarrow> jsval jsobj \<Rightarrow> string" where
  "uri_encode_with sep eqc obj = join [sep] (concat (map (encode_entry eqc) (entries obj)))"

definition uri_encode :: "jsval jsobj \<Rightarrow> string" where
  "uri_encode obj = uri_encode_with CHR ''&'' CHR ''='' obj"

text \<open>One part of a query string: \<open>+\<close> is a space, the text before the first \<open>eq\<close> is the key.\<close>

definition split_part :: "char \<Rightarrow> string \<Rightarrow> string \<times> string" where
  "split_part eqc part =
     (let key = concat (map (\<lambda>c. if c = CHR ''+'' then ''%20'' else [c]) part)
      in case index_of [eqc] key of
           None \<Rightarrow> (key, [])
         | Some i \<Rightarrow> (take i key, drop (Suc i) key))"

text \<open>A repeated key turns its value into an array.\<close>

definition add_param :: "jsval jsobj \<Rightarrow> string \<Rightarrow> string \<Rightarrow> jsval jsobj" where
  "add_param obj key val =
     (case oget obj key of
        None \<Rightarrow> oset key (JStr val) obj
      | Some (JArr vs) \<Rightarrow> oset key (JArr (vs @ [JStr val])) obj
      | Some v \<Rightarrow> oset key (JArr [v, JStr val]) obj)"

definition decode_part :: "char \<Rightarrow> string \<Rightarrow> jsval jsobj \<Rightarrow> jsval jsobj res" where
  "decode_part eqc part obj =
     (let (key, val) = split_part eqc part
      in rbind (decode_component key) (\<lambda>k.
         rbind (decode_component val) (\<lambda>v. Inr (add_param obj k v))))"

definition max_keys :: nat where
  "max_keys = 1000"

definition uri_decode_with :: "char \<Rightarrow> char \<Rightarrow> string \<Rightarrow> jsval jsobj res" where
  "uri_decode_with sep eqc qs =
     (let parts = split_on sep qs;
          len = (if length parts > max_keys then max_keys else length parts)
      in foldR (decode_part eqc) (take len parts) [])"

definition uri_decode :: "string \<Rightarrow> jsval jsobj res" where
  "uri_decode qs = uri_decode_with CHR ''&'' CHR ''='' qs"

section \<open>The encoder's alphabet\<close>

lemma of_char_less [simp]: "(of_char c :: nat) < 256"
  by (metis mod_less_divisor of_char_mod_256 zero_less_numeral)

lemma of_char_div16 [simp]: "(of_char c :: nat) div 16 < 16"
  using of_char_less [of c] by (simp add: less_mult_imp_div_less)

lemma char_of_numerals: "char_of (50 :: nat) = CHR ''2''" "char_of (65 :: nat) = CHR ''A''"
  by (simp_all add: char_of_def bit_Suc_0_iff)

lemma hex_digit_alnum: "n < 16 \<Longrightarrow> is_alnum (hex_digit n)"
  by (auto simp: hex_digit_def is_alnum_def is_digit_def is_upper_def)

lemma hex_val_hex_digit [simp]: "n < 16 \<Longrightarrow> hex_val (hex_digit n) = Some n"
  by (auto simp: hex_val_def hex_digit_def Let_def)

lemma alnum_plain: "is_alnum c \<Longrightarrow> \<not> sub_delim c \<and> c \<noteq> CHR ''*'' \<and> c \<noteq> CHR ''%''
    \<and> c \<noteq> CHR ''&'' \<and> c \<noteq> CHR ''='' \<and> c \<noteq> CHR ''+'' \<and> c \<noteq> CHR 0x22 \<and> c \<noteq> CHR '',''"
  by (auto simp: is_alnum_def sub_delim_def is_digit_def is_upper_def is_lower_def)

lemma hex_digits_of_char [simp]:
  "is_alnum (hex_digit (of_char c div 16))" "is_alnum (hex_digit (of_char c mod 16))"
  by (auto intro!: hex_digit_alnum)

lemma percent_encode_Nil [simp]: "percent_encode safe [] = []"
  and percent_encode_Cons: "percent_encode safe (c # s) = (if safe c then [c] else pct c) @ percent_encode safe s"
  and percent_encode_append: "percent_encode safe (s @ t) = percent_encode safe s @ percent_encode safe t"
  by (simp_all add: percent_encode_def)

lemma two_passes:
  "concat (map (\<lambda>c. if c = CHR ''*'' then ''%2A'' else [c])
     (concat (map (\<lambda>c. if sub_delim c then pct c else [c]) (if uri_safe c then [c] else pct c))))
   = (if unreserved c then [c] else pct c)"
proof (cases "is_alnum c")
  case True
  then show ?thesis using alnum_plain [of c] by (simp add: uri_safe_def unreserved_def)
next
  case False
  note hx = alnum_plain [OF hex_digits_of_char(1) [of c]] alnum_plain [OF hex_digits_of_char(2) [of c]]
  have p: "\<not> sub_delim CHR ''%''" by (simp add: sub_delim_def)
  show ?thesis
  proof (cases "uri_mark c")
    case True
    then show ?thesis using False hx p
      by (auto simp: uri_safe_def unreserved_def uri_mark_def sub_delim_def pct_def hex_digit_def char_of_numerals)
  next
    case nm: False
    then have "\<not> unreserved c" using False by (auto simp: unreserved_def uri_mark_def)
    then show ?thesis using False nm hx p by (simp add: uri_safe_def pct_def)
  qed
qed

text \<open>The three passes of \<open>encodeComponent\<close> leave exactly the unreserved characters alone.\<close>

lemma encode_component_eq: "encode_component s = percent_encode unreserved s"
  unfolding encode_component_def encodeURIComponent_def percent_encode_def
  by (induction s) (simp_all only: list.map concat.simps map_append concat_append two_passes)

lemma pct_chars: "d \<in> set (pct c) \<Longrightarrow> d = CHR ''%'' \<or> is_alnum d"
  by (auto simp: pct_def)

lemma percent_encode_safe: "d \<in> set (percent_encode safe s) \<Longrightarrow> safe d \<or> d = CHR ''%'' \<or> is_alnum d"
  by (auto simp: percent_encode_def dest: pct_chars split: if_splits)

lemma encode_component_safe: "d \<in> set (encode_component s) \<Longrightarrow> unreserved d \<or> d = CHR ''%''"
  by (auto simp: encode_component_eq unreserved_def dest!: percent_encode_safe)

lemma unreserved_plain: "unreserved d \<Longrightarrow> d \<notin> set ''&=+%*!(),;:/?#[]@'' \<and> d \<noteq> CHR 0x22 \<and> d \<noteq> CHR 0x27 \<and> d \<noteq> CHR '' ''"
  by (auto simp: unreserved_def is_alnum_def is_digit_def is_upper_def is_lower_def)

lemma uri_safe_plain: "uri_safe d \<Longrightarrow> d \<notin> set ''&=+%,;:/?#[]@'' \<and> d \<noteq> CHR 0x22 \<and> d \<noteq> CHR '' ''"
  by (auto simp: uri_safe_def uri_mark_def is_alnum_def is_digit_def is_upper_def is_lower_def)

lemma encode_component_no_sep [simp]:
  "CHR ''&'' \<notin> set (encode_component s)" "CHR ''='' \<notin> set (encode_component s)"
  "CHR ''+'' \<notin> set (encode_component s)" "CHR 0x22 \<notin> set (encode_component s)"
  "CHR '','' \<notin> set (encode_component s)"
  using encode_component_safe [of _ s] unreserved_plain by fastforce+

lemma encodeURIComponent_no_sep [simp]:
  "CHR ''&'' \<notin> set (encodeURIComponent s)" "CHR ''='' \<notin> set (encodeURIComponent s)"
  "CHR ''+'' \<notin> set (encodeURIComponent s)" "CHR '' '' \<notin> set (encodeURIComponent s)"
  unfolding encodeURIComponent_def
  using percent_encode_safe [of _ uri_safe s] uri_safe_plain alnum_plain
  by (fastforce simp: is_alnum_def is_digit_def is_upper_def is_lower_def)+

declare decodeURIComponent.simps(2) [simp del]

section \<open>Decoding what was encoded\<close>

text \<open>
  Any percent encoder whose literal characters are ASCII and exclude the percent sign is
  inverted by \<open>decodeURIComponent\<close>. The two encoders of the console are instances.
\<close>

lemma pct_byte_pct [simp]: "pct_byte (pct c @ r) = Some (of_char c, r)"
  by (simp add: pct_def)

lemma utf8_need_bounds: "utf8_need b = Some n \<Longrightarrow> n \<noteq> 0 \<Longrightarrow> 128 \<le> b"
  by (auto simp: utf8_need_def split: if_splits)

locale pct_codec =
  fixes safe :: "char \<Rightarrow> bool"
  assumes safe_ascii: "safe c \<Longrightarrow> (of_char c :: nat) < 128"
    and safe_not_percent: "safe c \<Longrightarrow> c \<noteq> CHR ''%''"
begin

lemma pct_bytes_encoded:
  "list_all (\<lambda>c. 128 \<le> (of_char c :: nat)) cs \<Longrightarrow>
   pct_bytes (length cs) (percent_encode safe cs @ r) = Some (map of_char cs, r)"
proof (induction cs)
  case (Cons c cs)
  then have "\<not> safe c" using safe_ascii [of c] by auto
  then show ?case using Cons by (simp add: percent_encode_Cons)
qed simp

lemma decode_literal:
  "safe c \<Longrightarrow> decodeURIComponent (c # s) = rbind (decodeURIComponent s) (\<lambda>t. Inr (c # t))"
  using safe_not_percent [of c] by (simp add: decodeURIComponent.simps(2))

lemma decode_escaped:
  assumes "utf8_need (of_char c) = Some n" and "length cs = n" and "utf8_seq (of_char c) (map of_char cs)"
  shows "decodeURIComponent (pct c @ percent_encode safe cs @ r)
    = rbind (decodeURIComponent r) (\<lambda>t. Inr (c # cs @ t))"
proof -
  have "list_all (\<lambda>c. 128 \<le> (of_char c :: nat)) cs"
    using assms(3) by (auto simp: utf8_seq_def list_all_iff)
  then have "pct_bytes n (percent_encode safe cs @ r) = Some (map of_char cs, r)"
    using assms(2) pct_bytes_encoded by blast
  moreover have "pct_byte (pct c @ percent_encode safe cs @ r) = Some (of_char c, percent_encode safe cs @ r)"
    by simp
  moreover have "map char_of (map of_char cs :: nat list) = cs"
    by (simp add: map_idI)
  ultimately show ?thesis
    using assms by (simp add: pct_def decodeURIComponent.simps(2))
qed

lemma decode_append:
  "valid_utf8 s \<Longrightarrow>
   decodeURIComponent (percent_encode safe s @ r) = rbind (decodeURIComponent r) (\<lambda>t. Inr (s @ t))"
proof (induction s arbitrary: r rule: valid_utf8.induct)
  case 1
  then show ?case by (cases "decodeURIComponent r") simp_all
next
  case (2 c s)
  from "2.prems" obtain n where n: "utf8_need (of_char c) = Some n" "n \<le> length s"
    and seq: "utf8_seq (of_char c) (map of_char (take n s))" and rest: "valid_utf8 (drop n s)"
    by (auto split: option.splits)
  have IH: "decodeURIComponent (percent_encode safe (drop n s) @ r)
      = rbind (decodeURIComponent r) (\<lambda>t. Inr (drop n s @ t))"
    using "2.IH" n rest by blast
  have split: "percent_encode safe s = percent_encode safe (take n s) @ percent_encode safe (drop n s)"
    by (metis append_take_drop_id percent_encode_append)
  show ?case
  proof (cases "safe c")
    case True
    then have "n = 0" using n utf8_need_bounds safe_ascii by (meson not_le)
    then show ?thesis
      using True IH by (cases "decodeURIComponent r") (auto simp: percent_encode_Cons decode_literal)
  next
    case False
    have "decodeURIComponent (percent_encode safe (c # s) @ r)
        = rbind (decodeURIComponent (percent_encode safe (drop n s) @ r)) (\<lambda>t. Inr (c # take n s @ t))"
      using decode_escaped [OF n(1) _ seq] n(2) False by (simp add: percent_encode_Cons split)
    then show ?thesis using IH
      by (cases "decodeURIComponent r") (auto simp: append_assoc [symmetric] simp del: append_assoc)
  qed
qed

lemma decode_encoded: "valid_utf8 s \<Longrightarrow> decodeURIComponent (percent_encode safe s) = Inr s"
  using decode_append [of s "[]"] by simp

end

lemma ascii_classes:
  "is_alnum c \<Longrightarrow> (of_char c :: nat) < 128" "uri_mark c \<Longrightarrow> (of_char c :: nat) < 128"
  by (auto simp: is_alnum_def is_digit_def is_upper_def is_lower_def uri_mark_def)

interpretation strict: pct_codec unreserved
proof
  show "(of_char c :: nat) < 128" if "unreserved c" for c
    using that ascii_classes by (auto simp: unreserved_def)
  show "c \<noteq> CHR ''%''" if "unreserved c" for c
    using unreserved_plain [OF that] by simp
qed

interpretation component: pct_codec uri_safe
proof
  show "(of_char c :: nat) < 128" if "uri_safe c" for c
    using that ascii_classes by (auto simp: uri_safe_def)
  show "c \<noteq> CHR ''%''" if "uri_safe c" for c
    using uri_safe_plain [OF that] by simp
qed

lemma decode_encode [simp]: "valid_utf8 s \<Longrightarrow> decode_component (encode_component s) = Inr s"
  by (simp add: decode_component_def encode_component_eq strict.decode_encoded)

lemma decode_encodeURIComponent [simp]: "valid_utf8 s \<Longrightarrow> decode_component (encodeURIComponent s) = Inr s"
  by (simp add: decode_component_def encodeURIComponent_def component.decode_encoded)

section \<open>Query strings: the decoder inverts the encoder\<close>

lemma oset_absent: "k \<notin> fst ` set o' \<Longrightarrow> oset k v o' = o' @ [(k, v)]"
  unfolding oset_def by (induction o') auto

lemma oset_last: "k \<notin> fst ` set o' \<Longrightarrow> oset k w (o' @ [(k, v)]) = o' @ [(k, w)]"
  unfolding oset_def by (induction o') auto

lemma oget_last: "k \<notin> fst ` set o' \<Longrightarrow> oget (o' @ [(k, v)]) k = Some v"
  by (simp add: oget_def map_add_def map_of_eq_None_iff [THEN iffD2] split: option.splits)

lemma plus_absent_id:
  "CHR ''+'' \<notin> set s \<Longrightarrow> concat (map (\<lambda>c. if c = CHR ''+'' then ''%20'' else [c]) s) = s"
  by (induction s) auto

lemma split_part_pair:
  assumes "CHR ''='' \<notin> set k" and "CHR ''+'' \<notin> set k" and "CHR ''+'' \<notin> set v"
  shows "split_part CHR ''='' (k @ CHR ''='' # v) = (k, v)"
  using assms by (simp add: split_part_def plus_absent_id index_of_append_single)

text \<open>The parameter values a query string can carry: a string, or an array of two or more.\<close>

definition utf8_str :: "jsval \<Rightarrow> bool" where
  "utf8_str v = (case v of JStr s \<Rightarrow> valid_utf8 s | _ \<Rightarrow> False)"

definition codec_value :: "jsval \<Rightarrow> bool" where
  "codec_value v = (case v of
       JArr vs \<Rightarrow> 2 \<le> length vs \<and> list_all utf8_str vs
     | _ \<Rightarrow> utf8_str v)"

lemma utf8_strE: "utf8_str v \<Longrightarrow> (\<And>s. v = JStr s \<Longrightarrow> valid_utf8 s \<Longrightarrow> P) \<Longrightarrow> P"
  by (auto simp: utf8_str_def split: jsval.splits)

text \<open>
  An encoder of keys and values whose parts the decoder reads back, and that never emits the
  separator. A query string assembled from such parts decodes to the object it was built from.
\<close>

definition value_parts :: "(string \<Rightarrow> string) \<Rightarrow> string \<times> jsval \<Rightarrow> string list" where
  "value_parts enc kv =
     (case snd kv of
        JArr vs \<Rightarrow> map (\<lambda>v. enc (fst kv) @ CHR ''='' # enc (to_string v)) vs
      | v \<Rightarrow> if nullish v then [] else [enc (fst kv) @ CHR ''='' # enc (to_string v)])"

locale param_codec =
  fixes enc :: "string \<Rightarrow> string"
  assumes decode_pair: "valid_utf8 k \<Longrightarrow> valid_utf8 v \<Longrightarrow>
      decode_part CHR ''='' (enc k @ CHR ''='' # enc v) obj = Inr (add_param obj k v)"
    and no_separator: "CHR ''&'' \<notin> set (enc s)"
begin

lemma decode_array_tail:
  assumes "valid_utf8 k" and "k \<notin> fst ` set obj"
  shows "list_all utf8_str ws \<Longrightarrow>
    foldR (decode_part CHR ''='') (map (\<lambda>v. enc k @ CHR ''='' # enc (to_string v)) ws)
      (obj @ [(k, JArr vs)]) = Inr (obj @ [(k, JArr (vs @ ws))])"
proof (induction ws arbitrary: vs)
  case Nil
  then show ?case by simp
next
  case (Cons w ws)
  from Cons.prems obtain s where w: "w = JStr s" and v: "valid_utf8 s"
    by (auto elim: utf8_strE)
  have "add_param (obj @ [(k, JArr vs)]) k s = obj @ [(k, JArr (vs @ [w]))]"
    using assms(2) w by (simp add: add_param_def oget_last oset_last)
  then show ?case
    using Cons.IH [of "vs @ [w]"] Cons.prems w v assms(1) by (simp add: decode_pair)
qed

lemma decode_value_parts:
  assumes "valid_utf8 k" and "k \<notin> fst ` set obj" and "codec_value v"
  shows "foldR (decode_part CHR ''='') (value_parts enc (k, v)) obj = Inr (obj @ [(k, v)])"
proof (cases v)
  case (JArr vs)
  with assms(3) obtain a b ws where vs: "vs = a # b # ws" and ok: "list_all utf8_str (a # b # ws)"
    by (cases vs; cases "tl vs") (auto simp: codec_value_def)
  then obtain s t where s: "a = JStr s" "valid_utf8 s" and t: "b = JStr t" "valid_utf8 t"
    by (auto elim!: utf8_strE)
  have 1: "add_param obj k s = obj @ [(k, JStr s)]"
    using assms(2) by (simp add: add_param_def oget_None_iff [THEN iffD2] oset_absent)
  have 2: "add_param (obj @ [(k, JStr s)]) k t = obj @ [(k, JArr [JStr s, JStr t])]"
    using assms(2) by (simp add: add_param_def oget_last oset_last)
  show ?thesis
    using JArr vs ok s t 1 2 assms(1,2) decode_array_tail [OF assms(1,2), of ws "[JStr s, JStr t]"]
    by (simp add: value_parts_def decode_pair)
next
  case (JStr s)
  then show ?thesis using assms
    by (simp add: value_parts_def decode_pair codec_value_def utf8_str_def add_param_def
        oget_None_iff [THEN iffD2] oset_absent)
qed (use assms(3) in \<open>simp_all add: codec_value_def utf8_str_def\<close>)

lemma decode_all_parts:
  "\<lbrakk> distinct (map fst es); \<forall>(k, v) \<in> set es. valid_utf8 k \<and> codec_value v;
     fst ` set es \<inter> fst ` set obj = {} \<rbrakk> \<Longrightarrow>
   foldR (decode_part CHR ''='') (concat (map (value_parts enc) es)) obj = Inr (obj @ es)"
proof (induction es arbitrary: obj)
  case Nil
  then show ?case by simp
next
  case (Cons e es)
  obtain k v where e: "e = (k, v)" by (cases e)
  have "foldR (decode_part CHR ''='') (value_parts enc (k, v)) obj = Inr (obj @ [(k, v)])"
    using Cons.prems e by (intro decode_value_parts) auto
  then show ?case
    using Cons.IH [of "obj @ [(k, v)]"] Cons.prems e by (auto simp: foldR_append)
qed

lemma value_parts_no_amp: "p \<in> set (value_parts enc e) \<Longrightarrow> CHR ''&'' \<notin> set p"
  using no_separator by (auto simp: value_parts_def split: jsval.splits if_splits)

lemma value_parts_not_Nil: "codec_value (snd e) \<Longrightarrow> value_parts enc e \<noteq> []"
  by (cases "snd e") (auto simp: value_parts_def codec_value_def utf8_str_def)

lemma length_parts: "length (concat (map (value_parts enc) es)) = length (concat (map (value_parts id) es))"
  by (induction es) (auto simp: value_parts_def split: jsval.splits)

lemma decode_joined:
  assumes "es \<noteq> []" and "distinct (map fst es)" and "\<forall>(k, v) \<in> set es. valid_utf8 k \<and> codec_value v"
    and "length (concat (map (value_parts id) es)) \<le> max_keys"
  shows "uri_decode (join ''&'' (concat (map (value_parts enc) es))) = Inr es"
proof -
  let ?parts = "concat (map (value_parts enc) es)"
  obtain e where "e \<in> set es" using assms(1) by (cases es) auto
  with assms(3) have "?parts \<noteq> []" using value_parts_not_Nil [of e] by force
  moreover have "\<forall>p \<in> set ?parts. CHR ''&'' \<notin> set p"
    by (auto dest: value_parts_no_amp)
  ultimately have "split_on CHR ''&'' (join ''&'' ?parts) = ?parts"
    by (rule split_on_join)
  moreover have "foldR (decode_part CHR ''='') ?parts [] = Inr es"
    using decode_all_parts [of es "[]"] assms(2,3) by simp
  ultimately show ?thesis
    using assms(4) by (simp add: uri_decode_def uri_decode_with_def length_parts)
qed

end

interpretation oauth: param_codec encode_component
  by unfold_locales (simp_all add: decode_part_def split_part_pair)

lemma encode_entry_eq: "encode_entry CHR ''='' = value_parts encode_component"
  by (rule ext) (auto simp: encode_entry_def value_parts_def Let_def split: jsval.splits)

text \<open>The objects a query string can carry: at most \<open>maxKeys\<close> parameters in all.\<close>

definition codec_obj :: "jsval jsobj \<Rightarrow> bool" where
  "codec_obj ob = (wf_obj ob \<and> ob \<noteq> [] \<and> list_all (\<lambda>(k, v). valid_utf8 k \<and> codec_value v) ob
     \<and> length (concat (map (value_parts id) (entries ob))) \<le> max_keys)"

lemma codec_objD:
  assumes "codec_obj ob"
  shows "entries ob \<noteq> []" "distinct (map fst (entries ob))"
    "\<forall>(k, v) \<in> set (entries ob). valid_utf8 k \<and> codec_value v"
    "length (concat (map (value_parts id) (entries ob))) \<le> max_keys"
  using assms distinct_own_keys [of ob]
  by (auto simp: codec_obj_def set_entries list_all_iff)



section \<open>What the decoder returns\<close>

lemma wf_add_param: "wf_obj o' \<Longrightarrow> wf_obj (add_param o' k v)"
  by (auto simp: add_param_def split: option.splits jsval.splits)

lemma length_oset: "length (oset k v o') \<le> Suc (length o')"
  unfolding oset_def by (induction o') auto

lemma length_add_param: "length (add_param o' k v) \<le> Suc (length o')"
  by (auto simp: add_param_def length_oset split: option.splits jsval.splits)

lemma decode_partD: "decode_part eqc p obj = Inr r \<Longrightarrow> \<exists>k v. r = add_param obj k v"
  by (auto simp: decode_part_def rbind_eq_Inr split: prod.splits)

lemma decode_parts_bound:
  "foldR (decode_part eqc) ps obj = Inr r \<Longrightarrow> wf_obj obj \<Longrightarrow> wf_obj r \<and> length r \<le> length obj + length ps"
proof (induction ps arbitrary: obj)
  case Nil
  then show ?case by simp
next
  case (Cons p ps)
  then obtain k v where step: "foldR (decode_part eqc) ps (add_param obj k v) = Inr r"
    by (auto dest: decode_partD split: sum.splits)
  then show ?case
    using Cons.IH [OF step] Cons.prems wf_add_param length_add_param [of obj k v] by fastforce
qed

text \<open>
  Whatever query string it is given, the decoder either throws or returns an object
  with distinct keys, and with at most 1000 of them.
\<close>

theorem uri_decode_bound:
  assumes "uri_decode qs = Inr r"
  shows "wf_obj r \<and> length r \<le> 1000"
proof -
  obtain ps where "foldR (decode_part CHR ''='') ps [] = Inr r" and "length ps \<le> 1000"
  proof
    let ?all = "split_on CHR ''&'' qs"
    let ?ps = "take (if length ?all > max_keys then max_keys else length ?all) ?all"
    show "foldR (decode_part CHR ''='') ?ps [] = Inr r"
      using assms by (simp add: uri_decode_def uri_decode_with_def Let_def)
    show "length ?ps \<le> 1000" by (simp add: max_keys_def)
  qed
  then show ?thesis using decode_parts_bound [of "CHR ''=''" ps "[]" r] by simp
qed

theorem uri_decode_bound_witness:
  "wf_obj [(''a'', JStr ''1''), (''b'', JStr '''')] \<and> length [(''a'', JStr ''1''), (''b'', JStr '''')] \<le> (1000 :: nat)"
proof -
  have "uri_decode ''a=1&b'' = Inr [(''a'', JStr ''1''), (''b'', JStr '''')]" by code_simp
  then show ?thesis by (rule uri_decode_bound)
qed

end
