(* ===== verification/UriTemplate.thy ===== *)
theory UriTemplate
  imports Properties UriCodec
begin

text \<open>
  URI templates of the RAML client (\<open>RAML.Client.ParameterizedString\<close>, \<open>RAML.Client.PathBuilder\<close>,
  \<open>RAML.Client.create\<close> and its helpers in \<open>api-console.js\<close>). A template is cut into literal pieces
  and variables by the matcher \<open>\{([^}]*)\}\<close>; tokenising, substituting parameter values and
  rendering are all maps over these pieces.
\<close>

section \<open>The matcher\<close>

datatype piece = Lit string | Var string

lemma pieces_decreases:
  assumes "c \<in> set s"
  shows "length (dropWhile q (dropWhile p s)) - Suc 0 < length s"
proof -
  have "length (dropWhile q (dropWhile p s)) \<le> length s"
    by (meson le_trans length_dropWhile_le)
  moreover have "0 < length s" using assms by (cases s) auto
  ultimately show ?thesis by linarith
qed

text \<open>
  \<open>template.split(templateMatcher)\<close>: the leftmost match starts at the first opening brace that
  has a closing brace after it, and ends at the first closing brace after that.
\<close>

function pieces :: "string \<Rightarrow> piece list" where
  "pieces s =
     (let pre = takeWhile (\<lambda>c. c \<noteq> CHR ''{'') s; rest = dropWhile (\<lambda>c. c \<noteq> CHR ''{'') s
      in if rest = [] \<or> CHR ''}'' \<notin> set rest then [Lit s]
         else Lit pre # Var (takeWhile (\<lambda>c. c \<noteq> CHR ''}'') (tl rest))
                # pieces (tl (dropWhile (\<lambda>c. c \<noteq> CHR ''}'') rest)))"
  by pat_completeness auto

termination
  by (relation "measure length") (auto simp: pieces_decreases)

declare pieces.simps [simp del]

fun piece_text :: "piece \<Rightarrow> string" where
  "piece_text (Lit t) = t"
| "piece_text (Var v) = v"

fun piece_source :: "piece \<Rightarrow> string" where
  "piece_source (Lit t) = t"
| "piece_source (Var v) = CHR ''{'' # v @ ''}''"

definition tokenize :: "string \<Rightarrow> string list" where
  "tokenize template = filter (\<lambda>token. token \<noteq> []) (map piece_text (pieces template))"

text \<open>\<open>template.replace(templateMatcher, f)\<close>, where \<open>f\<close> may throw.\<close>

definition replace_vars :: "(string \<Rightarrow> string res) \<Rightarrow> string \<Rightarrow> string res" where
  "replace_vars f template =
     rbind (mapR (\<lambda>p. case p of Lit t \<Rightarrow> Inr t | Var v \<Rightarrow> f v) (pieces template)) (\<lambda>ss. Inr (concat ss))"

section \<open>ParameterizedString\<close>

record template_options =
  parameterValues :: "jsval jsobj"
  encodeURI :: bool

record parameterized_string =
  parameters :: jsval
  templated :: bool
  tokens :: "string list"
  template :: string
  options :: template_options

text \<open>\<open>Object.keys(v || {})\<close>.\<close>

fun keys_or_empty :: "jsval \<Rightarrow> string list" where
  "keys_or_empty (JObj ob) = own_keys ob"
| "keys_or_empty (JArr vs) = map show_nat [0..<length vs]"
| "keys_or_empty (JStr s) = map show_nat [0..<js_length s]"
| "keys_or_empty v = []"

definition fill_defaults :: "jsval jsobj \<Rightarrow> string \<Rightarrow> string" where
  "fill_defaults vals name =
     (let v = pget vals name in if truthy v then to_string v else CHR ''{'' # name @ ''}'')"

definition parameterizedString :: "string \<Rightarrow> jsval \<Rightarrow> template_options \<Rightarrow> parameterized_string" where
  "parameterizedString template0 uriParameters opts =
     (let t = concat (map (\<lambda>p. case p of Lit l \<Rightarrow> l | Var v \<Rightarrow> fill_defaults (parameterValues opts) v) (pieces template0))
      in \<lparr>parameters = uriParameters,
          templated = keys_or_empty uriParameters \<noteq> [],
          tokens = tokenize t,
          template = t,
          options = opts\<rparr>)"

text \<open>
  The value of one variable in a rendering context. A string, or an array whose first element
  is not an object, is inserted as the language converts it to a string, without any encoding.
\<close>

definition render_var :: "bool \<Rightarrow> jsval jsobj \<Rightarrow> string \<Rightarrow> string res" where
  "render_var enc context name =
     (let v = pget context name in
      if truthy v then
        rbind (jidx v 0) (\<lambda>first.
          if \<not> typeof_object first then Inr (to_string v)
          else rbind (cleanupPropertyValue first) (\<lambda>cleaned.
            let tempValue = to_string (json_stringify cleaned)
            in Inr (if enc then encodeURIComponent tempValue else tempValue)))
      else Inr [])"

definition render :: "parameterized_string \<Rightarrow> jsval jsobj \<Rightarrow> string res" where
  "render ps context = replace_vars (render_var (encodeURI (options ps)) context) (template ps)"

text \<open>\<open>PathBuilder.create(segments)(contexts)\<close>: a missing context is the empty one.\<close>

fun render_segments :: "parameterized_string list \<Rightarrow> jsval jsobj list \<Rightarrow> string list res" where
  "render_segments [] contexts = Inr []"
| "render_segments (seg # segs) contexts =
     rbind (render seg (case contexts of [] \<Rightarrow> [] | c # _ \<Rightarrow> c)) (\<lambda>a.
     rbind (render_segments segs (tl contexts)) (\<lambda>as. Inr (a # as)))"

definition path_builder :: "parameterized_string list \<Rightarrow> jsval jsobj list \<Rightarrow> string res" where
  "path_builder segs contexts = rbind (render_segments segs contexts) (\<lambda>ss. Inr (concat ss))"

section \<open>The client\<close>

definition strip_slashes :: "string \<Rightarrow> string" where
  "strip_slashes s = rev (dropWhile (\<lambda>c. c = CHR ''/'') (rev s))"

record root_raml =
  baseUri :: string
  baseUriParameters :: jsval
  version :: jsval

definition createBaseUri :: "root_raml \<Rightarrow> parameterized_string" where
  "createBaseUri raml =
     parameterizedString (strip_slashes (baseUri raml)) (baseUriParameters raml)
       \<lparr>parameterValues = [(''version'', version raml)], encodeURI = True\<rparr>"

definition createPathSegment :: "string \<Rightarrow> jsval \<Rightarrow> parameterized_string" where
  "createPathSegment relativeUri uriParameters =
     parameterizedString relativeUri uriParameters \<lparr>parameterValues = [], encodeURI = True\<rparr>"

text \<open>
  \<open>RAML.Client.create(parsed, configure)\<close>: \<open>configure\<close> may install base URI parameters, the
  version is then written into them, and the client keeps the rendered base URI.
\<close>

definition client_create :: "root_raml \<Rightarrow> jsval jsobj option \<Rightarrow> string res" where
  "client_create parsed configured =
     (let params = (case configured of None \<Rightarrow> [] | Some ps \<Rightarrow> ps)
      in render (createBaseUri parsed) (oset ''version'' (version parsed) params))"

section \<open>Lemmas on the matcher\<close>

lemma pieces_no_open: "CHR ''{'' \<notin> set s \<Longrightarrow> pieces s = [Lit s]"
proof -
  assume "CHR ''{'' \<notin> set s"
  then have "dropWhile (\<lambda>c. c \<noteq> CHR ''{'') s = []" by (auto simp: dropWhile_eq_Nil_conv)
  then show ?thesis by (simp add: pieces.simps [of s])
qed

lemma pieces_step:
  assumes "CHR ''{'' \<notin> set l" and "CHR ''}'' \<notin> set v"
  shows "pieces (l @ CHR ''{'' # v @ CHR ''}'' # r) = Lit l # Var v # pieces r"
proof -
  have t: "takeWhile (\<lambda>c. c \<noteq> CHR ''{'') (l @ CHR ''{'' # v @ CHR ''}'' # r) = l"
    using assms by (auto simp: takeWhile_append takeWhile_eq_all_conv [THEN iffD2])
  have d: "dropWhile (\<lambda>c. c \<noteq> CHR ''{'') (l @ CHR ''{'' # v @ CHR ''}'' # r) = CHR ''{'' # v @ CHR ''}'' # r"
    using assms by (auto simp: dropWhile_append)
  have tv: "takeWhile (\<lambda>c. c \<noteq> CHR ''}'') (v @ CHR ''}'' # r) = v"
    using assms by (auto simp: takeWhile_append takeWhile_eq_all_conv [THEN iffD2])
  have dv: "dropWhile (\<lambda>c. c \<noteq> CHR ''}'') (v @ CHR ''}'' # r) = CHR ''}'' # r"
    using assms by (auto simp: dropWhile_append)
  show ?thesis
    by (subst pieces.simps) (simp add: t d tv dv)
qed

text \<open>Every string either has no match, or splits at its leftmost one.\<close>

lemma pieces_cases:
  obtains (none) "pieces s = [Lit s]"
    | (match) l v r where "s = l @ CHR ''{'' # v @ CHR ''}'' # r"
        "CHR ''{'' \<notin> set l" "CHR ''}'' \<notin> set v" "pieces s = Lit l # Var v # pieces r"
        "length r < length s"
proof (cases "\<exists>l u. s = l @ CHR ''{'' # u \<and> CHR ''{'' \<notin> set l \<and> CHR ''}'' \<in> set u")
  case True
  then obtain l u where s: "s = l @ CHR ''{'' # u" and l: "CHR ''{'' \<notin> set l" and "CHR ''}'' \<in> set u"
    by blast
  then obtain v r where "u = v @ CHR ''}'' # r" and "CHR ''}'' \<notin> set v"
    by (meson split_list_first)
  then show ?thesis
    using match [of l v r] pieces_step [OF l, of v r] s l by simp
next
  case False
  have "pieces s = [Lit s]"
  proof (cases "CHR ''{'' \<in> set s")
    case True
    then obtain l u where s: "s = l @ CHR ''{'' # u" and l: "CHR ''{'' \<notin> set l"
      by (meson split_list_first)
    with False have "CHR ''}'' \<notin> set u" by blast
    moreover have "dropWhile (\<lambda>c. c \<noteq> CHR ''{'') s = CHR ''{'' # u"
      using s l by (auto simp: dropWhile_append)
    ultimately show ?thesis by (subst pieces.simps) simp
  qed (rule pieces_no_open)
  then show ?thesis by (rule none)
qed

lemma pieces_induct [case_names none match]:
  assumes "\<And>s. pieces s = [Lit s] \<Longrightarrow> P s"
    and "\<And>l v r. CHR ''{'' \<notin> set l \<Longrightarrow> CHR ''}'' \<notin> set v \<Longrightarrow> P r \<Longrightarrow> P (l @ CHR ''{'' # v @ CHR ''}'' # r)"
  shows "P s"
proof (induction s rule: length_induct)
  case (1 s)
  show ?case
  proof (cases s rule: pieces_cases)
    case none
    then show ?thesis by (rule assms(1))
  next
    case (match l v r)
    then show ?thesis using 1 assms(2) by blast
  qed
qed

section \<open>Splitting and putting together\<close>

lemma replace_vars_Inr:
  assumes "\<And>v. Var v \<in> set (pieces s) \<Longrightarrow> f v = Inr (g v)"
  shows "replace_vars f s = Inr (concat (map (\<lambda>p. case p of Lit t \<Rightarrow> t | Var v \<Rightarrow> g v) (pieces s)))"
proof -
  have "mapR (\<lambda>p. case p of Lit t \<Rightarrow> Inr t | Var v \<Rightarrow> f v) (pieces s)
      = Inr (map (\<lambda>p. case p of Lit t \<Rightarrow> t | Var v \<Rightarrow> g v) (pieces s))"
    by (rule mapR_Inr_map) (auto simp: assms split: piece.splits)
  then show ?thesis by (simp add: replace_vars_def)
qed

lemma render_var_cong:
  "pget c1 v = pget c2 v \<Longrightarrow> render_var enc c1 v = render_var enc c2 v"
  by (simp add: render_var_def)

lemma replace_vars_cong:
  assumes "\<And>v. Var v \<in> set (pieces s) \<Longrightarrow> f v = g v"
  shows "replace_vars f s = replace_vars g s"
proof -
  have "mapR (\<lambda>p. case p of Lit t \<Rightarrow> Inr t | Var v \<Rightarrow> f v) (pieces s)
      = mapR (\<lambda>p. case p of Lit t \<Rightarrow> Inr t | Var v \<Rightarrow> g v) (pieces s)"
    by (rule mapR_cong) (auto simp: assms split: piece.splits)
  then show ?thesis by (simp add: replace_vars_def)
qed

text \<open>A context that gives every variable a plain string.\<close>

definition plain_context :: "(string \<Rightarrow> string) \<Rightarrow> string \<Rightarrow> jsval jsobj \<Rightarrow> bool" where
  "plain_context g t context =
     list_all (\<lambda>p. case p of Lit _ \<Rightarrow> True | Var v \<Rightarrow> pget context v = JArr [JStr (g v)]) (pieces t)"

text \<open>
  Splitting a template and putting the pieces back together, with the braces of the
  variables restored, gives the template: no character of it is lost or duplicated, whatever
  unbalanced or nested braces it contains.
\<close>

theorem pieces_roundtrip: "concat (map piece_source (pieces t)) = t"
  by (induction t rule: pieces_induct) (simp_all add: pieces_step)

text \<open>
  Rendering with one plain string per variable replaces exactly the variables: the result
  is the template with each \<open>{name}\<close> replaced by its value and every other character kept.
\<close>

theorem render_substitutes:
  assumes "plain_context g (template ps) context"
  shows "render ps context
    = Inr (concat (map (\<lambda>p. case p of Lit t \<Rightarrow> t | Var v \<Rightarrow> g v) (pieces (template ps))))"
  unfolding render_def
proof (rule replace_vars_Inr)
  fix v assume "Var v \<in> set (pieces (template ps))"
  then have "pget context v = JArr [JStr (g v)]"
    using assms by (auto simp: plain_context_def list_all_iff)
  then show "render_var (encodeURI (options ps)) context v = Inr (g v)"
    by (simp add: render_var_def arr_at_def)
qed

definition sample_segment :: parameterized_string where
  "sample_segment = createPathSegment ''/apps/{id}/tasks'' (JObj [(''id'', JObj [])])"

theorem render_substitutes_witness:
  "plain_context (\<lambda>v. ''web/1'') (template sample_segment) [(''id'', JArr [JStr ''web/1''])]
   \<and> render sample_segment [(''id'', JArr [JStr ''web/1''])] = Inr ''/apps/web/1/tasks''"
proof -
  have p: "plain_context (\<lambda>v. ''web/1'') (template sample_segment) [(''id'', JArr [JStr ''web/1''])]"
    by code_simp
  have c: "concat (map (\<lambda>p. case p of Lit t \<Rightarrow> t | Var v \<Rightarrow> ''web/1'') (pieces (template sample_segment)))
      = ''/apps/web/1/tasks''"
    by code_simp
  show ?thesis using p render_substitutes [OF p] c by simp
qed

section \<open>Parameter values in the template\<close>

definition vars :: "string \<Rightarrow> string list" where
  "vars t = concat (map (\<lambda>p. case p of Lit _ \<Rightarrow> [] | Var v \<Rightarrow> [v]) (pieces t))"

definition filled_template :: "jsval jsobj \<Rightarrow> string \<Rightarrow> string" where
  "filled_template vals t =
     concat (map (\<lambda>p. case p of Lit l \<Rightarrow> l | Var v \<Rightarrow> fill_defaults vals v) (pieces t))"

lemma template_parameterizedString:
  "template (parameterizedString t ps opts) = filled_template (parameterValues opts) t"
  by (simp add: parameterizedString_def filled_template_def Let_def)

lemma vars_step:
  "CHR ''{'' \<notin> set l \<Longrightarrow> CHR ''}'' \<notin> set v \<Longrightarrow> vars (l @ CHR ''{'' # v @ CHR ''}'' # r) = v # vars r"
  by (simp add: vars_def pieces_step)

lemma filled_template_step:
  "CHR ''{'' \<notin> set l \<Longrightarrow> CHR ''}'' \<notin> set v \<Longrightarrow>
   filled_template vals (l @ CHR ''{'' # v @ CHR ''}'' # r) = l @ fill_defaults vals v @ filled_template vals r"
  by (simp add: filled_template_def pieces_step)

lemma pieces_extend:
  assumes "pieces t = [Lit t]" and "CHR ''{'' \<notin> set acc"
  shows "pieces (acc @ t) = [Lit (acc @ t)]"
proof (cases "acc @ t" rule: pieces_cases)
  case (match l v r)
  from match(1) assms(2) have "length acc \<le> length l"
    by (auto simp: append_eq_append_conv2 append_eq_Cons_conv)
  then obtain l' where "t = l' @ CHR ''{'' # v @ CHR ''}'' # r" and "CHR ''{'' \<notin> set l'"
    using match(1,2) by (auto simp: append_eq_append_conv2)
  then have "pieces t = Lit l' # Var v # pieces r" using match(3) by (simp add: pieces_step)
  then show ?thesis using assms(1) by simp
qed

lemma vars_filled:
  assumes "\<And>v. v \<in> set (vars t) \<Longrightarrow> truthy (pget vals v) \<Longrightarrow> CHR ''{'' \<notin> set (to_string (pget vals v))"
    and "CHR ''{'' \<notin> set acc"
  shows "vars (acc @ filled_template vals t) = filter (\<lambda>v. \<not> truthy (pget vals v)) (vars t)"
  using assms
proof (induction t arbitrary: acc rule: pieces_induct)
  case (none s)
  then show ?case by (simp add: vars_def filled_template_def pieces_extend)
next
  case (match l v r)
  have r: "truthy (pget vals w) \<Longrightarrow> CHR ''{'' \<notin> set (to_string (pget vals w))" if "w \<in> set (vars r)" for w
    using match.prems(1) [of w] match.hyps that by (simp add: vars_step)
  show ?case
  proof (cases "truthy (pget vals v)")
    case True
    then have "CHR ''{'' \<notin> set (acc @ l @ fill_defaults vals v)"
      using match.prems match.hyps by (simp add: vars_step fill_defaults_def)
    from match.IH [OF r this] True match.hyps show ?thesis
      by (simp add: filled_template_step vars_step)
  next
    case False
    have "vars ((acc @ l) @ CHR ''{'' # v @ CHR ''}'' # filled_template vals r) = v # vars (filled_template vals r)"
      using match.prems match.hyps by (intro vars_step) auto
    moreover have "vars (filled_template vals r) = filter (\<lambda>v. \<not> truthy (pget vals v)) (vars r)"
      using match.IH [OF r, of "[]"] by simp
    ultimately show ?thesis using False match.hyps
      by (simp add: filled_template_step vars_step fill_defaults_def)
  qed
qed

text \<open>
  The base URI template of a client has its version filled in once and for all: the
  placeholders left are those of the source template in their order, without \<open>{version}\<close>.
\<close>

theorem createBaseUri_vars:
  assumes "version raml = JStr ver" and "ver \<noteq> []" and "CHR ''{'' \<notin> set ver"
  shows "vars (template (createBaseUri raml)) = filter (\<lambda>v. v \<noteq> ''version'') (vars (strip_slashes (baseUri raml)))"
proof -
  have pg: "pget [(''version'', version raml)] v = (if v = ''version'' then JStr ver else JUndef)" for v
    using assms(1) by (simp add: pget_def oget_def)
  have "vars ([] @ filled_template [(''version'', version raml)] (strip_slashes (baseUri raml)))
      = filter (\<lambda>v. \<not> truthy (pget [(''version'', version raml)] v)) (vars (strip_slashes (baseUri raml)))"
    by (rule vars_filled) (use assms(3) in \<open>auto simp: pg split: if_splits\<close>)
  also have "\<dots> = filter (\<lambda>v. v \<noteq> ''version'') (vars (strip_slashes (baseUri raml)))"
    by (rule filter_cong) (simp_all add: pg assms(2))
  finally show ?thesis by (simp add: createBaseUri_def template_parameterizedString)
qed

definition sample_raml :: root_raml where
  "sample_raml = \<lparr>baseUri = ''http://{host}/{version}/api//'', baseUriParameters = JObj [], version = JStr ''v2''\<rparr>"

theorem createBaseUri_vars_witness:
  "vars (template (createBaseUri sample_raml)) = [''host'']
   \<and> template (createBaseUri sample_raml) = ''http://{host}/v2/api''"
proof -
  have "vars (template (createBaseUri sample_raml))
      = filter (\<lambda>v. v \<noteq> ''version'') (vars (strip_slashes (baseUri sample_raml)))"
    by (rule createBaseUri_vars [of _ "''v2''"]) (simp_all add: sample_raml_def)
  also have "\<dots> = [''host'']" by code_simp
  finally have "vars (template (createBaseUri sample_raml)) = [''host'']" .
  moreover have "template (createBaseUri sample_raml) = ''http://{host}/v2/api''" by code_simp
  ultimately show ?thesis ..
qed

section \<open>Paths\<close>

lemma path_builder_Cons:
  "path_builder (s # segs) (c # cs) = rbind (render s c) (\<lambda>a. rbind (path_builder segs cs) (\<lambda>b. Inr (a @ b)))"
  by (auto simp: path_builder_def rbind_def split: sum.splits)

text \<open>
  Paths compose: the path of a nested resource is the path of its parent followed by the
  path of its own segments, an error of either part being the error of the whole.
\<close>

theorem path_builder_append:
  assumes "length cs1 = length segs1"
  shows "path_builder (segs1 @ segs2) (cs1 @ cs2)
    = rbind (path_builder segs1 cs1) (\<lambda>a. rbind (path_builder segs2 cs2) (\<lambda>b. Inr (a @ b)))"
  using assms
proof (induction segs1 cs1 rule: list_induct2')
  case 1
  then show ?case by (cases "path_builder segs2 cs2") (simp_all add: path_builder_def)
next
  case (4 s segs c cs)
  then show ?case
    by (simp add: path_builder_Cons) (auto simp: rbind_def split: sum.splits)
qed simp_all

theorem path_builder_append_witness:
  "path_builder ([sample_segment] @ [sample_segment]) ([[(''id'', JArr [JStr ''a''])]] @ [[(''id'', JArr [JStr ''b''])]])
     = Inr ''/apps/a/tasks/apps/b/tasks''"
proof -
  have "path_builder [sample_segment] [[(''id'', JArr [JStr ''a''])]] = Inr ''/apps/a/tasks''"
    and "path_builder [sample_segment] [[(''id'', JArr [JStr ''b''])]] = Inr ''/apps/b/tasks''"
    by code_simp+
  then show ?thesis
    using path_builder_append [of "[[(''id'', JArr [JStr ''a''])]]" "[sample_segment]" "[sample_segment]" "[[(''id'', JArr [JStr ''b''])]]"]
    by simp
qed

end
