(* ===== verification/Request.thy ===== *)
theory Request
  imports UriTemplate
begin

text \<open>
  The request builder of the console: \<open>RAML.Client.Request\<close> (\<open>RequestDsl\<close> of
  \<open>api-console.js\<close>) with the query serialisation it calls, \<open>jQuery.param\<close> of
  \<open>api-console-vendor.js\<close>. The state is what the closure of \<open>RequestDsl\<close> captures; each method is
  a function on it.
\<close>

section \<open>jQuery.param\<close>

definition rbracket :: "string \<Rightarrow> bool" where
  "rbracket s = suffix ''[]'' s"

text \<open>The calls of \<open>add(key, value)\<close> that \<open>buildParams\<close> makes, in order.\<close>

fun buildParams :: "bool \<Rightarrow> string \<Rightarrow> jsval \<Rightarrow> (string \<times> jsval) list" where
  "buildParams traditional pre (JArr vs) =
     (if traditional \<or> rbracket pre then map (\<lambda>v. (pre, v)) vs
      else concat (map (\<lambda>(i, f). f i)
        (enumerate 0 (map (\<lambda>v i. buildParams traditional
           (pre @ ''['' @ (if typeof_object v then show_nat i else []) @ '']'') v) vs))))"
| "buildParams traditional pre (JObj ob) =
     (if traditional then [(pre, JObj ob)]
      else concat (map snd (entries (map (\<lambda>(name, v).
             (name, buildParams traditional (pre @ ''['' @ name @ '']'') v)) ob))))"
| "buildParams traditional pre v = [(pre, v)]"

text \<open>\<open>s.replace(/%20/g, '+')\<close>.\<close>

fun plus_space :: "string \<Rightarrow> string" where
  "plus_space [] = []"
| "plus_space (p # a # b # r) =
     (if p = CHR ''%'' \<and> a = CHR ''2'' \<and> b = CHR ''0'' then CHR ''+'' # plus_space r
      else p # plus_space (a # b # r))"
| "plus_space (c # r) = c # plus_space r"

definition param_pair :: "string \<times> jsval \<Rightarrow> string" where
  "param_pair kv = encodeURIComponent (fst kv) @ ''=''
     @ encodeURIComponent (if nullish (snd kv) then [] else to_string (snd kv))"

definition jquery_param :: "jsval jsobj \<Rightarrow> bool \<Rightarrow> string" where
  "jquery_param a traditional =
     plus_space (join ''&'' (map param_pair
       (concat (map (\<lambda>(pre, v). buildParams traditional pre v) (entries a)))))"

section \<open>RequestDsl\<close>

datatype content_type = CtUnset | CtFalse | Ct jsval

record request_options =
  req_url :: string
  req_method :: string
  req_headers :: "jsval jsobj option"
  req_contentType :: content_type

record request =
  opts :: request_options
  rawData :: jsval
  queryParams :: "jsval jsobj option"
  isMultipartRequest :: bool

record settings =
  proxy :: "string option"
  disableProxy :: bool

datatype payload = Raw jsval | FormEntries "(string \<times> string) list"

record ajax_options =
  ajax_url :: string
  ajax_method :: string
  ajax_headers :: "jsval jsobj option"
  ajax_contentType :: content_type
  ajax_traditional :: bool
  ajax_processData :: "bool option"
  ajax_data :: "payload option"
  ajax_baseUrl :: string

definition CONTENT_TYPE :: string where
  "CONTENT_TYPE = ''content-type''"

definition FORM_URLENCODED :: string where
  "FORM_URLENCODED = ''application/x-www-form-urlencoded''"

definition FORM_DATA :: string where
  "FORM_DATA = ''multipart/form-data''"

definition request_create :: "string \<Rightarrow> string \<Rightarrow> request" where
  "request_create u m =
     \<lparr>opts = \<lparr>req_url = u, req_method = m, req_headers = None, req_contentType = CtUnset\<rparr>,
      rawData = JUndef, queryParams = None, isMultipartRequest = False\<rparr>"

text \<open>The object a clone reads from: of a value that is not an object it is the empty object.\<close>

definition utils_clone :: "jsval \<Rightarrow> jsval" where
  "utils_clone v = (if typeof_object v \<and> v \<noteq> JNull then v else JObj [])"

text \<open>\<open>data()\<close> and \<open>data(d)\<close>; \<open>queryParams()\<close> and \<open>queryParams(p)\<close>.\<close>

definition req_data_get :: "request \<Rightarrow> jsval" where
  "req_data_get r = utils_clone (rawData r)"

definition req_data_set :: "jsval \<Rightarrow> request \<Rightarrow> request" where
  "req_data_set d r = (if d = JUndef then r else r\<lparr>rawData := d\<rparr>)"

definition req_queryParams_get :: "request \<Rightarrow> jsval jsobj" where
  "req_queryParams_get r = (case queryParams r of None \<Rightarrow> [] | Some ob \<Rightarrow> ob)"

definition req_queryParams_set :: "jsval jsobj option \<Rightarrow> request \<Rightarrow> request" where
  "req_queryParams_set p r = (case p of None \<Rightarrow> r | Some ob \<Rightarrow> r\<lparr>queryParams := Some ob\<rparr>)"

definition req_queryParam :: "string \<Rightarrow> jsval \<Rightarrow> request \<Rightarrow> request" where
  "req_queryParam name v r =
     r\<lparr>queryParams := Some (oset name v (case queryParams r of None \<Rightarrow> [] | Some ob \<Rightarrow> ob))\<rparr>"

definition req_header :: "string \<Rightarrow> jsval \<Rightarrow> request \<Rightarrow> request" where
  "req_header name v r =
     (let hs = (case req_headers (opts r) of None \<Rightarrow> [] | Some h \<Rightarrow> h);
          o1 = (opts r)\<lparr>req_headers := Some hs\<rparr>
      in if lower name = CONTENT_TYPE then
           (if v = JStr FORM_DATA
            then r\<lparr>isMultipartRequest := True, opts := o1\<lparr>req_contentType := CtFalse\<rparr>\<rparr>
            else r\<lparr>isMultipartRequest := False,
                   opts := o1\<lparr>req_contentType := Ct v, req_headers := Some (oset name v hs)\<rparr>\<rparr>)
         else r\<lparr>opts := o1\<lparr>req_headers := Some (oset name v hs)\<rparr>\<rparr>)"

definition req_headers_all :: "jsval jsobj \<Rightarrow> request \<Rightarrow> request" where
  "req_headers_all hs r =
     (let r0 = r\<lparr>opts := (opts r)\<lparr>req_headers := Some []\<rparr>, isMultipartRequest := False\<rparr>;
          r1 = fold (\<lambda>(name, v). req_header name v) (entries hs) r0
      in if req_headers (opts r1) = Some [] then r1\<lparr>opts := (opts r1)\<lparr>req_headers := None\<rparr>\<rparr> else r1)"

text \<open>The entries of the multipart form: every value of every field, which must be an array.\<close>

definition form_entries :: "jsval \<Rightarrow> (string \<times> string) list res" where
  "form_entries d =
     (case d of
        JObj ob \<Rightarrow> rbind (mapR (\<lambda>(k, v). case v of
             JArr vs \<Rightarrow> Inr (map (\<lambda>x. (k, to_string x)) vs)
           | _ \<Rightarrow> Inl TypeError) (entries ob)) (\<lambda>es. Inr (concat es))
      | JArr vs \<Rightarrow> rbind (mapR (\<lambda>(i, v). case v of
             JArr ws \<Rightarrow> Inr (map (\<lambda>x. (show_nat i, to_string x)) ws)
           | _ \<Rightarrow> Inl TypeError) (enumerate 0 vs)) (\<lambda>es. Inr (concat es))
      | JStr s \<Rightarrow> (if s = [] then Inr [] else Inl TypeError)
      | _ \<Rightarrow> Inr [])"

definition toOptions :: "settings \<Rightarrow> request \<Rightarrow> ajax_options res" where
  "toOptions st r =
     (let u = req_url (opts r);
          o0 = \<lparr>ajax_url = u, ajax_method = req_method (opts r), ajax_headers = req_headers (opts r),
                ajax_contentType = req_contentType (opts r), ajax_traditional = True,
                ajax_processData = None, ajax_data = None, ajax_baseUrl = u\<rparr>;
          params = req_queryParams_get r;
          query = (if own_keys params = [] then o0
                   else let separator = (if CHR ''?'' \<in> set u then ''&'' else ''?'')
                        in o0\<lparr>ajax_baseUrl := u @ separator,
                             ajax_url := u @ separator @ jquery_param params True\<rparr>);
          proxied = (case proxy st of
               Some p \<Rightarrow> if \<not> disableProxy st \<and> p \<noteq> [] then query\<lparr>ajax_url := p @ ajax_url query\<rparr> else query
             | None \<Rightarrow> query)
      in if truthy (rawData r) then
           (if isMultipartRequest r
            then rbind (form_entries (rawData r)) (\<lambda>es.
                   Inr (proxied\<lparr>ajax_processData := Some False, ajax_data := Some (FormEntries es)\<rparr>))
            else Inr (proxied\<lparr>ajax_processData := Some True, ajax_data := Some (Raw (rawData r))\<rparr>))
         else Inr proxied)"

section \<open>Serialising and reading a query\<close>

definition plus_encode :: "string \<Rightarrow> string" where
  "plus_encode s = plus_space (encodeURIComponent s)"

lemma plus_space_Cons: "c \<noteq> CHR ''%'' \<Longrightarrow> plus_space (c # r) = c # plus_space r"
  by (cases "c # r" rule: plus_space.cases) auto

lemma plus_space_pct:
  "plus_space (pct c @ r) = (if c = CHR '' '' then ''+'' else pct c) @ plus_space r"
proof (cases "c = CHR '' ''")
  case True
  then show ?thesis by (simp add: pct_def hex_digit_def char_of_def bit_Suc_0_iff)
next
  case False
  have hx: "plus_space (hex_digit (of_char c div 16) # hex_digit (of_char c mod 16) # r)
      = hex_digit (of_char c div 16) # hex_digit (of_char c mod 16) # plus_space r"
    using alnum_plain [OF hex_digits_of_char(1) [of c]] alnum_plain [OF hex_digits_of_char(2) [of c]]
    by (simp add: plus_space_Cons)
  have "\<not> (hex_digit (of_char c div 16) = CHR ''2'' \<and> hex_digit (of_char c mod 16) = CHR ''0'')"
  proof
    assume "hex_digit (of_char c div 16) = CHR ''2'' \<and> hex_digit (of_char c mod 16) = CHR ''0''"
    then have "hex_val (CHR ''2'') = Some (of_char c div 16)" "hex_val (CHR ''0'') = Some (of_char c mod 16)"
      by (metis hex_val_hex_digit of_char_div16, metis hex_val_hex_digit mod_less_divisor zero_less_numeral)
    then have "(of_char c :: nat) div 16 = 2" "(of_char c :: nat) mod 16 = 0"
      by (simp_all add: hex_val_def)
    then have "(of_char c :: nat) = of_char (CHR '' '')"
      using div_mult_mod_eq [of "of_char c :: nat" 16] by simp
    then show False using False by (simp only: of_char_eq_iff)
  qed
  then show ?thesis using False hx by (simp add: pct_def)
qed

definition plus_byte :: "char \<Rightarrow> string" where
  "plus_byte c = (if uri_safe c then [c] else if c = CHR '' '' then ''+'' else pct c)"

lemma plus_space_encoded:
  "plus_space (encodeURIComponent s @ r) = concat (map plus_byte s) @ plus_space r"
proof (induction s)
  case Nil
  then show ?case by (simp add: encodeURIComponent_def)
next
  case (Cons c s)
  then show ?case
    using component.safe_not_percent [of c]
    by (auto simp: encodeURIComponent_def percent_encode_Cons plus_byte_def plus_space_Cons plus_space_pct)
qed

lemma plus_encode_bytes: "plus_encode s = concat (map plus_byte s)"
  using plus_space_encoded [of s "[]"] by (simp add: plus_encode_def)

lemma plus_space_pair:
  "plus_space (param_pair (k, v) @ r)
     = plus_encode k @ CHR ''='' # plus_encode (if nullish v then [] else to_string v) @ plus_space r"
  by (simp add: param_pair_def plus_space_encoded plus_encode_bytes plus_space_Cons)

lemma plus_space_join:
  "plus_space (join ''&'' (map param_pair kvs))
     = join ''&'' (map (\<lambda>(k, v). plus_encode k @ CHR ''='' # plus_encode (if nullish v then [] else to_string v)) kvs)"
proof (induction kvs)
  case Nil
  then show ?case by simp
next
  case (Cons kv kvs)
  obtain k v where kv: "kv = (k, v)" by (cases kv)
  show ?case
  proof (cases kvs)
    case Nil
    then show ?thesis using kv plus_space_pair [of k v "[]"] by simp
  next
    case (Cons a list)
    then have "join ''&'' (map param_pair (kv # kvs)) = param_pair kv @ CHR ''&'' # join ''&'' (map param_pair kvs)"
      by simp
    then show ?thesis using kv Cons.IH Cons
      by (simp add: plus_space_pair plus_space_Cons)
  qed
qed

lemma pct_space: "pct CHR '' '' = ''%20''"
  by code_simp

lemma plus_restored:
  "concat (map (\<lambda>c. if c = CHR ''+'' then ''%20'' else [c]) (plus_encode s)) = encodeURIComponent s"
proof (induction s)
  case Nil
  then show ?case by (simp add: plus_encode_bytes encodeURIComponent_def)
next
  case (Cons c s)
  have "concat (map (\<lambda>c. if c = CHR ''+'' then ''%20'' else [c]) (plus_byte c))
      = (if uri_safe c then [c] else pct c)"
  proof (cases "c = CHR '' ''")
    case True
    then show ?thesis using uri_safe_plain [of c] pct_space by (auto simp: plus_byte_def)
  next
    case False
    have "CHR ''+'' \<notin> set (pct c)" using pct_chars [of "CHR ''+''" c] by (auto simp: is_alnum_def is_digit_def is_upper_def is_lower_def)
    then show ?thesis using False uri_safe_plain [of c] by (auto simp: plus_byte_def plus_absent_id)
  qed
  then show ?case using Cons.IH
    by (simp add: plus_encode_bytes encodeURIComponent_def percent_encode_Cons)
qed

lemma plus_encode_no_sep: "CHR ''&'' \<notin> set (plus_encode s)" "CHR ''='' \<notin> set (plus_encode s)"
proof -
  have "d \<noteq> CHR ''&'' \<and> d \<noteq> CHR ''=''" if "d \<in> set (plus_encode s)" for d
    using that alnum_plain uri_safe_plain
    by (fastforce simp: plus_encode_bytes plus_byte_def dest: pct_chars split: if_splits)
  then show "CHR ''&'' \<notin> set (plus_encode s)" "CHR ''='' \<notin> set (plus_encode s)" by blast+
qed

lemma split_part_plus:
  "split_part CHR ''='' (plus_encode k @ CHR ''='' # plus_encode v) = (encodeURIComponent k, encodeURIComponent v)"
  by (simp add: split_part_def plus_restored index_of_append_single)

interpretation query: param_codec plus_encode
  by unfold_locales (simp_all add: decode_part_def split_part_plus plus_encode_no_sep)

lemma param_pair_parts:
  assumes "codec_value v"
  shows "map (\<lambda>(k, v). plus_encode k @ CHR ''='' # plus_encode (if nullish v then [] else to_string v))
      (buildParams True k v) = value_parts plus_encode (k, v)"
proof (cases v)
  case (JArr vs)
  then have "list_all utf8_str vs" using assms by (simp add: codec_value_def)
  then have "\<not> nullish x" if "x \<in> set vs" for x
    using that by (cases x) (auto simp: list_all_iff utf8_str_def)
  then show ?thesis using JArr by (simp add: value_parts_def)
qed (use assms in \<open>simp_all add: value_parts_def codec_value_def utf8_str_def\<close>)

lemma jquery_param_parts:
  assumes "\<forall>(k, v) \<in> set es. codec_value v"
  shows "map (\<lambda>(k, v). plus_encode k @ CHR ''='' # plus_encode (if nullish v then [] else to_string v))
      (concat (map (\<lambda>(pre, v). buildParams True pre v) es)) = concat (map (value_parts plus_encode) es)"
  using assms by (induction es) (auto simp: param_pair_parts)



section \<open>Building a request\<close>

datatype req_op =
    OpData jsval
  | OpQueryParams "jsval jsobj option"
  | OpQueryParam string jsval
  | OpHeader string jsval
  | OpHeaders "jsval jsobj"

fun req_step :: "req_op \<Rightarrow> request \<Rightarrow> request" where
  "req_step (OpData d) r = req_data_set d r"
| "req_step (OpQueryParams p) r = req_queryParams_set p r"
| "req_step (OpQueryParam n v) r = req_queryParam n v r"
| "req_step (OpHeader n v) r = req_header n v r"
| "req_step (OpHeaders hs) r = req_headers_all hs r"

definition hdrs :: "request \<Rightarrow> jsval jsobj" where
  "hdrs r = (case req_headers (opts r) of None \<Rightarrow> [] | Some h \<Rightarrow> h)"

text \<open>What every request satisfies while it is built for a URL and a method.\<close>

definition request_inv :: "string \<Rightarrow> string \<Rightarrow> request \<Rightarrow> bool" where
  "request_inv u m r =
     (req_url (opts r) = u \<and> req_method (opts r) = m
      \<and> (isMultipartRequest r \<longrightarrow> req_contentType (opts r) = CtFalse) \<and> wf_obj (hdrs r))"

lemma hdrs_simps [simp]: "req_headers (opts r) = Some h \<Longrightarrow> hdrs r = h"
  "req_headers (opts r) = None \<Longrightarrow> hdrs r = []"
  by (simp_all add: hdrs_def)

lemma request_inv_create: "request_inv u m (request_create u m)"
  by (simp add: request_inv_def request_create_def hdrs_def)

lemma request_inv_header: "request_inv u m r \<Longrightarrow> request_inv u m (req_header n v r)"
  by (auto simp: request_inv_def req_header_def hdrs_def Let_def split: option.splits)

lemma request_inv_fold: "request_inv u m r \<Longrightarrow> request_inv u m (fold (\<lambda>(n, v). req_header n v) es r)"
  by (induction es arbitrary: r) (auto intro: request_inv_header)

lemma request_inv_headers_all:
  assumes "request_inv u m r"
  shows "request_inv u m (req_headers_all hs r)"
proof -
  let ?r0 = "r\<lparr>opts := (opts r)\<lparr>req_headers := Some []\<rparr>, isMultipartRequest := False\<rparr>"
  have "request_inv u m ?r0" using assms by (simp add: request_inv_def hdrs_def)
  then have "request_inv u m (fold (\<lambda>(n, v). req_header n v) (entries hs) ?r0)"
    by (rule request_inv_fold)
  then show ?thesis by (auto simp: req_headers_all_def Let_def request_inv_def hdrs_def)
qed

lemma request_inv_step: "request_inv u m r \<Longrightarrow> request_inv u m (req_step x r)"
proof (cases x)
  case (OpHeaders hs)
  then show "request_inv u m r \<Longrightarrow> ?thesis" using request_inv_headers_all by simp
next
  case (OpHeader n v)
  then show "request_inv u m r \<Longrightarrow> ?thesis" using request_inv_header by simp
qed (auto simp: request_inv_def req_data_set_def req_queryParams_set_def req_queryParam_def hdrs_def split: option.splits)

text \<open>
  C28. However a request is built, it keeps the URL and method it was created with, its headers
  never hold a name twice, and whenever it is marked multipart its content type is the
  \<open>false\<close> that lets the browser write the boundary.
\<close>

theorem request_invariant: "request_inv u m (fold req_step ops (request_create u m))"
proof -
  have "request_inv u m r \<Longrightarrow> request_inv u m (fold req_step ops r)" for r
    by (induction ops arbitrary: r) (auto intro: request_inv_step)
  then show ?thesis using request_inv_create by blast
qed

lemma oget_hdrs_header:
  "lower name \<noteq> CONTENT_TYPE \<Longrightarrow>
   oget (hdrs (req_header n v r)) name = (if name = n then Some v else oget (hdrs r) name)"
  by (auto simp: req_header_def hdrs_def Let_def split: option.splits)

lemma oget_hdrs_fold:
  assumes "lower name \<noteq> CONTENT_TYPE"
  shows "distinct (map fst es) \<Longrightarrow>
    oget (hdrs (fold (\<lambda>(n, v). req_header n v) es r)) name
      = (case map_of es name of None \<Rightarrow> oget (hdrs r) name | Some v \<Rightarrow> Some v)"
proof (induction es arbitrary: r)
  case Nil
  then show ?case by simp
next
  case (Cons e es)
  obtain n v where e: "e = (n, v)" by (cases e)
  have "map_of es n = None" using Cons.prems e by (simp add: map_of_eq_None_iff)
  then show ?case
    using Cons.IH [of "req_header n v r"] Cons.prems e oget_hdrs_header [OF assms, of n v r] by (auto split: option.splits)
qed

lemma hdrs_headers_all:
  "hdrs (req_headers_all hs r) = hdrs (fold (\<lambda>(n, v). req_header n v) (entries hs)
     (r\<lparr>opts := (opts r)\<lparr>req_headers := Some []\<rparr>, isMultipartRequest := False\<rparr>))"
  by (simp add: req_headers_all_def Let_def hdrs_def split: option.splits)

text \<open>
  \<open>headers(hs)\<close> replaces all headers: afterwards a header other than the content type is
  present exactly if \<open>hs\<close> has it. So the \<open>Accept\<close> header that \<open>tryIt\<close> sets just before is lost
  unless the user gave one.
\<close>

theorem headers_replace:
  assumes "wf_obj hs" and "lower name \<noteq> CONTENT_TYPE"
  shows "oget (hdrs (req_headers_all hs (req_header name v r))) name = oget hs name"
proof -
  let ?r0 = "(req_header name v r)\<lparr>opts := (opts (req_header name v r))\<lparr>req_headers := Some []\<rparr>, isMultipartRequest := False\<rparr>"
  have "distinct (map fst (entries hs))" using assms(1) by (simp add: distinct_own_keys)
  from oget_hdrs_fold [OF assms(2) this, of ?r0]
  have "oget (hdrs (req_headers_all hs (req_header name v r))) name
      = (case map_of hs name of None \<Rightarrow> oget (hdrs ?r0) name | Some v \<Rightarrow> Some v)"
    by (simp only: hdrs_headers_all map_of_entries)
  also have "hdrs ?r0 = []" by (simp add: hdrs_def)
  finally show ?thesis by (simp add: oget_def split: option.splits)
qed

theorem headers_replace_witness:
  "oget (hdrs (req_headers_all [(''X-Id'', JArr [JStr ''1''])]
      (req_header ''Accept'' (JStr ''application/json'') (request_create ''/v2/apps'' ''get'')))) ''Accept'' = None"
proof -
  have "lower ''Accept'' \<noteq> CONTENT_TYPE" by code_simp
  moreover have "wf_obj [(''X-Id'', JArr [JStr ''1''])]" by (simp add: wf_obj_def)
  ultimately show ?thesis
    using headers_replace [of "[(''X-Id'', JArr [JStr ''1''])]" "''Accept''"] by (simp add: oget_def)
qed

lemma form_entries_error:
  "form_entries (JObj ob) = Inl e \<longleftrightarrow> e = TypeError \<and> list_ex (\<lambda>(k, v). \<not> is_arr v) (entries ob)"
proof -
  have "mapR (\<lambda>(k, v). case v of JArr vs \<Rightarrow> Inr (map (\<lambda>x. (k, to_string x)) vs) | _ \<Rightarrow> Inl TypeError) es = Inl e
      \<longleftrightarrow> e = TypeError \<and> list_ex (\<lambda>(k, v). \<not> is_arr v) es" for es :: "jsval jsobj"
    by (induction es) (auto split: sum.splits jsval.splits)
  then show ?thesis by (simp add: form_entries_def rbind_eq_Inl)
qed

text \<open>
  Turning a request into transport options fails in one case only: a multipart request
  whose data has a field that is not an array of values.
\<close>

theorem toOptions_error:
  assumes "rawData r = JObj ob"
  shows "(\<exists>e. toOptions st r = Inl e)
    \<longleftrightarrow> isMultipartRequest r \<and> list_ex (\<lambda>(k, v). \<not> is_arr v) (entries ob)"
proof -
  have "toOptions st r = Inl e \<longleftrightarrow> isMultipartRequest r \<and> form_entries (JObj ob) = Inl e" for e
    by (simp add: toOptions_def assms Let_def rbind_eq_Inl)
  then show ?thesis by (simp add: form_entries_error)
qed

theorem toOptions_error_witness:
  "\<exists>e. toOptions \<lparr>proxy = None, disableProxy = False\<rparr>
     (req_header ''Content-Type'' (JStr FORM_DATA)
       (req_data_set (JObj [(''f'', JStr ''x'')]) (request_create ''/u'' ''post''))) = Inl e"
proof -
  let ?r = "req_header ''Content-Type'' (JStr FORM_DATA)
       (req_data_set (JObj [(''f'', JStr ''x'')]) (request_create ''/u'' ''post''))"
  have "rawData ?r = JObj [(''f'', JStr ''x'')]" and "isMultipartRequest ?r"
    and "list_ex (\<lambda>(k, v). \<not> is_arr v) (entries [(''f'', JStr ''x'')])"
    by code_simp+
  then show ?thesis using toOptions_error [of ?r "[(''f'', JStr ''x'')]"] by blast
qed

end
