(* ===== verification/Validator.thy ===== *)
theory Validator
  imports Properties
begin

text \<open>
  \<open>RAML.Client.Validator\<close> of \<open>api-console.js\<close>: the rules a parameter definition gives rise to
  and the list of those a value breaks. The regular expressions the code writes are explicit
  recognisers; the engine that runs a pattern of the RAML document is a parameter, \<open>re\<close>, which
  returns \<open>None\<close> for a pattern that is not a regular expression.
\<close>

type_synonym regex_engine = "string \<Rightarrow> (string \<Rightarrow> bool) option"

section \<open>The regular expressions\<close>

definition strip_minus :: "string \<Rightarrow> string" where
  "strip_minus s = (case s of c # r \<Rightarrow> if c = CHR ''-'' then r else s | [] \<Rightarrow> [])"

text \<open>\<open>(0|[1-9][0-9]*)\<close>: the text that follows it.\<close>

definition after_int :: "string \<Rightarrow> string option" where
  "after_int s = (case s of
       [] \<Rightarrow> None
     | c # r \<Rightarrow> if c = CHR ''0'' then Some r
               else if is_digit c then Some (dropWhile is_digit r) else None)"

definition integer_text :: "string \<Rightarrow> bool" where
  "integer_text s = (after_int (strip_minus s) = Some [])"

definition exponent_text :: "string \<Rightarrow> bool" where
  "exponent_text s = (case s of
       [] \<Rightarrow> True
     | c # r \<Rightarrow> (c = CHR ''e'' \<or> c = CHR ''E'')
         \<and> (let ds = (case r of d # t \<Rightarrow> if d = CHR ''-'' \<or> d = CHR ''+'' then t else r | [] \<Rightarrow> [])
            in ds \<noteq> [] \<and> list_all is_digit ds))"

definition number_text :: "string \<Rightarrow> bool" where
  "number_text s = (case after_int (strip_minus s) of
       None \<Rightarrow> False
     | Some r \<Rightarrow> exponent_text (case r of
           c # t \<Rightarrow> if c = CHR ''.'' then dropWhile is_digit t else r
         | [] \<Rightarrow> []))"

definition RFC1123 :: "string \<Rightarrow> bool" where
  "RFC1123 s =
     (length s = 29
      \<and> take 3 s \<in> {''Mon'', ''Tue'', ''Wed'', ''Thu'', ''Fri'', ''Sat'', ''Sun''}
      \<and> take 2 (drop 3 s) = '', '' \<and> list_all is_digit (take 2 (drop 5 s)) \<and> s ! 7 = CHR '' ''
      \<and> take 3 (drop 8 s) \<in> {''Jan'', ''Feb'', ''Mar'', ''Apr'', ''May'', ''Jun'', ''Jul'', ''Aug'', ''Sep'', ''Oct'', ''Nov'', ''Dec''}
      \<and> s ! 11 = CHR '' '' \<and> list_all is_digit (take 4 (drop 12 s)) \<and> s ! 16 = CHR '' ''
      \<and> list_all is_digit (take 2 (drop 17 s)) \<and> s ! 19 = CHR '':''
      \<and> list_all is_digit (take 2 (drop 20 s)) \<and> s ! 22 = CHR '':''
      \<and> list_all is_digit (take 2 (drop 23 s)) \<and> drop 25 s = '' GMT'')"

section \<open>The rules\<close>

datatype rule =
    Required
  | BooleanRule
  | EnumRule "jsval list"
  | IntegerRule
  | NumberRule
  | Minimum jsval
  | Maximum jsval
  | MinLength jsval
  | MaxLength jsval
  | Pattern string
  | DateRule

definition value_empty :: "jsval \<Rightarrow> bool" where
  "value_empty v = (nullish v \<or> v = JStr [])"

definition value_length :: "jsval \<Rightarrow> jsval" where
  "value_length v = (case jget v ''length'' of Inr n \<Rightarrow> n | Inl e \<Rightarrow> JUndef)"

definition array_has :: "jsval list \<Rightarrow> jsval \<Rightarrow> bool" where
  "array_has vs v = list_ex (\<lambda>w. strict_eq w v) vs"

fun VALIDATIONS :: "regex_engine \<Rightarrow> rule \<Rightarrow> jsval \<Rightarrow> bool" where
  "VALIDATIONS re Required v = (\<not> value_empty v)"
| "VALIDATIONS re BooleanRule v = (value_empty v \<or> v = JStr ''true'' \<or> v = JStr ''false'')"
| "VALIDATIONS re (EnumRule vs) v = (value_empty v \<or> array_has vs v)"
| "VALIDATIONS re IntegerRule v = (value_empty v \<or> integer_text (to_string v))"
| "VALIDATIONS re NumberRule v = (value_empty v \<or> number_text (to_string v))"
| "VALIDATIONS re (Minimum m) v = (value_empty v \<or> js_le m v)"
| "VALIDATIONS re (Maximum m) v = (value_empty v \<or> js_le v m)"
| "VALIDATIONS re (MinLength m) v = (value_empty v \<or> js_le m (value_length v))"
| "VALIDATIONS re (MaxLength m) v = (value_empty v \<or> js_le (value_length v) m)"
| "VALIDATIONS re (Pattern p) v =
     (value_empty v \<or> (case re p of None \<Rightarrow> False | Some test \<Rightarrow> test (to_string v)))"
| "VALIDATIONS re DateRule v = (value_empty v \<or> RFC1123 (to_string v))"

section \<open>From a definition to its rules\<close>

definition baseValidations :: "jsval jsobj \<Rightarrow> (string \<times> rule) list" where
  "baseValidations d = (if truthy (pget d ''required'') then [(''required'', Required)] else [])"

definition numberValidations :: "jsval jsobj \<Rightarrow> (string \<times> rule) list" where
  "numberValidations d =
     (if nullish (pget d ''minimum'') then [] else [(''minimum'', Minimum (pget d ''minimum''))])
     @ (if nullish (pget d ''maximum'') then [] else [(''maximum'', Maximum (pget d ''maximum''))])"

definition stringValidations :: "regex_engine \<Rightarrow> jsval jsobj \<Rightarrow> (string \<times> rule) list res" where
  "stringValidations re d =
     (let rules = baseValidations d
          @ (case pget d ''enum'' of JArr vs \<Rightarrow> [(''enum'', EnumRule vs)] | _ \<Rightarrow> [])
          @ (if nullish (pget d ''minLength'') then [] else [(''minLength'', MinLength (pget d ''minLength''))])
          @ (if nullish (pget d ''maxLength'') then [] else [(''maxLength'', MaxLength (pget d ''maxLength''))]);
          p = to_string (pget d ''pattern'')
      in if \<not> truthy (pget d ''pattern'') then Inr rules
         else case re p of
             None \<Rightarrow> Inl SyntaxError
           | Some test \<Rightarrow> Inr (rules @ [(''pattern'', Pattern p)]))"

definition VALIDATIONS_FOR_TYPE :: "regex_engine \<Rightarrow> string \<Rightarrow> jsval jsobj \<Rightarrow> (string \<times> rule) list res" where
  "VALIDATIONS_FOR_TYPE re ty d =
     (if ty = ''string'' then stringValidations re d
      else if ty = ''integer'' then Inr (baseValidations d @ [(''integer'', IntegerRule)] @ numberValidations d)
      else if ty = ''number'' then Inr (baseValidations d @ [(''number'', NumberRule)] @ numberValidations d)
      else if ty = ''boolean'' then Inr (baseValidations d @ [(''boolean'', BooleanRule)])
      else if ty = ''date'' then Inr (baseValidations d @ [(''date'', DateRule)])
      else Inr [])"

text \<open>\<open>Validator.from\<close> and \<open>validate\<close>: \<open>None\<close> stands for the undefined error list.\<close>

definition validator_from :: "regex_engine \<Rightarrow> jsval \<Rightarrow> (string \<times> rule) list res" where
  "validator_from re definition' =
     (if \<not> truthy definition' then Inl (Thrown ''definition is required!'')
      else case definition' of
          JObj d \<Rightarrow> VALIDATIONS_FOR_TYPE re (to_string (pget d ''type'')) d
        | _ \<Rightarrow> Inr [])"

definition validate :: "regex_engine \<Rightarrow> (string \<times> rule) list \<Rightarrow> jsval \<Rightarrow> string list option" where
  "validate re validations v =
     (let errors = map fst (filter (\<lambda>(name, r). \<not> VALIDATIONS re r v) validations)
      in if errors = [] then None else Some errors)"

section \<open>Which rules fail\<close>

lemma empty_passes: "value_empty v \<Longrightarrow> r \<noteq> Required \<Longrightarrow> VALIDATIONS re r v"
  by (cases r) auto

lemma from_required:
  assumes "validator_from re (JObj d) = Inr rules" and "(name, Required) \<in> set rules"
  shows "name = ''required'' \<and> truthy (pget d ''required'')"
  using assms
  by (auto simp: validator_from_def VALIDATIONS_FOR_TYPE_def stringValidations_def baseValidations_def
      numberValidations_def Let_def split: if_splits option.splits jsval.splits)

definition known_types :: "string set" where
  "known_types = {''string'', ''integer'', ''number'', ''boolean'', ''date''}"

lemma from_base:
  assumes "validator_from re (JObj d) = Inr rules" and "to_string (pget d ''type'') \<in> known_types"
  shows "\<exists>rest. rules = baseValidations d @ rest \<and> (\<forall>(name, r)\<in>set rest. r \<noteq> Required)"
  using assms
  by (auto simp: validator_from_def VALIDATIONS_FOR_TYPE_def stringValidations_def known_types_def
      numberValidations_def Let_def split: if_splits option.splits jsval.splits)

text \<open>
  Leaving a field empty breaks no rule but \<open>required\<close>: of a definition with a known type an
  empty value is reported exactly when the definition is required, and then for that rule alone.
\<close>

theorem empty_value_errors:
  assumes "validator_from re (JObj d) = Inr rules" and "to_string (pget d ''type'') \<in> known_types"
    and "value_empty v"
  shows "validate re rules v = (if truthy (pget d ''required'') then Some [''required''] else None)"
proof -
  obtain rest where r: "rules = baseValidations d @ rest" "\<forall>(name, r)\<in>set rest. r \<noteq> Required"
    using from_base [OF assms(1,2)] by blast
  have "filter (\<lambda>(name, r). \<not> VALIDATIONS re r v) rest = []"
    using r(2) empty_passes [OF assms(3)] by (auto simp: filter_empty_conv)
  then show ?thesis using r(1) assms(3) by (simp add: validate_def baseValidations_def)
qed

theorem empty_value_errors_witness:
  "\<exists>rules. validator_from (\<lambda>p. None) (JObj [(''type'', JStr ''integer''), (''required'', JBool True), (''minimum'', jint 5)]) = Inr rules
     \<and> validate (\<lambda>p. None) rules (JStr []) = Some [''required'']"
proof -
  let ?d = "[(''type'', JStr ''integer''), (''required'', JBool True), (''minimum'', jint 5)]"
  have f: "validator_from (\<lambda>p. None) (JObj ?d) = Inr [(''required'', Required), (''integer'', IntegerRule), (''minimum'', Minimum (jint 5))]"
    by (simp add: validator_from_def VALIDATIONS_FOR_TYPE_def baseValidations_def numberValidations_def pget_def oget_def jint_def)
  have t: "to_string (pget ?d ''type'') \<in> known_types"
    by (simp add: known_types_def pget_def oget_def)
  have r: "truthy (pget ?d ''required'')"
    by (simp add: pget_def oget_def)
  show ?thesis
    using empty_value_errors [OF f t, of "JStr []"] f r by (auto simp: value_empty_def)
qed

section \<open>Integers as text\<close>

lemma after_int_digits: "after_int s = Some [] \<Longrightarrow> s \<noteq> [] \<and> list_all is_digit s"
  by (auto simp: after_int_def is_digit_def dropWhile_eq_Nil_conv list_all_iff split: list.splits if_splits)

lemma digit_not_ws: "is_digit c \<Longrightarrow> \<not> is_ws c"
  by (auto simp: is_digit_def is_ws_def)

lemma digit_plain: "is_digit c \<Longrightarrow> c \<noteq> CHR ''-'' \<and> c \<noteq> CHR ''+'' \<and> c \<noteq> CHR ''x'' \<and> c \<noteq> CHR ''X''
    \<and> c \<noteq> CHR ''o'' \<and> c \<noteq> CHR ''O'' \<and> c \<noteq> CHR ''b'' \<and> c \<noteq> CHR ''B'' \<and> c \<noteq> CHR ''I''"
  by (auto simp: is_digit_def)

lemma parse_unsigned_digits:
  assumes "ds \<noteq> []" and "list_all is_digit ds"
  shows "parse_unsigned ds = Fin (of_nat (nat_of_digits ds))"
proof -
  have "digits_prefix ds = (ds, [])"
    using assms(2) by (simp add: digits_prefix_def list_all_iff takeWhile_eq_all_conv dropWhile_eq_Nil_conv)
  moreover have "ds \<noteq> ''Infinity''"
    using assms(2) by (auto simp: is_digit_def)
  ultimately show ?thesis
    using assms(1) by (simp add: parse_unsigned_def parse_exp_def scale10_def)
qed

lemma string_to_number_signed:
  assumes "ds \<noteq> []" and "list_all is_digit ds"
  shows "string_to_number ds = Fin (of_nat (nat_of_digits ds))"
    and "string_to_number (CHR ''-'' # ds) = Fin (- of_nat (nat_of_digits ds))"
proof -
  have dig: "\<And>c. c \<in> set ds \<Longrightarrow> is_digit c" using assms(2) by (simp add: list_all_iff)
  then have hd: "is_digit (hd ds)" "is_digit (last ds)" using assms(1) by simp_all
  have t: "trim ds = ds" "trim (CHR ''-'' # ds) = CHR ''-'' # ds"
    using hd digit_not_ws assms(1) by (auto intro!: trim_fixed simp: is_ws_def)
  have np: "\<not> prefix (CHR ''0'' # [c]) ds" if "\<not> is_digit c" for c
    using dig that by (auto simp: prefix_def)
  have sg: "split_sign ds = (False, ds)"
    using hd(1) digit_plain [OF hd(1)] assms(1) by (cases ds) (auto simp: split_sign_def)
  have sg': "split_sign (CHR ''-'' # ds) = (True, ds)"
    by (simp add: split_sign_def)
  have nd: "\<not> is_digit CHR ''x''" "\<not> is_digit CHR ''X''" "\<not> is_digit CHR ''o''" "\<not> is_digit CHR ''O''"
    "\<not> is_digit CHR ''b''" "\<not> is_digit CHR ''B''"
    by (simp_all add: is_digit_def)
  show "string_to_number ds = Fin (of_nat (nat_of_digits ds))"
    using assms t sg np nd by (simp add: string_to_number_def parse_unsigned_digits Let_def)
  show "string_to_number (CHR ''-'' # ds) = Fin (- of_nat (nat_of_digits ds))"
    using assms t sg' by (simp add: string_to_number_def parse_unsigned_digits)
qed

lemma integer_text_number:
  assumes "integer_text s"
  shows "\<exists>i. string_to_number s = Fin (of_int i)"
proof -
  let ?ds = "strip_minus s"
  have ds: "?ds \<noteq> []" "list_all is_digit ?ds"
    using assms after_int_digits by (auto simp: integer_text_def)
  have "s = ?ds \<or> s = CHR ''-'' # ?ds"
    by (auto simp: strip_minus_def split: list.splits)
  then have "string_to_number s = Fin (of_int (int (nat_of_digits ?ds)))
      \<or> string_to_number s = Fin (of_int (- int (nat_of_digits ?ds)))"
    using string_to_number_signed [OF ds] by auto
  then show ?thesis by blast
qed

end
