(* ===== verification/Sanitize.thy ===== *)
theory Sanitize
  imports Validator
begin

text \<open>
  \<open>raml-sanitize\<close>, \<open>raml-validate\<close> and the \<open>validate\<close> directive that runs them on a form field
  (\<open>api-console.js\<close>). Sanitising turns the text of a field into a value of its declared type,
  validating checks the type and then the rules of the definition in order.

  The host parses and prints dates and runs regular expressions; these are the fields of
  \<open>host_env\<close>. The sanitiser's rule table is empty, as in the code, so a chain is its type function.
\<close>

record host_env =
  parse_date :: "string \<Rightarrow> int option"
  show_date :: "int \<Rightarrow> string"
  iso_date :: "int \<Rightarrow> string"
  regex :: regex_engine

section \<open>Types of the sanitiser\<close>

definition toBoolean :: "jsval \<Rightarrow> jsval" where
  "toBoolean v = JBool (\<not> array_has [jint 0, JBool False, JStr [], JStr ''0'', JStr ''false''] v)"

definition toNumber :: "jsval \<Rightarrow> jsval" where
  "toNumber v = (case to_number v of Fin q \<Rightarrow> JNum (Fin q) | _ \<Rightarrow> JNull)"

definition toInteger :: "jsval \<Rightarrow> jsval" where
  "toInteger v = (case to_number v of
       Fin q \<Rightarrow> if is_int_rat q then JNum (Fin q) else JNull
     | _ \<Rightarrow> JNull)"

definition make_date :: "host_env \<Rightarrow> int option \<Rightarrow> jsval" where
  "make_date env t = (case t of
       None \<Rightarrow> JDate None ''Invalid Date'' []
     | Some ms \<Rightarrow> JDate (Some ms) (show_date env ms) (iso_date env ms))"

text \<open>\<open>new Date(value)\<close>: a string is parsed, a number is a time value within the valid range.\<close>

definition new_date :: "host_env \<Rightarrow> jsval \<Rightarrow> jsval" where
  "new_date env v = (case to_prim v of
       JStr s \<Rightarrow> make_date env (parse_date env s)
     | JDate t shown isos \<Rightarrow> JDate t shown isos
     | w \<Rightarrow> make_date env (case to_number w of
           Fin q \<Rightarrow> let ms = (if 0 \<le> q then \<lfloor>q\<rfloor> else - \<lfloor>- q\<rfloor>)
                    in if \<bar>ms\<bar> \<le> 8640000000000000 then Some ms else None
         | _ \<Rightarrow> None))"

definition toDate :: "host_env \<Rightarrow> jsval \<Rightarrow> jsval" where
  "toDate env v = (if parse_date env (to_string v) \<noteq> None then new_date env v else JNull)"

definition date_types :: "string list" where
  "date_types = [''date'', ''date-only'', ''time-only'', ''datetime-only'', ''datetime'']"

definition sanitize_type :: "host_env \<Rightarrow> string \<Rightarrow> (jsval \<Rightarrow> jsval) option" where
  "sanitize_type env ty =
     (if ty = ''string'' then Some (\<lambda>v. JStr (to_string v))
      else if ty = ''number'' then Some toNumber
      else if ty = ''integer'' then Some toInteger
      else if ty = ''boolean'' then Some toBoolean
      else if ty \<in> set date_types then Some (toDate env)
      else if ty = ''object'' then Some (\<lambda>v. v)
      else None)"

text \<open>The union types of every configuration in turn, until one gives a truthy value.\<close>

definition union_types :: "jsval jsobj \<Rightarrow> string list res" where
  "union_types config = (case pget config ''unionTypes'' of
       JArr ts \<Rightarrow> Inr (map to_string ts) | _ \<Rightarrow> Inl TypeError)"

definition toUnion :: "host_env \<Rightarrow> jsval jsobj list \<Rightarrow> jsval \<Rightarrow> jsval res" where
  "toUnion env configs v =
     foldR (\<lambda>config any.
        rbind (union_types config) (\<lambda>ts.
          foldR (\<lambda>ty any.
            if truthy any then Inr any
            else (case sanitize_type env ty of None \<Rightarrow> Inl TypeError | Some f \<Rightarrow> Inr (f v))) ts any))
       configs JNull"

section \<open>Native types and conversion of a configuration\<close>

definition native_types :: "string list" where
  "native_types = [''object'', ''string'', ''number'', ''integer'', ''boolean'', ''date-only'', ''time-only'',
     ''datetime-only'', ''datetime'', ''file'', ''array'']"

definition isNativeType :: "string \<Rightarrow> bool" where
  "isNativeType typeName = (replace_first ''[]'' [] typeName \<in> set native_types)"

definition convert_one :: "jsval \<Rightarrow> jsval jsobj \<times> jsval list \<Rightarrow> (jsval jsobj \<times> jsval list) res" where
  "convert_one aType st = (case aType of
       JStr s \<Rightarrow>
         (let newType = replace_first ''[]'' [] s; parts = split_on CHR ''|'' s
          in if length parts > 1
             then Inr (oset ''unionTypes'' (JArr (map (\<lambda>part. JStr (if isNativeType (trim part) then trim part else ''object'')) parts)) (fst st),
                       snd st @ [JStr ''union''])
             else Inr (fst st, snd st @ [JStr (if isNativeType newType then newType else ''object'')]))
     | _ \<Rightarrow> Inl TypeError)"

definition convertType :: "jsval \<Rightarrow> jsval jsobj res" where
  "convertType config =
     (if nullish config then Inl TypeError
      else let newConfig = obj_entries config
        in case pget newConfig ''type'' of
             JArr ts \<Rightarrow> rbind (foldR convert_one ts (newConfig, [])) (\<lambda>(c, us). Inr (oset ''type'' (JArr us) c))
           | _ \<Rightarrow> Inr newConfig)"

section \<open>Sanitising\<close>

definition sanitize_chain :: "host_env \<Rightarrow> jsval jsobj list \<Rightarrow> jsval jsobj \<Rightarrow> jsval \<Rightarrow> jsval res" where
  "sanitize_chain env configs config v =
     (let ty = to_string (pget config ''type'')
      in if ty = ''union'' then toUnion env configs v
         else case sanitize_type env ty of None \<Rightarrow> Inr v | Some f \<Rightarrow> Inr (f v))"

definition sanitize_filled :: "host_env \<Rightarrow> jsval jsobj list \<Rightarrow> jsval jsobj \<Rightarrow> jsval \<Rightarrow> jsval res" where
  "sanitize_filled env configs config v =
     (if truthy (pget config ''repeat'') then
        (let vs = (case v of JArr ws \<Rightarrow> ws | _ \<Rightarrow> [v])
         in rbind (mapR (sanitize_chain env configs config) vs) (\<lambda>ws.
              Inr (if list_ex nullish ws then JNull else JArr ws)))
      else sanitize_chain env configs config v)"

definition sanitization :: "host_env \<Rightarrow> jsval jsobj list \<Rightarrow> jsval jsobj \<Rightarrow> jsval \<Rightarrow> jsval res" where
  "sanitization env configs config v =
     (if nullish v then
        (if \<not> nullish (pget config ''default'') then sanitize_filled env configs config (pget config ''default'')
         else if truthy (pget config ''repeat'') \<and> \<not> truthy (pget config ''required'') then Inr (JArr [])
         else Inr v)
      else sanitize_filled env configs config v)"

text \<open>The first configuration that gives a value wins; if none does the value is kept.\<close>

fun first_sanitized :: "host_env \<Rightarrow> jsval jsobj list \<Rightarrow> jsval jsobj list \<Rightarrow> jsval \<Rightarrow> jsval res" where
  "first_sanitized env configs [] v = Inr v"
| "first_sanitized env configs (config # rest) v =
     rbind (sanitization env configs config v) (\<lambda>w.
       if nullish w then first_sanitized env configs rest v else Inr w)"

definition toSanitization :: "host_env \<Rightarrow> jsval jsobj list \<Rightarrow> jsval \<Rightarrow> jsval res" where
  "toSanitization env configs v = first_sanitized env configs configs v"

definition compile_schema :: "jsval jsobj \<Rightarrow> (string \<times> jsval jsobj) list res" where
  "compile_schema schema = mapR (\<lambda>(param, c). rbind (convertType c) (\<lambda>c'. Inr (param, c'))) (entries schema)"

definition RAMLSanitize :: "host_env \<Rightarrow> jsval jsobj \<Rightarrow> jsval jsobj \<Rightarrow> jsval jsobj res" where
  "RAMLSanitize env schema model =
     rbind (compile_schema schema) (\<lambda>cs.
       mapR (\<lambda>(param, c). rbind (toSanitization env [c] (pget model param)) (\<lambda>w. Inr (param, w)))
         (filter (\<lambda>(param, c). oget model param \<noteq> None) cs))"

section \<open>Types and rules of the validator\<close>

fun isDate :: "jsval \<Rightarrow> bool" where
  "isDate (JDate t shown isos) = (t \<noteq> None)"
| "isDate v = False"

fun isBoolean :: "jsval \<Rightarrow> bool" where
  "isBoolean (JBool b) = True"
| "isBoolean v = False"

fun isInteger :: "jsval \<Rightarrow> bool" where
  "isInteger (JNum (Fin q)) = is_int_rat q"
| "isInteger v = False"

fun isNumber :: "jsval \<Rightarrow> bool" where
  "isNumber (JNum (Fin q)) = True"
| "isNumber v = False"

definition isJSON :: "jsval \<Rightarrow> bool" where
  "isJSON v = (case json_parse (to_string v) of Inr w \<Rightarrow> True | Inl e \<Rightarrow> False)"

definition check_type :: "string \<Rightarrow> (jsval \<Rightarrow> bool) option" where
  "check_type ty =
     (if ty \<in> set date_types then Some isDate
      else if ty = ''number'' then Some isNumber
      else if ty = ''integer'' then Some isInteger
      else if ty = ''boolean'' then Some isBoolean
      else if ty = ''string'' then Some is_str
      else if ty = ''object'' then Some isJSON
      else None)"

definition isUnion :: "jsval jsobj list \<Rightarrow> jsval \<Rightarrow> bool res" where
  "isUnion configs v =
     foldR (\<lambda>config any.
        rbind (union_types config) (\<lambda>ts.
          foldR (\<lambda>ty any.
            if any then Inr True
            else (case check_type ty of None \<Rightarrow> Inl TypeError | Some f \<Rightarrow> Inr (f v))) ts any))
       configs False"

text \<open>One type test: \<open>None\<close> when the table has no such type.\<close>

definition has_type :: "jsval jsobj list \<Rightarrow> string \<Rightarrow> jsval \<Rightarrow> bool res option" where
  "has_type configs ty v =
     (if ty = ''union'' then Some (isUnion configs v)
      else map_option (\<lambda>f. Inr (f v)) (check_type ty))"

datatype check =
    IsMinimum jsval
  | IsMaximum jsval
  | IsMinimumLength jsval
  | IsMaximumLength jsval
  | IsEnum jsval
  | IsPattern "string \<Rightarrow> bool"

fun run_check :: "check \<Rightarrow> jsval \<Rightarrow> bool res" where
  "run_check (IsMinimum m) v = Inr (js_le m v)"
| "run_check (IsMaximum m) v = Inr (js_le v m)"
| "run_check (IsMinimumLength m) v = rbind (jget v ''length'') (\<lambda>n. Inr (js_le m n))"
| "run_check (IsMaximumLength m) v = rbind (jget v ''length'') (\<lambda>n. Inr (js_le n m))"
| "run_check (IsEnum vs) v =
     (case vs of
        JArr ws \<Rightarrow> Inr (array_has ws v)
      | JStr s \<Rightarrow> Inr (contains (to_string v) s)
      | _ \<Rightarrow> Inl TypeError)"
| "run_check (IsPattern test) v = Inr (test (to_string v))"

definition make_check :: "host_env \<Rightarrow> string \<Rightarrow> jsval \<Rightarrow> check option res" where
  "make_check env name arg =
     (if name = ''minimum'' then Inr (Some (IsMinimum arg))
      else if name = ''maximum'' then Inr (Some (IsMaximum arg))
      else if name = ''minLength'' then Inr (Some (IsMinimumLength arg))
      else if name = ''maxLength'' then Inr (Some (IsMaximumLength arg))
      else if name = ''enum'' then Inr (Some (IsEnum arg))
      else if name = ''pattern'' then
        (case regex env (if arg = JUndef then [] else to_string arg) of
           None \<Rightarrow> Inl SyntaxError | Some test \<Rightarrow> Inr (Some (IsPattern test)))
      else Inr None)"

section \<open>Validating\<close>

record validation_result =
  res_valid :: bool
  res_rule :: "string option"
  res_value :: jsval
  res_key :: string

definition toValidationObject :: "bool \<Rightarrow> string option \<Rightarrow> jsval \<Rightarrow> string \<Rightarrow> validation_result" where
  "toValidationObject valid r v key = \<lparr>res_valid = valid, res_rule = r, res_value = v, res_key = key\<rparr>"

fun compile_checks :: "host_env \<Rightarrow> (string \<times> jsval) list \<Rightarrow> (string \<times> check) list res" where
  "compile_checks env [] = Inr []"
| "compile_checks env ((name, arg) # rest) =
     rbind (make_check env name arg) (\<lambda>c.
     rbind (compile_checks env rest) (\<lambda>cs.
       Inr (case c of None \<Rightarrow> cs | Some k \<Rightarrow> (name, k) # cs)))"

fun run_checks :: "(string \<times> check) list \<Rightarrow> jsval \<Rightarrow> string \<Rightarrow> validation_result res" where
  "run_checks [] v key = Inr (toValidationObject True None v key)"
| "run_checks ((name, c) # cs) v key =
     rbind (run_check c v) (\<lambda>valid.
       if valid then run_checks cs v key else Inr (toValidationObject False (Some name) v key))"

text \<open>Whether every value has the type; the first that has not ends the test.\<close>

fun all_of_type :: "jsval jsobj list \<Rightarrow> string \<Rightarrow> jsval list \<Rightarrow> bool res" where
  "all_of_type configs ty [] = Inr True"
| "all_of_type configs ty (v # vs) =
     (case has_type configs ty v of
        None \<Rightarrow> Inr False
      | Some r \<Rightarrow> rbind r (\<lambda>b. if b then all_of_type configs ty vs else Inr False))"

text \<open>The response of the last value that was tested.\<close>

fun run_all :: "(string \<times> check) list \<Rightarrow> string \<Rightarrow> validation_result \<Rightarrow> jsval list \<Rightarrow> validation_result res" where
  "run_all cs key response [] = Inr response"
| "run_all cs key response (v # vs) =
     rbind (run_checks cs v key) (\<lambda>r. if res_valid r then run_all cs key r vs else Inr r)"

fun some_validation ::
  "jsval jsobj list \<Rightarrow> jsval list \<Rightarrow> string \<Rightarrow> validation_result \<Rightarrow> (string \<times> (string \<times> check) list) list
     \<Rightarrow> validation_result res" where
  "some_validation configs vs key response [] = Inr response"
| "some_validation configs vs key response ((ty, cs) # rest) =
     (if ty \<noteq> ''union'' \<and> check_type ty = None then some_validation configs vs key response rest
      else rbind (all_of_type configs ty vs) (\<lambda>isType.
        if isType then run_all cs key response vs
        else some_validation configs vs key response rest))"

record compiled_config =
  cc_type :: string
  cc_checks :: "(string \<times> check) list"
  cc_required :: bool
  cc_repeat :: bool

definition compile_config :: "host_env \<Rightarrow> jsval jsobj \<Rightarrow> compiled_config res" where
  "compile_config env config =
     rbind (compile_checks env (entries config)) (\<lambda>cs.
       Inr \<lparr>cc_type = to_string (pget config ''type''), cc_checks = cs,
            cc_required = truthy (pget config ''required''), cc_repeat = truthy (pget config ''repeat'')\<rparr>)"

definition run_validation :: "jsval jsobj list \<Rightarrow> compiled_config list \<Rightarrow> jsval \<Rightarrow> string \<Rightarrow> validation_result res" where
  "run_validation configs ccs v key =
     (let isOptional = (ccs = [] \<or> list_ex (\<lambda>c. \<not> cc_required c) ccs)
      in if nullish v then Inr (toValidationObject isOptional (Some ''required'') v key)
         else
           (let vs = (case v of JArr ws \<Rightarrow> ws | _ \<Rightarrow> [v]);
                stack = map (\<lambda>c. (cc_type c, cc_checks c)) (filter (\<lambda>c. cc_repeat c = is_arr v) ccs);
                response = toValidationObject False (Some (if stack \<noteq> [] then ''type'' else ''repeat'')) v key
            in some_validation configs vs key response stack))"

definition RAMLValidate :: "host_env \<Rightarrow> jsval jsobj \<Rightarrow> jsval jsobj \<Rightarrow> validation_result list res" where
  "RAMLValidate env schema model =
     rbind (mapR (\<lambda>(param, c0). rbind (convertType c0) (\<lambda>c. rbind (compile_config env c) (\<lambda>cc. Inr (param, c, cc))))
       (entries schema)) (\<lambda>ccs.
     rbind (mapR (\<lambda>(param, c, cc). run_validation [c] [cc] (pget model param) param) ccs) (\<lambda>rs.
       Inr (filter (\<lambda>r. \<not> res_valid r) rs)))"

section \<open>The directive\<close>

definition or_null :: "jsval \<Rightarrow> jsval" where
  "or_null v = js_or v JNull"

definition sanitationRules :: "jsval jsobj \<Rightarrow> jsval jsobj" where
  "sanitationRules d = utils_filterEmpty
     (map (\<lambda>k. (k, or_null (pget d k))) [''type'', ''repeat''])"

definition validationRules :: "jsval jsobj \<Rightarrow> jsval jsobj" where
  "validationRules d = utils_filterEmpty (map (\<lambda>k. (k, or_null (pget d k)))
     [''type'', ''minLength'', ''maxLength'', ''required'', ''enum'', ''pattern'', ''minimum'', ''maximum'', ''repeat''])"

text \<open>An empty text or list counts as no value.\<close>

definition empty_to_undefined :: "jsval \<Rightarrow> jsval" where
  "empty_to_undefined v =
     (if \<not> nullish v \<and> (case jget v ''length'' of Inr n \<Rightarrow> strict_eq n (jint 0) | Inl e \<Rightarrow> False) then JUndef else v)"

text \<open>The validity flags of the control after a value went through, and the value that is kept.\<close>

definition validate_field :: "host_env \<Rightarrow> jsval jsobj \<Rightarrow> bool jsobj \<Rightarrow> jsval \<Rightarrow> (bool jsobj \<times> jsval) res" where
  "validate_field env d control v0 =
     (let v = empty_to_undefined v0; name = to_string (pget d ''id'')
      in rbind (RAMLSanitize env [(name, JObj (sanitationRules d))] [(name, v)]) (\<lambda>clean.
         rbind (RAMLValidate env [(name, JObj (validationRules d))] clean) (\<lambda>errors.
           Inr (case errors of
               e # _ \<Rightarrow> (oset (case res_rule e of None \<Rightarrow> ''null'' | Some r \<Rightarrow> r) (res_valid e) control, v)
             | [] \<Rightarrow> (fold (\<lambda>k c. oset k True c) (own_keys (validationRules d)) control, v)))))"

section \<open>Sanitised text has its type\<close>

definition scalar_types :: "string list" where
  "scalar_types = [''string'', ''number'', ''integer'', ''boolean''] @ date_types"

lemma sanitize_type_scalar:
  assumes "ty \<in> set scalar_types"
  obtains f g where "sanitize_type env ty = Some f" and "check_type ty = Some g"
    and "\<And>s. nullish (f (JStr s)) \<or> g (f (JStr s))" and "\<And>s. nullish (f (JStr s)) \<Longrightarrow> \<not> g (JStr s)"
    and "\<And>s. \<not> is_arr (f (JStr s))"
proof -
  have d: "nullish (toDate env (JStr s)) \<or> isDate (toDate env (JStr s))" "\<not> is_arr (toDate env (JStr s))" for s
    by (auto simp: toDate_def new_date_def make_date_def split: option.splits)
  have n: "nullish (toNumber v) \<or> isNumber (toNumber v)" "\<not> is_arr (toNumber v)" for v
    by (auto simp: toNumber_def split: jsnum.splits)
  have i: "nullish (toInteger v) \<or> isInteger (toInteger v)" "\<not> is_arr (toInteger v)" for v
    by (auto simp: toInteger_def split: jsnum.splits)
  from assms consider "ty = ''string''" | "ty = ''number''" | "ty = ''integer''" | "ty = ''boolean''" | "ty \<in> set date_types"
    by (auto simp: scalar_types_def)
  then show ?thesis
  proof cases
    case 1
    then show ?thesis using that [of "\<lambda>v. JStr (to_string v)" is_str]
      by (simp add: sanitize_type_def check_type_def date_types_def)
  next
    case 2
    then show ?thesis using that [of toNumber isNumber] n
      by (simp add: sanitize_type_def check_type_def date_types_def)
  next
    case 3
    then show ?thesis using that [of toInteger isInteger] i
      by (simp add: sanitize_type_def check_type_def date_types_def)
  next
    case 4
    then show ?thesis using that [of toBoolean isBoolean]
      by (simp add: sanitize_type_def check_type_def date_types_def toBoolean_def)
  next
    case 5
    then have t: "sanitize_type env ty = Some (toDate env)" "check_type ty = Some isDate"
      by (auto simp: sanitize_type_def check_type_def date_types_def)
    show ?thesis by (rule that [OF t]) (use d in simp_all)
  qed
qed

section \<open>Lemmas on one field\<close>

lemma pget_filterEmpty:
  assumes "wf_obj ob"
  shows "pget (utils_filterEmpty ob) k = (if filled (pget ob k) then pget ob k else JUndef)"
proof -
  have m: "oget (filter (\<lambda>(k, v). P v) es) k = (case oget es k of Some v \<Rightarrow> if P v then Some v else None | None \<Rightarrow> None)"
    if "wf_obj es" for es :: "jsval jsobj" and P
    using that by (induction es) (auto simp: oget_def wf_obj_def map_of_eq_None_iff split: option.splits)
  have "oget (entries ob) k = oget ob k" by (simp add: oget_def)
  then show ?thesis
    using m [OF distinct_entries [OF assms], of filled] assms
    by (auto simp: utils_filterEmpty_def pget_def filled_def split: option.splits)
qed

lemma pget_map_keys: "pget (map (\<lambda>k. (k, f k)) ks) k = (if k \<in> set ks then f k else JUndef)"
  by (induction ks) (auto simp: pget_def oget_def)

lemma or_null_filled: "filled (or_null v) \<Longrightarrow> or_null v = v"
  by (auto simp: or_null_def js_or_def filled_def split: if_splits)

lemma pget_rules:
  assumes "distinct ks"
  shows "pget (utils_filterEmpty (map (\<lambda>k. (k, or_null (pget d k))) ks)) k
    = (if k \<in> set ks \<and> filled (or_null (pget d k)) then pget d k else JUndef)"
proof -
  have "wf_obj (map (\<lambda>k. (k, or_null (pget d k))) ks)"
    using assms by (simp add: wf_obj_def comp_def)
  moreover have "\<not> filled JUndef" by (simp add: filled_def)
  ultimately show ?thesis
    using or_null_filled [of "pget d k"] by (simp add: pget_filterEmpty pget_map_keys)
qed

lemma pget_validationRules:
  "pget (validationRules d) k =
     (if k \<in> set [''type'', ''minLength'', ''maxLength'', ''required'', ''enum'', ''pattern'', ''minimum'', ''maximum'', ''repeat'']
        \<and> filled (or_null (pget d k)) then pget d k else JUndef)"
  unfolding validationRules_def by (rule pget_rules) simp

lemma pget_sanitationRules:
  "pget (sanitationRules d) k = (if k \<in> set [''type'', ''repeat''] \<and> filled (or_null (pget d k)) then pget d k else JUndef)"
  unfolding sanitationRules_def by (rule pget_rules) simp

lemma entries_single [simp]: "entries [(k, v)] = [(k, v)]"
  by (simp add: entries_def own_keys_def)

lemma convert_plain: "\<not> is_arr (pget ob ''type'') \<Longrightarrow> convertType (JObj ob) = Inr (entries ob)"
  by (cases "pget ob ''type''") (auto simp: convertType_def Let_def)

lemma make_check_name: "make_check env name arg = Inr (Some c) \<Longrightarrow> name \<noteq> ''type''"
  by (auto simp: make_check_def)

lemma compile_checks_names: "compile_checks env es = Inr cs \<Longrightarrow> (name, c) \<in> set cs \<Longrightarrow> name \<noteq> ''type''"
  by (induction es arbitrary: cs)
     (auto simp: rbind_eq_Inr dest!: make_check_name split: option.splits)

lemma run_checks_rule:
  "run_checks cs v key = Inr r \<Longrightarrow> (\<forall>(name, c) \<in> set cs. name \<noteq> ''type'') \<Longrightarrow>
   res_rule r \<noteq> Some ''type'' \<and> (\<not> res_valid r \<longrightarrow> res_rule r \<noteq> None)"
  by (induction cs) (auto simp: rbind_eq_Inr toValidationObject_def split: if_splits)

lemma run_all_rule:
  "run_all cs key resp vs = Inr r \<Longrightarrow> \<forall>(name, c) \<in> set cs. name \<noteq> ''type'' \<Longrightarrow> vs \<noteq> [] \<Longrightarrow>
   res_rule r \<noteq> Some ''type'' \<and> (\<not> res_valid r \<longrightarrow> res_rule r \<noteq> None)"
proof (induction vs arbitrary: resp)
  case (Cons v vs)
  then show ?case
    by (cases "vs = []") (auto simp: rbind_eq_Inr dest: run_checks_rule split: if_splits)
qed simp

lemma compile_config_fields:
  "compile_config env c = Inr cc \<Longrightarrow>
   cc_type cc = to_string (pget c ''type'') \<and> cc_repeat cc = truthy (pget c ''repeat'')
   \<and> (\<forall>(name, k) \<in> set (cc_checks cc). name \<noteq> ''type'')"
  by (auto simp: compile_config_def rbind_eq_Inr dest: compile_checks_names)

lemma scalar_not_union: "ty \<in> set scalar_types \<Longrightarrow> ty \<noteq> ''union''"
  by (auto simp: scalar_types_def date_types_def)

text \<open>A single text value against one configuration of a scalar type without \<open>repeat\<close>.\<close>

lemma run_validation_scalar:
  assumes "compile_config env c = Inr cc" and "pget c ''type'' = JStr ty" and "ty \<in> set scalar_types"
    and "\<not> truthy (pget c ''repeat'')" and "check_type ty = Some g"
    and "\<not> nullish v" and "\<not> is_arr v" and "run_validation [c] [cc] v key = Inr r"
  shows "if g v then res_rule r \<noteq> Some ''type'' \<and> (\<not> res_valid r \<longrightarrow> res_rule r \<noteq> None)
    else res_rule r = Some ''type'' \<and> \<not> res_valid r"
proof -
  note cc = compile_config_fields [OF assms(1)]
  have nu: "ty \<noteq> ''union''" using assms(3) by (rule scalar_not_union)
  have vs: "(case v of JArr ws \<Rightarrow> ws | _ \<Rightarrow> [v]) = [v]"
    using assms(7) by (cases v) auto
  have "some_validation [c] [v] key (toValidationObject False (Some ''type'') v key) [(ty, cc_checks cc)] = Inr r"
    using assms vs cc by (simp add: run_validation_def Let_def)
  then have r: "(if g v then run_all (cc_checks cc) key (toValidationObject False (Some ''type'') v key) [v]
      else Inr (toValidationObject False (Some ''type'') v key)) = Inr r"
    using nu assms(5) by (simp add: has_type_def split: if_splits)
  show ?thesis
    using r cc run_all_rule [of "cc_checks cc" key _ "[v]" r]
    by (auto simp: toValidationObject_def split: if_splits)
qed

lemma sanitize_scalar:
  assumes "pget d ''type'' = JStr ty" and "ty \<in> set scalar_types" and "\<not> truthy (pget d ''repeat'')"
    and "sanitize_type env ty = Some f"
  shows "RAMLSanitize env [(name, JObj (sanitationRules d))] [(name, JStr s)]
    = Inr [(name, if nullish (f (JStr s)) then JStr s else f (JStr s))]"
proof -
  have ty: "trim ty \<noteq> []" "ty \<noteq> []"
    using assms(2) by (auto simp: scalar_types_def date_types_def trim_eq_Nil is_ws_def)
  have r: "\<not> truthy (pget (sanitationRules d) ''repeat'')" "pget (sanitationRules d) ''type'' = JStr ty"
    using assms(1,3) ty by (auto simp: pget_sanitationRules or_null_def js_or_def filled_def)
  have nu: "ty \<noteq> ''union''" using assms(2) by (rule scalar_not_union)
  have "convertType (JObj (sanitationRules d)) = Inr (entries (sanitationRules d))"
    using r by (intro convert_plain) simp
  moreover have "toSanitization env [entries (sanitationRules d)] (JStr s)
      = Inr (if nullish (f (JStr s)) then JStr s else f (JStr s))"
    using r nu assms(4)
    by (simp add: toSanitization_def sanitization_def sanitize_filled_def sanitize_chain_def)
  ultimately show ?thesis
    by (simp add: RAMLSanitize_def compile_schema_def pget_def oget_def)
qed

lemma own_keys_type: "filled (or_null (pget d ''type'')) \<Longrightarrow> ''type'' \<in> set (own_keys (validationRules d))"
proof -
  assume f: "filled (or_null (pget d ''type''))"
  then have "filled (pget d ''type'')" using or_null_filled by metis
  then have "filled (pget (validationRules d) ''type'')" using f by (simp add: pget_validationRules)
  then show ?thesis
    by (cases "oget (validationRules d) ''type''")
       (auto simp: own_keys_iff_oget pget_def filled_def simp del: set_own_keys)
qed

lemma oget_fold_true: "oget (fold (\<lambda>k c. oset k True c) ks ctl) k = (if k \<in> set ks then Some True else oget ctl k)"
  by (induction ks arbitrary: ctl) auto

text \<open>
  A text typed into a field of scalar type raises the \<open>type\<close> flag exactly when the sanitiser
  cannot convert it: sanitised text always passes the validator's type test, and text that was
  kept because it could not be converted never does.
\<close>

theorem field_type_flag:
  assumes "pget d ''type'' = JStr ty" and "ty \<in> set scalar_types" and "\<not> truthy (pget d ''repeat'')"
    and "sanitize_type env ty = Some f" and "js_length s \<noteq> 0" and "oget ctl ''type'' \<noteq> Some False"
    and "validate_field env d ctl (JStr s) = Inr (ctl', v)"
  shows "oget ctl' ''type'' = Some False \<longleftrightarrow> nullish (f (JStr s))"
proof -
  let ?name = "to_string (pget d ''id'')" and ?r = "validationRules d"
  let ?w = "if nullish (f (JStr s)) then JStr s else f (JStr s)"
  obtain g where g: "check_type ty = Some g" "nullish (f (JStr s)) \<or> g (f (JStr s))"
    "nullish (f (JStr s)) \<Longrightarrow> \<not> g (JStr s)" "\<not> is_arr (f (JStr s))"
    using sanitize_type_scalar [OF assms(2), of env] assms(4) by (metis option.inject)
  have ty: "trim ty \<noteq> []" "ty \<noteq> []"
    using assms(2) by (auto simp: scalar_types_def date_types_def trim_eq_Nil is_ws_def)
  then have filled: "filled (or_null (pget d ''type''))"
    using assms(1) by (simp add: or_null_def js_or_def filled_def)
  have rt: "pget ?r ''type'' = JStr ty" "\<not> truthy (pget ?r ''repeat'')"
    using assms(1,3) filled by (auto simp: pget_validationRules or_null_def js_or_def filled_def)
  have conv: "convertType (JObj ?r) = Inr (entries ?r)"
    using rt by (intro convert_plain) simp
  have e: "empty_to_undefined (JStr s) = JStr s"
    using assms(5) by (simp add: empty_to_undefined_def jint_def)
  from assms(7) obtain errors where errors: "RAMLValidate env [(?name, JObj ?r)] [(?name, ?w)] = Inr errors"
    and ctl': "ctl' = (case errors of
        e # _ \<Rightarrow> oset (case res_rule e of None \<Rightarrow> ''null'' | Some r \<Rightarrow> r) (res_valid e) ctl
      | [] \<Rightarrow> fold (\<lambda>k c. oset k True c) (own_keys ?r) ctl)"
    unfolding validate_field_def Let_def e sanitize_scalar [OF assms(1-4)]
    by (fastforce simp: rbind_eq_Inr split: list.splits)
  from errors obtain cc r where cc: "compile_config env (entries ?r) = Inr cc"
    and r: "run_validation [entries ?r] [cc] ?w ?name = Inr r" and es: "errors = filter (\<lambda>r. \<not> res_valid r) [r]"
    by (auto simp: RAMLValidate_def conv rbind_eq_Inr pget_def oget_def split: sum.splits)
  have "\<not> nullish ?w" "\<not> is_arr ?w" using g(4) by auto
  from run_validation_scalar [OF cc _ assms(2) _ g(1) this r] rt
  have res: "if g ?w then res_rule r \<noteq> Some ''type'' \<and> (\<not> res_valid r \<longrightarrow> res_rule r \<noteq> None)
    else res_rule r = Some ''type'' \<and> \<not> res_valid r" by simp
  have gw: "g ?w \<longleftrightarrow> \<not> nullish (f (JStr s))" using g(2,3) by auto
  show ?thesis
    using res gw ctl' es assms(6) own_keys_type [OF filled]
    by (cases "res_valid r") (auto simp: oget_fold_true split: if_splits option.splits simp del: set_own_keys)
qed

definition sample_host :: host_env where
  "sample_host = \<lparr>parse_date = (\<lambda>s. None), show_date = show_int, iso_date = show_int, regex = (\<lambda>p. None)\<rparr>"

definition sample_field :: "jsval jsobj" where
  "sample_field = [(''id'', JStr ''n''), (''type'', JStr ''integer''), (''minimum'', jint 5)]"

theorem field_type_flag_witness:
  "\<exists>ctl v. validate_field sample_host sample_field [] (JStr ''1.5'') = Inr (ctl, v)
     \<and> (oget ctl ''type'' = Some False \<longleftrightarrow> nullish (toInteger (JStr ''1.5'')))"
proof -
  have "(case validate_field sample_host sample_field [] (JStr ''1.5'') of Inr p \<Rightarrow> True | Inl e \<Rightarrow> False)"
    by code_simp
  then obtain ctl v where r: "validate_field sample_host sample_field [] (JStr ''1.5'') = Inr (ctl, v)"
    by (auto split: sum.splits)
  have ty: "pget sample_field ''type'' = JStr ''integer''" "\<not> truthy (pget sample_field ''repeat'')"
    by (simp_all add: sample_field_def pget_def oget_def)
  have st: "''integer'' \<in> set scalar_types" "sanitize_type sample_host ''integer'' = Some toInteger"
    by (simp_all add: scalar_types_def sanitize_type_def)
  have len: "js_length ''1.5'' \<noteq> 0" by code_simp
  have "oget ctl ''type'' = Some False \<longleftrightarrow> nullish (toInteger (JStr ''1.5''))"
    by (rule field_type_flag [OF ty(1) st(1) ty(2) st(2) len _ r]) simp
  then show ?thesis using r by blast
qed



text \<open>
  A bound of zero is not enforced: a field whose \<open>minimum\<close>, \<open>maximum\<close>, \<open>minLength\<close> or
  \<open>maxLength\<close> is the number 0 is validated as if the definition had no such bound.
\<close>

theorem zero_bound_ignored:
  assumes "k \<in> set [''minimum'', ''maximum'', ''minLength'', ''maxLength'']" and "pget d k = jint 0"
  shows "validate_field env d ctl v = validate_field env (odel k d) ctl v"
proof -
  have same: "or_null (pget d x) = or_null (pget (odel k d) x)" for x
    using assms(2) by (simp add: or_null_def js_or_def jint_def)
  have k: "k \<noteq> ''id''" using assms(1) by auto
  have rules: "validationRules (odel k d) = validationRules d" "sanitationRules (odel k d) = sanitationRules d"
    unfolding validationRules_def sanitationRules_def same by simp_all
  have "pget (odel k d) ''id'' = pget d ''id''" using k by simp
  then show ?thesis unfolding validate_field_def rules by simp
qed

theorem zero_bound_ignored_witness:
  "validate_field sample_host [(''id'', JStr ''n''), (''type'', JStr ''integer''), (''minimum'', jint 0)] [] (JStr ''-1'')
    = validate_field sample_host [(''id'', JStr ''n''), (''type'', JStr ''integer'')] [] (JStr ''-1'')"
proof -
  have d: "odel ''minimum'' [(''id'', JStr ''n''), (''type'', JStr ''integer''), (''minimum'', jint 0)]
      = [(''id'', JStr ''n''), (''type'', JStr ''integer'')]"
    by (simp add: odel_def AList.delete_eq)
  show ?thesis
    using zero_bound_ignored [of "''minimum''" "[(''id'', JStr ''n''), (''type'', JStr ''integer''), (''minimum'', jint 0)]" sample_host "[]" "JStr ''-1''"]
    by (simp add: d pget_def oget_def)
qed

end
