(* ===== verification/RamlTypes.thy ===== *)
theory RamlTypes
  imports Sanitize
begin

text \<open>
  \<open>RAML.Inspector.Types\<close> of \<open>api-console.js\<close>: parsing type expressions, looking types and schemas
  up in the collections of the RAML document, and merging a type with the properties of its super
  types. The walk over super types need not end (a type may inherit from itself), so it is a
  partial function; it is proved to return on every acyclic collection.
\<close>

section \<open>Type names\<close>

definition cleanupTypeName :: "string \<Rightarrow> string" where
  "cleanupTypeName typeName =
     trim (replace_first '')'' [] (replace_first ''('' [] (replace_first ''[]'' [] typeName)))"

definition types_isNativeType :: "string \<Rightarrow> bool" where
  "types_isNativeType typeName = (cleanupTypeName typeName \<in> set native_types)"

definition isSchema :: "jsval \<Rightarrow> bool" where
  "isSchema typeName = (case json_parse (to_string typeName) of Inr v \<Rightarrow> True | Inl e \<Rightarrow> False)"

record type_info =
  ti_type :: string
  ti_isArray :: bool
  ti_parts :: "string list"

text \<open>\<open>/^\([^\)]*\)\[\]$/\<close>.\<close>

definition union_array :: "string \<Rightarrow> bool" where
  "union_array s = (\<exists>n<length s. s = CHR ''('' # take n (tl s) @ '')[]'' \<and> CHR '')'' \<notin> set (take n (tl s)))"

definition getTypeInfo :: "string \<Rightarrow> type_info" where
  "getTypeInfo typeName =
     (let types = split_on CHR ''|'' typeName
      in if length types > 1 then
           \<lparr>ti_type = ''union'', ti_isArray = union_array typeName, ti_parts = map cleanupTypeName types\<rparr>
         else if contains ''[]'' typeName then
           \<lparr>ti_type = ''array'', ti_isArray = False, ti_parts = [trim (replace_first ''[]'' [] typeName)]\<rparr>
         else \<lparr>ti_type = ''custom'', ti_isArray = False, ti_parts = [trim typeName]\<rparr>)"

definition getTypeFromTypeInfo :: "type_info \<Rightarrow> string" where
  "getTypeFromTypeInfo ti =
     (if ti_type ti = ''union'' then
        (let ty = join ''|'' (ti_parts ti) in if ti_isArray ti then ''('' @ ty @ '')[]'' else ty)
      else if ti_type ti = ''array'' then concat (ti_parts ti) @ ''[]''
      else concat (ti_parts ti))"

definition types_ensureArray :: "jsval \<Rightarrow> jsval" where
  "types_ensureArray ty = (if is_arr ty then ty else JArr [ty])"

section \<open>Looking types up\<close>

text \<open>The first entry of the collection with a truthy value under the name.\<close>

fun find_in :: "string \<Rightarrow> jsval list \<Rightarrow> jsval res" where
  "find_in name [] = Inr JUndef"
| "find_in name (c # cs) =
     rbind (jget c name) (\<lambda>v. if truthy v then Inr v else find_in name cs)"

definition findType :: "string \<Rightarrow> jsval list option \<Rightarrow> jsval res" where
  "findType typeName types =
     (case types of None \<Rightarrow> Inr JUndef | Some ts \<Rightarrow> find_in (cleanupTypeName typeName) ts)"

definition findSchema :: "string \<Rightarrow> jsval list option \<Rightarrow> jsval res" where
  "findSchema schemaName schemas =
     (case schemas of None \<Rightarrow> Inr JUndef | Some ts \<Rightarrow> find_in schemaName ts)"

section \<open>Properties of a type\<close>

text \<open>\<open>aProperty[0].discriminator = true\<close>.\<close>

definition mark_discriminator :: "jsval \<Rightarrow> jsval" where
  "mark_discriminator p = (case p of
       JArr (JObj q # rest) \<Rightarrow> JArr (JObj (oset ''discriminator'' (JBool True) q) # rest)
     | _ \<Rightarrow> p)"

definition convertProperty :: "jsval \<Rightarrow> jsval \<Rightarrow> jsval res" where
  "convertProperty discriminator p =
     (if truthy discriminator then
        rbind (jidx p 0) (\<lambda>p0. rbind (jget p0 ''name'') (\<lambda>n.
          Inr (if strict_eq discriminator n then mark_discriminator p else p)))
      else Inr p)"

text \<open>The properties of a type, the discriminator marked; the type itself is changed in place.\<close>

definition convertProperties :: "jsval \<Rightarrow> jsval res" where
  "convertProperties ty =
     rbind (jget ty ''properties'') (\<lambda>ps.
     rbind (jget ty ''discriminator'') (\<lambda>d.
       case ps of
         JObj ob \<Rightarrow> rbind (mapR (\<lambda>(k, p). rbind (convertProperty d p) (\<lambda>q. Inr (k, q))) ob) (\<lambda>ob'. Inr (JObj ob'))
       | JArr vs \<Rightarrow> rbind (mapR (convertProperty d) vs) (\<lambda>ws. Inr (JArr ws))
       | _ \<Rightarrow> Inr ps))"

text \<open>The properties \<open>angular.extend\<close> copies from a source: only those of objects.\<close>

fun extend_source :: "jsval \<Rightarrow> jsval jsobj" where
  "extend_source (JObj ob) = ob"
| "extend_source (JArr vs) = map (\<lambda>(i, v). (show_nat i, v)) (enumerate 0 vs)"
| "extend_source v = []"

definition extend_properties :: "jsval \<Rightarrow> jsval \<Rightarrow> jsval" where
  "extend_properties super own = JObj (assign (assign [] (extend_source super)) (extend_source own))"

text \<open>The name of a type as the code reads it: calling a string method on anything else throws.\<close>

definition name_of :: "jsval \<Rightarrow> string res" where
  "name_of v = (case v of JStr s \<Rightarrow> Inr s | _ \<Rightarrow> Inl TypeError)"

text \<open>One step up: \<open>None\<close> when the type is native or unknown, else its properties and its parent.\<close>

definition superStep :: "jsval list option \<Rightarrow> jsval \<Rightarrow> (jsval \<times> jsval) option res" where
  "superStep types typeName =
     rbind (name_of typeName) (\<lambda>n.
       if types_isNativeType n then Inr None
       else rbind (findType n types) (\<lambda>superType.
         if \<not> truthy superType then Inr None
         else rbind (convertProperties superType) (\<lambda>ps.
              rbind (jget superType ''type'') (\<lambda>ty.
              rbind (jidx ty 0) (\<lambda>parent. Inr (Some (ps, parent)))))))"

partial_function (option) getSuperTypesProperties ::
  "jsval list option \<Rightarrow> jsval \<Rightarrow> jsval \<Rightarrow> jsval res option" where
  "getSuperTypesProperties types properties typeName =
     (case superStep types typeName of
        Inl e \<Rightarrow> Some (Inl e)
      | Inr None \<Rightarrow> Some (Inr properties)
      | Inr (Some (ps, parent)) \<Rightarrow>
          getSuperTypesProperties types (extend_properties ps properties) parent)"

text \<open>The super types of a list one after another.\<close>

fun superTypes :: "jsval list option \<Rightarrow> jsval list \<Rightarrow> jsval \<Rightarrow> jsval res option" where
  "superTypes types [] properties = Some (Inr properties)"
| "superTypes types (ty # tys) properties =
     (case getSuperTypesProperties types properties ty of
        None \<Rightarrow> None
      | Some (Inl e) \<Rightarrow> Some (Inl e)
      | Some (Inr p) \<Rightarrow> superTypes types tys p)"

definition mergeProperties :: "jsval jsobj \<Rightarrow> jsval \<Rightarrow> jsval" where
  "mergeProperties ty properties =
     (let ob = extend_source properties; ks = js_sort (map fst ob)
      in if truthy properties \<and> ks \<noteq> []
         then JObj (oset ''properties'' (JArr (map (\<lambda>k. types_ensureArray (pget ob k)) ks)) ty)
         else JObj ty)"

definition mergeType :: "jsval jsobj \<Rightarrow> jsval list option \<Rightarrow> jsval res option" where
  "mergeType type0 types =
     (let declared = js_or (pget type0 ''type'') (pget type0 ''schema'');
          resultingType = oset ''type'' declared type0;
          currentType = (case declared of JArr vs \<Rightarrow> arr_at vs 0 | v \<Rightarrow> v)
      in case convertProperties (JObj resultingType) of
           Inl e \<Rightarrow> Some (Inl e)
         | Inr properties \<Rightarrow>
             let merged = (if truthy properties then oset ''properties'' properties resultingType else resultingType)
             in case name_of currentType of
                  Inl e \<Rightarrow> Some (Inl e)
                | Inr n \<Rightarrow>
                    if types_isNativeType n then Some (Inr (mergeProperties merged properties))
                    else (case declared of
                        JArr tys \<Rightarrow>
                          (case superTypes types tys properties of
                             None \<Rightarrow> None
                           | Some (Inl e) \<Rightarrow> Some (Inl e)
                           | Some (Inr ps) \<Rightarrow> Some (Inr (mergeProperties merged ps)))
                      | _ \<Rightarrow> Some (Inl TypeError)))"

section \<open>Parsing and printing type expressions\<close>

text \<open>A name that cleaning leaves alone: no bracket or bar in it, no blank at its ends.\<close>

definition plain_name :: "string \<Rightarrow> bool" where
  "plain_name s = (CHR ''('' \<notin> set s \<and> CHR '')'' \<notin> set s \<and> CHR ''['' \<notin> set s \<and> CHR ''|'' \<notin> set s \<and> trim s = s)"

definition wf_type_info :: "type_info \<Rightarrow> bool" where
  "wf_type_info ti =
     (list_all plain_name (ti_parts ti)
      \<and> (if ti_type ti = ''union'' then 2 \<le> length (ti_parts ti)
         else (ti_type ti = ''array'' \<or> ti_type ti = ''custom'') \<and> length (ti_parts ti) = 1 \<and> \<not> ti_isArray ti))"

lemma replace_first_id: "c \<notin> set s \<Longrightarrow> replace_first (c # p) r s = s"
  by (induction s) auto

lemma replace_first_append:
  "c \<notin> set s \<Longrightarrow> replace_first (c # p) r (s @ (c # p) @ t) = s @ r @ t"
  by (induction s) auto

lemma replace_first_head: "replace_first [c] r (c # s) = r @ s"
  by simp

lemma cleanup_plain: "plain_name s \<Longrightarrow> cleanupTypeName s = s"
  by (simp add: cleanupTypeName_def plain_name_def replace_first_id)

lemma cleanup_open: "plain_name s \<Longrightarrow> cleanupTypeName (CHR ''('' # s) = s"
  by (simp add: cleanupTypeName_def plain_name_def replace_first_id)

lemma cleanup_close: "plain_name s \<Longrightarrow> cleanupTypeName (s @ '')[]'') = s"
proof -
  assume p: "plain_name s"
  have "replace_first ''[]'' [] ((s @ '')'') @ ''[]'' @ []) = (s @ '')'') @ [] @ []"
    using p by (intro replace_first_append) (auto simp: plain_name_def)
  then have 1: "replace_first ''[]'' [] (s @ '')[]'') = s @ '')''" by simp
  have "replace_first '')'' [] (s @ '')'' @ []) = s @ [] @ []"
    using p by (intro replace_first_append) (auto simp: plain_name_def)
  then have 2: "replace_first '')'' [] (s @ '')'') = s" by simp
  have 3: "replace_first ''('' [] (s @ '')'') = s @ '')''"
    using p by (intro replace_first_id) (auto simp: plain_name_def)
  show ?thesis using p by (simp add: cleanupTypeName_def 1 2 3 plain_name_def)
qed

lemma join_wrap:
  "ps \<noteq> [] \<Longrightarrow> pre @ join sep (p # ps) @ post = join sep ((pre @ p) # butlast ps @ [last ps @ post])"
proof (induction ps arbitrary: pre p)
  case (Cons q qs)
  then show ?case by (cases qs) auto
qed simp

lemma not_union_array:
  assumes "2 \<le> length ps" and "list_all plain_name ps"
  shows "\<not> union_array (join ''|'' ps)"
proof
  assume "union_array (join ''|'' ps)"
  then have "CHR '')'' \<in> set (join ''|'' ps)"
    by (auto simp: union_array_def) (metis in_set_conv_decomp list.set_intros(1) set_append Un_iff append_Cons)
  then show False
    using set_join [of "CHR '')''" "''|''" ps] assms(2) by (auto simp: list_all_iff plain_name_def)
qed

lemma is_union_array:
  assumes "list_all plain_name ps"
  shows "union_array (''('' @ join ''|'' ps @ '')[]'')"
proof -
  let ?j = "join ''|'' ps"
  have "CHR '')'' \<notin> set ?j"
    using set_join [of "CHR '')''" "''|''" ps] assms by (auto simp: list_all_iff plain_name_def)
  then show ?thesis
    unfolding union_array_def by (intro exI [of _ "length ?j"]) simp
qed

lemma parse_union:
  assumes "2 \<le> length ps" and "list_all plain_name ps"
  shows "split_on CHR ''|'' (join ''|'' ps) = ps"
    and "map cleanupTypeName (split_on CHR ''|'' (''('' @ join ''|'' ps @ '')[]'')) = ps"
    and "length (split_on CHR ''|'' (''('' @ join ''|'' ps @ '')[]'')) = length ps"
proof -
  have nb: "\<forall>x\<in>set ps. CHR ''|'' \<notin> set x" using assms(2) by (auto simp: list_all_iff plain_name_def)
  then show "split_on CHR ''|'' (join ''|'' ps) = ps"
    using assms(1) by (intro split_on_join) auto
  obtain p qs where ps: "ps = p # qs" "qs \<noteq> []" using assms(1) by (cases ps; cases "tl ps") auto
  have q: "qs = butlast qs @ [last qs]" using ps(2) by simp
  let ?l = "(''('' @ p) # butlast qs @ [last qs @ '')[]'']"
  have "\<forall>x\<in>set ?l. CHR ''|'' \<notin> set x"
    using nb ps by (auto dest: in_set_butlastD)
  then have s: "split_on CHR ''|'' (''('' @ join ''|'' ps @ '')[]'') = ?l"
    unfolding ps(1) join_wrap [OF ps(2)] by (intro split_on_join) auto
  have pl: "plain_name p" "plain_name (last qs)" "\<forall>x\<in>set (butlast qs). plain_name x"
    using assms(2) ps by (auto simp: list_all_iff dest: in_set_butlastD)
  have "map cleanupTypeName ?l = p # butlast qs @ [last qs]"
    using pl by (simp add: cleanup_open cleanup_close cleanup_plain map_idI)
  then show "map cleanupTypeName (split_on CHR ''|'' (''('' @ join ''|'' ps @ '')[]'')) = ps"
    unfolding s using ps q by simp
  show "length (split_on CHR ''|'' (''('' @ join ''|'' ps @ '')[]'')) = length ps"
    unfolding s using ps by simp
qed

lemma type_info_parse:
  assumes "wf_type_info ti"
  shows "getTypeInfo (getTypeFromTypeInfo ti) = ti"
proof (cases "ti_type ti = ''union''")
  case True
  then have ps: "2 \<le> length (ti_parts ti)" "list_all plain_name (ti_parts ti)"
    using assms by (simp_all add: wf_type_info_def)
  have m: "map cleanupTypeName (ti_parts ti) = ti_parts ti"
    using ps(2) by (intro map_idI) (simp add: list_all_iff cleanup_plain)
  show ?thesis
    using True ps m parse_union [OF ps] not_union_array [OF ps] is_union_array [OF ps(2)]
    by (cases "ti_isArray ti") (simp_all add: getTypeInfo_def getTypeFromTypeInfo_def Let_def)
next
  case False
  then obtain p where p: "ti_parts ti = [p]" "plain_name p" "\<not> ti_isArray ti"
    and ty: "ti_type ti = ''array'' \<or> ti_type ti = ''custom''"
    using assms by (auto simp: wf_type_info_def length_Suc_conv split: if_splits)
  have nb: "split_on CHR ''|'' p = [p]" "split_on CHR ''|'' (p @ ''[]'') = [p @ ''[]'']"
    using p(2) by (auto simp: plain_name_def intro!: split_on_no_sep)
  have r: "replace_first ''[]'' [] (p @ ''[]'') = p"
    using replace_first_append [of "CHR ''[''" p "'']''" "[]" "[]"] p(2) by (simp add: plain_name_def)
  have c: "contains ''[]'' (p @ ''[]'')" "\<not> contains ''[]'' p"
    using p(2) index_of_here [of "CHR ''[''" p "'']''" "[]"]
    by (simp_all add: contains_def plain_name_def index_of_absent)
  show ?thesis
    using ty False p nb r c
    by (auto simp: getTypeInfo_def getTypeFromTypeInfo_def Let_def plain_name_def)
qed

text \<open>
  Printing a type expression and parsing it again gives the expression back: unions of at
  least two plain names (as an array or not), arrays and single names.
\<close>

theorem type_info_roundtrip:
  assumes "wf_type_info ti"
  shows "getTypeInfo (getTypeFromTypeInfo ti) = ti"
  using assms by (rule type_info_parse)

theorem type_info_roundtrip_witness:
  "getTypeInfo (getTypeFromTypeInfo \<lparr>ti_type = ''union'', ti_isArray = True, ti_parts = [''Cat'', ''Dog'']\<rparr>)
     = \<lparr>ti_type = ''union'', ti_isArray = True, ti_parts = [''Cat'', ''Dog'']\<rparr>"
proof (rule type_info_roundtrip)
  show "wf_type_info \<lparr>ti_type = ''union'', ti_isArray = True, ti_parts = [''Cat'', ''Dog'']\<rparr>"
    by code_simp
qed

section \<open>Walking up the super types\<close>

text \<open>A collection is acyclic if a rank decreases with every step up.\<close>

definition acyclic_types :: "(jsval \<Rightarrow> nat) \<Rightarrow> jsval list option \<Rightarrow> bool" where
  "acyclic_types rank types =
     (\<forall>n ps parent. superStep types n = Inr (Some (ps, parent)) \<longrightarrow> rank parent < rank n)"

lemma superTypes_returns:
  assumes "acyclic_types rank types"
  shows "\<exists>r. getSuperTypesProperties types properties n = Some r"
proof (induction "rank n" arbitrary: n properties rule: less_induct)
  case less
  show ?case
  proof (cases "superStep types n")
    case (Inl e)
    then show ?thesis by (subst getSuperTypesProperties.simps) simp
  next
    case (Inr st)
    show ?thesis
    proof (cases st)
      case None
      then show ?thesis using Inr by (subst getSuperTypesProperties.simps) simp
    next
      case (Some pp)
      obtain ps parent where pp: "pp = (ps, parent)" by (cases pp)
      then have "rank parent < rank n" using assms Inr Some by (simp add: acyclic_types_def)
      from less [OF this] show ?thesis
        using Inr Some pp by (subst getSuperTypesProperties.simps) simp
    qed
  qed
qed

lemma superTypes_all_return:
  "acyclic_types rank types \<Longrightarrow> \<exists>r. superTypes types tys properties = Some r"
proof (induction tys arbitrary: properties)
  case (Cons ty tys)
  obtain r where r: "getSuperTypesProperties types properties ty = Some r"
    using superTypes_returns [OF Cons.prems] by blast
  then show ?case using Cons by (cases r) auto
qed simp

lemma own_parent_loops:
  "getSuperTypesProperties ts p m = Some q \<Longrightarrow> \<forall>ps. superStep ts m \<noteq> Inr (Some (ps, m))"
proof (rule getSuperTypesProperties.raw_induct [where P = "\<lambda>ts p m q. \<forall>ps. superStep ts m \<noteq> Inr (Some (ps, m))"])
  fix rec ts p m q
  assume "\<And>ts p m q. rec ts p m = Some q \<Longrightarrow> \<forall>ps. superStep ts m \<noteq> Inr (Some (ps, m))"
    and "(case superStep ts m of Inl e \<Rightarrow> Some (Inl e) | Inr None \<Rightarrow> Some (Inr p)
      | Inr (Some (ps, parent)) \<Rightarrow> rec ts (extend_properties ps p) parent) = Some q"
  then show "\<forall>ps. superStep ts m \<noteq> Inr (Some (ps, m))"
    by (auto split: sum.splits option.splits prod.splits)
qed


definition sample_types :: "jsval list" where
  "sample_types = [JObj [(''Pet'', JObj [(''type'', JArr [JStr ''object'']), (''properties'', JObj [(''age'', JArr [JObj []])])])]]"

definition looping_types :: "jsval list" where
  "looping_types = [JObj [(''Pet'', JObj [(''type'', JArr [JStr ''Pet''])])]]"

lemma sample_types_acyclic: "acyclic_types (\<lambda>v. if v = JStr ''object'' then 0 else 1) (Some sample_types)"
  unfolding acyclic_types_def
proof (intro allI impI)
  fix n ps parent
  assume a: "superStep (Some sample_types) n = Inr (Some (ps, parent))"
  then obtain s where n: "n = JStr s" and nn: "\<not> types_isNativeType s"
    by (auto simp: superStep_def name_of_def rbind_eq_Inr split: jsval.splits if_splits)
  have "s \<noteq> ''object''"
    using nn by (auto simp: types_isNativeType_def cleanup_plain plain_name_def native_types_def trim_def is_ws_def)
  moreover have "parent = JStr ''object''"
    using a by (auto simp: superStep_def n name_of_def rbind_eq_Inr findType_def sample_types_def pget_def oget_def arr_at_def
        split: if_splits)
  ultimately show "(if parent = JStr ''object'' then 0 else 1) < (if n = JStr ''object'' then 0 else (1 :: nat))"
    using n by simp
qed


lemma oget_assign_own:
  "wf_obj own \<Longrightarrow> oget own k = Some v \<Longrightarrow> oget (assign d own) k = Some v"
proof -
  assume wf: "wf_obj own" and k: "oget own k = Some v"
  have f: "wf_obj es \<Longrightarrow> oget (fold (\<lambda>(k, v). oset k v) es d) k = (case oget es k of None \<Rightarrow> oget d k | Some v \<Rightarrow> Some v)" for es
  proof (induction es arbitrary: d)
    case (Cons e es)
    then show ?case
      by (cases e) (auto simp: wf_obj_def oget_def map_of_eq_None_iff [symmetric] oset_def update_conv' split: option.splits)
  qed simp
  show ?thesis using f [OF distinct_entries [OF wf]] k by (simp add: assign_def oget_def)
qed

lemma wf_assign: "wf_obj d \<Longrightarrow> wf_obj (assign d src)"
proof -
  have "wf_obj d \<Longrightarrow> wf_obj (fold (\<lambda>(k, v). oset k v) es d)" for es
    by (induction es arbitrary: d) (auto simp: split_def)
  then show "wf_obj d \<Longrightarrow> wf_obj (assign d src)" by (simp add: assign_def)
qed

text \<open>\<open>k\<close> has the value \<open>v\<close> in a set of properties.\<close>

definition declares :: "string \<Rightarrow> jsval \<Rightarrow> jsval \<Rightarrow> bool" where
  "declares k v p = (\<exists>own. p = JObj own \<and> wf_obj own \<and> oget own k = Some v)"

lemma declares_extend: "declares k v p \<Longrightarrow> declares k v (extend_properties ps p)"
  by (auto simp: declares_def extend_properties_def wf_assign oget_assign_own)

lemma own_kept:
  "getSuperTypesProperties ts p m = Some q \<Longrightarrow> declares k v p \<longrightarrow> (\<forall>r. q = Inr r \<longrightarrow> declares k v r)"
proof (rule getSuperTypesProperties.raw_induct
    [where P = "\<lambda>ts p m q. declares k v p \<longrightarrow> (\<forall>r. q = Inr r \<longrightarrow> declares k v r)"])
  fix rec ts p m q
  assume "\<And>ts p m q. rec ts p m = Some q \<Longrightarrow> declares k v p \<longrightarrow> (\<forall>r. q = Inr r \<longrightarrow> declares k v r)"
    and "(case superStep ts m of Inl e \<Rightarrow> Some (Inl e) | Inr None \<Rightarrow> Some (Inr p)
      | Inr (Some (ps, parent)) \<Rightarrow> rec ts (extend_properties ps p) parent) = Some q"
  then show "declares k v p \<longrightarrow> (\<forall>r. q = Inr r \<longrightarrow> declares k v r)"
    using declares_extend [of k v p] by (fastforce split: sum.splits option.splits prod.splits)
qed

text \<open>
  A type keeps the properties it declares itself: whatever its super types declare under the
  same name, the walk up does not replace them.
\<close>

theorem own_properties_win:
  assumes "getSuperTypesProperties types (JObj own) n = Some (Inr (JObj merged))"
    and "wf_obj own" and "oget own k = Some v"
  shows "oget merged k = Some v"
  using own_kept [OF assms(1), of k v] assms(2,3) by (auto simp: declares_def)

theorem own_properties_win_witness:
  "\<exists>merged. getSuperTypesProperties (Some sample_types) (JObj [(''age'', JStr ''mine'')]) (JStr ''Pet'') = Some (Inr (JObj merged))
     \<and> oget merged ''age'' = Some (JStr ''mine'')"
proof -
  have s1: "superStep (Some sample_types) (JStr ''Pet'') = Inr (Some (JObj [(''age'', JArr [JObj []])], JStr ''object''))"
    and s2: "superStep (Some sample_types) (JStr ''object'') = Inr None"
    and x: "extend_properties (JObj [(''age'', JArr [JObj []])]) (JObj [(''age'', JStr ''mine'')]) = JObj [(''age'', JStr ''mine'')]"
    by code_simp+
  have g: "getSuperTypesProperties (Some sample_types) (JObj [(''age'', JStr ''mine'')]) (JStr ''Pet'')
      = Some (Inr (JObj [(''age'', JStr ''mine'')]))"
    by (subst getSuperTypesProperties.simps, simp add: s1 x) (subst getSuperTypesProperties.simps, simp add: s2)
  have "oget [(''age'', JStr ''mine'')] ''age'' = Some (JStr ''mine'')"
    by (rule own_properties_win [OF g]) (simp_all add: wf_obj_def oget_def)
  then show ?thesis using g by blast
qed

end
