(* ===== verification/Inspector.thy ===== *)
theory Inspector
  imports Request RamlTypes
begin

text \<open>
  \<open>RAML.Inspector\<close> of \<open>api-console.js\<close>: flattening the resource tree of a RAML document, grouping
  resources by their first path segment, ordering methods, splitting headers into plain and
  parameterised ones, and resolving the security schemes of a method.

  Objects that the code changes in place are returned updated; the security-scheme extractor,
  whose calls change the method and the document, has an explicit state.
\<close>

section \<open>Parameterised headers\<close>

record parameterized_header =
  ph_name :: string
  ph_definition :: jsval

definition header_validate :: "string \<Rightarrow> string res" where
  "header_validate value =
     (let v = trim value in if v = [] then Inl (Thrown []) else Inr v)"

definition clone_fields :: "jsval \<Rightarrow> jsval jsobj" where
  "clone_fields v = (case utils_clone v of JObj ob \<Rightarrow> ob | _ \<Rightarrow> [])"

text \<open>\<open>fromRAML(name, definition).create(value)\<close>: the definition under the rendered name.\<close>

definition header_create :: "parameterized_header \<Rightarrow> string \<Rightarrow> jsval jsobj res" where
  "header_create h value =
     rbind (header_validate value) (\<lambda>v.
     rbind (render (parameterizedString (ph_name h) (ph_definition h) \<lparr>parameterValues = [], encodeURI = False\<rparr>)
              [(''*'', JStr v)]) (\<lambda>name.
       Inr (oset ''displayName'' (JStr name) (clone_fields (ph_definition h)))))"

record method_headers =
  mh_plain :: jsval
  mh_parameterized :: "(string \<times> parameterized_header list) list"

definition wrapWithParameterizedHeader :: "string \<Rightarrow> jsval \<Rightarrow> parameterized_header list res" where
  "wrapWithParameterizedHeader name definitions =
     (case definitions of
        JArr ds \<Rightarrow> Inr (map (\<lambda>d. \<lparr>ph_name = name, ph_definition = d\<rparr>) ds)
      | _ \<Rightarrow> Inl TypeError)"

definition is_parameterized :: "string \<Rightarrow> bool" where
  "is_parameterized key = contains ''{*}'' key"

definition filterHeaders :: "jsval \<Rightarrow> method_headers res" where
  "filterHeaders headers =
     (let es = obj_entries headers;
          plain = filter (\<lambda>(k, v). \<not> is_parameterized k) es
      in rbind (mapR (\<lambda>(k, v). rbind (wrapWithParameterizedHeader k v) (\<lambda>w. Inr (k, w)))
                 (filter (\<lambda>(k, v). is_parameterized k) es)) (\<lambda>ps.
           Inr \<lparr>mh_plain = (if plain = [] then JNull else JObj plain), mh_parameterized = ps\<rparr>))"

section \<open>Methods\<close>

text \<open>Normalising the object under a key, in place.\<close>

definition normalize_field :: "string \<Rightarrow> jsval jsobj \<Rightarrow> jsval jsobj res" where
  "normalize_field k ob =
     (case oget ob k of
        None \<Rightarrow> Inr ob
      | Some v \<Rightarrow> rbind (normalizeNamedParameters v) (\<lambda>w. Inr (oset k w ob)))"

definition normalize_content :: "string \<Rightarrow> jsval jsobj \<Rightarrow> jsval jsobj res" where
  "normalize_content contentType body =
     (case pget body contentType of
        JObj c \<Rightarrow> rbind (normalize_field ''formParameters'' c) (\<lambda>c'. Inr (oset contentType (JObj c') body))
      | _ \<Rightarrow> Inr body)"

definition processBody :: "jsval \<Rightarrow> jsval res" where
  "processBody body = (case body of
       JObj b \<Rightarrow> rbind (normalize_content ''application/x-www-form-urlencoded'' b) (\<lambda>b1.
                 rbind (normalize_content ''multipart/form-data'' b1) (\<lambda>b2. Inr (JObj b2)))
     | _ \<Rightarrow> Inr body)"

definition processResponses :: "jsval \<Rightarrow> jsval res" where
  "processResponses responses = (case responses of
       JObj rs \<Rightarrow> rbind (mapR (\<lambda>(status, r). case r of
            JObj ob \<Rightarrow> rbind (normalize_field ''headers'' ob) (\<lambda>ob'. Inr (status, JObj ob'))
          | _ \<Rightarrow> Inr (status, r)) rs) (\<lambda>rs'. Inr (JObj rs'))
     | _ \<Rightarrow> Inr responses)"

definition update_field :: "string \<Rightarrow> (jsval \<Rightarrow> jsval res) \<Rightarrow> jsval jsobj \<Rightarrow> jsval jsobj res" where
  "update_field k f ob = (case oget ob k of None \<Rightarrow> Inr ob | Some v \<Rightarrow> rbind (f v) (\<lambda>w. Inr (oset k w ob)))"

record inspected_method =
  im_raml :: "jsval jsobj"
  im_responseCodes :: "string list"
  im_headers :: method_headers
  im_plainAndParameterizedHeaders :: "jsval jsobj"

definition method_create :: "jsval jsobj \<Rightarrow> inspected_method res" where
  "method_create raml =
     rbind (normalize_field ''headers'' raml) (\<lambda>m1.
     rbind (normalize_field ''queryParameters'' m1) (\<lambda>m2.
     rbind (filterHeaders (pget m2 ''headers'')) (\<lambda>hs.
     rbind (update_field ''body'' processBody m2) (\<lambda>m3.
     rbind (update_field ''responses'' processResponses m3) (\<lambda>m4.
       Inr \<lparr>im_raml = m4,
            im_responseCodes = keys_or_empty (pget raml ''responses''),
            im_headers = hs,
            im_plainAndParameterizedHeaders =
              fold (\<lambda>(k, ps). oset k (JArr (map ph_definition ps))) (mh_parameterized hs)
                (utils_copy (case mh_plain hs of JObj ob \<Rightarrow> ob | _ \<Rightarrow> []))\<rparr>)))))"

section \<open>Resources\<close>

definition METHOD_ORDERING :: "string list" where
  "METHOD_ORDERING = [''GET'', ''POST'', ''PUT'', ''PATCH'', ''DELETE'', ''HEAD'', ''OPTIONS'', ''TRACE'', ''CONNECT'']"

fun index_in :: "string \<Rightarrow> string list \<Rightarrow> int" where
  "index_in s [] = -1"
| "index_in s (x # xs) = (if s = x then 0 else let i = index_in s xs in if i < 0 then -1 else i + 1)"

definition method_index :: "jsval \<Rightarrow> int res" where
  "method_index m =
     rbind (jget m ''method'') (\<lambda>n. case n of
       JStr s \<Rightarrow> Inr (index_in (upper s) METHOD_ORDERING) | _ \<Rightarrow> Inl TypeError)"

definition method_cmp :: "int \<times> jsval \<Rightarrow> int \<times> jsval \<Rightarrow> int" where
  "method_cmp a b = (if fst a > fst b then 1 else -1)"

text \<open>The comparator is called only if there are two methods to compare.\<close>

definition sort_methods :: "jsval list \<Rightarrow> jsval list res" where
  "sort_methods ms =
     (if length ms < 2 then Inr ms
      else rbind (mapR (\<lambda>m. rbind (method_index m) (\<lambda>i. Inr (i, m))) ms) (\<lambda>ims.
             Inr (map snd (sort_cmp method_cmp ims))))"

record resource_overview =
  ro_resource :: "jsval jsobj"
  ro_pathSegments :: "parameterized_string list"
  ro_methods :: "jsval list"
  ro_uriParameters :: jsval

definition collect_parameters :: "parameterized_string list \<Rightarrow> jsval jsobj" where
  "collect_parameters segs =
     fold (\<lambda>ps acc. fold (\<lambda>(k, v). oset k v) (obj_entries ps) acc)
       (filter truthy (map parameters segs)) []"

definition resourceOverviewSource :: "parameterized_string list \<Rightarrow> jsval jsobj \<Rightarrow> resource_overview res" where
  "resourceOverviewSource pathSegments resource =
     rbind (case js_or (pget resource ''methods'') (JArr []) of JArr ms \<Rightarrow> sort_methods ms | _ \<Rightarrow> Inl TypeError) (\<lambda>ms.
     rbind (normalizeNamedParameters (JObj (collect_parameters pathSegments))) (\<lambda>ups.
       Inr \<lparr>ro_resource = oset ''traits'' (pget resource ''is'') (oset ''resourceType'' (pget resource ''type'')
              (oset ''type'' JUndef (oset ''is'' JUndef resource))),
            ro_pathSegments = pathSegments, ro_methods = ms,
            ro_uriParameters = (if utils_isEmpty ups then JNull else ups)\<rparr>))"

record inspected_resource =
  ir_overview :: resource_overview
  ir_methods :: "inspected_method list"

definition list_field :: "jsval jsobj \<Rightarrow> string \<Rightarrow> jsval list res" where
  "list_field ob k = (case js_or (pget ob k) (JArr []) of JArr vs \<Rightarrow> Inr vs | _ \<Rightarrow> Inl TypeError)"

definition as_object :: "jsval \<Rightarrow> jsval jsobj res" where
  "as_object v = (case v of JObj ob \<Rightarrow> Inr ob | _ \<Rightarrow> Inl TypeError)"

definition inspect_resource :: "parameterized_string list \<Rightarrow> jsval jsobj \<Rightarrow> inspected_resource res" where
  "inspect_resource base resource =
     (case pget resource ''relativeUri'' of
        JStr uri \<Rightarrow>
          (let segs = base @ [createPathSegment uri (pget resource ''uriParameters'')]
           in rbind (resourceOverviewSource segs resource) (\<lambda>ov.
              rbind (mapR (\<lambda>m. rbind (as_object m) method_create) (ro_methods ov)) (\<lambda>ms.
                Inr \<lparr>ir_overview = ov, ir_methods = ms\<rparr>)))
      | _ \<Rightarrow> Inl TypeError)"

lemma size_list_field:
  "list_field ob k = Inr vs \<Longrightarrow> v \<in> set vs \<Longrightarrow> size v < size (JObj ob)"
proof -
  assume a: "list_field ob k = Inr vs" and v: "v \<in> set vs"
  then have "pget ob k = JArr vs"
    by (auto simp: list_field_def js_or_def split: jsval.splits if_splits)
  then have "size (JArr vs) \<le> size_list (size_prod (\<lambda>x. 0) size) ob"
    using size_pget [of ob k] by simp
  then show "size v < size (JObj ob)"
    using size_list_mem [OF v, of size] by simp
qed

text \<open>A resource, then the resources below it, in document order.\<close>

function extractResources :: "parameterized_string list \<Rightarrow> jsval jsobj \<Rightarrow> inspected_resource list res" where
  "extractResources base api =
     (case list_field api ''resources'' of
        Inl e \<Rightarrow> Inl e
      | Inr rs \<Rightarrow>
          rbind (mapR (\<lambda>r. case r of
              JObj ob \<Rightarrow>
                rbind (inspect_resource base ob) (\<lambda>ir.
                rbind (extractResources (ro_pathSegments (ir_overview ir)) ob) (\<lambda>below.
                  Inr (ir # below)))
            | _ \<Rightarrow> Inl TypeError) rs) (\<lambda>rss. Inr (concat rss)))"
  by pat_completeness auto
termination
proof (relation "measure (\<lambda>(base, api). size (JObj api))", goal_cases)
  case (2 base api rs r ob ir)
  then show ?case using size_list_field [of api "''resources''" rs r] by simp
qed simp

declare extractResources.simps [simp del]

text \<open>Resources with the text of their first segment; a group is opened by a new prefix.\<close>

fun group_step :: "(string \<times> 'r) list \<Rightarrow> string option \<Rightarrow> 'r list list \<Rightarrow> 'r list list res" where
  "group_step [] current groups = Inr groups"
| "group_step ((pre, r) # rest) current groups =
     (let cur = (case current of None \<Rightarrow> ''undefined'' | Some c \<Rightarrow> c)
      in if current = Some pre \<or> prefix (cur @ ''/'') pre
         then (if groups = [] then Inl TypeError
               else group_step rest current (butlast groups @ [last groups @ [r]]))
         else group_step rest (Some pre) (groups @ [[r]]))"

definition groupResources :: "(string \<times> 'r) list \<Rightarrow> 'r list list res" where
  "groupResources rs = group_step rs None []"

definition first_segment :: "inspected_resource \<Rightarrow> string res" where
  "first_segment ir = (case ro_pathSegments (ir_overview ir) of [] \<Rightarrow> Inl TypeError | s # _ \<Rightarrow> Inr (template s))"

record inspected_api =
  ia_api :: "jsval jsobj"
  ia_baseUri :: "parameterized_string option"
  ia_resources :: "inspected_resource list"
  ia_groups :: "inspected_resource list list"

definition inspector_create :: "jsval jsobj \<Rightarrow> inspected_api res" where
  "inspector_create api =
     rbind (if \<not> truthy (pget api ''baseUri'') then Inr None
            else case pget api ''baseUri'' of
                JStr u \<Rightarrow> Inr (Some (createBaseUri \<lparr>baseUri = u, baseUriParameters = pget api ''baseUriParameters'',
                                version = pget api ''version''\<rparr>))
              | _ \<Rightarrow> Inl TypeError) (\<lambda>bu.
     rbind (extractResources [] api) (\<lambda>rs.
     rbind (mapR (\<lambda>r. rbind (first_segment r) (\<lambda>p. Inr (p, r))) rs) (\<lambda>prs.
     rbind (groupResources prs) (\<lambda>gs.
       Inr \<lparr>ia_api = api, ia_baseUri = bu, ia_resources = rs, ia_groups = gs\<rparr>))))"

section \<open>Security schemes of a method\<close>

text \<open>
  The state the closures share: the schemes of the document and the \<open>securedBy\<close> list of the
  method. Both grow with every call.
\<close>

record security_state =
  ss_schemes :: "jsval list"
  ss_securedBy :: "jsval list"

fun first_key :: "jsval \<Rightarrow> string" where
  "first_key v = (case map fst (obj_entries v) of [] \<Rightarrow> ''undefined'' | k # _ \<Rightarrow> k)"

definition anonymous_scheme :: jsval where
  "anonymous_scheme = JObj [(''anonymous'', JObj [(''type'', JStr ''Anonymous'')])]"

definition scan_securedBy :: "jsval \<Rightarrow> security_state \<times> jsval jsobj \<Rightarrow> security_state \<times> jsval jsobj" where
  "scan_securedBy el st =
     (if el = JNull then
        ((fst st)\<lparr>ss_schemes := ss_schemes (fst st) @ [anonymous_scheme],
                  ss_securedBy := ss_securedBy (fst st) @ [JStr ''anonymous'']\<rparr>, snd st)
      else if typeof_object el then
        ((fst st)\<lparr>ss_securedBy := ss_securedBy (fst st) @ [JStr (first_key el)]\<rparr>,
         oset (first_key el) (case jget el (first_key el) of Inr v \<Rightarrow> v | Inl e \<Rightarrow> JUndef) (snd st))
      else st)"

definition select_schemes :: "jsval list \<Rightarrow> string list \<Rightarrow> jsval jsobj res" where
  "select_schemes schemes names =
     foldR (\<lambda>scheme sel.
        foldR (\<lambda>name sel. rbind (jget scheme name) (\<lambda>v. Inr (if truthy v then oset name v sel else sel))) names sel)
       schemes []"

text \<open>Overwriting the settings of a selected scheme; one that is not selected throws.\<close>

definition overwrite_setting :: "string \<Rightarrow> string \<times> jsval \<Rightarrow> jsval jsobj \<Rightarrow> jsval jsobj res" where
  "overwrite_setting key prop sel =
     rbind (jget (pget sel key) ''settings'') (\<lambda>settings.
       Inr (case (pget sel key, settings) of
           (JObj scheme, JObj ss) \<Rightarrow> oset key (JObj (oset ''settings'' (JObj (oset (fst prop) (snd prop) ss)) scheme)) sel
         | _ \<Rightarrow> sel))"

definition overwrite_schemes :: "jsval jsobj \<Rightarrow> jsval jsobj \<Rightarrow> jsval jsobj res" where
  "overwrite_schemes overwritten sel =
     foldR (\<lambda>(key, props) sel.
        if nullish props then Inl TypeError
        else foldR (overwrite_setting key) (obj_entries props) sel) (entries overwritten) sel"

definition extract_securitySchemes :: "security_state \<Rightarrow> jsval jsobj res \<times> security_state" where
  "extract_securitySchemes st =
     (let (st', overwritten) = fold scan_securedBy (ss_securedBy st) (st, []);
          names = map to_string (filter (\<lambda>v. v \<noteq> JNull \<and> \<not> typeof_object v) (ss_securedBy st'))
      in (rbind (select_schemes (ss_schemes st') names) (\<lambda>sel.
          rbind (overwrite_schemes overwritten sel) (\<lambda>sel'.
            Inr (if sel' = [] then [(''anonymous'', JObj [(''type'', JStr ''Anonymous'')])] else sel'))), st'))"

definition allowsAnonymousAccess :: "jsval jsobj \<Rightarrow> bool res" where
  "allowsAnonymousAccess method' =
     (case js_or (pget method' ''securedBy'') (JArr [JNull]) of
        JArr vs \<Rightarrow> Inr (JNull \<in> set vs)
      | _ \<Rightarrow> Inl TypeError)"

text \<open>The scheme a form starts with is the first by name.\<close>

definition default_scheme :: "jsval jsobj \<Rightarrow> jsval" where
  "default_scheme schemes = (case js_sort (own_keys schemes) of [] \<Rightarrow> JUndef | k # _ \<Rightarrow> pget schemes k)"

section \<open>Groups of resources\<close>

text \<open>A prefix belongs to the group of another: the same, or a path below it.\<close>

definition belongs :: "string \<Rightarrow> string \<Rightarrow> bool" where
  "belongs cur pre = (pre = cur \<or> prefix (cur @ ''/'') pre)"

definition groups_ok :: "('r \<Rightarrow> string) \<Rightarrow> 'r list list \<Rightarrow> bool" where
  "groups_ok f gs =
     ([] \<notin> set gs \<and> (\<forall>g\<in>set gs. \<forall>r\<in>set g. belongs (f (hd g)) (f r))
      \<and> successively (\<lambda>g h. \<not> belongs (f (hd g)) (f (hd h))) gs)"

lemma successively_snoc:
  "xs \<noteq> [] \<Longrightarrow> successively P (xs @ [x]) \<longleftrightarrow> successively P xs \<and> P (last xs) x"
  by (simp add: successively_append_iff)

lemma groups_ok_extend:
  assumes "groups_ok f gs" and "gs \<noteq> []" and "belongs (f (hd (last gs))) (f r)"
  shows "groups_ok f (butlast gs @ [last gs @ [r]])"
    and "hd (last (butlast gs @ [last gs @ [r]])) = hd (last gs)"
proof -
  obtain bs g where gs: "gs = bs @ [g]" using assms(2) by (metis append_butlast_last_id)
  have g: "g \<noteq> []" using assms(1) gs by (auto simp: groups_ok_def)
  show "hd (last (butlast gs @ [last gs @ [r]])) = hd (last gs)" using g gs by simp
  show "groups_ok f (butlast gs @ [last gs @ [r]])"
    using assms g unfolding gs
    by (cases "bs = []") (auto simp: groups_ok_def successively_snoc)
qed

lemma groups_ok_open:
  "groups_ok f gs \<Longrightarrow> gs \<noteq> [] \<Longrightarrow> \<not> belongs (f (hd (last gs))) (f r) \<Longrightarrow> groups_ok f (gs @ [[r]])"
  by (auto simp: groups_ok_def successively_snoc belongs_def)

lemma group_step_ok:
  assumes "group_step (map (\<lambda>r. (f r, r)) rs) (Some (f (hd (last gs)))) gs = Inr out"
    and "groups_ok f gs" and "gs \<noteq> []"
  shows "concat out = concat gs @ rs \<and> groups_ok f out"
  using assms
proof (induction rs arbitrary: gs)
  case (Cons r rs)
  show ?case
  proof (cases "belongs (f (hd (last gs))) (f r)")
    case True
    let ?gs = "butlast gs @ [last gs @ [r]]"
    have "concat ?gs = concat gs @ [r]"
      using Cons.prems(3) by (metis append_assoc append_butlast_last_id concat.simps concat_append append_Nil2)
    moreover have "group_step (map (\<lambda>r. (f r, r)) rs) (Some (f (hd (last ?gs)))) ?gs = Inr out"
      using True Cons.prems groups_ok_extend(2) [OF Cons.prems(2,3) True]
      by (auto simp: belongs_def Let_def split: if_splits)
    ultimately show ?thesis
      using Cons.IH [of ?gs] groups_ok_extend(1) [OF Cons.prems(2,3) True] by simp
  next
    case False
    then have "group_step (map (\<lambda>r. (f r, r)) rs) (Some (f (hd (last (gs @ [[r]]))))) (gs @ [[r]]) = Inr out"
      using Cons.prems(1) by (auto simp: belongs_def Let_def split: if_splits)
    then show ?thesis
      using Cons.IH [of "gs @ [[r]]"] groups_ok_open [OF Cons.prems(2,3) False] by simp
  qed
qed simp

text \<open>
  C27. Grouping keeps every resource in document order; no group is empty, every member of a group
  has the prefix of its first member or lies below it, and a group ends only where the next
  resource does not belong to it.
\<close>

theorem groupResources_groups:
  assumes "groupResources (map (\<lambda>r. (f r, r)) rs) = Inr gs"
  shows "concat gs = rs \<and> groups_ok f gs"
proof (cases rs)
  case Nil
  then show ?thesis using assms by (auto simp: groupResources_def groups_ok_def)
next
  case (Cons r rest)
  then have "group_step (map (\<lambda>r. (f r, r)) rest) (Some (f (hd (last [[r]])))) [[r]] = Inr gs"
    using assms by (auto simp: groupResources_def Let_def split: if_splits)
  moreover have "groups_ok f [[r]]" by (simp add: groups_ok_def belongs_def)
  ultimately show ?thesis using group_step_ok [of f rest "[[r]]" gs] Cons by simp
qed

theorem groupResources_groups_witness:
  "groupResources (map (\<lambda>r. (id r, r)) [''/a'', ''/a/b'', ''/ab'', ''/a''])
     = Inr [[''/a'', ''/a/b''], [''/ab''], [''/a'']]
   \<and> groups_ok id [[''/a'', ''/a/b''], [''/ab''], [''/a'']]"
proof -
  have g: "groupResources (map (\<lambda>r. (id r, r)) [''/a'', ''/a/b'', ''/ab'', ''/a''])
     = Inr [[''/a'', ''/a/b''], [''/ab''], [''/a'']]"
    by (simp add: groupResources_def Let_def)
  show ?thesis using g groupResources_groups [OF g] by blast
qed

section \<open>Order of methods\<close>

interpretation method_order: comparator method_cmp
  by unfold_locales (auto simp: method_cmp_def split: if_splits)

lemma mapR_snd: "mapR (\<lambda>m. rbind (f m) (\<lambda>i. Inr (i, m))) ms = Inr ims \<Longrightarrow>
    map snd ims = ms \<and> list_all (\<lambda>(i, m). f m = Inr i) ims"
  by (induction ms arbitrary: ims) (auto simp: rbind_eq_Inr split: sum.splits)

text \<open>
  The methods of a resource are listed in the fixed order of HTTP methods, unknown ones
  first; none is lost or repeated.
\<close>

theorem sort_methods_sorted:
  assumes "sort_methods ms = Inr out" and "2 \<le> length ms"
  shows "mset out = mset ms
    \<and> sorted_wrt (\<lambda>a b. \<exists>i j. method_index a = Inr i \<and> method_index b = Inr j \<and> i \<le> j) out"
proof -
  from assms obtain ims where ims: "mapR (\<lambda>m. rbind (method_index m) (\<lambda>i. Inr (i, m))) ms = Inr ims"
    and out: "out = map snd (sort_cmp method_cmp ims)"
    by (auto simp: sort_methods_def rbind_eq_Inr)
  note keys = mapR_snd [OF ims]
  have "mset out = mset ms"
    using keys out by (metis mset_map mset_sort_cmp)
  moreover have "sorted_wrt (\<lambda>a b. \<exists>i j. method_index a = Inr i \<and> method_index b = Inr j \<and> i \<le> j) out"
    unfolding out sorted_wrt_map
  proof (rule sorted_wrt_mono_rel [OF _ method_order.sorted_sort])
    fix x y assume "x \<in> set (sort_cmp method_cmp ims)" "y \<in> set (sort_cmp method_cmp ims)" "method_cmp x y \<le> 0"
    moreover have "method_index (snd z) = Inr (fst z)" if "z \<in> set ims" for z
      using keys that by (auto simp: list_all_iff split: prod.splits)
    ultimately show "\<exists>i j. method_index (snd x) = Inr i \<and> method_index (snd y) = Inr j \<and> i \<le> j"
      by (simp add: method_cmp_def split: if_splits)
  qed
  ultimately show ?thesis by blast
qed

theorem sort_methods_sorted_witness:
  "\<exists>out. sort_methods [JObj [(''method'', JStr ''delete'')], JObj [(''method'', JStr ''get'')]] = Inr out
     \<and> mset out = {# JObj [(''method'', JStr ''delete'')], JObj [(''method'', JStr ''get'')] #}"
proof -
  have s: "sort_methods [JObj [(''method'', JStr ''delete'')], JObj [(''method'', JStr ''get'')]]
      = Inr [JObj [(''method'', JStr ''get'')], JObj [(''method'', JStr ''delete'')]]"
    by code_simp
  show ?thesis using s sort_methods_sorted [OF s] by simp
qed

section \<open>Parameterised header names\<close>

text \<open>
  A header created from a parameterised name carries the trimmed value in place of the
  placeholder and keeps every other field of its definition; a blank value throws.
\<close>

theorem header_create_name:
  assumes "ph_name h = pre @ ''{*}'' @ post" and "CHR ''{'' \<notin> set pre" and "CHR ''{'' \<notin> set post"
    and "trim value \<noteq> []"
  shows "\<exists>ob. header_create h value = Inr ob \<and> pget ob ''displayName'' = JStr (pre @ trim value @ post)
    \<and> (\<forall>k. k \<noteq> ''displayName'' \<longrightarrow> pget ob k = pget (clone_fields (ph_definition h)) k)"
proof -
  have p: "pieces (ph_name h) = [Lit pre, Var ''*'', Lit post]"
    using pieces_step [OF assms(2), of "''*''" post] assms(1,3) by (simp add: pieces_no_open)
  have "template (parameterizedString (ph_name h) d \<lparr>parameterValues = [], encodeURI = False\<rparr>) = ph_name h" for d
    by (simp only: parameterizedString_def p) (simp add: fill_defaults_def assms(1) Let_def)
  then have "render (parameterizedString (ph_name h) d \<lparr>parameterValues = [], encodeURI = False\<rparr>) [(''*'', JStr (trim value))]
      = Inr (pre @ trim value @ post)" for d
    using assms(4) by (cases "trim value") (simp_all add: render_def replace_vars_def p render_var_def pget_def oget_def)
  then show ?thesis
    using assms(4) by (simp add: header_create_def header_validate_def)
qed

theorem header_create_name_witness:
  "\<exists>ob. header_create \<lparr>ph_name = ''X-{*}-Id'', ph_definition = JObj [(''type'', JStr ''string'')]\<rparr> '' Meta '' = Inr ob
     \<and> pget ob ''displayName'' = JStr ''X-Meta-Id'' \<and> pget ob ''type'' = JStr ''string''"
proof -
  have t: "trim '' Meta '' = ''Meta''" by code_simp
  have c: "pget (clone_fields (JObj [(''type'', JStr ''string'')])) ''type'' = JStr ''string''" by code_simp
  obtain ob where "header_create \<lparr>ph_name = ''X-{*}-Id'', ph_definition = JObj [(''type'', JStr ''string'')]\<rparr> '' Meta '' = Inr ob"
    "pget ob ''displayName'' = JStr (''X-'' @ trim '' Meta '' @ ''-Id'')"
    "\<forall>k. k \<noteq> ''displayName'' \<longrightarrow> pget ob k = pget (clone_fields (JObj [(''type'', JStr ''string'')])) k"
    using header_create_name [of "\<lparr>ph_name = ''X-{*}-Id'', ph_definition = JObj [(''type'', JStr ''string'')]\<rparr>" "''X-''" "''-Id''" "'' Meta ''"]
    by (auto simp: t)
  then show ?thesis by (simp add: t c)
qed

section \<open>Repeated extraction of security schemes\<close>

definition added_names :: "jsval list \<Rightarrow> jsval list" where
  "added_names vs = map (\<lambda>v. JStr (if v = JNull then ''anonymous'' else first_key v)) (filter typeof_object vs)"

definition anonymous_copies :: "jsval list \<Rightarrow> jsval list" where
  "anonymous_copies vs = map (\<lambda>v. anonymous_scheme) (filter (\<lambda>v. v = JNull) vs)"

definition overwritten_of :: "jsval list \<Rightarrow> jsval jsobj \<Rightarrow> jsval jsobj" where
  "overwritten_of vs ov = fold (\<lambda>el ov. if el \<noteq> JNull \<and> typeof_object el
     then oset (first_key el) (case jget el (first_key el) of Inr v \<Rightarrow> v | Inl e \<Rightarrow> JUndef) ov else ov) vs ov"

lemma scan_all:
  "fold scan_securedBy vs (st, ov) =
     (\<lparr>ss_schemes = ss_schemes st @ anonymous_copies vs, ss_securedBy = ss_securedBy st @ added_names vs\<rparr>,
      overwritten_of vs ov)"
proof (induction vs arbitrary: st ov)
  case Nil
  then show ?case by (simp add: anonymous_copies_def added_names_def overwritten_of_def)
next
  case (Cons v vs)
  then show ?case
    by (auto simp: scan_securedBy_def anonymous_copies_def added_names_def overwritten_of_def)
qed

lemma added_plain [simp]:
  "filter typeof_object (added_names vs) = []" "anonymous_copies (added_names vs) = []"
  "added_names (us @ added_names vs) = added_names us" "anonymous_copies (us @ added_names vs) = anonymous_copies us"
  by (auto simp: added_names_def anonymous_copies_def filter_empty_conv)

lemma length_added: "length (added_names vs) = length (filter typeof_object vs)"
  by (simp add: added_names_def)

lemma overwritten_added: "overwritten_of (us @ added_names vs) ov = overwritten_of us ov"
proof -
  have "overwritten_of (added_names vs) o2 = o2" for o2
  proof -
    have "fold (\<lambda>el ov. if el \<noteq> JNull \<and> typeof_object el
       then oset (first_key el) (case jget el (first_key el) of Inr v \<Rightarrow> v | Inl e \<Rightarrow> JUndef) ov else ov) ws o2 = o2"
      if "filter typeof_object ws = []" for ws
      using that by (induction ws) (auto split: if_splits)
    then show ?thesis by (simp add: overwritten_of_def)
  qed
  then show ?thesis by (simp add: overwritten_of_def)
qed

lemma oset_same: "oget ob k = Some v \<Longrightarrow> oset k v ob = ob"
  by (induction ob) (auto simp: oget_def oset_def split: if_splits)

definition select_step :: "jsval \<Rightarrow> string \<Rightarrow> jsval jsobj \<Rightarrow> jsval jsobj res" where
  "select_step scheme name sel = rbind (jget scheme name) (\<lambda>v. Inr (if truthy v then oset name v sel else sel))"

text \<open>A selection that has everything a scheme offers under the names.\<close>

definition settled :: "string list \<Rightarrow> jsval \<Rightarrow> jsval jsobj \<Rightarrow> bool" where
  "settled names scheme sel =
     (\<forall>n\<in>set names. \<exists>v. jget scheme n = Inr v \<and> (truthy v \<longrightarrow> oget sel n = Some v))"

lemma select_step_id:
  "settled names scheme sel \<Longrightarrow> foldR (select_step scheme) names sel = Inr sel"
  by (induction names) (auto simp: settled_def select_step_def oset_same)

lemma select_step_settles:
  "foldR (select_step scheme) names sel = Inr out \<Longrightarrow> settled names scheme out"
proof (induction names arbitrary: sel out rule: rev_induct)
  case Nil
  then show ?case by (simp add: settled_def)
next
  case (snoc n ns)
  then obtain mid where mid: "foldR (select_step scheme) ns sel = Inr mid"
    and n: "foldR (select_step scheme) [n] mid = Inr out"
    by (auto simp only: foldR_append rbind_eq_Inr)
  from n obtain v where v: "jget scheme n = Inr v" and out: "out = (if truthy v then oset n v mid else mid)"
    by (auto simp: select_step_def rbind_eq_Inr split: sum.splits)
  from snoc.IH [OF mid] have "settled ns scheme mid" .
  then show ?case using v out by (auto simp: settled_def)
qed

lemma foldR_repeat:
  assumes "set extra \<subseteq> set names"
  shows "foldR (select_step scheme) (names @ extra) sel = foldR (select_step scheme) names sel"
proof (cases "foldR (select_step scheme) names sel")
  case (Inr out)
  then have "settled extra scheme out"
    using select_step_settles [OF Inr] assms by (auto simp: settled_def)
  then show ?thesis using Inr by (simp add: foldR_append select_step_id)
qed (simp add: foldR_append)

lemma foldR_replicate_same:
  assumes "set copies \<subseteq> {c}" and "last schemes = c" and "schemes \<noteq> []"
  shows "foldR (\<lambda>sc sel. foldR (select_step sc) names sel) (schemes @ copies) sel
    = foldR (\<lambda>sc sel. foldR (select_step sc) names sel) schemes sel"
proof -
  obtain ss where ss: "schemes = ss @ [c]" using assms(2,3) by (metis append_butlast_last_id)
  have rep: "settled names c out \<Longrightarrow> foldR (\<lambda>sc sel. foldR (select_step sc) names sel) copies out = Inr out" for out
    using assms(1) by (induction copies) (auto simp: select_step_id)
  show ?thesis
    unfolding ss
    by (cases "foldR (\<lambda>sc sel. foldR (select_step sc) names sel) ss sel")
       (auto simp: foldR_append rep dest: select_step_settles split: sum.splits)
qed

lemma select_schemes_eq:
  "select_schemes schemes names = foldR (\<lambda>sc sel. foldR (select_step sc) names sel) schemes []"
  unfolding select_schemes_def by (intro foldR_cong refl) (simp_all add: select_step_def)

definition plain_names :: "jsval list \<Rightarrow> string list" where
  "plain_names vs = map to_string (filter (\<lambda>v. v \<noteq> JNull \<and> \<not> typeof_object v) vs)"

lemma extract_eq:
  "extract_securitySchemes st =
     (let schemes = ss_schemes st @ anonymous_copies (ss_securedBy st);
          secured = ss_securedBy st @ added_names (ss_securedBy st)
      in (rbind (select_schemes schemes (plain_names secured)) (\<lambda>sel.
          rbind (overwrite_schemes (overwritten_of (ss_securedBy st) []) sel) (\<lambda>sel'.
            Inr (if sel' = [] then [(''anonymous'', JObj [(''type'', JStr ''Anonymous'')])] else sel'))),
          \<lparr>ss_schemes = schemes, ss_securedBy = secured\<rparr>))"
  by (simp add: extract_securitySchemes_def scan_all plain_names_def Let_def)

text \<open>
  Asking for the security schemes of a method again gives the same answer, although every
  call appends to the method's \<open>securedBy\<close> one name for each \<open>null\<close> or overriding entry it has.
\<close>

theorem security_result_stable:
  "fst (extract_securitySchemes (snd (extract_securitySchemes st))) = fst (extract_securitySchemes st)
   \<and> length (ss_securedBy (snd (extract_securitySchemes st)))
     = length (ss_securedBy st) + length (filter typeof_object (ss_securedBy st))"
proof -
  let ?vs = "ss_securedBy st"
  let ?schemes = "ss_schemes st @ anonymous_copies ?vs" and ?names = "plain_names (?vs @ added_names ?vs)"
  have "plain_names (added_names ?vs) = map to_string (added_names ?vs)"
    by (auto simp: plain_names_def added_names_def intro!: arg_cong [where f = "map to_string"] filter_True)
  then have names: "plain_names ((?vs @ added_names ?vs) @ added_names ?vs) = ?names @ plain_names (added_names ?vs)"
    and sub: "set (plain_names (added_names ?vs)) \<subseteq> set ?names"
    by (auto simp: plain_names_def)
  have inner: "foldR (select_step sc) (?names @ plain_names (added_names ?vs)) sel = foldR (select_step sc) ?names sel" for sc sel
    by (rule foldR_repeat [OF sub])
  have "select_schemes (?schemes @ anonymous_copies ?vs) (?names @ plain_names (added_names ?vs)) = select_schemes ?schemes ?names"
  proof (cases "anonymous_copies ?vs = []")
    case True
    then show ?thesis by (simp add: select_schemes_eq inner)
  next
    case False
    have c: "set (anonymous_copies ?vs) \<subseteq> {anonymous_scheme}" by (auto simp: anonymous_copies_def)
    then have "last ?schemes = anonymous_scheme" using False by (metis last_appendR last_in_set singletonD subsetD)
    from foldR_replicate_same [OF c this] False show ?thesis
      by (simp add: select_schemes_eq inner)
  qed
  then show ?thesis
    using names by (simp add: extract_eq Let_def overwritten_added [of ?vs ?vs "[]"] length_added)
qed

section \<open>Paths of extracted resources\<close>

lemma inspect_resource_path:
  "inspect_resource base ob = Inr ir \<Longrightarrow>
   \<exists>uri. pget ob ''relativeUri'' = JStr uri
     \<and> ro_pathSegments (ir_overview ir) = base @ [createPathSegment uri (pget ob ''uriParameters'')]"
  by (auto simp: inspect_resource_def resourceOverviewSource_def rbind_eq_Inr Let_def split: jsval.splits)

text \<open>
  Every resource the inspector lists below a base path has that path followed by at least one
  segment of its own, so grouping by the first segment never reads a missing one.
\<close>

theorem extractResources_paths:
  assumes "extractResources base api = Inr rs" and "r \<in> set rs"
  shows "\<exists>segs. segs \<noteq> [] \<and> ro_pathSegments (ir_overview r) = base @ segs"
  using assms
proof (induction base api arbitrary: rs r rule: extractResources.induct)
  case (1 base api)
  from "1.prems"(1) obtain vs rss where vs: "list_field api ''resources'' = Inr vs"
    and m: "mapR (\<lambda>r. case r of
              JObj ob \<Rightarrow>
                rbind (inspect_resource base ob) (\<lambda>ir.
                rbind (extractResources (ro_pathSegments (ir_overview ir)) ob) (\<lambda>below.
                  Inr (ir # below)))
            | _ \<Rightarrow> Inl TypeError) vs = Inr rss" and rs: "rs = concat rss"
    by (subst (asm) extractResources.simps) (auto simp: rbind_eq_Inr split: sum.splits)
  from "1.prems"(2) rs obtain out where out: "out \<in> set rss" "r \<in> set out" by auto
  from mapR_Inr_set [OF m out(1)] obtain x where x: "x \<in> set vs"
    and xo: "(case x of JObj ob \<Rightarrow>
                rbind (inspect_resource base ob) (\<lambda>ir.
                rbind (extractResources (ro_pathSegments (ir_overview ir)) ob) (\<lambda>below. Inr (ir # below)))
            | _ \<Rightarrow> Inl TypeError) = Inr out" by blast
  then obtain ob ir below where v: "JObj ob \<in> set vs"
    and ir: "inspect_resource base ob = Inr ir"
    and below: "extractResources (ro_pathSegments (ir_overview ir)) ob = Inr below"
    and o: "out = ir # below"
    by (cases x rule: jsval.exhaust) (auto simp: rbind_eq_Inr)
  obtain uri where p: "ro_pathSegments (ir_overview ir) = base @ [createPathSegment uri (pget ob ''uriParameters'')]"
    using inspect_resource_path [OF ir] by blast
  show ?case
  proof (cases "r = ir")
    case True
    then show ?thesis using p by blast
  next
    case False
    then have "r \<in> set below" using o out(2) by simp
    from "1.IH" [OF vs v refl ir below this] p show ?thesis by (metis append.assoc append_is_Nil_conv not_Cons_self2)
  qed
qed

definition sample_api :: "jsval jsobj" where
  "sample_api = [(''resources'', JArr [JObj [(''relativeUri'', JStr ''/a''),
     (''resources'', JArr [JObj [(''relativeUri'', JStr ''/b'')]])]])]"

theorem extractResources_paths_witness:
  "\<exists>rs r segs. extractResources [] sample_api = Inr rs \<and> r \<in> set rs \<and> segs \<noteq> []
     \<and> ro_pathSegments (ir_overview r) = [] @ segs"
proof -
  have "(case extractResources [] sample_api of Inr rs \<Rightarrow> length rs = 2 | Inl e \<Rightarrow> False)"
    by code_simp
  then obtain rs where rs: "extractResources [] sample_api = Inr rs" "length rs = 2"
    by (auto split: sum.splits)
  then have m: "rs ! 1 \<in> set rs" by simp
  from extractResources_paths [OF rs(1) m] rs(1) m show ?thesis by blast
qed

end
