(* ===== verification/Loader.thy ===== *)
theory Loader
  imports Inspector Request
begin

text \<open>
  How a document gets into the console in \<open>api-console.js\<close>: the settings of the page, the service
  \<open>ramlParser\<close>, the directives \<open>ramlInitializer\<close> (a form that loads documents again and again) and
  \<open>ramlConsoleLoader\<close> (one document), and the flags of \<open>ramlConsole\<close>.

  A promise of the parser is an external event that settles with a value or an error. Each load hangs
  three callbacks on its promise; they run in their order, and those of different loads may interleave.
  The parser itself and \<open>resolveUrl\<close> are parameters.
\<close>

section \<open>Settings of the page\<close>

definition page_uri :: "string \<Rightarrow> string \<Rightarrow> string \<Rightarrow> string" where
  "page_uri scheme host pathname =
     scheme @ ''//'' @ host @ (if pathname \<noteq> [] \<and> last pathname = CHR ''/'' then butlast pathname else pathname)"

definition redirect_uri :: "string option \<Rightarrow> string \<Rightarrow> string \<Rightarrow> string" where
  "redirect_uri configured uri page =
     (case configured of Some (c # cs) \<Rightarrow> c # cs | _ \<Rightarrow> uri @ ''/authentication/'' @ page @ ''.html'')"

definition oauth2RedirectUri :: "string option \<Rightarrow> string \<Rightarrow> string" where
  "oauth2RedirectUri configured uri = redirect_uri configured uri ''oauth2''"

definition oauth1RedirectUri :: "string option \<Rightarrow> string \<Rightarrow> string" where
  "oauth1RedirectUri configured uri = redirect_uri configured uri ''oauth1''"

text \<open>The flags an attribute of the element or an option switches on.\<close>

definition flag_names :: "string list" where
  "flag_names = [''allowUnsafeMarkdown'', ''disableRamlClientGenerator'', ''disableThemeSwitcher'', ''disableTitle'',
     ''disableTryIt'', ''documentationCollapsed'', ''resourcesCollapsed'', ''singleView'']"

definition console_flags :: "string list \<Rightarrow> jsval \<Rightarrow> string list" where
  "console_flags attrs given =
     filter (\<lambda>f. f \<in> set attrs \<or> (truthy given \<and> truthy (pget (obj_entries given) f))) flag_names"

section \<open>The service ramlParser\<close>

text \<open>The content of a path: \<open>Inl\<close> is a promise rejected with an error of that message.\<close>

definition no_such_path :: "string \<Rightarrow> string \<Rightarrow> string" where
  "no_such_path caller path = ''ramlParser: '' @ caller @ '': contentAsync: '' @ path @ '': no such path''"

definition virtual_path :: "nat \<Rightarrow> string" where
  "virtual_path now = ''/'' @ show_nat now @ ''.raml''"

definition load_content :: "nat \<Rightarrow> string \<Rightarrow> (string \<Rightarrow> string + string) option \<Rightarrow> string \<Rightarrow> string + string" where
  "load_content now text' contentAsyncFn path =
     (if path = virtual_path now then Inr text'
      else (case contentAsyncFn of Some f \<Rightarrow> f path | None \<Rightarrow> Inl (no_such_path ''load'' path)))"

definition loadPath_content :: "(string \<Rightarrow> string + string) option \<Rightarrow> string \<Rightarrow> string + string" where
  "loadPath_content contentAsyncFn path =
     (case contentAsyncFn of Some f \<Rightarrow> f path | None \<Rightarrow> Inl (no_such_path ''loadPath'' path))"

text \<open>Documents on other servers are fetched through the proxy, unless that is switched off.\<close>

record resource_request =
  rq_method :: string
  rq_url :: string
  rq_headers :: "string jsobj"

definition getResourceAsync :: "bool \<Rightarrow> settings \<Rightarrow> string \<Rightarrow> resource_request" where
  "getResourceAsync bypassProxy st url =
     \<lparr>rq_method = ''GET'',
      rq_url = (if bypassProxy then [] else case proxy st of Some p \<Rightarrow> p | None \<Rightarrow> []) @ url,
      rq_headers = [(''Accept'', ''application/raml+yaml'')]\<rparr>"

text \<open>The object the promise resolves with: that of the document, with those of its libraries by their keys.\<close>

definition api_json :: "jsval jsobj \<Rightarrow> (string \<times> jsval) list option \<Rightarrow> jsval jsobj" where
  "api_json api libraries =
     (case libraries of None \<Rightarrow> api
      | Some us \<Rightarrow> oset ''uses'' (JObj (fold (\<lambda>(k, v). oset k v) us [])) api)"

section \<open>Loading from the form\<close>

datatype load_result = Resolve jsval | Reject jsval
datatype load_source = Path string | Text string
datatype load_stage = Waiting | Settled load_result | Handled | Finished

record load_chain =
  lc_source :: load_source
  lc_stage :: load_stage

text \<open>The state of the form. \<open>iv_lint\<close> is the error whose annotations the editor shows.\<close>

record init_vm =
  iv_error :: jsval
  iv_raml :: jsval
  iv_isLoading :: bool
  iv_isLoadedFromUrl :: jsval
  iv_lint :: "jsval option"
  iv_ramlUrl :: jsval
  iv_ramlString :: jsval
  iv_chains :: "load_chain list"

definition init_vm_start :: init_vm where
  "init_vm_start = \<lparr>iv_error = JNull, iv_raml = JNull, iv_isLoading = False, iv_isLoadedFromUrl = JBool False,
     iv_lint = None, iv_ramlUrl = JUndef, iv_ramlString = JUndef, iv_chains = []\<rparr>"

definition loadFromPromise :: "load_source \<Rightarrow> init_vm \<Rightarrow> init_vm" where
  "loadFromPromise src s =
     s\<lparr>iv_error := JNull, iv_raml := JNull, iv_isLoading := True, iv_isLoadedFromUrl := JBool False, iv_lint := None,
       iv_chains := iv_chains s @ [\<lparr>lc_source = src, lc_stage = Waiting\<rparr>]\<rparr>"

definition loadFromUrl :: "(string \<Rightarrow> string) \<Rightarrow> string \<Rightarrow> init_vm \<Rightarrow> init_vm" where
  "loadFromUrl resolveUrl url s = loadFromPromise (Path (resolveUrl url)) (s\<lparr>iv_ramlUrl := JStr url\<rparr>)"

definition loadFromString :: "string \<Rightarrow> init_vm \<Rightarrow> init_vm" where
  "loadFromString text' s = loadFromPromise (Text text') (s\<lparr>iv_ramlString := JStr text'\<rparr>)"

text \<open>The query of the page may name a document; it is used as it is written there.\<close>

definition raml_of_search :: "string \<Rightarrow> string option" where
  "raml_of_search search =
     (if contains ''?raml='' search then Some (replace_first ''?raml='' [] search) else None)"

definition initializer_activate :: "(string \<Rightarrow> string) \<Rightarrow> string \<Rightarrow> init_vm" where
  "initializer_activate resolveUrl search =
     (case raml_of_search search of Some url \<Rightarrow> loadFromUrl resolveUrl url init_vm_start | None \<Rightarrow> init_vm_start)"

text \<open>The callback of \<open>then\<close>, or that of \<open>catch\<close>.\<close>

definition load_handled :: "load_result \<Rightarrow> init_vm \<Rightarrow> init_vm" where
  "load_handled out s = (case out of
       Resolve v \<Rightarrow> s\<lparr>iv_raml := v\<rparr>
     | Reject e \<Rightarrow> s\<lparr>iv_error := e, iv_lint := Some e\<rparr>)"

text \<open>\<open>options.isLoadingFromUrl\<close>: no option is given for a text.\<close>

definition isLoadingFromUrl :: "load_source \<Rightarrow> jsval" where
  "isLoadingFromUrl src = (case src of Path p \<Rightarrow> JBool True | Text t \<Rightarrow> JUndef)"

definition load_finally :: "load_source \<Rightarrow> init_vm \<Rightarrow> init_vm" where
  "load_finally src s = s\<lparr>iv_isLoading := False, iv_isLoadedFromUrl := isLoadingFromUrl src\<rparr>"

datatype load_event = LoadUrl string | LoadString string | Settle nat load_result | Handle nat | Finally nat

definition advance :: "nat \<Rightarrow> load_stage \<Rightarrow> init_vm \<Rightarrow> init_vm" where
  "advance i st s = s\<lparr>iv_chains := (iv_chains s)[i := (iv_chains s ! i)\<lparr>lc_stage := st\<rparr>]\<rparr>"

fun init_do :: "(string \<Rightarrow> string) \<Rightarrow> load_event \<Rightarrow> init_vm \<Rightarrow> init_vm option" where
  "init_do resolveUrl (LoadUrl url) s = Some (loadFromUrl resolveUrl url s)"
| "init_do resolveUrl (LoadString t) s = Some (loadFromString t s)"
| "init_do resolveUrl (Settle i out) s =
     (if i < length (iv_chains s) \<and> lc_stage (iv_chains s ! i) = Waiting then Some (advance i (Settled out) s) else None)"
| "init_do resolveUrl (Handle i) s =
     (if i < length (iv_chains s) then
        (case lc_stage (iv_chains s ! i) of Settled out \<Rightarrow> Some (load_handled out (advance i Handled s)) | _ \<Rightarrow> None)
      else None)"
| "init_do resolveUrl (Finally i) s =
     (if i < length (iv_chains s) \<and> lc_stage (iv_chains s ! i) = Handled
      then Some (load_finally (lc_source (iv_chains s ! i)) (advance i Finished s)) else None)"

fun init_run :: "(string \<Rightarrow> string) \<Rightarrow> load_event list \<Rightarrow> init_vm \<Rightarrow> init_vm option" where
  "init_run resolveUrl [] s = Some s"
| "init_run resolveUrl (e # es) s = Option.bind (init_do resolveUrl e s) (init_run resolveUrl es)"

text \<open>The annotations the editor shows for an error.\<close>

record lint_mark =
  lm_message :: jsval
  lm_severity :: string
  lm_line :: jsval

definition annotation :: "jsval \<Rightarrow> lint_mark res" where
  "annotation e =
     rbind (jget e ''message'') (\<lambda>message. rbind (jget e ''isWarning'') (\<lambda>w. rbind (jget e ''line'') (\<lambda>line.
       Inr \<lparr>lm_message = message, lm_severity = (if truthy w then ''warning'' else ''error''), lm_line = line\<rparr>)))"

definition lintFromError :: "jsval \<Rightarrow> lint_mark list res" where
  "lintFromError error' =
     rbind (jget error' ''parserErrors'') (\<lambda>pe.
       case js_or pe (JArr []) of JArr es \<Rightarrow> mapR annotation es | _ \<Rightarrow> Inl TypeError)"

section \<open>Loading one document\<close>

record loader_vm =
  lv_error :: jsval
  lv_loaded :: bool
  lv_raml :: jsval
  lv_request :: "string option"

text \<open>\<open>loadFromUrl\<close> of \<open>RamlConsoleLoaderController\<close>, with the path asked of the parser.\<close>

definition loader_loadFromUrl :: "(string \<Rightarrow> string) \<Rightarrow> string \<Rightarrow> loader_vm" where
  "loader_loadFromUrl resolveUrl url =
     \<lparr>lv_error = JUndef, lv_loaded = False, lv_raml = JUndef, lv_request = Some (resolveUrl url)\<rparr>"

definition error_buffer :: "jsval \<Rightarrow> jsval res" where
  "error_buffer e =
     rbind (jget e ''context_mark'') (\<lambda>c. rbind (jget e ''problem_mark'') (\<lambda>p. jget (js_or c p) ''buffer''))"

text \<open>The callbacks: what \<open>catch\<close> throws rejects the last promise, which nobody looks at.\<close>

definition loader_handled :: "load_result \<Rightarrow> loader_vm \<Rightarrow> js_exn option \<times> loader_vm" where
  "loader_handled out s = (case out of
       Resolve v \<Rightarrow> (None, s\<lparr>lv_raml := v\<rparr>)
     | Reject e \<Rightarrow> (case rbind (error_buffer e) (\<lambda>b. rbind (as_object e) (\<lambda>ob. Inr (JObj (oset ''buffer'' b ob)))) of
           Inl ex \<Rightarrow> (Some ex, s)
         | Inr e' \<Rightarrow> (None, s\<lparr>lv_error := e'\<rparr>)))"

definition loader_settle :: "load_result \<Rightarrow> loader_vm \<Rightarrow> js_exn option \<times> loader_vm" where
  "loader_settle out s = (case loader_handled out s of (ex, s') \<Rightarrow> (ex, s'\<lparr>lv_loaded := True\<rparr>))"

section \<open>Lemmas\<close>

text \<open>The steps the loads under way still take.\<close>

fun stage_work :: "load_stage \<Rightarrow> nat" where
  "stage_work Waiting = 3"
| "stage_work (Settled out) = 2"
| "stage_work Handled = 1"
| "stage_work Finished = 0"

definition load_work :: "init_vm \<Rightarrow> nat" where
  "load_work s = sum_list (map (\<lambda>c. stage_work (lc_stage c)) (iv_chains s))"

fun begins_load :: "load_event \<Rightarrow> bool" where
  "begins_load (LoadUrl url) = True"
| "begins_load (LoadString t) = True"
| "begins_load _ = False"

lemma load_work_0: "load_work s = 0 \<longleftrightarrow> (\<forall>c\<in>set (iv_chains s). lc_stage c = Finished)"
proof -
  have "stage_work st = 0 \<longleftrightarrow> st = Finished" for st by (cases st) simp_all
  then show ?thesis by (auto simp: load_work_def)
qed

lemma chains_steps [simp]:
  "iv_chains (load_handled out s) = iv_chains s" "iv_chains (load_finally src s) = iv_chains s"
  "iv_isLoading (load_handled out s) = iv_isLoading s" "\<not> iv_isLoading (load_finally src s)"
  "iv_isLoading (advance i st s) = iv_isLoading s"
  by (simp_all add: load_handled_def load_finally_def advance_def split: load_result.splits)

lemma load_work_steps [simp]:
  "load_work (load_handled out s) = load_work s" "load_work (load_finally src s) = load_work s"
  by (simp_all add: load_work_def)

lemma load_work_advance:
  assumes "i < length (iv_chains s)" and "stage_work st < stage_work (lc_stage (iv_chains s ! i))"
  shows "load_work (advance i st s) < load_work s"
proof -
  let ?f = "\<lambda>c. stage_work (lc_stage c)" and ?cs = "iv_chains s"
  have split: "sum_list (map ?f ?cs) = sum_list (map ?f (take i ?cs)) + (?f (?cs ! i) + sum_list (map ?f (drop (Suc i) ?cs)))"
    using id_take_nth_drop [OF assms(1)] by (metis map_append list.simps(9) sum_list.append sum_list.Cons)
  have "sum_list (map ?f (?cs[i := c])) = sum_list (map ?f (take i ?cs)) + (?f c + sum_list (map ?f (drop (Suc i) ?cs)))" for c
    using assms(1) by (simp add: upd_conv_take_nth_drop)
  then show ?thesis using split assms(2) by (simp add: load_work_def advance_def)
qed

lemma load_work_pending:
  assumes "i < length (iv_chains s)" and "st \<noteq> Finished"
  shows "load_work (advance i st s) > 0"
proof -
  have "(iv_chains s ! i)\<lparr>lc_stage := st\<rparr> \<in> set (iv_chains (advance i st s))"
    using assms(1) by (simp add: advance_def set_update_memI)
  then show ?thesis using load_work_0 [of "advance i st s"] assms(2) by fastforce
qed

lemma load_event_work:
  assumes "init_do resolveUrl e s = Some s'" and "\<not> begins_load e"
  shows "load_work s' < load_work s"
  using assms by (cases e) (auto split: if_splits load_stage.splits intro!: load_work_advance)

lemma load_event_enabled:
  assumes "load_work s > 0"
  shows "\<exists>e s'. \<not> begins_load e \<and> init_do resolveUrl e s = Some s'"
proof -
  obtain c where "c \<in> set (iv_chains s)" "lc_stage c \<noteq> Finished" using assms load_work_0 [of s] by auto
  then obtain i where i: "i < length (iv_chains s)" "lc_stage (iv_chains s ! i) \<noteq> Finished"
    by (auto simp: in_set_conv_nth)
  show ?thesis
  proof (cases "lc_stage (iv_chains s ! i)")
    case Waiting
    then show ?thesis using i by (intro exI [of _ "Settle i (Resolve JNull)"]) simp
  next
    case (Settled out)
    then show ?thesis using i by (intro exI [of _ "Handle i"]) simp
  next
    case Handled
    then show ?thesis using i by (intro exI [of _ "Finally i"]) simp
  qed (use i in simp)
qed

lemma load_event_loading:
  assumes "init_do resolveUrl e s = Some s'" and "iv_isLoading s \<longrightarrow> load_work s > 0"
  shows "iv_isLoading s' \<longrightarrow> load_work s' > 0"
proof (cases e)
  case (Settle i out)
  then show ?thesis
    using assms(1) by (auto simp: load_work_pending split: if_splits)
next
  case (Handle i)
  then obtain out where "i < length (iv_chains s)" "s' = load_handled out (advance i Handled s)"
    using assms(1) by (auto split: if_splits load_stage.splits)
  then show ?thesis by (simp add: load_work_pending)
next
  case (Finally i)
  then show ?thesis using assms(1) by (auto split: if_splits)
qed (use assms(1) in \<open>auto simp: loadFromUrl_def loadFromString_def loadFromPromise_def load_work_def\<close>)

lemma load_run_loading:
  "init_run resolveUrl es s = Some s' \<Longrightarrow> iv_isLoading s \<longrightarrow> load_work s > 0 \<Longrightarrow> iv_isLoading s' \<longrightarrow> load_work s' > 0"
proof (induction es arbitrary: s)
  case (Cons e es)
  then obtain t where "init_do resolveUrl e s = Some t" "init_run resolveUrl es t = Some s'"
    by (auto split: Option.bind_splits)
  then show ?case using Cons.IH load_event_loading Cons.prems(2) by metis
qed simp

text \<open>
  C36. The form never stays in the state of loading: each callback of the loads under way takes one step
  off their work, while there is work a callback can run or a promise can settle, and once there is none
  the form is not loading.
\<close>

theorem loading_ends:
  assumes "init_run resolveUrl es init_vm_start = Some s"
  shows "(load_work s = 0 \<longrightarrow> \<not> iv_isLoading s)
    \<and> (\<forall>e s'. \<not> begins_load e \<and> init_do resolveUrl e s = Some s' \<longrightarrow> load_work s' < load_work s)
    \<and> (load_work s > 0 \<longrightarrow> (\<exists>e s'. \<not> begins_load e \<and> init_do resolveUrl e s = Some s'))"
  using load_run_loading [OF assms] load_event_work load_event_enabled by (auto simp: init_vm_start_def)

theorem loading_ends_witness:
  "\<exists>s. init_run id [LoadString ''a'', LoadUrl ''b'', Settle 0 (Resolve JNull), Handle 0] init_vm_start = Some s
    \<and> load_work s = 4 \<and> (\<exists>e s'. \<not> begins_load e \<and> init_do id e s = Some s')"
proof -
  let ?run = "init_run id [LoadString ''a'', LoadUrl ''b'', Settle 0 (Resolve JNull), Handle 0] init_vm_start"
  have "map_option load_work ?run = Some 4" by code_simp
  then obtain s where s: "?run = Some s" "load_work s = 4" by (cases ?run) auto
  then show ?thesis using loading_ends [OF s(1)] by auto
qed


text \<open>One load run to its end.\<close>

definition run_load :: "(string \<Rightarrow> string) \<Rightarrow> load_event \<Rightarrow> load_result \<Rightarrow> init_vm \<Rightarrow> init_vm option" where
  "run_load resolveUrl e out s =
     (let n = length (iv_chains s) in init_run resolveUrl [e, Settle n out, Handle n, Finally n] s)"

definition event_source :: "(string \<Rightarrow> string) \<Rightarrow> load_event \<Rightarrow> load_source" where
  "event_source resolveUrl e = (case e of LoadUrl url \<Rightarrow> Path (resolveUrl url) | LoadString t \<Rightarrow> Text t | _ \<Rightarrow> Text [])"

lemma run_loadFromPromise:
  fixes s :: init_vm
  shows "init_run resolveUrl [Settle (length (iv_chains s)) out, Handle (length (iv_chains s)), Finally (length (iv_chains s))]
      (loadFromPromise src s)
    = Some (load_finally src (load_handled out
        (s\<lparr>iv_error := JNull, iv_raml := JNull, iv_isLoading := True, iv_isLoadedFromUrl := JBool False, iv_lint := None,
           iv_chains := iv_chains s @ [\<lparr>lc_source = src, lc_stage = Finished\<rparr>]\<rparr>)))"
  by (cases out) (simp_all add: loadFromPromise_def advance_def load_handled_def load_finally_def nth_append)

text \<open>
  A load that no other one overlaps ends with the form showing its result and nothing of earlier
  loads: the document and no error, or the error with its annotations and no document.
\<close>

theorem load_outcome:
  assumes "begins_load e"
  shows "\<exists>s'. run_load resolveUrl e out s = Some s'
    \<and> (iv_raml s', iv_error s', iv_lint s') = (case out of Resolve v \<Rightarrow> (v, JNull, None) | Reject err \<Rightarrow> (JNull, err, Some err))
    \<and> \<not> iv_isLoading s' \<and> iv_isLoadedFromUrl s' = isLoadingFromUrl (event_source resolveUrl e)
    \<and> load_work s' = load_work s"
proof -
  obtain t where t: "init_do resolveUrl e s = Some (loadFromPromise (event_source resolveUrl e) t)"
      and c: "iv_chains t = iv_chains s"
    using assms by (cases e) (simp_all add: loadFromUrl_def loadFromString_def event_source_def)
  have "run_load resolveUrl e out s
      = init_run resolveUrl [Settle (length (iv_chains t)) out, Handle (length (iv_chains t)), Finally (length (iv_chains t))]
          (loadFromPromise (event_source resolveUrl e) t)"
    using t c by (simp add: run_load_def Let_def)
  note r = this [unfolded run_loadFromPromise]
  show ?thesis
    unfolding r using c by (cases out) (simp_all add: load_handled_def load_finally_def load_work_def)
qed

theorem load_outcome_witness:
  "\<exists>s'. run_load id (LoadString ''x'') (Reject (JStr ''bad'')) (loadFromUrl id ''u'' init_vm_start) = Some s'
    \<and> iv_raml s' = JNull \<and> iv_error s' = JStr ''bad''"
  using load_outcome [of "LoadString ''x''" id "Reject (JStr ''bad'')" "loadFromUrl id ''u'' init_vm_start"] by auto

text \<open>
  Loads that overlap are not told apart: after a second text was loaded and shown, the first one,
  when it comes late, replaces it, or leaves an error beside it; and the form stops loading although a
  load is still under way.
\<close>

theorem late_load_shown:
  fixes t1 t2 :: string and v1 v2 e1 :: jsval
  defines "evs \<equiv> [LoadString t1, LoadString t2, Settle 1 (Resolve v2), Handle 1, Finally 1]"
  shows "\<exists>s. init_run resolveUrl evs init_vm_start = Some s \<and> iv_raml s = v2 \<and> \<not> iv_isLoading s \<and> load_work s > 0
    \<and> (\<exists>s'. init_run resolveUrl [Settle 0 (Resolve v1), Handle 0, Finally 0] s = Some s'
        \<and> iv_ramlString s' = JStr t2 \<and> iv_raml s' = v1 \<and> load_work s' = 0)
    \<and> (\<exists>s'. init_run resolveUrl [Settle 0 (Reject e1), Handle 0, Finally 0] s = Some s'
        \<and> iv_raml s' = v2 \<and> iv_error s' = e1 \<and> load_work s' = 0)"
  unfolding evs_def
  by (simp add: init_vm_start_def loadFromString_def loadFromPromise_def advance_def load_handled_def load_finally_def load_work_def)

section \<open>The errors of one document\<close>

lemma error_buffer_no_marks:
  assumes "\<not> truthy (pget ob ''context_mark'')" and "nullish (pget ob ''problem_mark'')"
  shows "error_buffer (JObj ob) = Inl TypeError"
  using assms by (cases "pget ob ''problem_mark''") (auto simp: error_buffer_def js_or_def)

text \<open>
  The loader of one document ends loaded whatever happens; an error is shown only when it carries a
  mark of the old YAML parser, and any other one is lost: no document, no error.
\<close>

theorem loader_error:
  assumes "s = loader_loadFromUrl resolveUrl url" and "t = snd (loader_settle (Reject (JObj ob)) s)"
  shows "lv_loaded t \<and> lv_raml t = JUndef
    \<and> (pget ob ''context_mark'' = JObj mark
        \<longrightarrow> lv_error t = JObj (oset ''buffer'' (pget mark ''buffer'') ob))
    \<and> (\<not> truthy (pget ob ''context_mark'') \<and> nullish (pget ob ''problem_mark'') \<longrightarrow> lv_error t = JUndef)"
proof -
  have "error_buffer (JObj ob) = Inr (pget mark ''buffer'')" if "pget ob ''context_mark'' = JObj mark"
    using that by (simp add: error_buffer_def js_or_def)
  then show ?thesis
    using assms error_buffer_no_marks [of ob]
    by (auto simp: loader_settle_def loader_handled_def loader_loadFromUrl_def as_object_def split: sum.splits prod.splits)
qed

theorem loader_error_witness:
  "lv_error (snd (loader_settle (Reject (JObj [(''parserErrors'', JArr [])])) (loader_loadFromUrl id ''u''))) = JUndef"
proof -
  have n: "\<not> truthy (pget [(''parserErrors'', JArr [])] ''context_mark'') \<and> nullish (pget [(''parserErrors'', JArr [])] ''problem_mark'')"
    by code_simp
  show ?thesis using loader_error [OF refl refl, where resolveUrl = id and url = "''u''" and ob = "[(''parserErrors'', JArr [])]"] n by blast
qed

end
