(* ===== verification/TryIt.thy ===== *)
theory TryIt
  imports Inspector
begin

text \<open>
  \<open>RAML.Services.TryIt\<close> of \<open>api-console.js\<close>: the form state behind a request. \<open>NamedParameters\<close> holds
  the definitions and values of headers, query and URI parameters and form fields, \<open>BodyContent\<close>
  one body per content type, \<open>Context\<close> all of them for one method.

  The code shares definition objects with the RAML document and changes them; a function that
  does so returns the changed object next to its result.
\<close>

section \<open>NamedParameter\<close>

record named_parameter =
  np_definitions :: jsval
  np_selected :: jsval

definition namedParameter :: "jsval \<Rightarrow> named_parameter res" where
  "namedParameter definitions =
     rbind (jidx definitions 0) (\<lambda>d. rbind (jget d ''type'') (\<lambda>ty.
       Inr \<lparr>np_definitions = definitions, np_selected = ty\<rparr>))"

definition hasMultipleTypes :: "named_parameter \<Rightarrow> bool" where
  "hasMultipleTypes p = (case np_definitions p of JArr ds \<Rightarrow> length ds > 1 | _ \<Rightarrow> False)"

definition parameter_isSelected :: "named_parameter \<Rightarrow> jsval \<Rightarrow> bool res" where
  "parameter_isSelected p definition' =
     rbind (jget definition' ''type'') (\<lambda>ty. Inr (strict_eq (np_selected p) ty))"

section \<open>NamedParameters\<close>

record header_family =
  hf_headers :: "parameterized_header list"
  hf_created :: "string list"

record named_parameters =
  ps_plain :: "named_parameter jsobj"
  ps_parameterized :: "header_family jsobj"
  ps_values :: "jsval list jsobj"

text \<open>\<open>filterEmpty\<close>: the filled values of every parameter that has any.\<close>

definition params_filterEmpty :: "jsval list jsobj \<Rightarrow> jsval list jsobj" where
  "params_filterEmpty ob =
     filter (\<lambda>(k, vs). vs \<noteq> []) (map (\<lambda>(k, vs). (k, filter filled vs)) (entries ob))"

text \<open>
  The constructor prepends a blank to the \<open>enum\<close> of an optional parameter, in the definition it
  shares with the document.
\<close>

definition blank_enum :: "jsval jsobj \<Rightarrow> jsval jsobj" where
  "blank_enum d =
     (case pget d ''enum'' of
        JUndef \<Rightarrow> d
      | e \<Rightarrow> if truthy (pget d ''required'') then d
             else oset ''enum'' (JArr (JStr [] # (case e of JArr vs \<Rightarrow> vs | v \<Rightarrow> [v]))) d)"

definition blank_definitions :: "jsval \<Rightarrow> jsval" where
  "blank_definitions definitions = (case definitions of
       JArr (JObj d # ds) \<Rightarrow> JArr (JObj (blank_enum d) # ds)
     | v \<Rightarrow> v)"

definition dollar_key :: "string \<Rightarrow> string option" where
  "dollar_key key = (case key of c # r \<Rightarrow> if c = CHR ''$'' then Some (''&#36;'' @ r) else None | [] \<Rightarrow> None)"

text \<open>A key that starts with a dollar sign is entered a second time under its HTML entity.\<close>

definition add_dollar_keys :: "'v jsobj \<Rightarrow> 'v jsobj" where
  "add_dollar_keys ob =
     fold (\<lambda>(k, v) acc. case dollar_key k of None \<Rightarrow> acc | Some k' \<Rightarrow> oset k' v acc) (entries ob) ob"

text \<open>The parameters and the definitions of the document after the constructor ran.\<close>

definition namedParameters :: "jsval \<Rightarrow> parameterized_header list jsobj \<Rightarrow> (named_parameters \<times> jsval jsobj) res" where
  "namedParameters plain parameterized =
     (let plain' = map (\<lambda>(k, ds). (k, blank_definitions ds)) (obj_entries plain)
      in rbind (mapR (\<lambda>(k, ds). rbind (namedParameter ds) (\<lambda>p. Inr (k, p))) plain') (\<lambda>ps.
           let all = add_dollar_keys ps
           in Inr (\<lparr>ps_plain = all,
                    ps_parameterized = map (\<lambda>(k, hs). (k, \<lparr>hf_headers = hs, hf_created = []\<rparr>)) parameterized,
                    ps_values = map (\<lambda>(k, p). (k, [JUndef])) (entries all)\<rparr>, plain')))"

definition first_info :: "jsval jsobj \<Rightarrow> string \<Rightarrow> jsval jsobj res" where
  "first_info info key =
     rbind (jidx (pget info key) 0) (\<lambda>d. case d of
         JObj ob \<Rightarrow> Inr ob | v \<Rightarrow> if nullish v then Inl TypeError else Inr [])"

definition params_clear :: "jsval jsobj \<Rightarrow> named_parameters \<Rightarrow> named_parameters res" where
  "params_clear info ps =
     rbind (foldR (\<lambda>key vals. rbind (first_info info key) (\<lambda>d.
              Inr (if pget d ''enum'' = JUndef \<or> pget d ''overwritten'' = JBool True
                   then oset key [JStr []] vals else vals)))
            (own_keys (ps_values ps)) (ps_values ps)) (\<lambda>vals.
       Inr (ps\<lparr>ps_values := vals\<rparr>))"

text \<open>\<open>that.values[key][0] = v\<close>.\<close>

definition set_first :: "string \<Rightarrow> jsval \<Rightarrow> jsval list jsobj \<Rightarrow> jsval list jsobj res" where
  "set_first key v vals = (case oget vals key of
       None \<Rightarrow> Inl TypeError
     | Some ws \<Rightarrow> Inr (oset key (v # tl ws) vals))"

text \<open>A date example is replaced by its text in the definition; \<open>utc\<close> is \<open>toUTCString\<close>.\<close>

definition date_example :: "(int option \<Rightarrow> string) \<Rightarrow> jsval jsobj \<Rightarrow> jsval jsobj res" where
  "date_example utc d =
     (if pget d ''type'' = JStr ''date'' \<and> typeof_object (pget d ''example'') then
        (case pget d ''example'' of
           JDate t shown isos \<Rightarrow> Inr (oset ''example'' (JStr (utc t)) d)
         | _ \<Rightarrow> Inl TypeError)
      else Inr d)"

definition first_example :: "jsval jsobj \<Rightarrow> jsval res" where
  "first_example d =
     (if truthy (pget d ''example'') then Inr (pget d ''example'')
      else if \<not> truthy (pget d ''examples'') then Inr JUndef
      else rbind (jidx (pget d ''examples'') 0) (\<lambda>e.
             if truthy e then jget e ''value'' else Inr JUndef))"

definition reset_one :: "(int option \<Rightarrow> string) \<Rightarrow> string \<Rightarrow> jsval jsobj \<times> jsval list jsobj
     \<Rightarrow> (jsval jsobj \<times> jsval list jsobj) res" where
  "reset_one utc key st =
     rbind (first_info (fst st) key) (\<lambda>d.
       if pget d ''enum'' \<noteq> JUndef then Inr st
       else rbind (date_example utc d) (\<lambda>d'.
            rbind (first_example d') (\<lambda>v.
              let info' = (case pget (fst st) key of
                    JArr (JObj x # ds) \<Rightarrow> oset key (JArr (JObj d' # ds)) (fst st) | _ \<Rightarrow> fst st)
              in if truthy v then rbind (set_first key v (snd st)) (\<lambda>vals. Inr (info', vals))
                 else Inr (info', snd st))))"

definition params_reset :: "(int option \<Rightarrow> string) \<Rightarrow> jsval jsobj option \<Rightarrow> string option \<Rightarrow> named_parameters
     \<Rightarrow> (jsval jsobj option \<times> named_parameters) res" where
  "params_reset utc info field ps =
     (case info of
        None \<Rightarrow> Inr (None, ps)
      | Some info1 \<Rightarrow>
          rbind (foldR (\<lambda>key st. if field = None \<or> field = Some key then reset_one utc key st else Inr st)
                   (own_keys info1) (info1, ps_values ps)) (\<lambda>(info1', vals).
            Inr (Some info1', ps\<lparr>ps_values := vals\<rparr>)))"

definition params_create :: "string \<Rightarrow> string \<Rightarrow> named_parameters \<Rightarrow> named_parameters res" where
  "params_create name value ps =
     (case oget (ps_parameterized ps) name of
        None \<Rightarrow> Inl TypeError
      | Some fam \<Rightarrow>
          rbind (mapR (\<lambda>h. header_create h value) (hf_headers fam)) (\<lambda>ds.
            case ds of
              [] \<Rightarrow> Inl TypeError
            | d # _ \<Rightarrow>
                let pname = to_string (pget d ''displayName'')
                in rbind (namedParameter (JArr (map JObj ds))) (\<lambda>p.
                     Inr (ps\<lparr>ps_parameterized := oset name (fam\<lparr>hf_created := hf_created fam @ [pname]\<rparr>) (ps_parameterized ps),
                            ps_plain := oset pname p (ps_plain ps),
                            ps_values := oset pname [JUndef] (ps_values ps)\<rparr>))))"

definition params_remove :: "string \<Rightarrow> named_parameters \<Rightarrow> named_parameters" where
  "params_remove name ps = ps\<lparr>ps_plain := odel name (ps_plain ps), ps_values := odel name (ps_values ps)\<rparr>"

definition params_data :: "named_parameters \<Rightarrow> jsval list jsobj" where
  "params_data ps = params_filterEmpty (ps_values ps)"

text \<open>
  \<open>copyFrom\<close>: the headers created in the old parameters, then the values of every parameter the
  new ones have too. A created header that was removed since is not there to be copied.
\<close>

definition copy_created :: "named_parameters \<Rightarrow> named_parameters \<Rightarrow> named_parameter jsobj" where
  "copy_created old ps =
     fold (\<lambda>(key, fam) plain.
        if oget (ps_parameterized ps) key = None then plain
        else fold (\<lambda>c plain. case oget (ps_plain old) c of None \<Rightarrow> odel c plain | Some p \<Rightarrow> oset c p plain) (hf_created fam) plain)
       (entries (ps_parameterized old)) (ps_plain ps)"

definition params_copyFrom :: "named_parameters \<Rightarrow> named_parameters \<Rightarrow> named_parameters" where
  "params_copyFrom old ps =
     (let plain = copy_created old ps
      in ps\<lparr>ps_plain := plain,
            ps_values := fold (\<lambda>key vals. case oget (ps_values old) key of None \<Rightarrow> odel key vals | Some v \<Rightarrow> oset key v vals)
              (filter (\<lambda>k. oget plain k \<noteq> None) (own_keys (ps_plain old))) (ps_values ps)\<rparr>)"

section \<open>Bodies\<close>

record body_type =
  bt_contentType :: jsval
  bt_value :: jsval

definition bodyType :: "jsval \<Rightarrow> body_type" where
  "bodyType contentType = \<lparr>bt_contentType = js_or contentType (JObj []), bt_value = JUndef\<rparr>"

definition bt_fillWithExample :: "body_type \<Rightarrow> body_type res" where
  "bt_fillWithExample bt =
     rbind (jget (bt_contentType bt) ''examples'') (\<lambda>examples.
     rbind (if truthy examples then rbind (jidx examples 0) (\<lambda>e. jget e ''value'')
            else jget (bt_contentType bt) ''example'') (\<lambda>example.
       Inr (bt\<lparr>bt_value := (if typeof_object example then json_stringify example else example)\<rparr>)))"

definition bt_hasExample :: "body_type \<Rightarrow> bool res" where
  "bt_hasExample bt =
     rbind (jget (bt_contentType bt) ''example'') (\<lambda>a. rbind (jget (bt_contentType bt) ''examples'') (\<lambda>b.
       Inr (truthy a \<or> truthy b)))"

definition bt_copyFrom :: "body_type \<Rightarrow> body_type \<Rightarrow> body_type" where
  "bt_copyFrom old bt = bt\<lparr>bt_value := bt_value old\<rparr>"

datatype body_definition = FormBody named_parameters | OtherBody body_type

record body_content =
  bc_contentTypes :: "string list"
  bc_selected :: "string option"
  bc_definitions :: "body_definition jsobj"

definition isForm :: "string \<Rightarrow> bool" where
  "isForm contentType = (contentType = FORM_URLENCODED \<or> contentType = FORM_DATA)"

text \<open>\<open>definition.formParameters[key][0].id = key\<close>.\<close>

definition set_id :: "string \<times> jsval \<Rightarrow> (string \<times> jsval) res" where
  "set_id kv = (case snd kv of
       JArr (JObj d # ds) \<Rightarrow> Inr (fst kv, JArr (JObj (oset ''id'' (JStr (fst kv)) d) # ds))
     | v \<Rightarrow> Inl TypeError)"

definition body_definition_of :: "string \<Rightarrow> jsval \<Rightarrow> body_definition res" where
  "body_definition_of contentType definition' =
     rbind (jget definition' ''formParameters'') (\<lambda>form.
     rbind (if truthy form then rbind (mapR set_id (obj_entries form)) (\<lambda>f. Inr (JObj f)) else Inr form) (\<lambda>form'.
       if isForm contentType
       then rbind (namedParameters form' []) (\<lambda>(ps, _). Inr (FormBody ps))
       else Inr (OtherBody (bodyType definition'))))"

definition bodyContent :: "jsval jsobj \<Rightarrow> body_content res" where
  "bodyContent contentTypes =
     (let cts = js_sort (own_keys contentTypes)
      in rbind (mapR (\<lambda>ct. rbind (body_definition_of ct (js_or (pget contentTypes ct) (JObj []))) (\<lambda>d. Inr (ct, d))) cts) (\<lambda>ds.
           Inr \<lparr>bc_contentTypes = cts, bc_selected = (case cts of [] \<Rightarrow> None | c # _ \<Rightarrow> Some c), bc_definitions = ds\<rparr>))"

definition selected_definition :: "body_content \<Rightarrow> body_definition res" where
  "selected_definition bc = (case bc_selected bc of
       None \<Rightarrow> Inl TypeError
     | Some ct \<Rightarrow> (case oget (bc_definitions bc) ct of None \<Rightarrow> Inl TypeError | Some d \<Rightarrow> Inr d))"

text \<open>Form parameters have neither \<open>fillWithExample\<close> nor \<open>hasExample\<close>: calling them throws.\<close>

definition bc_fillWithExample :: "body_content \<Rightarrow> body_content res" where
  "bc_fillWithExample bc =
     rbind (selected_definition bc) (\<lambda>d. case d of
         FormBody ps \<Rightarrow> Inl TypeError
       | OtherBody bt \<Rightarrow> rbind (bt_fillWithExample bt) (\<lambda>bt'.
           Inr (bc\<lparr>bc_definitions := oset (case bc_selected bc of None \<Rightarrow> [] | Some c \<Rightarrow> c) (OtherBody bt') (bc_definitions bc)\<rparr>)))"

definition bc_hasExample :: "string \<Rightarrow> body_content \<Rightarrow> bool res" where
  "bc_hasExample contentType bc = (case oget (bc_definitions bc) contentType of
       Some (OtherBody bt) \<Rightarrow> bt_hasExample bt
     | _ \<Rightarrow> Inl TypeError)"

definition params_to_value :: "jsval list jsobj \<Rightarrow> jsval" where
  "params_to_value ob = JObj (map (\<lambda>(k, vs). (k, JArr vs)) ob)"

fun definition_data :: "body_definition \<Rightarrow> jsval" where
  "definition_data (FormBody ps) = params_to_value (params_data ps)"
| "definition_data (OtherBody bt) = bt_value bt"

definition bc_data :: "body_content \<Rightarrow> jsval res" where
  "bc_data bc = (if bc_selected bc = None \<or> bc_selected bc = Some [] then Inr JUndef
     else rbind (selected_definition bc) (\<lambda>d. Inr (definition_data d)))"

fun definition_copyFrom :: "body_definition \<Rightarrow> body_definition \<Rightarrow> body_definition" where
  "definition_copyFrom (FormBody old) (FormBody ps) = FormBody (params_copyFrom old ps)"
| "definition_copyFrom (OtherBody old) (OtherBody bt) = OtherBody (bt_copyFrom old bt)"
| "definition_copyFrom old d = d"

definition bc_copyFrom :: "body_content \<Rightarrow> body_content \<Rightarrow> body_content" where
  "bc_copyFrom old bc =
     (let ds = fold (\<lambda>ct ds. case (oget ds ct, oget (bc_definitions old) ct) of
               (Some d, Some o1) \<Rightarrow> oset ct (definition_copyFrom o1 d) ds
             | _ \<Rightarrow> ds) (bc_contentTypes old) (bc_definitions bc)
      in bc\<lparr>bc_definitions := ds,
            bc_selected := (case bc_selected old of
                None \<Rightarrow> bc_selected bc
              | Some ct \<Rightarrow> if ct \<in> set (bc_contentTypes bc) then Some ct else bc_selected bc)\<rparr>)"

text \<open>\<open>BodyContent.clear\<close> reads \<open>this.values\<close>, which a body content does not have.\<close>

definition bc_clear :: "jsval jsobj \<Rightarrow> body_content \<Rightarrow> body_content res" where
  "bc_clear info bc = Inl TypeError"

definition bc_reset :: "jsval jsobj option \<Rightarrow> string option \<Rightarrow> body_content \<Rightarrow> body_content res" where
  "bc_reset info field bc = (case info of
       None \<Rightarrow> Inr bc
     | Some info1 \<Rightarrow>
         foldR (\<lambda>key bc.
            if field \<noteq> None \<and> field \<noteq> Some key then Inr bc
            else rbind (first_info info1 key) (\<lambda>d.
              if pget d ''enum'' \<noteq> JUndef then Inr bc
              else rbind (selected_definition bc) (\<lambda>sel. case sel of
                  OtherBody bt \<Rightarrow> Inl TypeError
                | FormBody ps \<Rightarrow> rbind (set_first key (pget d ''example'') (ps_values ps)) (\<lambda>vals.
                    Inr (bc\<lparr>bc_definitions := oset (case bc_selected bc of None \<Rightarrow> [] | Some c \<Rightarrow> c)
                      (FormBody (ps\<lparr>ps_values := vals\<rparr>)) (bc_definitions bc)\<rparr>)))))
           (own_keys info1) bc)"

section \<open>Context\<close>

record context_state =
  cx_headers :: named_parameters
  cx_queryParameters :: named_parameters
  cx_uriParameters :: named_parameters
  cx_bodyContent :: "body_content option"
  cx_segments :: "parameterized_string list"
  cx_baseUriContext :: "jsval jsobj"
  cx_segmentContexts :: "jsval jsobj list"

text \<open>The URI parameters of the resource, those of the base URI wrapped and added.\<close>

definition uriParametersForDocumentation :: "jsval \<Rightarrow> jsval \<Rightarrow> jsval" where
  "uriParametersForDocumentation base own =
     (let merged = fold (\<lambda>(k, v). oset k (JArr [v])) (obj_entries base)
                     (obj_entries (js_or own (JObj [])))
      in if merged = [] then JNull else JObj merged)"

definition context_create :: "jsval \<Rightarrow> resource_overview \<Rightarrow> inspected_method \<Rightarrow> context_state res" where
  "context_create baseParams resource method' =
     rbind (namedParameters (mh_plain (im_headers method')) (map (\<lambda>(k, hs). (k, hs)) (mh_parameterized (im_headers method')))) (\<lambda>(hs, _).
     rbind (namedParameters (pget (im_raml method') ''queryParameters'') []) (\<lambda>(qs, _).
     rbind (namedParameters (uriParametersForDocumentation baseParams (ro_uriParameters resource)) []) (\<lambda>(us, _).
     rbind (if truthy (pget (im_raml method') ''body'')
            then rbind (bodyContent (obj_entries (pget (im_raml method') ''body''))) (\<lambda>b. Inr (Some b))
            else Inr None) (\<lambda>body.
       Inr \<lparr>cx_headers = hs, cx_queryParameters = qs, cx_uriParameters = us, cx_bodyContent = body,
            cx_segments = ro_pathSegments resource, cx_baseUriContext = [],
            cx_segmentContexts = map (\<lambda>s. []) (ro_pathSegments resource)\<rparr>))))"

definition context_merge :: "context_state \<Rightarrow> context_state \<Rightarrow> context_state" where
  "context_merge old cx =
     cx\<lparr>cx_headers := params_copyFrom (cx_headers old) (cx_headers cx),
        cx_queryParameters := params_copyFrom (cx_queryParameters old) (cx_queryParameters cx),
        cx_uriParameters := params_copyFrom (cx_uriParameters old) (cx_uriParameters cx),
        cx_bodyContent := (case (cx_bodyContent cx, cx_bodyContent old) of
            (Some b, Some o1) \<Rightarrow> Some (bc_copyFrom o1 b) | (b, _) \<Rightarrow> b),
        cx_baseUriContext := cx_baseUriContext old,
        cx_segmentContexts := cx_segmentContexts old\<rparr>"

section \<open>What is sent from a form\<close>

lemma params_data_filled:
  "(k, vs) \<in> set (params_data ps) \<Longrightarrow> vs \<noteq> [] \<and> list_all filled vs"
  by (auto simp: params_data_def params_filterEmpty_def list_all_iff)

lemma mapR_total: "(\<And>x. x \<in> set xs \<Longrightarrow> \<exists>y. f x = Inr y) \<Longrightarrow> \<exists>ys. mapR f xs = Inr ys"
  by (induction xs) (fastforce split: sum.splits)+

lemma entries_subset: "set (entries ob) \<subseteq> set ob"
proof
  fix kv assume "kv \<in> set (entries ob)"
  then obtain k where k: "k \<in> fst ` set ob" "kv = (k, the (map_of ob k))"
    by (auto simp: entries_def)
  then obtain w where "map_of ob k = Some w" by (metis map_of_eq_None_iff option.exhaust)
  then show "kv \<in> set ob" using k(2) map_of_SomeD by fastforce
qed

lemma form_entries_params: "\<exists>es. form_entries (params_to_value ob) = Inr es"
proof -
  have "\<exists>y. (case snd kv of JArr vs \<Rightarrow> Inr (map (\<lambda>x. (fst kv, to_string x)) vs) | _ \<Rightarrow> Inl TypeError) = Inr y"
    if "kv \<in> set (entries (map (\<lambda>(k, vs). (k, JArr vs)) ob))" for kv :: "string \<times> jsval"
  proof -
    have "kv \<in> set (map (\<lambda>(k, vs). (k, JArr vs)) ob)" using entries_subset that by blast
    then obtain vs where "snd kv = JArr vs" by auto
    then show ?thesis by simp
  qed
  then obtain es where "mapR (\<lambda>(k, v). case v of JArr vs \<Rightarrow> Inr (map (\<lambda>x. (k, to_string x)) vs) | _ \<Rightarrow> Inl TypeError)
      (entries (map (\<lambda>(k, vs). (k, JArr vs)) ob)) = Inr es"
    using mapR_total [of "entries (map (\<lambda>(k, vs). (k, JArr vs)) ob)"
        "\<lambda>(k, v). case v of JArr vs \<Rightarrow> Inr (map (\<lambda>x. (k, to_string x)) vs) | _ \<Rightarrow> Inl TypeError"]
    by (auto simp: case_prod_beta)
  then show ?thesis by (simp add: form_entries_def params_to_value_def)
qed

text \<open>
  A request whose data come from form parameters always has transport options: whatever the
  user typed, a multipart form is never refused, because every field that is sent is an array.
\<close>

theorem form_request_options:
  "\<exists>o1. toOptions st (req_data_set (definition_data (FormBody ps)) r) = Inr o1"
proof -
  obtain es where "form_entries (params_to_value (params_data ps)) = Inr es"
    using form_entries_params by blast
  then show ?thesis
    by (auto simp: toOptions_def Let_def req_data_set_def params_to_value_def)
qed

section \<open>Constructing parameters again\<close>

lemma oget_map_values: "oget (map (\<lambda>(k, v). (k, f v)) ob) k = map_option f (oget ob k)"
  by (induction ob) (auto simp: oget_def)

text \<open>
  Each time the form of a method is built, an optional enumeration of the document gains one
  more blank choice: the definition it is built from is left with a blank in front of the choices
  it had, and is still optional.
\<close>

theorem enum_gains_blank:
  assumes "namedParameters plain hs = Inr (ps, plain')"
    and "oget (obj_entries plain) k = Some (JArr (JObj d # ds))"
    and "pget d ''enum'' = JArr vs" and "\<not> truthy (pget d ''required'')"
  shows "\<exists>d'. oget plain' k = Some (JArr (JObj d' # ds)) \<and> pget d' ''enum'' = JArr (JStr [] # vs)
    \<and> \<not> truthy (pget d' ''required'')"
proof -
  have "plain' = map (\<lambda>(k, ds). (k, blank_definitions ds)) (obj_entries plain)"
    using assms(1) by (auto simp: namedParameters_def Let_def rbind_eq_Inr)
  then have "oget plain' k = Some (blank_definitions (JArr (JObj d # ds)))"
    using assms(2) by (simp add: oget_map_values)
  then show ?thesis
    using assms(3,4) by (simp add: blank_definitions_def blank_enum_def)
qed

definition sample_enum :: "jsval jsobj" where
  "sample_enum = [(''type'', JStr ''string''), (''enum'', JArr [JStr ''a'', JStr ''b''])]"

theorem enum_gains_blank_witness:
  "\<exists>ps p1 d'. namedParameters (JObj [(''q'', JArr [JObj sample_enum])]) [] = Inr (ps, p1)
     \<and> oget p1 ''q'' = Some (JArr [JObj d']) \<and> pget d' ''enum'' = JArr [JStr [], JStr ''a'', JStr ''b'']"
proof -
  have "(case namedParameters (JObj [(''q'', JArr [JObj sample_enum])]) [] of Inr p \<Rightarrow> True | Inl e \<Rightarrow> False)"
    by code_simp
  then obtain ps p1 where n: "namedParameters (JObj [(''q'', JArr [JObj sample_enum])]) [] = Inr (ps, p1)"
    by (auto split: sum.splits)
  have "oget (obj_entries (JObj [(''q'', JArr [JObj sample_enum])])) ''q'' = Some (JArr [JObj sample_enum])"
    "pget sample_enum ''enum'' = JArr [JStr ''a'', JStr ''b'']" "\<not> truthy (pget sample_enum ''required'')"
    by code_simp+
  from enum_gains_blank [OF n this] n show ?thesis by auto
qed

section \<open>Clearing parameters\<close>

lemma foldR_error:
  "x \<in> set xs \<Longrightarrow> (\<And>s. \<exists>e. f x s = Inl e) \<Longrightarrow> \<exists>e. foldR f xs s = Inl e"
proof (induction xs arbitrary: s)
  case (Cons y ys)
  show ?case
  proof (cases "y = x")
    case True
    then show ?thesis using Cons.prems(2) [of s] by auto
  next
    case False
    then have "x \<in> set ys" using Cons.prems(1) by simp
    then show ?thesis using Cons.IH Cons.prems(2) by (cases "f y s") auto
  qed
qed simp

text \<open>
  Clearing throws as soon as there is a parameter the document does not know under its key;
  in particular for a parameter whose name starts with a dollar sign, which the constructor
  entered under an HTML entity as well.
\<close>

theorem clear_unknown_key:
  assumes "oget (ps_values ps) k \<noteq> None" and "pget info k = JUndef"
  shows "\<exists>e. params_clear info ps = Inl e"
proof -
  have "k \<in> set (own_keys (ps_values ps))" using assms(1) by (subst own_keys_iff_oget)
  then have "\<exists>e. foldR (\<lambda>key vals. rbind (first_info info key) (\<lambda>d.
              Inr (if pget d ''enum'' = JUndef \<or> pget d ''overwritten'' = JBool True
                   then oset key [JStr []] vals else vals)))
            (own_keys (ps_values ps)) (ps_values ps) = Inl e"
    by (rule foldR_error) (simp add: assms(2) first_info_def)
  then show ?thesis by (auto simp: params_clear_def)
qed

definition sample_dollar :: "jsval jsobj" where
  "sample_dollar = [(''$filter'', JArr [JObj [(''type'', JStr ''string'')]])]"

theorem clear_unknown_key_witness:
  "\<exists>ps d e. namedParameters (JObj sample_dollar) [] = Inr (ps, d) \<and> params_clear sample_dollar ps = Inl e"
proof -
  have "(case namedParameters (JObj sample_dollar) [] of
      Inr (ps, d) \<Rightarrow> oget (ps_values ps) ''&#36;filter'' = Some [JUndef] | Inl e \<Rightarrow> False)"
    by code_simp
  then obtain ps d where n: "namedParameters (JObj sample_dollar) [] = Inr (ps, d)"
    and k: "oget (ps_values ps) ''&#36;filter'' \<noteq> None"
    by (auto split: sum.splits)
  have "pget sample_dollar ''&#36;filter'' = JUndef" by code_simp
  from clear_unknown_key [OF k this] n show ?thesis by blast
qed

section \<open>Keys of the parameters\<close>

text \<open>Values and definitions have the same keys, and every parameter has a value slot.\<close>

definition params_ok :: "named_parameters \<Rightarrow> bool" where
  "params_ok ps =
     ((\<forall>k. oget (ps_values ps) k = None \<longleftrightarrow> oget (ps_plain ps) k = None)
      \<and> (\<forall>k. oget (ps_values ps) k \<noteq> Some []))"

datatype params_op =
    Create string string
  | Remove string
  | Clear "jsval jsobj"
  | Reset "jsval jsobj option" "string option"
  | Edit string "jsval list"

text \<open>One user action; the form writes a non-empty list of values to a parameter it shows.\<close>

fun params_do :: "(int option \<Rightarrow> string) \<Rightarrow> params_op \<Rightarrow> named_parameters \<Rightarrow> named_parameters res" where
  "params_do utc (Create name value) ps = params_create name value ps"
| "params_do utc (Remove name) ps = Inr (params_remove name ps)"
| "params_do utc (Clear info) ps = params_clear info ps"
| "params_do utc (Reset info field) ps = rbind (params_reset utc info field ps) (\<lambda>(i, ps'). Inr ps')"
| "params_do utc (Edit k vs) ps =
     (if oget (ps_plain ps) k = None \<or> vs = [] then Inr ps
      else Inr (ps\<lparr>ps_values := oset k vs (ps_values ps)\<rparr>))"

text \<open>Rewriting values of existing keys keeps the invariant.\<close>

definition same_slots :: "jsval list jsobj \<Rightarrow> jsval list jsobj \<Rightarrow> bool" where
  "same_slots vals vals' =
     ((\<forall>k. oget vals' k = None \<longleftrightarrow> oget vals k = None)
      \<and> ((\<forall>k. oget vals k \<noteq> Some []) \<longrightarrow> (\<forall>k. oget vals' k \<noteq> Some [])))"

lemma same_slots_refl [simp]: "same_slots vals vals"
  by (simp add: same_slots_def)

lemma same_slots_trans: "same_slots a b \<Longrightarrow> same_slots b c \<Longrightarrow> same_slots a c"
  by (simp add: same_slots_def)

lemma same_slots_oset: "oget vals k \<noteq> None \<Longrightarrow> vs \<noteq> [] \<Longrightarrow> same_slots vals (oset k vs vals)"
  by (auto simp: same_slots_def)

lemma params_ok_values: "params_ok ps \<Longrightarrow> same_slots (ps_values ps) vals \<Longrightarrow> params_ok (ps\<lparr>ps_values := vals\<rparr>)"
  by (auto simp: params_ok_def same_slots_def)

lemma clear_slots: "params_clear info ps = Inr ps' \<Longrightarrow> \<exists>vals. ps' = ps\<lparr>ps_values := vals\<rparr> \<and> same_slots (ps_values ps) vals"
proof -
  assume "params_clear info ps = Inr ps'"
  then obtain vals where f: "foldR (\<lambda>key vals. rbind (first_info info key) (\<lambda>d.
              Inr (if pget d ''enum'' = JUndef \<or> pget d ''overwritten'' = JBool True
                   then oset key [JStr []] vals else vals)))
            (own_keys (ps_values ps)) (ps_values ps) = Inr vals" and ps': "ps' = ps\<lparr>ps_values := vals\<rparr>"
    by (auto simp: params_clear_def rbind_eq_Inr)
  have "same_slots (ps_values ps) vals"
  proof (rule foldR_invariant [OF f same_slots_refl])
    fix key s s'
    assume k: "key \<in> set (own_keys (ps_values ps))" and s: "same_slots (ps_values ps) s"
      and step: "rbind (first_info info key) (\<lambda>d. Inr (if pget d ''enum'' = JUndef \<or> pget d ''overwritten'' = JBool True
                   then oset key [JStr []] s else s)) = Inr s'"
    have "oget (ps_values ps) key \<noteq> None" using k by (subst (asm) own_keys_iff_oget)
    then have "oget s key \<noteq> None" using s by (simp add: same_slots_def)
    then have "same_slots s (oset key [JStr []] s)" by (rule same_slots_oset) simp
    then have "same_slots s s'"
      using step by (auto simp: rbind_eq_Inr split: if_splits)
    then show "same_slots (ps_values ps) s'" using s same_slots_trans by blast
  qed
  then show ?thesis using ps' by blast
qed

lemma set_first_slots: "set_first k v vals = Inr vals' \<Longrightarrow> same_slots vals vals'"
  by (auto simp: set_first_def split: option.splits intro!: same_slots_oset)

lemma reset_one_slots: "reset_one utc key st = Inr st' \<Longrightarrow> same_slots (snd st) (snd st')"
  by (auto simp: reset_one_def rbind_eq_Inr Let_def dest: set_first_slots split: if_splits)

lemma reset_slots:
  "params_reset utc info field ps = Inr (i, ps') \<Longrightarrow> \<exists>vals. ps' = ps\<lparr>ps_values := vals\<rparr> \<and> same_slots (ps_values ps) vals"
proof -
  assume r: "params_reset utc info field ps = Inr (i, ps')"
  show ?thesis
  proof (cases info)
    case None
    then show ?thesis using r by (intro exI [of _ "ps_values ps"]) (simp add: params_reset_def)
  next
    case (Some inform)
    with r obtain inf' vals where f: "foldR (\<lambda>key st. if field = None \<or> field = Some key then reset_one utc key st else Inr st)
                   (own_keys inform) (inform, ps_values ps) = Inr (inf', vals)" and ps': "ps' = ps\<lparr>ps_values := vals\<rparr>"
      by (auto simp: params_reset_def rbind_eq_Inr)
    have "same_slots (ps_values ps) (snd (inf', vals))"
    proof (rule foldR_invariant [OF f, where P = "\<lambda>st. same_slots (ps_values ps) (snd st)"])
      fix key s s'
      assume "same_slots (ps_values ps) (snd s)"
        and "(if field = None \<or> field = Some key then reset_one utc key s else Inr s) = Inr s'"
      then show "same_slots (ps_values ps) (snd s')"
        using same_slots_trans reset_one_slots by (auto split: if_splits)
    qed simp
    then show ?thesis using ps' by auto
  qed
qed

lemma create_shape:
  assumes "params_create name v ps = Inr ps'"
  shows "\<exists>pname p fams. ps' = ps\<lparr>ps_parameterized := fams, ps_plain := oset pname p (ps_plain ps),
    ps_values := oset pname [JUndef] (ps_values ps)\<rparr>"
proof -
  from assms obtain fam ds where "mapR (\<lambda>h. header_create h v) (hf_headers fam) = Inr ds"
    and c: "(case ds of [] \<Rightarrow> Inl TypeError
            | d # _ \<Rightarrow>
                let pname = to_string (pget d ''displayName'')
                in rbind (namedParameter (JArr (map JObj ds))) (\<lambda>p.
                     Inr (ps\<lparr>ps_parameterized := oset name (fam\<lparr>hf_created := hf_created fam @ [pname]\<rparr>) (ps_parameterized ps),
                            ps_plain := oset pname p (ps_plain ps),
                            ps_values := oset pname [JUndef] (ps_values ps)\<rparr>))) = Inr ps'"
    unfolding params_create_def by (auto simp only: rbind_eq_Inr split: option.splits)
  then show ?thesis
    by (cases ds rule: list.exhaust) (auto simp: Let_def rbind_eq_Inr)
qed

lemma params_do_ok: "params_do utc act ps = Inr ps' \<Longrightarrow> params_ok ps \<Longrightarrow> params_ok ps'"
proof (cases act)
  case (Create n v)
  assume "params_do utc act ps = Inr ps'" "params_ok ps"
  then show ?thesis
    using Create create_shape [of n v ps ps'] by (auto simp: params_ok_def split: if_splits)
next
  case (Remove n)
  assume "params_do utc act ps = Inr ps'" "params_ok ps"
  then show ?thesis using Remove by (auto simp: params_remove_def params_ok_def split: if_splits)
next
  case (Edit k vs)
  assume "params_do utc act ps = Inr ps'" "params_ok ps"
  then show ?thesis using Edit by (auto simp: params_ok_def split: if_splits)
qed (auto simp: rbind_eq_Inr dest!: clear_slots reset_slots intro: params_ok_values)

lemma namedParameters_ok: "namedParameters plain hs = Inr (ps, d) \<Longrightarrow> params_ok ps"
proof -
  assume "namedParameters plain hs = Inr (ps, d)"
  then obtain all where v: "ps_values ps = map (\<lambda>(k, p). (k, [JUndef])) (entries all)" and p: "ps_plain ps = all"
    by (auto simp: namedParameters_def Let_def rbind_eq_Inr)
  have "oget (ps_values ps) k = map_option (\<lambda>p. [JUndef]) (oget all k)" for k
    unfolding v by (subst oget_map_values) (simp add: oget_def)
  then show ?thesis using p by (auto simp: params_ok_def)
qed



section \<open>Carrying values over to another method\<close>

text \<open>
  What \<open>Context.merge\<close> relies on: a copy takes over the value of everything both sides have.
\<close>

locale value_copy =
  fixes slot :: "'s \<Rightarrow> 'k \<Rightarrow> 'v option"
    and copy :: "'s \<Rightarrow> 's \<Rightarrow> 's"
  assumes copy_slot: "slot old k = Some v \<Longrightarrow> slot new k \<noteq> None \<Longrightarrow> slot (copy old new) k = Some v"
begin

lemma copy_chain:
  "slot a k = Some v \<Longrightarrow> slot b k \<noteq> None \<Longrightarrow> slot c k \<noteq> None \<Longrightarrow> slot (copy (copy a b) c) k = Some v"
  by (simp add: copy_slot)

end

definition params_slot :: "named_parameters \<Rightarrow> string \<Rightarrow> jsval list option" where
  "params_slot ps k = (if oget (ps_plain ps) k = None then None else oget (ps_values ps) k)"

lemma fold_created_keeps:
  assumes "oget old k \<noteq> None" and "oget plain k \<noteq> None"
  shows "oget (fold (\<lambda>c plain. case oget old c of None \<Rightarrow> odel c plain | Some p \<Rightarrow> oset c p plain) cs plain) k \<noteq> None"
  using assms(2)
proof (induction cs arbitrary: plain)
  case (Cons c cs)
  have "oget (case oget old c of None \<Rightarrow> odel c plain | Some p \<Rightarrow> oset c p plain) k \<noteq> None"
    using assms(1) Cons.prems by (auto split: option.splits)
  from Cons.IH [OF this] show ?case by simp
qed simp

lemma copy_created_keeps:
  assumes "oget (ps_plain old) k \<noteq> None" and "oget (ps_plain new) k \<noteq> None"
  shows "oget (copy_created old new) k \<noteq> None"
proof -
  have "oget plain k \<noteq> None \<Longrightarrow> oget (fold (\<lambda>(key, fam) plain.
        if oget (ps_parameterized new) key = None then plain
        else fold (\<lambda>c plain. case oget (ps_plain old) c of None \<Rightarrow> odel c plain | Some p \<Rightarrow> oset c p plain) (hf_created fam) plain)
       fs plain) k \<noteq> None" for fs plain
  proof (induction fs arbitrary: plain)
    case (Cons f fs)
    obtain key fam where f: "f = (key, fam)" by (cases f)
    show ?case
    proof (cases "oget (ps_parameterized new) key = None")
      case True
      then show ?thesis using Cons.IH [OF Cons.prems] f by simp
    next
      case False
      then show ?thesis using Cons.IH [OF fold_created_keeps [OF assms(1) Cons.prems]] f by (simp del: not_None_eq)
    qed
  qed simp
  then show ?thesis using assms(2) by (simp add: copy_created_def)
qed

lemma fold_values:
  "oget (fold (\<lambda>key vals. case oget old key of None \<Rightarrow> odel key vals | Some v \<Rightarrow> oset key v vals) ks vals) k
   = (if k \<in> set ks then oget old k else oget vals k)"
  by (induction ks arbitrary: vals) (auto split: option.splits)

lemma params_copy_slot:
  assumes "params_slot old k = Some v" and "params_slot new k \<noteq> None"
  shows "params_slot (params_copyFrom old new) k = Some v"
proof -
  have o: "oget (ps_plain old) k \<noteq> None" "oget (ps_values old) k = Some v" "oget (ps_plain new) k \<noteq> None"
    using assms by (auto simp: params_slot_def split: if_splits)
  have c: "oget (copy_created old new) k \<noteq> None" by (rule copy_created_keeps [OF o(1,3)])
  have "k \<in> set (own_keys (ps_plain old))" using o(1) by (subst own_keys_iff_oget)
  then show ?thesis
    using c o(2) by (simp add: params_slot_def params_copyFrom_def Let_def fold_values del: set_own_keys)
qed

interpretation params_copy: value_copy params_slot params_copyFrom
  by unfold_locales (rule params_copy_slot)

interpretation body_copy: value_copy "\<lambda>bt (u :: unit). Some (bt_value bt)" bt_copyFrom
  by unfold_locales (simp add: bt_copyFrom_def)

text \<open>
  A value typed for a query parameter survives switching through two other methods that have
  the parameter too.
\<close>

theorem merged_value_survives:
  assumes "params_slot (cx_queryParameters a) k = Some v"
    and "params_slot (cx_queryParameters b) k \<noteq> None" and "params_slot (cx_queryParameters c) k \<noteq> None"
  shows "params_slot (cx_queryParameters (context_merge (context_merge a b) c)) k = Some v"
  using params_copy.copy_chain [OF assms] by (simp add: context_merge_def)

definition sample_context :: "jsval \<Rightarrow> context_state" where
  "sample_context v =
     (let none = \<lparr>ps_plain = [], ps_parameterized = [], ps_values = []\<rparr>
      in \<lparr>cx_headers = none,
          cx_queryParameters = \<lparr>ps_plain = [(''q'', \<lparr>np_definitions = JArr [JObj []], np_selected = JUndef\<rparr>)],
            ps_parameterized = [], ps_values = [(''q'', [v])]\<rparr>,
          cx_uriParameters = none, cx_bodyContent = None, cx_segments = [], cx_baseUriContext = [], cx_segmentContexts = []\<rparr>)"

theorem merged_value_survives_witness:
  "params_slot (cx_queryParameters (context_merge (context_merge (sample_context (JStr ''typed'')) (sample_context JUndef))
     (sample_context JUndef))) ''q'' = Some [JStr ''typed'']"
  by (rule merged_value_survives) (simp_all add: sample_context_def Let_def params_slot_def oget_def)

end
