(* ===== verification/Auth.thy ===== *)
theory Auth
  imports Request
begin

text \<open>
  Authentication strategies of the console (\<open>RAML.Client.AuthStrategies\<close> in
  \<open>api-console.js\<close>): anonymous, basic and OAuth 1.0 (plain text and HMAC-SHA1 signatures),
  with the three-legged OAuth 1.0 exchange. The host supplies the clock, the nonce, the URL
  parser, the string collation and HMAC-SHA1; they are fields of the environment record.
\<close>

section \<open>Base64\<close>

definition b64_char :: "nat \<Rightarrow> char" where
  "b64_char n =
     (if n < 26 then char_of (65 + n) else if n < 52 then char_of (71 + n)
      else if n < 62 then char_of (n - 4) else if n = 62 then CHR ''+'' else CHR ''/'')"

fun base64 :: "string \<Rightarrow> string" where
  "base64 [] = []"
| "base64 [a] = (let x = of_char a in
     [b64_char (x div 4), b64_char (x mod 4 * 16), CHR ''='', CHR ''=''])"
| "base64 [a, b] = (let x = of_char a; y = of_char b in
     [b64_char (x div 4), b64_char (x mod 4 * 16 + y div 16), b64_char (y mod 16 * 4), CHR ''=''])"
| "base64 (a # b # c # r) = (let x = of_char a; y = of_char b; z = of_char c in
     [b64_char (x div 4), b64_char (x mod 4 * 16 + y div 16), b64_char (y mod 16 * 4 + z div 64), b64_char (z mod 64)]
     @ base64 r)"

text \<open>The reader of the other side (RFC 4648).\<close>

definition b64_val :: "char \<Rightarrow> nat" where
  "b64_val c = (let n = of_char c :: nat in
     if is_upper c then n - 65 else if is_lower c then n - 71 else if is_digit c then n + 4
     else if c = CHR ''+'' then 62 else 63)"

fun base64_decode :: "string \<Rightarrow> string" where
  "base64_decode (p # q # r # s # t) =
     (let w = b64_val p; x = b64_val q; y = b64_val r; z = b64_val s
      in char_of (w * 4 + x div 16)
         # (if r = CHR ''='' then []
            else char_of (x mod 16 * 16 + y div 4)
                 # (if s = CHR ''='' then [] else [char_of (y mod 4 * 64 + z)]))
         @ base64_decode t)"
| "base64_decode _ = []"

section \<open>Basic authentication\<close>

record basic_credentials =
  username :: "string option"
  password :: "string option"

definition str_or_empty :: "string option \<Rightarrow> string" where
  "str_or_empty s = (case s of None \<Rightarrow> [] | Some t \<Rightarrow> t)"

text \<open>\<open>Basic.Token\<close>: the encoded credentials; and its \<open>sign\<close>.\<close>

definition basic_token :: "basic_credentials \<Rightarrow> string" where
  "basic_token cr = base64 (str_or_empty (username cr) @ '':'' @ str_or_empty (password cr))"

definition basic_sign :: "string \<Rightarrow> request \<Rightarrow> request" where
  "basic_sign encoded r = req_header ''Authorization'' (JStr (''Basic '' @ encoded)) r"

section \<open>OAuth 1.0 parameters and header\<close>

record consumer_credentials =
  consumerKey :: string
  consumerSecret :: string

record token_credentials =
  token :: string
  tokenSecret :: string
  verifier :: "string option"

record location_parts =
  protocol :: string
  host :: string
  hostname :: string
  port :: string
  pathname :: string

record oauth1_env =
  now_ms :: int
  nonce :: string
  oauth1RedirectUri :: string
  parse_location :: "string \<Rightarrow> location_parts"
  localeCompare :: "string \<Rightarrow> string \<Rightarrow> int"
  hmac_sha1_base64 :: "string \<Rightarrow> string \<Rightarrow> string"
  env_settings :: settings

definition rfc3986Encode :: "string \<Rightarrow> string" where
  "rfc3986Encode str =
     concat (map (\<lambda>c. if c = CHR ''*'' then ''%2A'' else [c])
       (concat (map (\<lambda>c. if sub_delim c then pct c else [c]) (encodeURIComponent str))))"

definition baseParameters :: "consumer_credentials \<Rightarrow> string jsobj" where
  "baseParameters cc = [(''oauth_consumer_key'', consumerKey cc), (''oauth_version'', ''1.0'')]"

definition generateTemporaryCredentialParameters :: "oauth1_env \<Rightarrow> consumer_credentials \<Rightarrow> string jsobj" where
  "generateTemporaryCredentialParameters env cc =
     oset ''oauth_callback'' (oauth1RedirectUri env) (baseParameters cc)"

definition generateTokenCredentialParameters :: "consumer_credentials \<Rightarrow> token_credentials \<Rightarrow> string jsobj" where
  "generateTokenCredentialParameters cc tc =
     (let result = oset ''oauth_token'' (token tc) (baseParameters cc)
      in case verifier tc of
           None \<Rightarrow> result
         | Some v \<Rightarrow> if v = [] then result else oset ''oauth_verifier'' v result)"

definition oauth_header :: "string jsobj \<Rightarrow> string" where
  "oauth_header params =
     ''OAuth '' @ join '', '' (map (\<lambda>(k, v). k @ ''='' @ [CHR 0x22] @ rfc3986Encode v @ [CHR 0x22]) (entries params))"

definition setRequestHeader :: "string jsobj \<Rightarrow> request \<Rightarrow> request" where
  "setRequestHeader params r = req_header ''Authorization'' (JStr (oauth_header params)) r"

section \<open>Plain-text and HMAC signatures\<close>

definition plaintext_temporary_sign :: "oauth1_env \<Rightarrow> consumer_credentials \<Rightarrow> request \<Rightarrow> request" where
  "plaintext_temporary_sign env cc r =
     (let params = generateTemporaryCredentialParameters env cc;
          params = oset ''oauth_signature'' (rfc3986Encode (consumerSecret cc) @ ''&'') params;
          params = oset ''oauth_signature_method'' ''PLAINTEXT'' params
      in setRequestHeader params r)"

definition plaintext_token_sign :: "consumer_credentials \<Rightarrow> token_credentials \<Rightarrow> request \<Rightarrow> request" where
  "plaintext_token_sign cc tc r =
     (let params = generateTokenCredentialParameters cc tc;
          params = oset ''oauth_signature''
            (rfc3986Encode (consumerSecret cc) @ ''&'' @ rfc3986Encode (tokenSecret tc)) params;
          params = oset ''oauth_signature_method'' ''PLAINTEXT'' params
      in setRequestHeader params r)"

text \<open>
  \<open>Hmac.encodeURI\<close>: \<open>parser.port\<close> is a string, so the strict comparison with a number never
  holds and the port is never dropped.
\<close>

definition hmac_encodeURI :: "oauth1_env \<Rightarrow> string \<Rightarrow> string" where
  "hmac_encodeURI env uri =
     (let parser = parse_location env uri;
          hn = (if protocol parser = ''https:'' \<and> strict_eq (JStr (port parser)) (jint 443)
                   \<or> protocol parser = ''http:'' \<and> strict_eq (JStr (port parser)) (jint 80)
                then lower (hostname parser) else lower (host parser))
      in rfc3986Encode (protocol parser @ ''//'' @ hn @ pathname parser))"

definition compare_tuples :: "(string \<Rightarrow> string \<Rightarrow> int) \<Rightarrow> string \<times> string \<Rightarrow> string \<times> string \<Rightarrow> int" where
  "compare_tuples cmp a b = (if fst a = fst b then cmp (snd a) (snd b) else cmp (fst a) (fst b))"

definition encode_tuples :: "jsval jsobj \<Rightarrow> (string \<times> string) list" where
  "encode_tuples ob = map (\<lambda>(k, v). (rfc3986Encode k, rfc3986Encode (to_string v))) (entries ob)"

definition encodeParameters :: "oauth1_env \<Rightarrow> ajax_options \<Rightarrow> request \<Rightarrow> jsval jsobj \<Rightarrow> string" where
  "encodeParameters env o1 r oauthParameters =
     (let formParams = (if ajax_contentType o1 = Ct (JStr FORM_URLENCODED)
            then (case req_data_get r of JObj ob \<Rightarrow> ob
                  | JArr vs \<Rightarrow> map (\<lambda>(i, v). (show_nat i, v)) (enumerate 0 vs) | _ \<Rightarrow> []) else []);
          result = encode_tuples (req_queryParams_get r) @ encode_tuples formParams @ encode_tuples oauthParameters
      in join ''&'' (map (\<lambda>(k, v). k @ ''='' @ v) (sort_cmp (compare_tuples (localeCompare env)) result)))"

definition constructHmacText :: "oauth1_env \<Rightarrow> request \<Rightarrow> jsval jsobj \<Rightarrow> string res" where
  "constructHmacText env r oauthParams =
     rbind (toOptions (env_settings env) r) (\<lambda>o1.
       Inr (join ''&''
         [upper (ajax_method o1), hmac_encodeURI env (ajax_url o1),
          rfc3986Encode (encodeParameters env o1 r oauthParams)]))"

definition js_strings :: "string jsobj \<Rightarrow> jsval jsobj" where
  "js_strings ob = map (\<lambda>(k, v). (k, JStr v)) ob"

definition generateSignature :: "oauth1_env \<Rightarrow> string jsobj \<Rightarrow> request \<Rightarrow> string \<Rightarrow> string jsobj res" where
  "generateSignature env params0 r key =
     (let params = oset ''oauth_signature_method'' ''HMAC-SHA1'' params0;
          params = oset ''oauth_timestamp'' (show_int (now_ms env div 1000)) params;
          params = oset ''oauth_nonce'' (nonce env) params
      in rbind (constructHmacText env r (js_strings params)) (\<lambda>data.
           Inr (oset ''oauth_signature'' (hmac_sha1_base64 env data key) params)))"

definition hmac_temporary_sign :: "oauth1_env \<Rightarrow> consumer_credentials \<Rightarrow> request \<Rightarrow> request res" where
  "hmac_temporary_sign env cc r =
     (let key = rfc3986Encode (consumerSecret cc) @ ''&''
      in rbind (generateSignature env (generateTemporaryCredentialParameters env cc) r key) (\<lambda>params.
           Inr (setRequestHeader params r)))"

definition hmac_token_sign :: "oauth1_env \<Rightarrow> consumer_credentials \<Rightarrow> token_credentials \<Rightarrow> request \<Rightarrow> request res" where
  "hmac_token_sign env cc tc r =
     (let key = rfc3986Encode (consumerSecret cc) @ ''&'' @ rfc3986Encode (tokenSecret tc)
      in rbind (generateSignature env (generateTokenCredentialParameters cc tc) r key) (\<lambda>params.
           Inr (setRequestHeader params r)))"

section \<open>Signers and the token exchange\<close>

datatype signer =
    PlaintextTemporary consumer_credentials
  | PlaintextToken consumer_credentials token_credentials
  | HmacTemporary consumer_credentials
  | HmacToken consumer_credentials token_credentials

record oauth1_settings =
  requestTokenUri :: string
  authorizationUri :: string
  tokenCredentialsUri :: string
  signatureMethod :: "string option"

definition createSigner :: "oauth1_settings \<Rightarrow> consumer_credentials \<Rightarrow> token_credentials option \<Rightarrow> signer" where
  "createSigner st cc tc =
     (if signatureMethod st = Some ''PLAINTEXT''
      then (case tc of None \<Rightarrow> PlaintextTemporary cc | Some t \<Rightarrow> PlaintextToken cc t)
      else (case tc of None \<Rightarrow> HmacTemporary cc | Some t \<Rightarrow> HmacToken cc t))"

fun signer_sign :: "oauth1_env \<Rightarrow> signer \<Rightarrow> request \<Rightarrow> request res" where
  "signer_sign env (PlaintextTemporary cc) r = Inr (plaintext_temporary_sign env cc r)"
| "signer_sign env (PlaintextToken cc tc) r = Inr (plaintext_token_sign cc tc r)"
| "signer_sign env (HmacTemporary cc) r = hmac_temporary_sign env cc r"
| "signer_sign env (HmacToken cc tc) r = hmac_token_sign env cc tc r"

text \<open>
  \<open>parseUrlEncodedData\<close>: the parts are not decoded, and a value ends at its second equals sign.
\<close>

definition parseUrlEncodedData :: "string \<Rightarrow> jsval jsobj" where
  "parseUrlEncodedData data =
     fold (\<lambda>param result.
        (case split_on CHR ''='' param of
           [] \<Rightarrow> result
         | [k] \<Rightarrow> oset k JUndef result
         | k # v # _ \<Rightarrow> oset k (JStr v) result))
       (split_on CHR ''&'' data) []"

text \<open>\<open>jQuery.ajax\<close> answers the options with a response text or an error.\<close>

type_synonym transport = "ajax_options \<Rightarrow> string res"

definition post_signed :: "oauth1_env \<Rightarrow> transport \<Rightarrow> string \<Rightarrow> signer \<Rightarrow> token_credentials res" where
  "post_signed env ajax uri sg =
     rbind (signer_sign env sg (request_create uri ''post'')) (\<lambda>r.
     rbind (toOptions (env_settings env) r) (\<lambda>o1.
     rbind (ajax o1) (\<lambda>raw.
       let data = parseUrlEncodedData raw
       in Inr \<lparr>token = to_string (pget data ''oauth_token''),
               tokenSecret = to_string (pget data ''oauth_token_secret''), verifier = None\<rparr>)))"

definition requestTemporaryCredentials ::
  "oauth1_env \<Rightarrow> transport \<Rightarrow> oauth1_settings \<Rightarrow> consumer_credentials \<Rightarrow> token_credentials res" where
  "requestTemporaryCredentials env ajax st cc =
     post_signed env ajax (requestTokenUri st) (createSigner st cc None)"

text \<open>The window that is opened, and the credentials once the user granted access.\<close>

definition requestAuthorization :: "oauth1_settings \<Rightarrow> token_credentials \<Rightarrow> string \<Rightarrow> string \<times> token_credentials" where
  "requestAuthorization st tc granted =
     (authorizationUri st @ ''?oauth_token='' @ token tc, tc\<lparr>verifier := Some granted\<rparr>)"

definition requestTokenCredentials ::
  "oauth1_env \<Rightarrow> transport \<Rightarrow> oauth1_settings \<Rightarrow> consumer_credentials \<Rightarrow> token_credentials \<Rightarrow> signer res" where
  "requestTokenCredentials env ajax st cc tc =
     rbind (post_signed env ajax (tokenCredentialsUri st) (createSigner st cc (Some tc))) (\<lambda>cr.
       Inr (createSigner st cc (Some cr)))"

definition oauth1_authenticate ::
  "oauth1_env \<Rightarrow> transport \<Rightarrow> oauth1_settings \<Rightarrow> consumer_credentials \<Rightarrow> string \<Rightarrow> (string \<times> signer) res" where
  "oauth1_authenticate env ajax st cc granted =
     rbind (requestTemporaryCredentials env ajax st cc) (\<lambda>temp.
       let (opened, auth) = requestAuthorization st temp granted
       in rbind (requestTokenCredentials env ajax st cc auth) (\<lambda>sg. Inr (opened, sg)))"

section \<open>Choosing a strategy\<close>

datatype strategy = Anonymous | Basic string | Oauth1 | Oauth2

definition forScheme :: "string option \<Rightarrow> basic_credentials \<Rightarrow> strategy res" where
  "forScheme scheme_type cr =
     (case scheme_type of
        None \<Rightarrow> Inr Anonymous
      | Some t \<Rightarrow>
          if t = ''Basic Authentication'' then Inr (Basic (basic_token cr))
          else if t = ''OAuth 2.0'' then Inr Oauth2
          else if t = ''OAuth 1.0'' then Inr Oauth1
          else if t = ''x-custom'' then Inr Anonymous
          else if t = ''Anonymous'' then Inr Anonymous
          else Inl (Thrown (''Unknown authentication strategy: '' @ t)))"

text \<open>Signing with the token a strategy yields; the OAuth strategies sign through their own.\<close>

definition anonymous_sign :: "request \<Rightarrow> request" where
  "anonymous_sign r = r"

section \<open>What signing changes\<close>

text \<open>
  A signer may only add an \<open>Authorization\<close> header: the URL, the method, the content type, the
  query and the data of the request stay, and so does every other header.
\<close>

definition same_but_auth :: "request \<Rightarrow> request \<Rightarrow> bool" where
  "same_but_auth r s =
     (req_url (opts s) = req_url (opts r) \<and> req_method (opts s) = req_method (opts r)
      \<and> req_contentType (opts s) = req_contentType (opts r) \<and> queryParams s = queryParams r
      \<and> rawData s = rawData r \<and> isMultipartRequest s = isMultipartRequest r
      \<and> (\<forall>k. k \<noteq> ''Authorization'' \<longrightarrow> oget (hdrs s) k = oget (hdrs r) k))"

lemma same_but_auth_refl [simp]: "same_but_auth r r"
  by (simp add: same_but_auth_def)

lemma lower_authorization: "lower ''Authorization'' \<noteq> CONTENT_TYPE"
  by code_simp

lemma same_but_auth_header [simp]: "same_but_auth r (req_header ''Authorization'' v r)"
  using lower_authorization
  by (auto simp: same_but_auth_def req_header_def hdrs_def Let_def split: option.splits)

text \<open>The interface of a signer, and what its client (\<open>tryIt\<close>) may rely on.\<close>

locale request_signer =
  fixes sign :: "request \<Rightarrow> request res"
  assumes sign_frame: "sign r = Inr s \<Longrightarrow> same_but_auth r s"
begin

lemma sign_transfer:
  assumes "sign r = Inr s"
  shows "toOptions st s = rbind (toOptions st r) (\<lambda>o1. Inr (o1\<lparr>ajax_headers := req_headers (opts s)\<rparr>))"
proof -
  have eq: "req_url (opts s) = req_url (opts r)" "req_method (opts s) = req_method (opts r)"
    "req_contentType (opts s) = req_contentType (opts r)" "queryParams s = queryParams r"
    "rawData s = rawData r" "isMultipartRequest s = isMultipartRequest r"
    using sign_frame [OF assms] by (simp_all add: same_but_auth_def)
  show ?thesis
    unfolding toOptions_def Let_def req_queryParams_get_def eq
    by (cases "proxy st"; cases "form_entries (rawData r)") simp_all
qed

lemma sign_options:
  "sign r = Inr s \<Longrightarrow> toOptions st s = Inr o2 \<Longrightarrow>
    \<exists>o1. toOptions st r = Inr o1 \<and> o2 = o1\<lparr>ajax_headers := req_headers (opts s)\<rparr>"
  by (auto simp: sign_transfer rbind_eq_Inr)

lemma sign_keeps_header: "sign r = Inr s \<Longrightarrow> k \<noteq> ''Authorization'' \<Longrightarrow> oget (hdrs s) k = oget (hdrs r) k"
  using sign_frame by (simp add: same_but_auth_def)

end

interpretation anonymous: request_signer "\<lambda>r. Inr (anonymous_sign r)"
  by unfold_locales (simp add: anonymous_sign_def)

interpretation basic: request_signer "\<lambda>r. Inr (basic_sign encoded r)" for encoded
  by unfold_locales (auto simp: basic_sign_def)

lemma signer_sign_frame: "signer_sign env sg r = Inr s \<Longrightarrow> same_but_auth r s"
  by (cases sg) (auto simp: plaintext_temporary_sign_def plaintext_token_sign_def hmac_temporary_sign_def
      hmac_token_sign_def setRequestHeader_def Let_def rbind_eq_Inr)

interpretation oauth1: request_signer "signer_sign env sg" for env sg
  by unfold_locales (rule signer_sign_frame)

text \<open>
  Signing with OAuth 1.0 leaves the transport options of the request as they were except
  for the headers, and of those it changes \<open>Authorization\<close> only.
\<close>

theorem oauth1_sign_options:
  assumes "signer_sign env sg r = Inr s" and "toOptions st s = Inr o2"
  shows "(\<exists>o1. toOptions st r = Inr o1 \<and> o2 = o1\<lparr>ajax_headers := req_headers (opts s)\<rparr>)
    \<and> (\<forall>k. k \<noteq> ''Authorization'' \<longrightarrow> oget (hdrs s) k = oget (hdrs r) k)"
  using oauth1.sign_options [OF assms] oauth1.sign_keeps_header [OF assms(1)] by blast

definition sample_env :: oauth1_env where
  "sample_env = \<lparr>now_ms = 1500000000123, nonce = ''n'', oauth1RedirectUri = ''http://c/cb'',
     parse_location = (\<lambda>u. \<lparr>protocol = ''http:'', host = ''H:80'', hostname = ''H'', port = ''80'', pathname = ''/p''\<rparr>),
     localeCompare = (\<lambda>a b. if a = b then 0 else if str_le a b then -1 else 1),
     hmac_sha1_base64 = (\<lambda>d k. ''sig''), env_settings = \<lparr>proxy = None, disableProxy = False\<rparr>\<rparr>"

definition sample_consumer :: consumer_credentials where
  "sample_consumer = \<lparr>consumerKey = ''k&1'', consumerSecret = ''s''\<rparr>"

theorem oauth1_sign_options_witness:
  "\<exists>s o2. signer_sign sample_env (PlaintextTemporary sample_consumer) (request_create ''http://h/p'' ''get'') = Inr s
     \<and> toOptions \<lparr>proxy = None, disableProxy = False\<rparr> s = Inr o2
     \<and> oget (hdrs s) ''Accept'' = oget (hdrs (request_create ''http://h/p'' ''get'')) ''Accept''"
proof -
  have "(case signer_sign sample_env (PlaintextTemporary sample_consumer) (request_create ''http://h/p'' ''get'') of
      Inr s \<Rightarrow> (case toOptions \<lparr>proxy = None, disableProxy = False\<rparr> s of Inr o2 \<Rightarrow> True | Inl e \<Rightarrow> False) | Inl e \<Rightarrow> False)"
    by code_simp
  then obtain s o2 where 1: "signer_sign sample_env (PlaintextTemporary sample_consumer) (request_create ''http://h/p'' ''get'') = Inr s"
    and 2: "toOptions \<lparr>proxy = None, disableProxy = False\<rparr> s = Inr o2"
    by (simp split: sum.splits)
  have "''Accept'' \<noteq> ''Authorization''" by simp
  with oauth1_sign_options [OF 1 2] 1 2 show ?thesis by metis
qed

section \<open>Basic credentials\<close>

lemma b64_val_char [simp]: "n < 64 \<Longrightarrow> b64_val (b64_char n) = n"
  and b64_char_pad [simp]: "n < 64 \<Longrightarrow> b64_char n \<noteq> CHR ''=''"
proof -
  assume n: "n < 64"
  consider "n < 26" | "26 \<le> n \<and> n < 52" | "52 \<le> n \<and> n < 62" | "n = 62" | "n = 63"
    using n by linarith
  then show "b64_val (b64_char n) = n"
    by cases (auto simp: b64_val_def b64_char_def is_upper_def is_lower_def is_digit_def Let_def)
next
  assume n: "n < 64"
  have "(of_char (b64_char n) :: nat) \<noteq> of_char (CHR ''='')"
    using n by (auto simp: b64_char_def)
  then show "b64_char n \<noteq> CHR ''=''" by metis
qed

lemma of_char_bound: "(of_char c :: nat) div 4 < 64" "(of_char c :: nat) div 64 < 4"
  using of_char_less [of c] by (simp_all add: less_mult_imp_div_less)

lemma b64_first: "w < 256 \<Longrightarrow> z < 16 \<Longrightarrow> w div 4 * 4 + (w mod 4 * 16 + z) div 16 = (w :: nat)"
  by simp

lemma b64_second:
  assumes "y < 256" "z < (4::nat)"
  shows "(w mod 4 * 16 + y div 16) mod 16 * 16 + (y mod 16 * 4 + z) div 4 = (y :: nat)"
proof -
  have "y div 16 < 16" using assms(1) by (simp add: less_mult_imp_div_less)
  then have "(w mod 4 * 16 + y div 16) mod 16 = y div 16" by simp
  moreover have "(y mod 16 * 4 + z) div 4 = y mod 16" using assms(2) by simp
  ultimately show ?thesis by (simp add: div_mult_mod_eq)
qed

lemma b64_third:
  assumes "z < (256::nat)"
  shows "(y mod 16 * 4 + z div 64) mod 4 * 64 + z mod 64 = (z :: nat)"
proof -
  have "z div 64 < 4" using assms by (simp add: less_mult_imp_div_less)
  then have "(y mod 16 * 4 + z div 64) mod 4 = z div 64" by simp
  then show ?thesis by (simp add: div_mult_mod_eq)
qed

lemma b64_range:
  "x mod 4 * 16 < (64::nat)" "(y::nat) < 256 \<Longrightarrow> x mod 4 * 16 + y div 16 < (64::nat)"
  "y mod 16 * 4 < (64::nat)" "(z::nat) < 256 \<Longrightarrow> y mod 16 * 4 + z div 64 < (64::nat)" "z mod 64 < (64::nat)"
proof -
  have m4: "x mod 4 \<le> 3" for x :: nat using mod_less_divisor [of 4 x] by linarith
  have m16: "x mod 16 \<le> 15" for x :: nat using mod_less_divisor [of 16 x] by linarith
  show "x mod 4 * 16 < (64::nat)" using m4 [of x] by linarith
  show "y mod 16 * 4 < (64::nat)" using m16 [of y] by linarith
  show "z mod 64 < (64::nat)" by simp
  { assume "y < 256"
    then have "y div 16 < 16" by (simp add: less_mult_imp_div_less)
    then show "x mod 4 * 16 + y div 16 < 64" using m4 [of x] by linarith }
  { assume "z < 256"
    then have "z div 64 < 4" by (simp add: less_mult_imp_div_less)
    then show "y mod 16 * 4 + z div 64 < 64" using m16 [of y] by linarith }
qed

lemma base64_decode_base64: "base64_decode (base64 s) = s"
proof (induction s rule: base64.induct)
  case (2 a)
  show ?case
    using b64_first [of "of_char a" 0] by (simp add: Let_def of_char_bound b64_range)
next
  case (3 a b)
  show ?case
    using b64_first [of "of_char a" "of_char b div 16"] b64_second [of "of_char b" 0 "of_char a"]
    by (simp add: Let_def of_char_bound b64_range)
next
  case (4 a b c r)
  then show ?case
    using b64_first [of "of_char a" "of_char b div 16"] b64_third [of "of_char c" "of_char b"]
      b64_second [of "of_char b" "of_char c div 64" "of_char a"]
    by (simp add: Let_def of_char_bound b64_range)
qed simp


text \<open>
  Whoever receives the \<open>Authorization\<close> header of a request signed with basic
  authentication reads the user name and the password, separated by a colon, off its Base64 part.
\<close>

theorem basic_header_decodes:
  "\<exists>h. oget (hdrs (basic_sign (basic_token cr) r)) ''Authorization'' = Some (JStr (''Basic '' @ h))
     \<and> base64_decode h = str_or_empty (username cr) @ '':'' @ str_or_empty (password cr)"
  using lower_authorization
  by (auto simp: basic_sign_def basic_token_def req_header_def hdrs_def Let_def base64_decode_base64)

section \<open>The signature base string\<close>

lemma rfc3986Encode_eq: "rfc3986Encode s = percent_encode unreserved s"
  using encode_component_eq [of s] by (simp add: rfc3986Encode_def encode_component_def)

lemma rfc3986Encode_no_amp [simp]: "CHR ''&'' \<notin> set (rfc3986Encode s)"
  using encode_component_no_sep(1) [of s] by (simp add: rfc3986Encode_eq encode_component_eq)

lemma valid_utf8_ascii: "list_all (\<lambda>c. (of_char c :: nat) < 128) s \<Longrightarrow> valid_utf8 s"
  by (induction s) (auto simp: utf8_need_def utf8_seq_def)

lemma pct_ascii: "d \<in> set (pct c) \<Longrightarrow> (of_char d :: nat) < 128"
  using pct_chars [of d c] by (auto simp: is_alnum_def is_digit_def is_upper_def is_lower_def)

lemma rfc3986Encode_ascii: "d \<in> set (rfc3986Encode s) \<Longrightarrow> (of_char d :: nat) < 128"
  by (auto simp: rfc3986Encode_eq percent_encode_def strict.safe_ascii pct_ascii split: if_splits)

lemma rfc3986_decode: "valid_utf8 s \<Longrightarrow> decodeURIComponent (rfc3986Encode s) = Inr s"
  by (simp add: rfc3986Encode_eq strict.decode_encoded)

lemma encodeParameters_ascii: "d \<in> set (encodeParameters env o1 r p) \<Longrightarrow> (of_char d :: nat) < 128"
  unfolding encodeParameters_def Let_def
  by (fastforce simp: encode_tuples_def dest!: set_join rfc3986Encode_ascii)

text \<open>
  C30. The text that is signed with HMAC-SHA1 determines what it was built from: cut at its
  ampersands it has exactly three parts, the upper-cased method, the encoded address, and a part
  that percent-decodes to the parameter list. No parameter can add a part of its own.
\<close>

theorem hmac_text_parts:
  assumes "constructHmacText env r p = Inr text'" and "CHR ''&'' \<notin> set (upper (req_method (opts r)))"
  shows "\<exists>o1 e. toOptions (env_settings env) r = Inr o1
    \<and> split_on CHR ''&'' text' = [upper (req_method (opts r)), hmac_encodeURI env (ajax_url o1), e]
    \<and> decodeURIComponent e = Inr (encodeParameters env o1 r p)"
proof -
  from assms(1) obtain o1 where o1: "toOptions (env_settings env) r = Inr o1"
    and t: "text' = join ''&'' [upper (ajax_method o1), hmac_encodeURI env (ajax_url o1),
          rfc3986Encode (encodeParameters env o1 r p)]"
    by (auto simp: constructHmacText_def rbind_eq_Inr)
  have "ajax_method o1 = req_method (opts r)"
    using o1 by (auto simp: toOptions_def Let_def rbind_eq_Inr split: if_splits option.splits)
  moreover have "CHR ''&'' \<notin> set (hmac_encodeURI env (ajax_url o1))"
    by (simp add: hmac_encodeURI_def Let_def)
  ultimately have "split_on CHR ''&'' text' = [upper (req_method (opts r)), hmac_encodeURI env (ajax_url o1),
          rfc3986Encode (encodeParameters env o1 r p)]"
    using assms(2) t by (simp only: t) (rule split_on_join, auto)
  moreover have "decodeURIComponent (rfc3986Encode (encodeParameters env o1 r p)) = Inr (encodeParameters env o1 r p)"
    by (rule rfc3986_decode, rule valid_utf8_ascii) (auto simp: list_all_iff encodeParameters_ascii)
  ultimately show ?thesis using o1 by blast
qed


theorem hmac_text_parts_witness:
  "\<exists>o1 e. toOptions (env_settings sample_env) (request_create ''http://h/p'' ''get'') = Inr o1
    \<and> split_on CHR ''&'' ''GET&http%3A%2F%2Fh%3A80%2Fp&a%3D%2526%26b%3D1'' = [''GET'', hmac_encodeURI sample_env (ajax_url o1), e]
    \<and> decodeURIComponent e = Inr (encodeParameters sample_env o1 (request_create ''http://h/p'' ''get'')
          [(''b'', JStr ''1''), (''a'', JStr ''&'')])"
proof -
  have t: "constructHmacText sample_env (request_create ''http://h/p'' ''get'') [(''b'', JStr ''1''), (''a'', JStr ''&'')]
     = Inr ''GET&http%3A%2F%2Fh%3A80%2Fp&a%3D%2526%26b%3D1''"
    by code_simp
  have m: "upper (req_method (opts (request_create ''http://h/p'' ''get''))) = ''GET''"
    by code_simp
  have "CHR ''&'' \<notin> set (upper (req_method (opts (request_create ''http://h/p'' ''get''))))"
    unfolding m by simp
  from hmac_text_parts [OF t this] show ?thesis unfolding m .
qed

section \<open>Order of the parameters\<close>

text \<open>
  A collation that orders strings totally makes the tuple comparator a total order too, so the
  sorted parameter list does not depend on the order in which parameters were added.
\<close>

locale collation = strict_comparator cmp for cmp :: "string \<Rightarrow> string \<Rightarrow> int"
begin

lemma cmp_refl: "cmp a a \<le> 0"
  using cmp_total [of a a] by blast

lemma strict_compare_tuples: "strict_comparator (compare_tuples cmp)"
proof
  fix x y z :: "string \<times> string"
  show "compare_tuples cmp x y \<le> 0 \<or> compare_tuples cmp y x \<le> 0"
    using cmp_total by (simp add: compare_tuples_def)
  show "compare_tuples cmp x y \<le> 0 \<Longrightarrow> compare_tuples cmp y z \<le> 0 \<Longrightarrow> compare_tuples cmp x z \<le> 0"
    using cmp_trans cmp_antisym cmp_refl
    by (simp add: compare_tuples_def split: if_splits) (metis+)?
  show "compare_tuples cmp x y \<le> 0 \<Longrightarrow> compare_tuples cmp y x \<le> 0 \<Longrightarrow> x = y"
    using cmp_antisym by (cases x; cases y) (auto simp: compare_tuples_def split: if_splits)
qed

end

sublocale collation \<subseteq> tuples: strict_comparator "compare_tuples cmp"
  by (rule strict_compare_tuples)

interpretation code_unit_tuples: collation code_unit_collation
  using code_units.strict_comparator_axioms by (rule collation.intro)

text \<open>
  The signed parameter list depends on which parameters a request and its OAuth fields
  have, not on the order in which they were added, if the host's collation is a total order.
\<close>

theorem encodeParameters_order:
  assumes "collation (localeCompare env)"
    and "mset (entries (req_queryParams_get r)) = mset (entries (req_queryParams_get s))"
    and "req_data_get r = req_data_get s" and "mset (entries p) = mset (entries q)"
  shows "encodeParameters env o1 r p = encodeParameters env o1 s q"
proof -
  have "mset (encode_tuples (req_queryParams_get r)) = mset (encode_tuples (req_queryParams_get s))"
    and "mset (encode_tuples p) = mset (encode_tuples q)"
    using assms(2,4) by (simp_all add: encode_tuples_def)
  then have "sort_cmp (compare_tuples (localeCompare env)) (encode_tuples (req_queryParams_get r) @ f @ encode_tuples p)
      = sort_cmp (compare_tuples (localeCompare env)) (encode_tuples (req_queryParams_get s) @ f @ encode_tuples q)" for f
    by (intro strict_comparator.sort_perm [OF collation.strict_compare_tuples [OF assms(1)]]) simp
  then show ?thesis by (simp only: encodeParameters_def assms(3) Let_def)
qed

theorem encodeParameters_order_witness:
  "\<forall>o1. encodeParameters sample_env o1 (req_queryParam ''b'' (JStr ''1'') (req_queryParam ''a'' (JStr ''2'') (request_create ''h'' ''get''))) []
   = encodeParameters sample_env o1 (req_queryParam ''a'' (JStr ''2'') (req_queryParam ''b'' (JStr ''1'') (request_create ''h'' ''get''))) []"
proof (intro allI, rule encodeParameters_order)
  have "localeCompare sample_env = code_unit_collation"
    by (simp add: sample_env_def code_unit_collation_def fun_eq_iff)
  then show "collation (localeCompare sample_env)"
    using code_unit_tuples.collation_axioms by simp
  have e: "entries (req_queryParams_get (req_queryParam ''b'' (JStr ''1'') (req_queryParam ''a'' (JStr ''2'') (request_create ''h'' ''get''))))
      = [(''a'', JStr ''2''), (''b'', JStr ''1'')]"
    "entries (req_queryParams_get (req_queryParam ''a'' (JStr ''2'') (req_queryParam ''b'' (JStr ''1'') (request_create ''h'' ''get''))))
      = [(''b'', JStr ''1''), (''a'', JStr ''2'')]"
    by code_simp+
  show "mset (entries (req_queryParams_get (req_queryParam ''b'' (JStr ''1'') (req_queryParam ''a'' (JStr ''2'') (request_create ''h'' ''get'')))))
      = mset (entries (req_queryParams_get (req_queryParam ''a'' (JStr ''2'') (req_queryParam ''b'' (JStr ''1'') (request_create ''h'' ''get'')))))"
    unfolding e by simp
qed (simp_all add: req_data_get_def req_queryParam_def)

end
