(* ===== verification/Sidebar.thy ===== *)
theory Sidebar
  imports TryIt Auth
begin

text \<open>
  The \<open>sidebar\<close> directive of \<open>api-console.js\<close>: the try-it form. It builds the request from the
  form state, signs it with the selected security scheme, shows the response, and keeps the form
  consistent when fields are cleared or the scheme changes.

  The pretty printers of \<open>vkbeautify\<close> are a parameter of the functions that call them. Animations
  and scrolling are left out; the CSS classes that carry the state of the panel are kept.
\<close>

section \<open>Responses\<close>

text \<open>Response headers: a repeated name collects its values.\<close>

definition parse_line :: "string \<Rightarrow> string jsobj \<Rightarrow> string jsobj" where
  "parse_line line parsed =
     (let (k, v) = (case index_of '':'' line of None \<Rightarrow> ([], line) | Some i \<Rightarrow> (take i line, drop (Suc i) line));
          key = lower (trim k); val = trim v
      in if key = [] then parsed
         else case oget parsed key of
             Some old \<Rightarrow> if old = [] then oset key val parsed else oset key (old @ '', '' @ val) parsed
           | None \<Rightarrow> oset key val parsed)"

definition parseHeaders :: "string \<Rightarrow> string jsobj" where
  "parseHeaders headers =
     (if headers = [] then [] else fold parse_line (split_on CHR 0x0A headers) [])"

record beautifier =
  beautify_json :: "jsval \<Rightarrow> string res"
  beautify_xml :: "jsval \<Rightarrow> string res"

text \<open>\<open>contentType.indexOf(t)\<close> as a condition: true unless the match is at the start.\<close>

definition index_truthy :: "string \<Rightarrow> string \<Rightarrow> bool" where
  "index_truthy t s = (index_of t s \<noteq> Some 0)"

definition beautify :: "beautifier \<Rightarrow> jsval \<Rightarrow> string option \<Rightarrow> jsval res" where
  "beautify bf body contentType =
     (case contentType of
        None \<Rightarrow> Inl TypeError
      | Some ct \<Rightarrow>
          rbind (if index_truthy ''json'' ct then rbind (beautify_json bf body) (\<lambda>b. Inr (JStr b)) else Inr body) (\<lambda>b.
          if index_truthy ''xml'' ct then rbind (beautify_xml bf b) (\<lambda>c. Inr (JStr c)) else Inr b))"

record jq_xhr =
  xhr_status :: nat
  xhr_headers :: string
  xhr_text :: jsval

record response_view =
  rv_status :: jsval
  rv_headers :: "string jsobj"
  rv_contentType :: "string option"
  rv_body :: jsval
  rv_editorHeight :: nat

text \<open>\<open>handleResponse(jqXhr, err)\<close>: what the panel shows.\<close>

definition response_status :: "jq_xhr option \<Rightarrow> (jsval \<times> string) option \<Rightarrow> jsval" where
  "response_status xhr err = (case xhr of
       Some x \<Rightarrow> jint (int (xhr_status x))
     | None \<Rightarrow> (case err of
           None \<Rightarrow> jint 0
         | Some (st, message) \<Rightarrow> js_or st (JStr message)))"

definition editor_height :: "string \<Rightarrow> nat" where
  "editor_height body =
     (let lines = length (split_on CHR 0x0A body) in if lines > 100 then 2000 else 25 * lines)"

definition handleResponse :: "beautifier \<Rightarrow> jq_xhr option \<Rightarrow> (jsval \<times> string) option \<Rightarrow> response_view" where
  "handleResponse bf xhr err =
     (case xhr of
        None \<Rightarrow> \<lparr>rv_status = response_status xhr err, rv_headers = [], rv_contentType = None,
                 rv_body = JUndef, rv_editorHeight = 50\<rparr>
      | Some x \<Rightarrow>
          let hs = parseHeaders (xhr_headers x);
              ct = (case oget hs ''content-type'' of
                  None \<Rightarrow> None
                | Some c \<Rightarrow> if c = [] then None else Some (hd (split_on CHR '';'' c)));
              body = (case beautify bf (xhr_text x) ct of Inr b \<Rightarrow> b | Inl e \<Rightarrow> xhr_text x)
          in \<lparr>rv_status = response_status xhr err, rv_headers = hs, rv_contentType = ct, rv_body = body,
              rv_editorHeight = (if truthy (xhr_text x) then editor_height (to_string body) else 50)\<rparr>)"

section \<open>Parameters of a request\<close>

text \<open>The rendering context of every path segment.\<close>

definition resolveSegementContexts :: "parameterized_string list \<Rightarrow> jsval jsobj \<Rightarrow> jsval jsobj list" where
  "resolveSegementContexts pathSegments uriParameters =
     map (\<lambda>seg. if templated seg
        then map (\<lambda>key. (key, pget uriParameters key)) (keys_or_empty (parameters seg)) else [])
       pathSegments"

record form_state =
  fs_fields :: "bool jsobj"
  fs_valid :: bool

text \<open>Every field is marked dirty; the form's validity is returned.\<close>

definition validateForm :: "form_state \<Rightarrow> form_state \<times> bool" where
  "validateForm form =
     (form\<lparr>fs_fields := map (\<lambda>(k, d). (k, d \<or> CHR ''$'' \<notin> set k)) (fs_fields form)\<rparr>, fs_valid form)"

definition unwrap_first :: "jsval list \<Rightarrow> jsval list res" where
  "unwrap_first vs = (case vs of
       JArr input # rest \<Rightarrow>
         rbind (mapR (\<lambda>each. jidx each 0) input) (\<lambda>firsts. Inr (firsts @ drop (length firsts) vs))
     | _ \<Rightarrow> Inr vs)"

definition flatten_object :: "jsval \<Rightarrow> jsval res" where
  "flatten_object v = (if typeof_object v then rbind (cleanupPropertyValue v) (\<lambda>c. Inr (json_stringify c)) else Inr v)"

definition parameter_values :: "jsval list \<Rightarrow> jsval list res" where
  "parameter_values vs = rbind (unwrap_first vs) (\<lambda>ws. mapR flatten_object ws)"

definition drop_null_arrays :: "jsval list jsobj \<Rightarrow> jsval list jsobj" where
  "drop_null_arrays params = filter (\<lambda>(k, vs). vs = [] \<or> hd vs \<noteq> JStr ''[null]'') params"

definition getParameters :: "named_parameters \<Rightarrow> (string \<times> jsval) list \<Rightarrow> jsval list jsobj res" where
  "getParameters ps custom =
     rbind (mapR (\<lambda>(k, vs). rbind (parameter_values vs) (\<lambda>ws. Inr (k, ws))) (params_data ps)) (\<lambda>params.
       Inr (fold (\<lambda>(name, v). oset name [v]) custom (drop_null_arrays params)))"

section \<open>State of the form\<close>

text \<open>The fields of the scope that the handlers read or write. \<open>ts_resource\<close> and \<open>ts_method\<close> are the
  resource and the method as the constructor of the context left them, the URI parameters of the base
  URI among \<open>ro_uriParameters\<close>.\<close>

record try_scope =
  ts_raml :: "jsval jsobj"
  ts_resource :: resource_overview
  ts_method :: inspected_method
  ts_context :: context_state
  ts_customHeaders :: "(string \<times> jsval) list"
  ts_customQuery :: "(string \<times> jsval) list"
  ts_queryString :: string
  ts_forceRequest :: bool
  ts_form :: form_state
  ts_security :: security_state
  ts_schemes :: "jsval jsobj"
  ts_schemeType :: jsval
  ts_protocol :: "string option"
  ts_credentials :: "jsval jsobj"
  ts_showSpinner :: bool
  ts_queryStringHasError :: bool
  ts_customStrategyError :: bool
  ts_requestOptions :: "ajax_options option"

section \<open>Clearing and resetting\<close>

definition clearCustomFields :: "(string \<times> jsval) list \<Rightarrow> (string \<times> jsval) list" where
  "clearCustomFields custom = map (\<lambda>(n, v). (n, JStr [])) custom"

definition clear_with :: "jsval \<Rightarrow> named_parameters \<Rightarrow> named_parameters res" where
  "clear_with info ps =
     (if ps_values ps = [] then Inr ps
      else if nullish info then Inl TypeError
      else params_clear (case info of JObj ob \<Rightarrow> ob | _ \<Rightarrow> []) ps)"

text \<open>The selected body: form parameters are cleared, any other body becomes the empty text.\<close>

definition clear_body :: "inspected_method \<Rightarrow> body_content \<Rightarrow> body_content res" where
  "clear_body m bc =
     rbind (selected_definition bc) (\<lambda>d.
       let ct = (case bc_selected bc of None \<Rightarrow> [] | Some c \<Rightarrow> c) in
       case d of
         OtherBody bt \<Rightarrow> Inr (bc\<lparr>bc_definitions := oset ct (OtherBody (bt\<lparr>bt_value := JStr []\<rparr>)) (bc_definitions bc)\<rparr>)
       | FormBody ps \<Rightarrow>
           rbind (jget (pget (im_raml m) ''body'') ct) (\<lambda>b. rbind (jget b ''formParameters'') (\<lambda>info.
           rbind (clear_with info ps) (\<lambda>ps'.
             Inr (bc\<lparr>bc_definitions := oset ct (FormBody ps') (bc_definitions bc)\<rparr>)))))"

definition clearFields :: "try_scope \<Rightarrow> try_scope res" where
  "clearFields s =
     rbind (clear_with (ro_uriParameters (ts_resource s)) (cx_uriParameters (ts_context s))) (\<lambda>us.
     rbind (clear_with (pget (im_raml (ts_method s)) ''queryParameters'') (cx_queryParameters (ts_context s))) (\<lambda>qs.
     rbind (clear_with (mh_plain (im_headers (ts_method s))) (cx_headers (ts_context s))) (\<lambda>hs.
     rbind (case cx_bodyContent (ts_context s) of
         None \<Rightarrow> Inr None
       | Some bc \<Rightarrow> rbind (clear_body (ts_method s) bc) (\<lambda>b. Inr (Some b))) (\<lambda>body.
       Inr (s\<lparr>ts_context := (ts_context s)\<lparr>cx_uriParameters := us, cx_queryParameters := qs, cx_headers := hs, cx_bodyContent := body\<rparr>,
              ts_forceRequest := False,
              ts_credentials := map (\<lambda>(k, v). (k, JStr [])) (ts_credentials s),
              ts_customHeaders := clearCustomFields (ts_customHeaders s),
              ts_customQuery := clearCustomFields (ts_customQuery s)\<rparr>)))))"

definition info_object :: "jsval \<Rightarrow> jsval jsobj option" where
  "info_object v = (if truthy v then Some (case v of JObj ob \<Rightarrow> ob | _ \<Rightarrow> []) else None)"

definition reset_with :: "(int option \<Rightarrow> string) \<Rightarrow> jsval \<Rightarrow> named_parameters \<Rightarrow> named_parameters res" where
  "reset_with utc info ps = rbind (params_reset utc (info_object info) None ps) (\<lambda>(i, p). Inr p)"

definition reset_body :: "inspected_method \<Rightarrow> string option \<Rightarrow> (int option \<Rightarrow> string) \<Rightarrow> body_content \<Rightarrow> body_content res" where
  "reset_body m field utc bc =
     rbind (selected_definition bc) (\<lambda>d.
       let ct = (case bc_selected bc of None \<Rightarrow> [] | Some c \<Rightarrow> c) in
       case d of
         OtherBody bt \<Rightarrow>
           (if field \<noteq> None then Inl TypeError
            else rbind (jget (bt_contentType bt) ''example'') (\<lambda>e.
              Inr (bc\<lparr>bc_definitions := oset ct (OtherBody (bt\<lparr>bt_value := e\<rparr>)) (bc_definitions bc)\<rparr>)))
       | FormBody ps \<Rightarrow>
           rbind (jget (pget (im_raml m) ''body'') ct) (\<lambda>b. rbind (jget b ''formParameters'') (\<lambda>info.
           rbind (params_reset utc (info_object info) field ps) (\<lambda>(i, ps').
             Inr (bc\<lparr>bc_definitions := oset ct (FormBody ps') (bc_definitions bc)\<rparr>)))))"

text \<open>\<open>resetFormParameter(param)\<close> resets one form field.\<close>

definition resetFormParameter :: "(int option \<Rightarrow> string) \<Rightarrow> string \<Rightarrow> try_scope \<Rightarrow> try_scope res" where
  "resetFormParameter utc param s =
     (case cx_bodyContent (ts_context s) of
        None \<Rightarrow> Inl TypeError
      | Some bc \<Rightarrow> rbind (reset_body (ts_method s) (Some param) utc bc) (\<lambda>b.
          Inr (s\<lparr>ts_context := (ts_context s)\<lparr>cx_bodyContent := Some b\<rparr>\<rparr>)))"

definition resetFields :: "(int option \<Rightarrow> string) \<Rightarrow> try_scope \<Rightarrow> try_scope res" where
  "resetFields utc s =
     rbind (reset_with utc (ro_uriParameters (ts_resource s)) (cx_uriParameters (ts_context s))) (\<lambda>us.
     rbind (reset_with utc (pget (im_raml (ts_method s)) ''queryParameters'') (cx_queryParameters (ts_context s))) (\<lambda>qs.
     rbind (reset_with utc (mh_plain (im_headers (ts_method s))) (cx_headers (ts_context s))) (\<lambda>hs.
     rbind (case cx_bodyContent (ts_context s) of
         None \<Rightarrow> Inr None
       | Some bc \<Rightarrow> rbind (reset_body (ts_method s) None utc bc) (\<lambda>b. Inr (Some b))) (\<lambda>body.
       Inr (s\<lparr>ts_context := (ts_context s)\<lparr>cx_uriParameters := us, cx_queryParameters := qs, cx_headers := hs, cx_bodyContent := body\<rparr>,
              ts_forceRequest := False\<rparr>)))))"

section \<open>The body editor\<close>

text \<open>\<open>getBeatifiedExample\<close> of the documentation panel, which the form inherits. Its \<open>beautify\<close>
  tests the content type the other way round than the one of the response.\<close>

definition doc_beautify :: "beautifier \<Rightarrow> jsval \<Rightarrow> string option \<Rightarrow> jsval res" where
  "doc_beautify bf body contentType =
     (case contentType of
        None \<Rightarrow> Inl TypeError
      | Some ct \<Rightarrow>
          rbind (if index_of ''json'' ct \<noteq> None then rbind (beautify_json bf body) (\<lambda>b. Inr (JStr b)) else Inr body) (\<lambda>b.
          if index_of ''xml'' ct \<noteq> None then rbind (beautify_xml bf b) (\<lambda>c. Inr (JStr c)) else Inr b))"

definition getBeatifiedExample :: "beautifier \<Rightarrow> string option \<Rightarrow> jsval \<Rightarrow> jsval" where
  "getBeatifiedExample bf currentBodySelected v =
     (case doc_beautify bf v currentBodySelected of Inl e \<Rightarrow> v | Inr b \<Rightarrow> b)"

definition on_body :: "(body_content \<Rightarrow> body_content res) \<Rightarrow> try_scope \<Rightarrow> try_scope res" where
  "on_body f s = (case cx_bodyContent (ts_context s) of
       None \<Rightarrow> Inl TypeError
     | Some bc \<Rightarrow> rbind (f bc) (\<lambda>b. Inr (s\<lparr>ts_context := (ts_context s)\<lparr>cx_bodyContent := Some b\<rparr>\<rparr>)))"

definition prefillBody :: "beautifier \<Rightarrow> string option \<Rightarrow> string \<Rightarrow> try_scope \<Rightarrow> try_scope res" where
  "prefillBody bf currentBodySelected current =
     on_body (\<lambda>bc. case oget (bc_definitions bc) current of
         Some (OtherBody bt) \<Rightarrow> rbind (bt_fillWithExample bt) (\<lambda>b.
           Inr (bc\<lparr>bc_definitions := oset current
              (OtherBody (if truthy (bt_value b) then b\<lparr>bt_value := getBeatifiedExample bf currentBodySelected (bt_value b)\<rparr> else b))
              (bc_definitions bc)\<rparr>))
       | _ \<Rightarrow> Inl TypeError)"

definition toggleBodyType :: "string \<Rightarrow> try_scope \<Rightarrow> try_scope res" where
  "toggleBodyType current = on_body (\<lambda>bc. Inr (bc\<lparr>bc_selected := Some current\<rparr>))"

definition cancelRequest :: "try_scope \<Rightarrow> try_scope" where
  "cancelRequest s = s\<lparr>ts_showSpinner := False\<rparr>"

definition getHeaderValue :: "jsval \<Rightarrow> jsval res" where
  "getHeaderValue header = (case header of JStr h \<Rightarrow> Inr (JStr h) | _ \<Rightarrow> jidx header 0)"

definition hasExampleValue :: "jsval \<Rightarrow> bool" where
  "hasExampleValue v = (v \<noteq> JUndef)"

section \<open>Changing the security scheme\<close>

definition from_scheme :: "jsval \<Rightarrow> bool res" where
  "from_scheme ds = rbind (jidx ds 0) (\<lambda>d. rbind (jget d ''isFromSecurityScheme'') (\<lambda>b. Inr (truthy b)))"

text \<open>Parameters that came from a scheme are removed; their values stay in the context.\<close>

definition clean_key :: "string \<Rightarrow> jsval jsobj \<times> named_parameters \<Rightarrow> (jsval jsobj \<times> named_parameters) res" where
  "clean_key key st =
     rbind (from_scheme (pget (fst st) key)) (\<lambda>b.
       let coll = (if b then odel key (fst st) else fst st)
       in case oget (ps_plain (snd st)) key of
            None \<Rightarrow> Inl TypeError
          | Some p \<Rightarrow> rbind (from_scheme (np_definitions p)) (\<lambda>b2.
              Inr (coll, if b2 then (snd st)\<lparr>ps_plain := odel key (ps_plain (snd st))\<rparr> else snd st)))"

definition cleanSchemeMetadata :: "jsval \<Rightarrow> named_parameters \<Rightarrow> (jsval \<times> named_parameters) res" where
  "cleanSchemeMetadata collection ps =
     (case collection of
        JObj ob \<Rightarrow> rbind (foldR clean_key (own_keys ob) (ob, ps)) (\<lambda>(ob', ps'). Inr (JObj ob', ps'))
      | _ \<Rightarrow> Inr (collection, ps))"

text \<open>The headers or query parameters a custom scheme describes are added to the form.\<close>

definition scheme_parameter :: "string \<Rightarrow> jsval \<Rightarrow> jsval jsobj" where
  "scheme_parameter key v =
     (let d = (if truthy v then (case v of JObj ob \<Rightarrow> ob | _ \<Rightarrow> [])
               else [(''id'', JStr key), (''type'', JStr ''string'')])
      in oset ''isFromSecurityScheme'' (JBool True) (oset ''displayName'' (JStr key) (oset ''id'' (JStr key) d)))"

definition updateContextData :: "string \<Rightarrow> jsval \<Rightarrow> jsval jsobj \<Rightarrow> named_parameters \<Rightarrow> (jsval jsobj \<times> named_parameters) res" where
  "updateContextData ty scheme collection ps =
     rbind (jget scheme ''describedBy'') (\<lambda>by'.
     rbind (if truthy by' then jget by' ty else Inr JUndef) (\<lambda>securityHeaders.
       Inr (fold (\<lambda>(key, v) (coll, p).
          let d = scheme_parameter key v in
          (oset key (JArr [JObj d]) coll,
           p\<lparr>ps_plain := oset key \<lparr>np_definitions = JArr [JObj d], np_selected = pget d ''type''\<rparr> (ps_plain p),
             ps_values := oset key [JUndef] (ps_values p)\<rparr>))
         (obj_entries securityHeaders) (collection, ps))))"

text \<open>The parameters of the form by kind, with the collection of the document next to them.\<close>

definition set_headers :: "jsval \<Rightarrow> named_parameters \<Rightarrow> try_scope \<Rightarrow> try_scope" where
  "set_headers coll ps s =
     s\<lparr>ts_method := (ts_method s)\<lparr>im_headers := (im_headers (ts_method s))\<lparr>mh_plain := coll\<rparr>\<rparr>,
       ts_context := (ts_context s)\<lparr>cx_headers := ps\<rparr>\<rparr>"

definition set_query :: "jsval \<Rightarrow> named_parameters \<Rightarrow> try_scope \<Rightarrow> try_scope" where
  "set_query coll ps s =
     s\<lparr>ts_method := (ts_method s)\<lparr>im_raml := (if coll = JUndef then im_raml (ts_method s)
         else oset ''queryParameters'' coll (im_raml (ts_method s)))\<rparr>,
       ts_context := (ts_context s)\<lparr>cx_queryParameters := ps\<rparr>\<rparr>"

definition query_info :: "try_scope \<Rightarrow> jsval" where
  "query_info s = pget (im_raml (ts_method s)) ''queryParameters''"

definition readCustomSchemeInfo :: "string \<Rightarrow> try_scope \<Rightarrow> try_scope res" where
  "readCustomSchemeInfo name s =
     (let hs = (case js_or (mh_plain (im_headers (ts_method s))) (JObj []) of JObj ob \<Rightarrow> ob | _ \<Rightarrow> []);
          qs = (case js_or (query_info s) (JObj []) of JObj ob \<Rightarrow> ob | _ \<Rightarrow> [])
      in rbind (updateContextData ''headers'' (pget (ts_schemes s) name) hs (cx_headers (ts_context s))) (\<lambda>(hs', hp).
         rbind (updateContextData ''queryParameters'' (pget (ts_schemes s) name) qs (cx_queryParameters (ts_context s))) (\<lambda>(qs', qp).
           Inr (set_query (JObj qs') qp (set_headers (JObj hs') hp s)))))"

definition cleanSchemes :: "try_scope \<Rightarrow> try_scope res" where
  "cleanSchemes s =
     rbind (cleanSchemeMetadata (mh_plain (im_headers (ts_method s))) (cx_headers (ts_context s))) (\<lambda>(hc, hp).
     rbind (cleanSchemeMetadata (query_info s) (cx_queryParameters (ts_context s))) (\<lambda>(qc, qp).
       Inr (set_query qc qp (set_headers hc hp s))))"

text \<open>The scheme is given as its type and its name, separated by a bar.\<close>

definition securitySchemeChanged :: "string \<Rightarrow> try_scope \<Rightarrow> try_scope res" where
  "securitySchemeChanged scheme s =
     (let info = split_on CHR ''|'' scheme;
          name = (case tl info of [] \<Rightarrow> ''undefined'' | n # _ \<Rightarrow> n);
          s0 = s\<lparr>ts_schemeType := JStr (hd info), ts_forceRequest := False\<rparr>
      in rbind (cleanSchemes s0) (\<lambda>s1.
           if hd info = ''x-custom'' then readCustomSchemeInfo name s1 else Inr s1))"

definition protocols_of :: "try_scope \<Rightarrow> jsval" where
  "protocols_of s = js_or (pget (im_raml (ts_method s)) ''protocols'') (pget (ts_raml s) ''protocols'')"

definition first_protocol :: "jsval \<Rightarrow> string option" where
  "first_protocol ps = (case ps of JArr (v # vs) \<Rightarrow> Some (to_string v) | _ \<Rightarrow> None)"

definition resetData :: "try_scope \<Rightarrow> try_scope res" where
  "resetData s =
     rbind (jget (default_scheme (ts_schemes s)) ''type'') (\<lambda>ty.
       cleanSchemes (s\<lparr>ts_schemeType := ty, ts_protocol := first_protocol (protocols_of s)\<rparr>))"

definition methodInfo_changed :: "try_scope \<Rightarrow> try_scope" where
  "methodInfo_changed s = s\<lparr>ts_protocol := first_protocol (protocols_of s)\<rparr>"

definition protocolChanged :: "string \<Rightarrow> try_scope \<Rightarrow> try_scope" where
  "protocolChanged proto s = s\<lparr>ts_protocol := Some proto\<rparr>"

text \<open>What the controller does when it is created.\<close>

definition sidebar_init :: "try_scope \<Rightarrow> try_scope res" where
  "sidebar_init s =
     rbind (jget (default_scheme (ts_schemes s)) ''type'') (\<lambda>ty.
     rbind (jget (default_scheme (ts_schemes s)) ''id'') (\<lambda>ident.
       let s' = s\<lparr>ts_schemeType := ty\<rparr> in
       rbind (if ty = JStr ''x-custom''
              then (case ident of
                  JStr i \<Rightarrow> readCustomSchemeInfo (case tl (split_on CHR ''|'' i) of [] \<Rightarrow> ''undefined'' | n # _ \<Rightarrow> n) s'
                | _ \<Rightarrow> Inl TypeError)
              else Inr s') (\<lambda>s''.
         Inr (methodInfo_changed (s''\<lparr>ts_forceRequest := False\<rparr>)))))"

section \<open>Building and sending the request\<close>

text \<open>\<open>baseUri.replace(/(https)|(http)/, protocol)\<close>.\<close>

fun replace_protocol :: "string \<Rightarrow> string \<Rightarrow> string" where
  "replace_protocol proto [] = []"
| "replace_protocol proto (c # s) =
     (if prefix ''https'' (c # s) then proto @ drop 5 (c # s)
      else if prefix ''http'' (c # s) then proto @ drop 4 (c # s)
      else c # replace_protocol proto s)"

text \<open>The base URI parameters are read from the form; a blank one throws.\<close>

definition base_context :: "jsval \<Rightarrow> jsval list jsobj \<Rightarrow> jsval jsobj \<Rightarrow> jsval jsobj res" where
  "base_context params uriData ctx =
     foldR (\<lambda>(key, d) ctx. case oget uriData key of
         None \<Rightarrow> Inl TypeError
       | Some vs \<Rightarrow> Inr (oset key (arr_at vs 0) ctx))
       (if truthy params then obj_entries params else []) ctx"

definition root_of :: "jsval jsobj \<Rightarrow> root_raml res" where
  "root_of raml = (case pget raml ''baseUri'' of
       JUndef \<Rightarrow> Inl TypeError
     | JNull \<Rightarrow> Inl TypeError
     | v \<Rightarrow> Inr \<lparr>baseUri = to_string v, baseUriParameters = pget raml ''baseUriParameters'', version = pget raml ''version''\<rparr>)"

definition try_url :: "try_scope \<Rightarrow> (string \<times> jsval jsobj) res" where
  "try_url s =
     (let cx = ts_context s; uriData = params_data (cx_uriParameters cx);
          segs = resolveSegementContexts (ro_pathSegments (ts_resource s))
            (map (\<lambda>(k, vs). (k, JArr vs)) uriData)
      in rbind (base_context (pget (ts_raml s) ''baseUriParameters'') uriData (cx_baseUriContext cx)) (\<lambda>base.
         rbind (root_of (ts_raml s)) (\<lambda>root.
         rbind (client_create root (Some base)) (\<lambda>rendered.
         rbind (case ts_protocol s of None \<Rightarrow> Inl TypeError | Some p \<Rightarrow> Inr (replace_protocol (lower p) rendered)) (\<lambda>b.
         rbind (path_builder (cx_segments cx) segs) (\<lambda>path.
           Inr (b @ path, oset ''version'' (version root) base)))))))"

text \<open>The free query string of the form: a JSON object whose fields are appended.\<close>

definition add_queryString :: "jsval \<Rightarrow> jsval list jsobj \<Rightarrow> jsval list jsobj res" where
  "add_queryString parsed params =
     (if nullish parsed then Inl TypeError
      else Inr (fold (\<lambda>(key, v) ps.
        oset key ((case oget ps key of None \<Rightarrow> [] | Some vs \<Rightarrow> vs) @ [if typeof_object v then json_stringify v else v]) ps)
        (obj_entries parsed) params))"

definition arrays :: "jsval list jsobj \<Rightarrow> jsval jsobj" where
  "arrays params = map (\<lambda>(k, vs). (k, JArr vs)) params"

definition build_request :: "string \<Rightarrow> jsval list jsobj \<Rightarrow> jsval list jsobj \<Rightarrow> try_scope \<Rightarrow> request res" where
  "build_request url query headers s =
     (let r0 = request_create url (to_string (pget (im_raml (ts_method s)) ''method''));
          r1 = req_queryParams_set (Some (arrays query)) r0;
          r2 = req_header ''Accept'' (js_or (pget (ts_raml s) ''mediaType'') (JStr ''application/json'')) r1;
          r3 = req_headers_all (arrays headers) r2
      in case cx_bodyContent (ts_context s) of
           None \<Rightarrow> Inr r3
         | Some bc \<Rightarrow>
             let r4 = req_header ''Content-Type'' (case bc_selected bc of None \<Rightarrow> JUndef | Some ct \<Rightarrow> JStr ct) r3
             in rbind (bc_data bc) (\<lambda>d. Inr (req_data_set d r4)))"

text \<open>The last of the method's schemes that has the selected type.\<close>

definition selected_scheme :: "jsval \<Rightarrow> jsval jsobj \<Rightarrow> jsval res" where
  "selected_scheme ty schemes =
     foldR (\<lambda>(k, sc) found. rbind (jget sc ''type'') (\<lambda>t. Inr (if strict_eq t ty then sc else found)))
       (entries schemes) JUndef"

datatype try_outcome =
    InvalidForm
  | UrlFailed
  | QueryStringFailed
  | StrategyFailed js_exn
  | Authenticate strategy jsval request

definition credential :: "jsval jsobj \<Rightarrow> string \<Rightarrow> string option" where
  "credential credentials k =
     (if truthy (pget credentials k) then Some (to_string (pget credentials k)) else None)"

definition scheme_strategy :: "jsval \<Rightarrow> jsval jsobj \<Rightarrow> strategy res" where
  "scheme_strategy scheme credentials =
     (if scheme = JUndef then forScheme None \<lparr>username = None, password = None\<rparr>
      else rbind (jget scheme ''type'') (\<lambda>t.
        if t = JStr ''OAuth 2.0'' then Inr Oauth2
        else case t of
            JStr ty \<Rightarrow> forScheme (Some ty) \<lparr>username = credential credentials ''username'', password = credential credentials ''password''\<rparr>
          | _ \<Rightarrow> Inl (Thrown (''Unknown authentication strategy: '' @ to_string t))))"

definition pick_strategy :: "jsval jsobj res \<Rightarrow> jsval \<Rightarrow> jsval jsobj \<Rightarrow> (jsval \<times> strategy) res" where
  "pick_strategy schemes ty credentials =
     rbind schemes (\<lambda>sc. rbind (selected_scheme ty sc) (\<lambda>scheme.
       rbind (scheme_strategy scheme credentials) (\<lambda>strat. Inr (scheme, strat))))"

text \<open>\<open>tryIt\<close> up to the call of the strategy: an uncaught exception, or the outcome and the state.\<close>

definition tryIt_submit :: "try_scope \<Rightarrow> (try_outcome \<times> try_scope) res" where
  "tryIt_submit s =
     (let s1 = s\<lparr>ts_showSpinner := True, ts_queryStringHasError := False\<rparr>
      in case try_url s of
           Inl e \<Rightarrow> Inr (UrlFailed, s1)
         | Inr (url, base) \<Rightarrow>
             let s2 = s1\<lparr>ts_context := (ts_context s1)\<lparr>cx_baseUriContext := base\<rparr>\<rparr>
             in rbind (getParameters (cx_queryParameters (ts_context s)) (ts_customQuery s)) (\<lambda>query.
                if ts_queryString s \<noteq> [] \<and> isl (json_parse (ts_queryString s))
                then Inr (QueryStringFailed, s2\<lparr>ts_queryStringHasError := True, ts_showSpinner := False\<rparr>)
                else
                  rbind (if ts_queryString s = [] then Inr query
                         else rbind (json_parse (ts_queryString s)) (\<lambda>p. add_queryString p query)) (\<lambda>query'.
                  rbind (getParameters (cx_headers (ts_context s)) (ts_customHeaders s)) (\<lambda>headers.
                  rbind (build_request url query' headers s) (\<lambda>r.
                    let (schemes, st) = extract_securitySchemes (ts_security s);
                        s3 = s2\<lparr>ts_security := st\<rparr>
                    in case pick_strategy schemes (ts_schemeType s) (ts_credentials s) of
                         Inl e \<Rightarrow> Inr (StrategyFailed e, s3\<lparr>ts_customStrategyError := True, ts_showSpinner := False\<rparr>)
                       | Inr (scheme, strat) \<Rightarrow> Inr (Authenticate strat scheme r, s3))))))"

definition tryIt :: "try_scope \<Rightarrow> (try_outcome \<times> try_scope) res" where
  "tryIt s0 =
     (let s = s0\<lparr>ts_requestOptions := None\<rparr>;
          (form', valid) = (if ts_forceRequest s then (ts_form s, True) else validateForm (ts_form s));
          s1 = s\<lparr>ts_form := form'\<rparr>
      in if valid then tryIt_submit s1 else Inr (InvalidForm, s1\<lparr>ts_forceRequest := True\<rparr>))"

section \<open>The panel\<close>

text \<open>The CSS classes that hold the state of the side bar and of the panel around it.\<close>

record panel_state =
  pn_collapsed :: bool
  pn_fullscreen :: bool
  pn_responsive :: bool
  pn_panelCollapsed :: bool
  pn_panelFullscreen :: bool
  pn_documentationEnabled :: bool
  pn_showRequestMetadata :: bool
  pn_showResponseMetadata :: bool

text \<open>The state after the animation completed.\<close>

definition closeSidebar :: "panel_state \<Rightarrow> panel_state" where
  "closeSidebar p = p\<lparr>pn_documentationEnabled := True, pn_fullscreen := False, pn_collapsed := \<not> pn_collapsed p,
     pn_responsive := False, pn_panelCollapsed := \<not> pn_panelCollapsed p\<rparr>"

definition toggleSidebar :: "bool \<Rightarrow> panel_state \<Rightarrow> panel_state" where
  "toggleSidebar singleView p =
     (let q = (if pn_fullscreen p
          then p\<lparr>pn_documentationEnabled := True, pn_fullscreen := False, pn_responsive := False, pn_panelFullscreen := False\<rparr>
          else p\<lparr>pn_documentationEnabled := False, pn_fullscreen := True, pn_responsive := True, pn_panelFullscreen := True\<rparr>)
      in if singleView then q\<lparr>pn_collapsed := \<not> pn_collapsed q, pn_panelCollapsed := \<not> pn_panelCollapsed q\<rparr> else q)"

definition collapse_width :: "panel_state \<Rightarrow> nat" where
  "collapse_width p = (if \<not> pn_fullscreen p \<and> \<not> pn_collapsed p \<or> pn_responsive p then 0 else 430)"

definition collapseSidebar :: "bool \<Rightarrow> panel_state \<Rightarrow> panel_state" where
  "collapseSidebar singleView p =
     (let q = (if singleView then p\<lparr>pn_panelFullscreen := \<not> pn_panelFullscreen p, pn_documentationEnabled := False\<rparr> else p);
          q = q\<lparr>pn_collapsed := \<not> pn_collapsed q, pn_responsive := False, pn_panelCollapsed := \<not> pn_panelCollapsed q\<rparr>
      in if pn_fullscreen q \<or> singleView then q\<lparr>pn_fullscreen := \<not> pn_fullscreen q\<rparr> else q)"

definition toggleRequestMetadata :: "bool \<Rightarrow> panel_state \<Rightarrow> panel_state" where
  "toggleRequestMetadata enabled p =
     p\<lparr>pn_showRequestMetadata := \<not> (pn_showRequestMetadata p \<and> \<not> enabled)\<rparr>"

definition toggleResponseMetadata :: "panel_state \<Rightarrow> panel_state" where
  "toggleResponseMetadata p = p\<lparr>pn_showResponseMetadata := \<not> pn_showResponseMetadata p\<rparr>"

inductive panel_step :: "bool \<Rightarrow> panel_state \<Rightarrow> panel_state \<Rightarrow> bool" for singleView :: bool where
  Close: "panel_step singleView p (closeSidebar p)"
| Toggle: "panel_step singleView p (toggleSidebar singleView p)"
| Collapse: "panel_step singleView p (collapseSidebar singleView p)"
| RequestMetadata: "panel_step singleView p (toggleRequestMetadata enabled p)"
| ResponseMetadata: "panel_step singleView p (toggleResponseMetadata p)"

section \<open>Sending the request\<close>

text \<open>
  The rest of \<open>tryIt\<close> for a strategy that answers at once: the token signs the request, and its
  options are handed to the transport.
\<close>

definition strategy_sign :: "strategy \<Rightarrow> (request \<Rightarrow> request res) option" where
  "strategy_sign strat = (case strat of
       Anonymous \<Rightarrow> Some (\<lambda>r. Inr (anonymous_sign r))
     | Basic encoded \<Rightarrow> Some (\<lambda>r. Inr (basic_sign encoded r))
     | _ \<Rightarrow> None)"

definition send_signed :: "settings \<Rightarrow> (request \<Rightarrow> request res) \<Rightarrow> request \<Rightarrow> ajax_options res" where
  "send_signed st sign r = rbind (sign r) (toOptions st)"

section \<open>What a response shows\<close>

lemma join_snoc: "vs \<noteq> [] \<Longrightarrow> join sep (vs @ [v]) = join sep vs @ sep @ v"
  by (induction sep vs rule: join.induct) auto

lemma join_eq_Nil: "vs \<noteq> [] \<Longrightarrow> \<forall>v\<in>set vs. v \<noteq> [] \<Longrightarrow> join sep vs \<noteq> []"
  by (induction sep vs rule: join.induct) auto

lemma hd_split_on_prefix: "prefix (hd (split_on c s)) s"
  by (induction s) (auto split: list.splits)

lemma parse_line_header:
  assumes "CHR '':'' \<notin> set n" and "trim n \<noteq> []" and "trim v \<noteq> []"
  shows "parse_line (n @ '':'' @ v) hs
    = oset (lower (trim n)) (case oget hs (lower (trim n)) of
        Some old \<Rightarrow> if old = [] then trim v else old @ '', '' @ trim v | None \<Rightarrow> trim v) hs"
proof -
  have "index_of '':'' (n @ '':'' @ v) = Some (length n)"
    using index_of_append_single [OF assms(1), of v] by simp
  then show ?thesis
    using assms(2) by (auto simp: parse_line_def Let_def lower_def split: option.splits)
qed

definition header_line :: "string \<times> string \<Rightarrow> string" where
  "header_line h = fst h @ '':'' @ snd h"

definition header_ok :: "string \<times> string \<Rightarrow> bool" where
  "header_ok h = (CHR '':'' \<notin> set (fst h) \<and> CHR 0x0A \<notin> set (fst h) \<and> CHR 0x0A \<notin> set (snd h)
     \<and> trim (fst h) \<noteq> [] \<and> trim (snd h) \<noteq> [])"

definition header_values :: "string \<Rightarrow> (string \<times> string) list \<Rightarrow> string list" where
  "header_values k hs = map (\<lambda>h. trim (snd h)) (filter (\<lambda>h. lower (trim (fst h)) = k) hs)"

lemma parse_line_fold:
  assumes "\<forall>h\<in>set hs. header_ok h" and "oget acc k = (if vs = [] then None else Some (join '', '' vs))"
    and "\<forall>v\<in>set vs. v \<noteq> []"
  shows "oget (fold parse_line (map header_line hs) acc) k
    = (if vs @ header_values k hs = [] then None else Some (join '', '' (vs @ header_values k hs)))"
  using assms
proof (induction hs arbitrary: acc vs)
  case Nil
  then show ?case by (simp add: header_values_def)
next
  case (Cons h hs)
  obtain n v where h: "h = (n, v)" by (cases h)
  have ok: "CHR '':'' \<notin> set n" "trim n \<noteq> []" "trim v \<noteq> []"
    using Cons.prems(1) h by (auto simp: header_ok_def)
  let ?acc = "parse_line (header_line h) acc"
  have step: "?acc = oset (lower (trim n)) (case oget acc (lower (trim n)) of
      Some old \<Rightarrow> if old = [] then trim v else old @ '', '' @ trim v | None \<Rightarrow> trim v) acc"
    using parse_line_header [OF ok] h by (simp add: header_line_def)
  show ?case
  proof (cases "lower (trim n) = k")
    case True
    have "join '', '' vs \<noteq> []" if "vs \<noteq> []"
      using that Cons.prems(3) join_eq_Nil by blast
    then have "oget ?acc k = (if vs @ [trim v] = [] then None else Some (join '', '' (vs @ [trim v])))"
      using step True Cons.prems(2) join_snoc [of vs "'', ''" "trim v"] by auto
    from Cons.IH [OF _ this] show ?thesis
      using True h Cons.prems ok by (simp add: header_values_def)
  next
    case False
    then have "oget ?acc k = (if vs = [] then None else Some (join '', '' vs))"
      using step Cons.prems(2) by simp
    from Cons.IH [OF _ this] show ?thesis
      using False h Cons.prems by (simp add: header_values_def)
  qed
qed

lemma header_lines_split:
  assumes "\<forall>h\<in>set hs. header_ok h" and "hs \<noteq> []"
  shows "split_on CHR 0x0A (join [CHR 0x0A] (map header_line hs)) = map header_line hs"
  using assms by (intro split_on_join) (auto simp: header_line_def header_ok_def)

text \<open>
  Reading the response headers collects the lines by name without regard to case: a name has the
  values of all its lines in order, separated by a comma, and a name with no line is absent.
\<close>

theorem parseHeaders_collects:
  assumes "\<forall>h\<in>set hs. header_ok h"
  shows "oget (parseHeaders (join [CHR 0x0A] (map header_line hs))) k
    = (if header_values k hs = [] then None else Some (join '', '' (header_values k hs)))"
proof (cases "hs = []")
  case True
  then show ?thesis by (simp add: parseHeaders_def header_values_def)
next
  case False
  then have "join [CHR 0x0A] (map header_line hs) \<noteq> []"
    by (intro join_eq_Nil) (auto simp: header_line_def)
  then show ?thesis
    using parse_line_fold [OF assms, of "[]" k "[]"] header_lines_split [OF assms False]
    by (simp add: parseHeaders_def)
qed

theorem parseHeaders_collects_witness:
  "oget (parseHeaders (join [CHR 0x0A] (map header_line
     [(''Content-Type'', '' text/html''), (''Vary'', '' a''), (''VARY'', '' b'')]))) ''vary'' = Some ''a, b''"
proof -
  have "header_values ''vary'' [(''Content-Type'', '' text/html''), (''Vary'', '' a''), (''VARY'', '' b'')] = [''a'', ''b'']"
    by code_simp
  moreover have "\<forall>h\<in>set [(''Content-Type'', '' text/html''), (''Vary'', '' a''), (''VARY'', '' b'')]. header_ok h"
    by code_simp
  ultimately show ?thesis by (subst parseHeaders_collects) simp_all
qed

lemma index_truthy_prefix: "index_truthy t s \<longleftrightarrow> \<not> prefix t s"
  by (cases s; cases t) (auto simp: index_truthy_def)

text \<open>
  A body is laid out by both printers unless the content type starts with the name of one: the
  condition is the index of the match, which is zero only there. So a response whose text the JSON
  printer rejects is shown as it came, an XML document for example.
\<close>

theorem response_body_raw:
  assumes "oget (parseHeaders (xhr_headers x)) ''content-type'' = Some c"
    and "\<not> prefix ''json'' c" and "c \<noteq> []" and "beautify_json bf (xhr_text x) = Inl e"
  shows "rv_body (handleResponse bf (Some x) err) = xhr_text x"
proof -
  let ?ct = "hd (split_on CHR '';'' c)"
  have "\<not> prefix ''json'' ?ct"
  proof
    assume "prefix ''json'' ?ct"
    moreover have "prefix ?ct c" by (rule hd_split_on_prefix)
    ultimately show False using assms(2) prefix_order.trans by blast
  qed
  then have "beautify bf (xhr_text x) (Some ?ct) = Inl e"
    using assms(4) by (simp add: beautify_def index_truthy_prefix)
  then show ?thesis using assms(1, 3) by (simp add: handleResponse_def Let_def)
qed

definition sample_xml_response :: jq_xhr where
  "sample_xml_response = \<lparr>xhr_status = 200, xhr_headers = ''content-type: text/xml'', xhr_text = JStr ''<a/>''\<rparr>"

definition strict_json_printer :: beautifier where
  "strict_json_printer = \<lparr>beautify_json = (\<lambda>v. case v of JStr t \<Rightarrow> rbind (json_parse t) (\<lambda>u. Inr t) | _ \<Rightarrow> Inl TypeError),
     beautify_xml = (\<lambda>v. Inr (to_string v))\<rparr>"

theorem response_body_raw_witness:
  "rv_body (handleResponse strict_json_printer (Some sample_xml_response) None) = JStr ''<a/>''"
proof -
  have "oget (parseHeaders (xhr_headers sample_xml_response)) ''content-type'' = Some ''text/xml''"
    by code_simp
  moreover have "isl (beautify_json strict_json_printer (xhr_text sample_xml_response))"
    by code_simp
  ultimately show ?thesis
    using response_body_raw [of sample_xml_response "''text/xml''" strict_json_printer _ None]
    by (auto simp: sample_xml_response_def isl_def)
qed

section \<open>The form when the scheme changes\<close>

definition scheme_parameter_of :: "named_parameters \<Rightarrow> string \<Rightarrow> bool" where
  "scheme_parameter_of ps k = (case oget (ps_plain ps) k of
       None \<Rightarrow> False
     | Some p \<Rightarrow> (case from_scheme (np_definitions p) of Inr b \<Rightarrow> b | Inl e \<Rightarrow> False))"

lemma clean_key_effect:
  assumes "clean_key key (c, ps) = Inr (c', ps')"
  shows "ps_values ps' = ps_values ps"
    and "oget (ps_plain ps') k = (if k = key \<and> scheme_parameter_of ps k then None else oget (ps_plain ps) k)"
proof -
  obtain b p b2 where p: "oget (ps_plain ps) key = Some p" "from_scheme (np_definitions p) = Inr b2"
    and ps': "ps' = (if b2 then ps\<lparr>ps_plain := odel key (ps_plain ps)\<rparr> else ps)"
    using assms by (auto simp: clean_key_def Let_def rbind_eq_Inr split: option.splits)
  show "ps_values ps' = ps_values ps" using ps' by simp
  show "oget (ps_plain ps') k = (if k = key \<and> scheme_parameter_of ps k then None else oget (ps_plain ps) k)"
    using p ps' by (simp add: scheme_parameter_of_def)
qed

lemma clean_keys_effect:
  assumes "foldR clean_key ks (c, ps) = Inr (c', ps')" and "distinct ks"
  shows "ps_values ps' = ps_values ps
    \<and> oget (ps_plain ps') k = (if k \<in> set ks \<and> scheme_parameter_of ps k then None else oget (ps_plain ps) k)"
  using assms
proof (induction ks arbitrary: c ps)
  case Nil
  then show ?case by simp
next
  case (Cons key ks)
  obtain c1 ps1 where step: "clean_key key (c, ps) = Inr (c1, ps1)"
    and rest: "foldR clean_key ks (c1, ps1) = Inr (c', ps')"
    using Cons.prems(1) by (auto split: sum.splits)
  have IH: "ps_values ps' = ps_values ps1"
    "oget (ps_plain ps') k = (if k \<in> set ks \<and> scheme_parameter_of ps1 k then None else oget (ps_plain ps1) k)"
    using Cons.IH [OF rest] Cons.prems(2) by auto
  have one: "oget (ps_plain ps1) k = (if k = key \<and> scheme_parameter_of ps k then None else oget (ps_plain ps) k)"
    by (rule clean_key_effect(2) [OF step])
  then have "k \<noteq> key \<Longrightarrow> scheme_parameter_of ps1 k = scheme_parameter_of ps k"
    by (simp add: scheme_parameter_of_def)
  then show ?case
    using IH one clean_key_effect(1) [OF step] Cons.prems(2) by auto
qed

lemma clean_keys_values:
  assumes "foldR clean_key ks st = Inr st'"
  shows "ps_values (snd st') = ps_values (snd st)"
  using assms
proof (rule foldR_invariant)
  show "ps_values (snd t') = ps_values (snd st)" if "ps_values (snd t) = ps_values (snd st)" "clean_key k t = Inr t'" for k t t'
    using clean_key_effect(1) [of k "fst t" "snd t" "fst t'" "snd t'"] that by simp
qed simp

lemma clean_metadata_effect:
  assumes "cleanSchemeMetadata coll ps = Inr (coll', ps')"
  shows "ps_values ps' = ps_values ps"
    and "\<lbrakk>coll = JObj ob; wf_obj ob\<rbrakk> \<Longrightarrow> oget (ps_plain ps') k
      = (if oget ob k \<noteq> None \<and> scheme_parameter_of ps k then None else oget (ps_plain ps) k)"
proof -
  show "oget (ps_plain ps') k = (if oget ob k \<noteq> None \<and> scheme_parameter_of ps k then None else oget (ps_plain ps) k)"
    if "coll = JObj ob" "wf_obj ob"
  proof -
    have "\<exists>c. foldR clean_key (own_keys ob) (ob, ps) = Inr (c, ps')"
      using assms that(1) by (auto simp: cleanSchemeMetadata_def rbind_eq_Inr)
    then show ?thesis
      using clean_keys_effect [OF _ distinct_own_keys [OF that(2)]] by (metis own_keys_iff_oget)
  qed
  show "ps_values ps' = ps_values ps"
    using assms clean_keys_values by (cases coll) (fastforce simp: cleanSchemeMetadata_def rbind_eq_Inr)+
qed

text \<open>
  Changing to a scheme that is not a custom one takes the headers of the old scheme out of the
  form, but not their values: the parameters that are sent are the same as before the change.
\<close>

theorem stale_scheme_values:
  assumes "securitySchemeChanged scheme s = Inr s'" and "hd (split_on CHR ''|'' scheme) \<noteq> ''x-custom''"
    and "mh_plain (im_headers (ts_method s)) = JObj ob" and "wf_obj ob"
  shows "oget (ps_plain (cx_headers (ts_context s'))) k
      = (if oget ob k \<noteq> None \<and> scheme_parameter_of (cx_headers (ts_context s)) k then None
         else oget (ps_plain (cx_headers (ts_context s))) k)
    \<and> getParameters (cx_headers (ts_context s')) custom = getParameters (cx_headers (ts_context s)) custom"
proof -
  obtain hc hp qc qp where "cleanSchemeMetadata (mh_plain (im_headers (ts_method s))) (cx_headers (ts_context s)) = Inr (hc, hp)"
    and "s' = set_query qc qp (set_headers hc hp
      (s\<lparr>ts_schemeType := JStr (hd (split_on CHR ''|'' scheme)), ts_forceRequest := False\<rparr>))"
    using assms(1, 2) by (auto simp: securitySchemeChanged_def cleanSchemes_def Let_def rbind_eq_Inr)
  then show ?thesis
    using clean_metadata_effect(1) clean_metadata_effect(2) [of "JObj ob" "cx_headers (ts_context s)" hc hp ob k] assms(3, 4)
    by (simp add: set_query_def set_headers_def getParameters_def params_data_def)
qed

definition no_parameters :: named_parameters where
  "no_parameters = \<lparr>ps_plain = [], ps_parameterized = [], ps_values = []\<rparr>"

definition scheme_header :: jsval where
  "scheme_header = JArr [JObj [(''type'', JStr ''string''), (''isFromSecurityScheme'', JBool True)]]"

text \<open>A form for \<open>GET http://h/a/{id}\<close> whose custom scheme added the header \<open>X-Key\<close>.\<close>

definition sample_scope :: try_scope where
  "sample_scope =
     \<lparr>ts_raml = [(''baseUri'', JStr ''http://h'')],
      ts_resource = \<lparr>ro_resource = [], ro_pathSegments = [createPathSegment ''/a/{id}'' JUndef], ro_methods = [], ro_uriParameters = JNull\<rparr>,
      ts_method = \<lparr>im_raml = [(''method'', JStr ''get'')], im_responseCodes = [],
         im_headers = \<lparr>mh_plain = JObj [(''X-Key'', scheme_header)], mh_parameterized = []\<rparr>, im_plainAndParameterizedHeaders = []\<rparr>,
      ts_context = \<lparr>cx_headers = \<lparr>ps_plain = [(''X-Key'', \<lparr>np_definitions = scheme_header, np_selected = JStr ''string''\<rparr>)],
           ps_parameterized = [], ps_values = [(''X-Key'', [JStr ''k1''])]\<rparr>,
         cx_queryParameters = no_parameters,
         cx_uriParameters = no_parameters\<lparr>ps_values := [(''id'', [JStr ''7''])]\<rparr>,
         cx_bodyContent = None, cx_segments = [createPathSegment ''/a/{id}'' JUndef], cx_baseUriContext = [], cx_segmentContexts = [[]]\<rparr>,
      ts_customHeaders = [], ts_customQuery = [], ts_queryString = [], ts_forceRequest = False,
      ts_form = \<lparr>fs_fields = [], fs_valid = True\<rparr>,
      ts_security = \<lparr>ss_schemes = [JObj [(''basic'', JObj [(''type'', JStr ''Basic Authentication'')])]], ss_securedBy = [JStr ''basic'']\<rparr>,
      ts_schemes = [(''basic'', JObj [(''type'', JStr ''Basic Authentication''), (''id'', JStr ''basic'')])],
      ts_schemeType = JStr ''Basic Authentication'', ts_protocol = Some ''HTTPS'',
      ts_credentials = [(''username'', JStr ''u''), (''password'', JStr ''p'')],
      ts_showSpinner = False, ts_queryStringHasError = False, ts_customStrategyError = False, ts_requestOptions = None\<rparr>"

theorem stale_scheme_values_witness:
  "\<exists>s'. securitySchemeChanged ''Anonymous|anonymous'' sample_scope = Inr s'
    \<and> oget (ps_plain (cx_headers (ts_context s'))) ''X-Key'' = None
    \<and> getParameters (cx_headers (ts_context s')) [] = Inr [(''X-Key'', [JStr ''k1''])]"
proof -
  have "\<not> isl (securitySchemeChanged ''Anonymous|anonymous'' sample_scope)" by code_simp
  then obtain s' where s': "securitySchemeChanged ''Anonymous|anonymous'' sample_scope = Inr s'"
    by (cases "securitySchemeChanged ''Anonymous|anonymous'' sample_scope") simp_all
  have "hd (split_on CHR ''|'' ''Anonymous|anonymous'') \<noteq> ''x-custom''" by code_simp
  moreover have "mh_plain (im_headers (ts_method sample_scope)) = JObj [(''X-Key'', scheme_header)]"
    by (simp add: sample_scope_def)
  moreover have "oget (ps_plain (cx_headers (ts_context sample_scope))) ''X-Key'' \<noteq> None
      \<and> scheme_parameter_of (cx_headers (ts_context sample_scope)) ''X-Key''" by code_simp
  moreover have "getParameters (cx_headers (ts_context sample_scope)) [] = Inr [(''X-Key'', [JStr ''k1''])]" by code_simp
  ultimately show ?thesis
    using stale_scheme_values [OF s', of "[(''X-Key'', scheme_header)]" "''X-Key''" "[]"] s'
    by (auto simp: wf_obj_def oget_def)
qed

section \<open>What \<open>tryIt\<close> does\<close>

lemma tryIt_submit_cases:
  assumes "tryIt_submit s = Inr (out, s')"
  obtains (Url) e where "try_url s = Inl e" "out = UrlFailed" "s' = s\<lparr>ts_showSpinner := True, ts_queryStringHasError := False\<rparr>"
  | (Query) "out = QueryStringFailed" "\<not> ts_showSpinner s'"
  | (Strategy) e where "out = StrategyFailed e" "\<not> ts_showSpinner s'"
  | (Auth) url base query headers schemes st strat scheme r
    where "try_url s = Inr (url, base)" "getParameters (cx_headers (ts_context s)) (ts_customHeaders s) = Inr headers"
      "build_request url query headers s = Inr r" "extract_securitySchemes (ts_security s) = (schemes, st)"
      "pick_strategy schemes (ts_schemeType s) (ts_credentials s) = Inr (scheme, strat)"
      "out = Authenticate strat scheme r" "ts_showSpinner s'"
proof (cases "try_url s")
  case (Inl e)
  then show thesis using assms Url by (simp add: tryIt_submit_def Let_def)
next
  case (Inr ub)
  obtain url base where ub: "try_url s = Inr (url, base)" using Inr by (cases ub) simp
  show thesis
  proof (cases "ts_queryString s \<noteq> [] \<and> isl (json_parse (ts_queryString s))")
    case True
    then show thesis using assms ub Query by (auto simp: tryIt_submit_def Let_def rbind_eq_Inr)
  next
    case False
    obtain schemes st where st: "extract_securitySchemes (ts_security s) = (schemes, st)"
      by (cases "extract_securitySchemes (ts_security s)")
    obtain query headers r sf sa
      where fin: "(case pick_strategy schemes (ts_schemeType s) (ts_credentials s) of
          Inl e \<Rightarrow> Inr (StrategyFailed e, sf) | Inr (scheme, strat) \<Rightarrow> Inr (Authenticate strat scheme r, sa)) = (Inr (out, s') :: (try_outcome \<times> try_scope) res)"
        and h: "getParameters (cx_headers (ts_context s)) (ts_customHeaders s) = Inr headers"
          "build_request url query headers s = Inr r"
        and spin: "ts_showSpinner sa" "\<not> ts_showSpinner sf"
    proof -
      from assms show thesis
        apply (simp only: tryIt_submit_def Let_def ub st if_not_P [OF False] sum.case prod.case rbind_eq_Inr)
        apply (elim exE conjE)
        apply (rule that, assumption+)
         apply simp_all
        done
    qed
    show thesis
    proof (cases "pick_strategy schemes (ts_schemeType s) (ts_credentials s)")
      case (Inl e)
      then show thesis using fin spin Strategy by auto
    next
      case (Inr p)
      then show thesis using fin spin Auth [OF ub h st] by (cases p) auto
    qed
  qed
qed

lemma tryIt_cases:
  assumes "tryIt s = Inr (out, s')"
  obtains (Invalid) "out = InvalidForm" "ts_showSpinner s' = ts_showSpinner s"
  | (Submit) form where "tryIt_submit (s\<lparr>ts_requestOptions := None, ts_form := form\<rparr>) = Inr (out, s')"
  using assms by (auto simp: tryIt_def Let_def split: prod.splits if_splits)

text \<open>
  The spinner after a click: it goes on when the request is handed to the authentication
  strategy, off when the query string or the strategy fails, and stays as it was on an invalid form. It is
  left on when the URL cannot be built.
\<close>

theorem tryIt_spinner:
  assumes "tryIt s = Inr (out, s')"
  shows "ts_showSpinner s' = (case out of
      InvalidForm \<Rightarrow> ts_showSpinner s
    | UrlFailed \<Rightarrow> True
    | QueryStringFailed \<Rightarrow> False
    | StrategyFailed e \<Rightarrow> False
    | Authenticate strat scheme r \<Rightarrow> True)"
  using assms
proof (cases rule: tryIt_cases)
  case (Submit form)
  then show ?thesis by (cases rule: tryIt_submit_cases) simp_all
qed simp

theorem tryIt_spinner_witness:
  "\<exists>out s'. tryIt (sample_scope\<lparr>ts_protocol := None\<rparr>) = Inr (out, s') \<and> out = UrlFailed \<and> ts_showSpinner s'"
proof -
  have "(case tryIt (sample_scope\<lparr>ts_protocol := None\<rparr>) of Inr (UrlFailed, s') \<Rightarrow> True | _ \<Rightarrow> False)" by code_simp
  then obtain s' where s': "tryIt (sample_scope\<lparr>ts_protocol := None\<rparr>) = Inr (UrlFailed, s')"
    by (auto split: sum.splits prod.splits try_outcome.splits)
  from tryIt_spinner [OF this] s' show ?thesis by auto
qed

text \<open>
  A click on an invalid form sends nothing and marks every field dirty; the next click submits the
  form as it is.
\<close>

theorem second_click_submits:
  assumes "\<not> fs_valid (ts_form s)" and "\<not> ts_forceRequest s"
  shows "\<exists>s1. tryIt s = Inr (InvalidForm, s1) \<and> ts_context s1 = ts_context s
    \<and> (\<forall>(k, dirty)\<in>set (fs_fields (ts_form s1)). CHR ''$'' \<notin> set k \<longrightarrow> dirty)
    \<and> tryIt s1 = tryIt_submit s1"
proof -
  let ?form = "fst (validateForm (ts_form s))"
  let ?s1 = "s\<lparr>ts_requestOptions := None, ts_form := ?form, ts_forceRequest := True\<rparr>"
  have "tryIt s = Inr (InvalidForm, ?s1)"
    using assms by (simp add: tryIt_def Let_def validateForm_def)
  moreover have "tryIt ?s1 = tryIt_submit ?s1" by (cases s) (simp add: tryIt_def Let_def)
  moreover have "\<forall>(k, dirty)\<in>set (fs_fields (ts_form ?s1)). CHR ''$'' \<notin> set k \<longrightarrow> dirty"
    by (auto simp: validateForm_def)
  ultimately show ?thesis by (intro exI [of _ ?s1]) simp
qed

theorem second_click_submits_witness:
  "\<exists>s1. tryIt (sample_scope\<lparr>ts_form := \<lparr>fs_fields = [(''id'', False)], fs_valid = False\<rparr>\<rparr>) = Inr (InvalidForm, s1)
    \<and> tryIt s1 = tryIt_submit s1"
  using second_click_submits [of "sample_scope\<lparr>ts_form := \<lparr>fs_fields = [(''id'', False)], fs_valid = False\<rparr>\<rparr>"]
  by (auto simp: sample_scope_def)

text \<open>The requests \<open>tryIt\<close> hands to a strategy.\<close>

lemma tryIt_request:
  assumes "tryIt s = Inr (Authenticate strat scheme r, s')"
  obtains url query headers schemes st where
    "getParameters (cx_headers (ts_context s)) (ts_customHeaders s) = Inr headers"
    "build_request url query headers s = Inr r"
    "extract_securitySchemes (ts_security s) = (schemes, st)"
    "pick_strategy schemes (ts_schemeType s) (ts_credentials s) = Inr (scheme, strat)"
  using assms
proof (cases rule: tryIt_cases)
  case (Submit form)
  from Submit show thesis
    by (cases rule: tryIt_submit_cases) (use that in \<open>auto simp: build_request_def\<close>)
qed simp

lemma rawData_header [simp]: "rawData (req_header n v r) = rawData r"
  by (simp add: req_header_def Let_def)

lemma rawData_headers_all [simp]: "rawData (req_headers_all hs r) = rawData r"
proof -
  have "rawData (fold (\<lambda>(n, v). req_header n v) es r0) = rawData r0" for es r0
    by (induction es arbitrary: r0) auto
  then show ?thesis by (simp add: req_headers_all_def Let_def)
qed

lemma request_inv_build:
  assumes "build_request url query headers s = Inr r"
  shows "request_inv url (to_string (pget (im_raml (ts_method s)) ''method'')) r"
proof -
  let ?m = "to_string (pget (im_raml (ts_method s)) ''method'')"
  have q: "request_inv url ?m (req_queryParams_set q r0)" if "request_inv url ?m r0" for q r0
    using that by (cases q) (simp_all add: req_queryParams_set_def request_inv_def hdrs_def)
  have d: "request_inv url ?m (req_data_set v r0)" if "request_inv url ?m r0" for v r0
    using that by (simp add: req_data_set_def request_inv_def hdrs_def)
  show ?thesis
    using assms
    by (auto simp: build_request_def Let_def rbind_eq_Inr request_inv_create
        intro!: q d request_inv_header request_inv_headers_all split: option.splits)
qed

text \<open>
  A click that reaches the strategy with form parameters as the body always leads to transport
  options: no form the user fills in makes the request fail after it was built.
\<close>

theorem tryIt_form_options:
  assumes "tryIt s = Inr (Authenticate strat scheme r, s')"
    and "cx_bodyContent (ts_context s) = Some bc" and "selected_definition bc = Inr (FormBody ps)"
  shows "\<exists>o1. toOptions st r = Inr o1"
proof -
  obtain url query headers where "build_request url query headers s = Inr r"
    using assms(1) by (rule tryIt_request)
  then have "rawData r = JUndef \<or> rawData r = params_to_value (params_data ps)"
    using assms(2, 3)
    by (auto simp: build_request_def Let_def bc_data_def rbind_eq_Inr req_data_set_def params_to_value_def
        req_queryParams_set_def request_create_def split: if_splits)
  moreover obtain es where "form_entries (params_to_value (params_data ps)) = Inr es"
    using form_entries_params by blast
  ultimately show ?thesis by (auto simp: toOptions_def Let_def)
qed

definition sample_body :: body_content where
  "sample_body = \<lparr>bc_contentTypes = [FORM_DATA], bc_selected = Some FORM_DATA,
     bc_definitions = [(FORM_DATA, FormBody (no_parameters\<lparr>ps_values := [(''f'', [JStr ''v''])]\<rparr>))]\<rparr>"

definition sample_form_scope :: try_scope where
  "sample_form_scope =
     sample_scope\<lparr>ts_context := (ts_context sample_scope)\<lparr>cx_bodyContent := Some sample_body\<rparr>\<rparr>"

lemma sample_tryIt:
  "\<exists>strat scheme r s'. tryIt sample_form_scope = Inr (Authenticate strat scheme r, s')"
  "\<exists>strat scheme r s'. tryIt sample_scope = Inr (Authenticate strat scheme r, s')"
proof -
  have "(case tryIt sample_form_scope of Inr (Authenticate strat scheme r, s') \<Rightarrow> True | _ \<Rightarrow> False)"
    "(case tryIt sample_scope of Inr (Authenticate strat scheme r, s') \<Rightarrow> True | _ \<Rightarrow> False)" by code_simp+
  then show "\<exists>strat scheme r s'. tryIt sample_form_scope = Inr (Authenticate strat scheme r, s')"
    "\<exists>strat scheme r s'. tryIt sample_scope = Inr (Authenticate strat scheme r, s')"
    by (auto split: sum.splits prod.splits try_outcome.splits)
qed

theorem tryIt_form_options_witness:
  "\<exists>strat scheme r s' o1. tryIt sample_form_scope = Inr (Authenticate strat scheme r, s')
    \<and> toOptions \<lparr>proxy = None, disableProxy = False\<rparr> r = Inr o1"
proof -
  obtain strat scheme r s' where t: "tryIt sample_form_scope = Inr (Authenticate strat scheme r, s')"
    using sample_tryIt(1) by blast
  moreover have "\<exists>o1. toOptions \<lparr>proxy = None, disableProxy = False\<rparr> r = Inr o1"
    by (rule tryIt_form_options [OF t, where ps = "no_parameters\<lparr>ps_values := [(''f'', [JStr ''v''])]\<rparr>" and bc = sample_body])
      (simp_all add: sample_form_scope_def sample_body_def selected_definition_def oget_def)
  ultimately show ?thesis by blast
qed

lemma request_headers:
  assumes "tryIt s = Inr (Authenticate strat scheme r, s')"
    and "getParameters (cx_headers (ts_context s)) (ts_customHeaders s) = Inr hs"
    and "wf_obj hs" and "lower name \<noteq> CONTENT_TYPE"
  shows "req_method (opts r) = to_string (pget (im_raml (ts_method s)) ''method'')
    \<and> oget (hdrs r) name = map_option JArr (oget hs name)"
proof -
  obtain url query headers where h: "getParameters (cx_headers (ts_context s)) (ts_customHeaders s) = Inr headers"
      "build_request url query headers s = Inr r"
    using assms(1) by (rule tryIt_request)
  have hs: "headers = hs" using h(1) assms(2) by simp
  have "wf_obj (arrays hs)" using assms(3) by (simp add: arrays_def wf_obj_def comp_def case_prod_beta)
  have all: "oget (hdrs (req_headers_all (arrays hs) r0)) name = oget (arrays hs) name" for r0
  proof -
    let ?r = "r0\<lparr>opts := (opts r0)\<lparr>req_headers := Some []\<rparr>, isMultipartRequest := False\<rparr>"
    have "distinct (map fst (entries (arrays hs)))" using \<open>wf_obj (arrays hs)\<close> by (simp add: distinct_own_keys)
    from oget_hdrs_fold [OF assms(4) this, of ?r] show ?thesis
      unfolding hdrs_headers_all by (simp add: oget_def split: option.splits)
  qed
  have ct: "lower ''Content-Type'' = CONTENT_TYPE" by code_simp
  have "name \<noteq> ''Content-Type''" using ct assms(4) by auto
  then have last: "oget (hdrs (req_header ''Content-Type'' v r0)) name = oget (hdrs r0) name" for v r0
    by (auto simp: req_header_def hdrs_def Let_def split: option.splits)
  have data: "hdrs (req_data_set d r0) = hdrs r0" for d r0 by (simp add: req_data_set_def hdrs_def)
  have "oget (hdrs r) name = oget (arrays hs) name"
    using h(2) hs all last data
    by (auto simp: build_request_def Let_def rbind_eq_Inr split: option.splits)
  then show ?thesis
    using request_inv_build [OF h(2)] by (simp add: request_inv_def arrays_def oget_map_values)
qed

text \<open>
  C26. The request has the method of the operation, and of the headers other than the content type
  exactly those of the form: the \<open>Accept\<close> header that \<open>tryIt\<close> sets for every request is lost, because
  \<open>headers\<close> replaces all of them.
\<close>

theorem tryIt_headers:
  assumes "tryIt s = Inr (Authenticate strat scheme r, s')"
    and "getParameters (cx_headers (ts_context s)) (ts_customHeaders s) = Inr hs"
    and "wf_obj hs" and "lower name \<noteq> CONTENT_TYPE"
  shows "req_method (opts r) = to_string (pget (im_raml (ts_method s)) ''method'')
    \<and> oget (hdrs r) name = map_option JArr (oget hs name)"
  using assms by (rule request_headers)

theorem tryIt_headers_witness:
  "\<exists>strat scheme r s'. tryIt sample_scope = Inr (Authenticate strat scheme r, s')
    \<and> req_method (opts r) = ''get'' \<and> oget (hdrs r) ''Accept'' = None
    \<and> oget (hdrs r) ''X-Key'' = Some (JArr [JStr ''k1''])"
proof -
  obtain strat scheme r s' where t: "tryIt sample_scope = Inr (Authenticate strat scheme r, s')"
    using sample_tryIt(2) by blast
  have hs: "getParameters (cx_headers (ts_context sample_scope)) (ts_customHeaders sample_scope) = Inr [(''X-Key'', [JStr ''k1''])]"
    and names: "lower ''Accept'' \<noteq> CONTENT_TYPE" "lower ''X-Key'' \<noteq> CONTENT_TYPE"
    and meth: "to_string (pget (im_raml (ts_method sample_scope)) ''method'') = ''get''"
    by code_simp+
  have wf: "wf_obj [(''X-Key'', [JStr ''k1''])]" by (simp add: wf_obj_def)
  show ?thesis
    using t tryIt_headers [OF t hs wf names(1)] tryIt_headers [OF t hs wf names(2)] meth
    by (auto simp: oget_def)
qed

section \<open>The panel stays consistent\<close>

definition panel_ok :: "panel_state \<Rightarrow> bool" where
  "panel_ok p = (pn_panelCollapsed p = pn_collapsed p
     \<and> (pn_responsive p \<longrightarrow> pn_fullscreen p \<and> pn_panelFullscreen p))"

lemmas panel_defs = closeSidebar_def toggleSidebar_def collapseSidebar_def toggleRequestMetadata_def
  toggleResponseMetadata_def

inductive_cases panel_stepE: "panel_step singleView p q"

lemma panel_step_ok: "panel_step singleView p q \<Longrightarrow> panel_ok p \<Longrightarrow> panel_ok q"
  by (elim panel_stepE) (simp_all add: panel_ok_def panel_defs Let_def)

text \<open>
  Whatever buttons are clicked, the panel is marked collapsed exactly when the side bar is, and
  the side bar is laid out over the documentation only while it is full screen.
\<close>

theorem panel_consistent:
  assumes "(panel_step singleView)\<^sup>*\<^sup>* p q" and "panel_ok p"
  shows "panel_ok q"
  using assms by (induction rule: rtranclp_induct) (auto intro: panel_step_ok)

theorem panel_consistent_witness:
  "panel_ok (collapseSidebar False (toggleSidebar False
     \<lparr>pn_collapsed = False, pn_fullscreen = False, pn_responsive = False, pn_panelCollapsed = False,
      pn_panelFullscreen = False, pn_documentationEnabled = True, pn_showRequestMetadata = False,
      pn_showResponseMetadata = True\<rparr>))"
proof -
  let ?p = "\<lparr>pn_collapsed = False, pn_fullscreen = False, pn_responsive = False, pn_panelCollapsed = False,
      pn_panelFullscreen = False, pn_documentationEnabled = True, pn_showRequestMetadata = False,
      pn_showResponseMetadata = True\<rparr>"
  have "(panel_step False)\<^sup>*\<^sup>* ?p (collapseSidebar False (toggleSidebar False ?p))"
    using Toggle Collapse by (meson r_into_rtranclp rtranclp_trans)
  then show ?thesis by (rule panel_consistent) (simp add: panel_ok_def)
qed

end
