(* ===== verification/Console.thy ===== *)
theory Console
  imports RamlTypes Inspector
begin

text \<open>
  The controller of the console in \<open>api-console.js\<close>: what is taken from the libraries a document
  uses, and the lists of resources and documents that can be collapsed.

  The flags read from attributes of the element and from the options, and the classes set on page
  elements, are left out.
\<close>

section \<open>Names from libraries\<close>

text \<open>\<open>usesKey + '.' + name\<close>.\<close>

definition qualify :: "string \<Rightarrow> string \<Rightarrow> string" where
  "qualify usesKey name = usesKey @ ''.'' @ name"

definition convert_part :: "string \<Rightarrow> string \<Rightarrow> string" where
  "convert_part usesKey theType =
     (if types_isNativeType theType then theType else qualify usesKey (cleanupTypeName theType))"

definition convertTypeName :: "string \<Rightarrow> jsval \<Rightarrow> jsval res" where
  "convertTypeName usesKey typeName =
     (if isSchema typeName then Inr typeName
      else rbind (name_of typeName) (\<lambda>t.
        let typeInfo = getTypeInfo t
        in Inr (JStr (getTypeFromTypeInfo
             (typeInfo\<lparr>ti_parts := map (convert_part usesKey) (ti_parts typeInfo)\<rparr>)))))"

lemma size_field: "pget ob k = JObj ps \<Longrightarrow> (key, p) \<in> set ps \<Longrightarrow> size p < Suc (size_list (size_prod (\<lambda>x. 0) size) ob)"
proof -
  assume a: "pget ob k = JObj ps" and k: "(key, p) \<in> set ps"
  have "size (JObj ps) \<le> size_list (size_prod (\<lambda>x. 0) size) ob" using size_pget [of ob k] a by simp
  then show ?thesis using size_list_mem [OF k, of "size_prod (\<lambda>x. 0) size"] by simp
qed

lemma size_element: "pget ob k = JArr vs \<Longrightarrow> v \<in> set vs \<Longrightarrow> size v < Suc (size_list (size_prod (\<lambda>x. 0) size) ob)"
  using size_pget [of ob k] size_list_mem [of v vs size] by auto

text \<open>\<open>convertType(typeNode, usesKey)\<close>, with the node it leaves.\<close>

function convertType :: "string \<Rightarrow> jsval \<Rightarrow> jsval res" where
  "convertType usesKey (JObj ob) =
     (case pget ob ''type'' of
        JArr ts \<Rightarrow>
          rbind (mapR (convertTypeName usesKey) ts) (\<lambda>ts'.
            let ob' = oset ''type'' (JArr ts') ob
            in case pget ob ''properties'' of
                 JObj ps \<Rightarrow> rbind (mapR (\<lambda>(key, p). rbind (convertType usesKey p) (\<lambda>q. Inr (key, q))) ps) (\<lambda>ps'.
                   Inr (JObj (oset ''properties'' (JObj ps') ob')))
               | JArr vs \<Rightarrow> rbind (mapR (convertType usesKey) vs) (\<lambda>vs'.
                   Inr (JObj (oset ''properties'' (JArr vs') ob')))
               | JStr (c # cs) \<Rightarrow> Inl TypeError
               | _ \<Rightarrow> Inr (JObj ob'))
      | _ \<Rightarrow> Inl TypeError)"
| "convertType usesKey JUndef = Inl TypeError"
| "convertType usesKey JNull = Inl TypeError"
| "convertType usesKey (JBool b) = Inl TypeError"
| "convertType usesKey (JNum n) = Inl TypeError"
| "convertType usesKey (JStr s) = Inl TypeError"
| "convertType usesKey (JArr vs) = Inl TypeError"
| "convertType usesKey (JDate t shown isos) = Inl TypeError"
  by pat_completeness auto
termination
  by (relation "measure (\<lambda>(u, v). size v)") (auto dest: size_field size_element)

text \<open>The entries of one kind in all libraries: the library, the name and the value.\<close>

definition item_entries :: "string \<Rightarrow> jsval \<Rightarrow> (string \<times> string \<times> jsval) list res" where
  "item_entries usesKey item =
     (if nullish item then Inl TypeError else Inr (map (\<lambda>(k, v). (usesKey, k, v)) (obj_entries item)))"

definition library_items :: "string \<Rightarrow> jsval jsobj \<Rightarrow> (string \<times> string \<times> jsval) list res" where
  "library_items field raml =
     (if \<not> truthy (pget raml ''uses'') then Inr []
      else rbind (mapR (\<lambda>(usesKey, lib).
          rbind (jget lib field) (\<lambda>items.
            if \<not> truthy items then Inr []
            else case items of
                JArr vs \<Rightarrow> rbind (mapR (item_entries usesKey) vs) (\<lambda>ess. Inr (concat ess))
              | _ \<Rightarrow> Inl TypeError))
          (obj_entries (pget raml ''uses''))) (\<lambda>ess. Inr (concat ess)))"

definition getLibrarySchemas :: "jsval jsobj \<Rightarrow> jsval list res" where
  "getLibrarySchemas raml = rbind (library_items ''schemas'' raml) (\<lambda>es.
     Inr (map (\<lambda>(u, k, v). JObj [(qualify u k, v)]) es))"

definition getSecuritySchemes :: "jsval jsobj \<Rightarrow> jsval list res" where
  "getSecuritySchemes raml = rbind (library_items ''securitySchemes'' raml) (\<lambda>es.
     Inr (map (\<lambda>(u, k, v). JObj [(qualify u k, v)]) es))"

definition library_type :: "string \<times> string \<times> jsval \<Rightarrow> jsval res" where
  "library_type e = (case e of (u, k, v) \<Rightarrow>
     rbind (convertType u v) (\<lambda>t. rbind (as_object t) (\<lambda>ob.
       Inr (JObj [(qualify u k, JObj (oset ''displayName'' (JStr (qualify u k)) ob))]))))"

definition getLibraryTypes :: "jsval jsobj \<Rightarrow> jsval list res" where
  "getLibraryTypes raml = rbind (library_items ''types'' raml) (mapR library_type)"

text \<open>\<open>raml[field] ? angular.copy(raml[field]) : []\<close>, which must be an array.\<close>

definition own_items :: "string \<Rightarrow> jsval jsobj \<Rightarrow> jsval list res" where
  "own_items field raml =
     (if \<not> truthy (pget raml field) then Inr []
      else case pget raml field of JArr vs \<Rightarrow> Inr vs | _ \<Rightarrow> Inl TypeError)"

section \<open>The lists of the console\<close>

text \<open>An entry is collapsed, expanded, or cannot be toggled (\<open>null\<close>).\<close>

record collapsible =
  cl_flag :: bool
  cl_items :: "bool option list"

definition toggleCollapsed :: "bool \<Rightarrow> bool option list \<Rightarrow> bool option list" where
  "toggleCollapsed status collection = map (\<lambda>el. if el \<noteq> None then Some status else el) collection"

definition checkItemStatus :: "bool \<Rightarrow> bool option list \<Rightarrow> bool" where
  "checkItemStatus status collection =
     (length (filter (\<lambda>el. el = Some status \<or> el = None) collection) = length collection)"

text \<open>\<open>collection[index] = !collection[index]\<close>.\<close>

definition negate_item :: "bool option \<Rightarrow> bool option" where
  "negate_item el = Some (case el of None \<Rightarrow> True | Some b \<Rightarrow> \<not> b)"

definition toggle :: "nat \<Rightarrow> collapsible \<Rightarrow> collapsible" where
  "toggle index c =
     (let collection = (cl_items c)[index := negate_item (cl_items c ! index)];
          flag1 = (if checkItemStatus False collection then False else cl_flag c);
          flag2 = (if checkItemStatus True collection then True else flag1)
      in c\<lparr>cl_items := collection, cl_flag := flag2\<rparr>)"

definition collapseAll :: "bool \<Rightarrow> collapsible \<Rightarrow> collapsible" where
  "collapseAll expanded c = c\<lparr>cl_flag := expanded, cl_items := toggleCollapsed expanded (cl_items c)\<rparr>"

definition hasResourcesWithChilds :: "inspected_api option \<Rightarrow> bool" where
  "hasResourcesWithChilds api =
     (case api of None \<Rightarrow> False | Some a \<Rightarrow> length (filter (\<lambda>el. length el > 1) (ia_groups a)) > 0)"

text \<open>The lists a document starts with.\<close>

definition resource_list :: "bool \<Rightarrow> 'r list list \<Rightarrow> collapsible" where
  "resource_list resourcesCollapsed groups =
     \<lparr>cl_flag = resourcesCollapsed,
      cl_items = map (\<lambda>resources. if resourcesCollapsed then Some True
        else if length resources > 1 then Some False else None) groups\<rparr>"

definition document_list :: "bool \<Rightarrow> jsval \<Rightarrow> collapsible" where
  "document_list documentationCollapsed documentation =
     \<lparr>cl_flag = documentationCollapsed,
      cl_items = map (\<lambda>d. Some documentationCollapsed)
        (case documentation of JArr vs \<Rightarrow> vs | _ \<Rightarrow> [])\<rparr>"

record console_view =
  cv_api :: inspected_api
  cv_resources :: collapsible
  cv_documents :: collapsible
  cv_types :: "jsval list option"
  cv_schemas :: "jsval list"

definition normalize_properties :: "jsval \<Rightarrow> jsval res" where
  "normalize_properties ty =
     (case ty of
        JObj ((k, JObj ob) # rest) \<Rightarrow> rbind (normalizeNamedParameters (pget ob ''properties'')) (\<lambda>ps.
          Inr (JObj ((k, JObj (oset ''properties'' ps ob)) # rest)))
      | _ \<Rightarrow> Inl TypeError)"

text \<open>What is shown for a document, as the watcher of \<open>raml\<close> computes it.\<close>

definition load_raml :: "bool \<Rightarrow> bool \<Rightarrow> jsval jsobj \<Rightarrow> console_view res" where
  "load_raml resourcesCollapsed documentationCollapsed raml =
     rbind (getSecuritySchemes raml) (\<lambda>libSchemes.
     rbind (own_items ''securitySchemes'' raml) (\<lambda>securitySchemes.
       let raml' = oset ''securitySchemes'' (JArr (securitySchemes @ libSchemes)) raml
       in rbind (inspector_create raml') (\<lambda>api.
          rbind (own_items ''types'' raml) (\<lambda>types.
          rbind (getLibraryTypes raml') (\<lambda>libTypes.
          rbind (if types = [] \<and> libTypes = [] then Inr None
                 else rbind (mapR normalize_properties (types @ libTypes)) (\<lambda>ts. Inr (Some ts))) (\<lambda>ts.
          rbind (own_items ''schemas'' raml) (\<lambda>schemas.
          rbind (getLibrarySchemas raml') (\<lambda>libSchemas.
            Inr \<lparr>cv_api = api,
                 cv_resources = resource_list resourcesCollapsed (ia_groups api),
                 cv_documents = document_list documentationCollapsed (pget raml' ''documentation''),
                 cv_types = ts, cv_schemas = schemas @ libSchemas\<rparr>))))))))"

section \<open>Traits\<close>

definition trait_text :: "jsval \<Rightarrow> string option" where
  "trait_text t = (if \<not> truthy t then None
     else if typeof_object t then Some (join '', '' (map fst (obj_entries t)))
     else Some (to_string t))"

definition readResourceTraits :: "jsval list option \<Rightarrow> string" where
  "readResourceTraits traits =
     (case traits of None \<Rightarrow> [] | Some ts \<Rightarrow> join '', '' (List.map_filter trait_text ts))"

section \<open>The flag and the list agree\<close>

text \<open>Whenever all entries that can be toggled are in the same state, the flag is that state.\<close>

definition list_ok :: "collapsible \<Rightarrow> bool" where
  "list_ok c = (\<forall>b\<in>{False, True}. Some b \<in> set (cl_items c) \<and> Some (\<not> b) \<notin> set (cl_items c) \<longrightarrow> cl_flag c = b)"

inductive list_step :: "collapsible \<Rightarrow> collapsible \<Rightarrow> bool" where
  ToggleItem: "index < length (cl_items c) \<Longrightarrow> list_step c (toggle index c)"
| CollapseAll: "list_step c (collapseAll expanded c)"

inductive_cases list_stepE: "list_step c d"

lemma checkItemStatus_iff: "checkItemStatus status xs \<longleftrightarrow> Some (\<not> status) \<notin> set xs"
proof -
  have "checkItemStatus status xs \<longleftrightarrow> (\<forall>el\<in>set xs. el = Some status \<or> el = None)"
  proof (induction xs)
    case (Cons x xs)
    have "length (filter p xs) \<noteq> Suc (length xs)" for p :: "bool option \<Rightarrow> bool"
      using length_filter_le [of p xs] by linarith
    then show ?case using Cons by (simp add: checkItemStatus_def)
  qed (simp add: checkItemStatus_def)
  also have "\<dots> \<longleftrightarrow> Some (\<not> status) \<notin> set xs"
  proof -
    have "(el = Some status \<or> el = None) \<longleftrightarrow> el \<noteq> Some (\<not> status)" for el
      by (cases el) auto
    then show ?thesis by auto
  qed
  finally show ?thesis .
qed

lemma list_step_ok: "list_step c d \<Longrightarrow> list_ok d"
proof (elim list_stepE)
  fix index assume d: "d = toggle index c"
  show "list_ok d"
    unfolding d list_ok_def toggle_def Let_def by (auto simp: checkItemStatus_iff)
next
  fix expanded assume "d = collapseAll expanded c"
  then show "list_ok d"
    by (auto simp: list_ok_def collapseAll_def toggleCollapsed_def)
qed

lemma resource_list_ok: "list_ok (resource_list b gs)"
  by (auto simp: list_ok_def resource_list_def)

text \<open>
  The flag of the resource list always tells the state of the list: whatever entries are toggled
  one by one or all at once, when every entry that can be toggled is collapsed the flag is set, and
  when every one is expanded it is not.
\<close>

theorem resource_list_flag:
  assumes "list_step\<^sup>*\<^sup>* (resource_list b groups) c"
  shows "list_ok c"
  using assms
  by (cases rule: rtranclp.cases) (auto simp: resource_list_ok list_step_ok)

theorem resource_list_flag_witness:
  "list_ok (collapseAll True (toggle 0 (resource_list False [[''/a'', ''/a/b''], [''/c'']])))"
proof -
  have "list_step (resource_list False [[''/a'', ''/a/b''], [''/c'']])
      (toggle 0 (resource_list False [[''/a'', ''/a/b''], [''/c'']]))"
    by (rule ToggleItem) (simp add: resource_list_def)
  then have "list_step\<^sup>*\<^sup>* (resource_list False [[''/a'', ''/a/b''], [''/c'']])
      (collapseAll True (toggle 0 (resource_list False [[''/a'', ''/a/b''], [''/c'']])))"
    using CollapseAll by (meson r_into_rtranclp rtranclp_trans)
  then show ?thesis by (rule resource_list_flag)
qed

section \<open>Types of a library\<close>

lemma plain_qualify:
  assumes "plain_name u" and "plain_name p"
  shows "plain_name (qualify u p)"
proof -
  have u: "u \<noteq> [] \<Longrightarrow> \<not> is_ws (hd u)" using assms(1) hd_trim by (metis plain_name_def)
  have p: "p \<noteq> [] \<Longrightarrow> \<not> is_ws (last p)" using assms(2) last_trim by (metis plain_name_def)
  have "\<not> is_ws CHR ''.''" by code_simp
  then have "trim (qualify u p) = qualify u p"
    using u p by (intro trim_fixed) (auto simp: qualify_def hd_append)
  then show ?thesis using assms by (auto simp: plain_name_def qualify_def)
qed

lemma convert_part_plain: "plain_name u \<Longrightarrow> plain_name p \<Longrightarrow> plain_name (convert_part u p)"
  by (simp add: convert_part_def cleanup_plain plain_qualify)

lemma convert_info_wf:
  "plain_name u \<Longrightarrow> wf_type_info ti \<Longrightarrow> wf_type_info (ti\<lparr>ti_parts := map (convert_part u) (ti_parts ti)\<rparr>)"
  by (auto simp: wf_type_info_def list_all_iff convert_part_plain)



lemma item_entries_lib: "item_entries u item = Inr es \<Longrightarrow> e \<in> set es \<Longrightarrow> fst e = u"
  by (auto simp: item_entries_def split: if_splits)

lemma library_items_keys:
  assumes "library_items field raml = Inr es" and "e \<in> set es"
  shows "fst e \<in> fst ` set (obj_entries (pget raml ''uses''))"
proof -
  obtain ess where "mapR (\<lambda>(usesKey, lib). rbind (jget lib field) (\<lambda>items.
            if \<not> truthy items then Inr []
            else case items of JArr vs \<Rightarrow> rbind (mapR (item_entries usesKey) vs) (\<lambda>ess. Inr (concat ess)) | _ \<Rightarrow> Inl TypeError))
        (obj_entries (pget raml ''uses'')) = Inr ess" and "es = concat ess"
    using assms by (auto simp: library_items_def rbind_eq_Inr split: if_splits)
  then obtain u lib items ys where ul: "(u, lib) \<in> set (obj_entries (pget raml ''uses''))" and y: "ys \<in> set ess" "e \<in> set ys"
    and r: "(if \<not> truthy items then Inr []
            else case items of JArr vs \<Rightarrow> rbind (mapR (item_entries u) vs) (\<lambda>ess. Inr (concat ess)) | _ \<Rightarrow> Inl TypeError) = (Inr ys :: _ res)"
    using assms(2) by (fastforce dest: mapR_result simp: rbind_eq_Inr)
  then obtain vs zss where z: "mapR (item_entries u) vs = Inr zss" "ys = concat zss"
    by (auto simp: rbind_eq_Inr split: if_splits jsval.splits)
  then obtain zs where "zs \<in> set zss" "e \<in> set zs" using y(2) by auto
  then have "fst e = u" using mapR_result [OF z(1)] item_entries_lib by metis
  then show ?thesis using ul by force
qed

text \<open>
  Every type taken from the libraries stands under the name of its library, a dot and its own name,
  and is displayed under that name.
\<close>

theorem library_type_names:
  assumes "getLibraryTypes raml = Inr ts" and "t \<in> set ts"
  shows "\<exists>usesKey name ob. t = JObj [(usesKey @ ''.'' @ name, JObj ob)]
    \<and> pget ob ''displayName'' = JStr (usesKey @ ''.'' @ name)
    \<and> usesKey \<in> fst ` set (obj_entries (pget raml ''uses''))"
proof -
  obtain es where es: "library_items ''types'' raml = Inr es" and ts: "mapR library_type es = Inr ts"
    using assms(1) by (auto simp: getLibraryTypes_def rbind_eq_Inr)
  obtain e where e: "e \<in> set es" "library_type e = Inr t"
    using mapR_result [OF ts assms(2)] by blast
  obtain u k v where ukv: "e = (u, k, v)" by (cases e)
  have "u \<in> fst ` set (obj_entries (pget raml ''uses''))"
    using library_items_keys [OF es e(1)] ukv by simp
  moreover obtain ob where "t = JObj [(u @ ''.'' @ k, JObj (oset ''displayName'' (JStr (u @ ''.'' @ k)) ob))]"
    using e(2) ukv by (auto simp: library_type_def qualify_def rbind_eq_Inr)
  ultimately show ?thesis
    by (intro exI [of _ u] exI [of _ k] exI [of _ "oset ''displayName'' (JStr (u @ ''.'' @ k)) ob"]) (simp add: pget_def)
qed

definition sample_library :: "jsval jsobj" where
  "sample_library = [(''uses'', JObj [(''lib'', JObj [(''types'', JArr [JObj [(''Pet'', JObj [(''type'', JArr [JStr ''Cat''])])]])])])]"

theorem library_type_names_witness:
  "\<exists>ts t ob. getLibraryTypes sample_library = Inr ts \<and> t \<in> set ts
    \<and> t = JObj [(''lib.Pet'', JObj ob)] \<and> pget ob ''displayName'' = JStr ''lib.Pet''"
proof -
  let ?v = "JObj [(''type'', JArr [JStr ''lib.Cat'']), (''displayName'', JStr ''lib.Pet'')]"
  have ts: "getLibraryTypes sample_library = Inr [JObj [(''lib.Pet'', ?v)]]" by code_simp
  from library_type_names [OF ts, of "JObj [(''lib.Pet'', ?v)]"] show ?thesis using ts by auto
qed

end
