(* ===== verification/Documentation.thy ===== *)
theory Documentation
  imports RamlTypes Inspector
begin

text \<open>
  The directives of \<open>api-console.js\<close> that show a document: \<open>documentation\<close>, \<open>examples\<close>, \<open>properties\<close>,
  \<open>ramlBody\<close>, \<open>rootDocumentation\<close>, \<open>rootTypes\<close>, \<open>resourceType\<close> and \<open>type\<close>, and the filter
  \<open>nameFromParameterizable\<close>. The classes they set on page elements and the animations are left out.
\<close>

section \<open>Texts about a parameter\<close>

text \<open>\<open>join\<close> of an array: \<open>null\<close> and \<open>undefined\<close> are empty.\<close>

definition js_join :: "string \<Rightarrow> jsval list \<Rightarrow> string" where
  "js_join sep vs = join sep (map (\<lambda>v. if nullish v then [] else to_string v) vs)"

text \<open>
  \<open>arr.filter(function (v, i, a) { return a.indexOf(v) === i; })\<close>: an object is found at its own place,
  \<open>NaN\<close> nowhere.
\<close>

definition unique :: "jsval list \<Rightarrow> jsval list" where
  "unique vs = map snd (filter (\<lambda>(i, v). v \<noteq> JNum NaN \<and> \<not> list_ex (\<lambda>w. strict_eq w v) (take i vs)) (enumerate 0 vs))"

definition fields_of :: "jsval \<Rightarrow> jsval jsobj" where
  "fields_of v = (case v of JObj ob \<Rightarrow> ob | _ \<Rightarrow> [])"

definition enum_text :: "jsval list \<Rightarrow> string" where
  "enum_text enumValues =
     (if length enumValues > 1 then ''one of '' else []) @ ''('' @ js_join '', '' (filter (\<lambda>v. v \<noteq> JStr []) enumValues) @ '')''"

definition array_of :: "jsval \<Rightarrow> jsval list res" where
  "array_of v = (case v of JArr vs \<Rightarrow> Inr vs | _ \<Rightarrow> Inl TypeError)"

definition length_text :: "jsval jsobj \<Rightarrow> string option" where
  "length_text p =
     (let lo = pget p ''minLength''; hi = pget p ''maxLength''
      in if truthy lo \<and> truthy hi then Some (to_string lo @ ''-'' @ to_string hi @ '' characters'')
         else if truthy lo then Some (''at least '' @ to_string lo @ '' characters'')
         else if truthy hi then Some (''at most '' @ to_string hi @ '' characters'')
         else None)"

text \<open>The signs for at least and at most, in UTF-8.\<close>

definition ge_sign :: string where "ge_sign = [CHR 0xE2, CHR 0x89, CHR 0xA5]"
definition le_sign :: string where "le_sign = [CHR 0xE2, CHR 0x89, CHR 0xA4]"

definition bounds_text :: "jsval jsobj \<Rightarrow> string option" where
  "bounds_text p =
     (let lo = pget p ''minimum''; hi = pget p ''maximum''
      in if truthy lo \<and> truthy hi then Some (''between '' @ to_string lo @ ''-'' @ to_string hi)
         else if truthy lo then Some (ge_sign @ '' '' @ to_string lo)
         else if truthy hi then Some (le_sign @ '' '' @ to_string hi)
         else None)"

definition with_prefix :: "string \<Rightarrow> string option \<Rightarrow> string" where
  "with_prefix pre t = (case t of None \<Rightarrow> [] | Some s \<Rightarrow> pre @ s)"

definition field_text :: "string \<Rightarrow> string \<Rightarrow> jsval jsobj \<Rightarrow> string option" where
  "field_text pre k p = (if truthy (pget p k) then Some (pre @ to_string (pget p k)) else None)"

definition default_text :: "jsval jsobj \<Rightarrow> string option" where
  "default_text p = (if pget p ''default'' = JUndef then None else Some (''default: '' @ to_string (pget p ''default'')))"

text \<open>\<open>parameterDocumentation\<close> of the \<open>documentation\<close> directive, one running text.\<close>

definition parameterDocumentation :: "jsval \<Rightarrow> string res" where
  "parameterDocumentation parameter =
     (if \<not> truthy parameter then Inr []
      else let p = fields_of parameter
      in rbind (if truthy (pget p ''enum'')
                then rbind (array_of (pget p ''enum'')) (\<lambda>vs. Inr (enum_text (unique vs)))
                else Inr (to_string (js_or (pget p ''type'') (JStr [])))) (\<lambda>kind.
           Inr ((if truthy (pget p ''required'') then ''required, '' else []) @ kind
             @ with_prefix [] (field_text '' matching '' ''pattern'' p)
             @ with_prefix '', '' (length_text p)
             @ with_prefix '' '' (bounds_text p)
             @ (if truthy (pget p ''repeat'') then '', repeatable'' else [])
             @ with_prefix '', '' (default_text p))))"

definition flag_text :: "string \<Rightarrow> string \<Rightarrow> jsval jsobj \<Rightarrow> string option" where
  "flag_text k shown p = (if truthy (pget p k) then Some shown else None)"

definition present :: "string option list \<Rightarrow> string list" where
  "present ts = List.map_filter (\<lambda>t. t) ts"

text \<open>\<open>parameterDocumentation\<close> of the \<open>properties\<close> directive, a list of texts.\<close>

definition property_documentation :: "jsval \<Rightarrow> string res" where
  "property_documentation parameter =
     (if \<not> truthy parameter then Inr []
      else let p = fields_of parameter
      in rbind (if truthy (pget p ''enum'')
                then rbind (array_of (pget p ''enum'')) (\<lambda>vs. Inr (Some (enum_text (unique vs))))
                else Inr None) (\<lambda>kind.
           Inr (join '', '' (present
             [flag_text ''required'' ''required'' p, flag_text ''discriminator'' ''discriminator'' p, kind,
              field_text '' matching '' ''pattern'' p, length_text p, bounds_text p,
              flag_text ''repeat'' ''repeatable'' p, default_text p]))))"

definition typeDocumentation :: "jsval \<Rightarrow> string res" where
  "typeDocumentation ty =
     (if nullish ty then Inl TypeError
      else let p = fields_of ty
      in rbind (if truthy (pget p ''enum'')
                then rbind (array_of (pget p ''enum'')) (\<lambda>vs. Inr (Some (enum_text vs))) else Inr None) (\<lambda>kind.
         rbind (if truthy (pget p ''fileTypes'')
                then rbind (array_of (pget p ''fileTypes'')) (\<lambda>vs. Inr (Some (''fileTypes: '' @ js_join '', '' vs)))
                else Inr None) (\<lambda>files.
           Inr (join '', '' (present
             [field_text ''minItems: '' ''minItems'' p, field_text ''maxItems: '' ''maxItems'' p, kind,
              field_text ''pattern: '' ''pattern'' p, field_text ''minLength: '' ''minLength'' p,
              field_text ''maxLength: '' ''maxLength'' p, field_text ''minimum: '' ''minimum'' p,
              field_text ''format: '' ''format'' p, field_text ''multipleOf: '' ''multipleOf'' p, files])))))"

section \<open>The documentation panel\<close>

record documentation_state =
  ds_scheme :: jsval
  ds_statusCode :: string
  ds_showRequest :: bool
  ds_showResponse :: bool
  ds_bodySelected :: string

definition isSchemeSelected :: "jsval \<Rightarrow> documentation_state \<Rightarrow> bool res" where
  "isSchemeSelected scheme s =
     rbind (jget scheme ''id'') (\<lambda>a. rbind (jget (ds_scheme s) ''id'') (\<lambda>b. Inr (strict_eq a b)))"

definition selectDocumentationScheme :: "jsval \<Rightarrow> documentation_state \<Rightarrow> documentation_state" where
  "selectDocumentationScheme scheme s = s\<lparr>ds_scheme := scheme\<rparr>"

definition schemaSettingsDocumentation :: "jsval \<Rightarrow> jsval res" where
  "schemaSettingsDocumentation settings =
     (if typeof_object settings then rbind (array_of settings) (\<lambda>vs. Inr (JStr (js_join '', '' vs))) else Inr settings)"

text \<open>The first response code, else the code shown so far.\<close>

definition first_code :: "string list option \<Rightarrow> string \<Rightarrow> string" where
  "first_code responseCodes shown = (case responseCodes of Some (c # cs) \<Rightarrow> c | _ \<Rightarrow> shown)"

definition documentation_init :: "jsval jsobj \<Rightarrow> string list option \<Rightarrow> string \<Rightarrow> documentation_state" where
  "documentation_init securitySchemes responseCodes body =
     \<lparr>ds_scheme = default_scheme securitySchemes, ds_statusCode = first_code responseCodes ''200'', ds_showRequest = True,
      ds_showResponse = True, ds_bodySelected = body\<rparr>"

definition documentation_reset :: "string list option \<Rightarrow> documentation_state \<Rightarrow> documentation_state" where
  "documentation_reset responseCodes s = s\<lparr>ds_statusCode := first_code responseCodes (ds_statusCode s)\<rparr>"

definition showCodeDetails :: "string \<Rightarrow> documentation_state \<Rightarrow> documentation_state" where
  "showCodeDetails code s = s\<lparr>ds_statusCode := code\<rparr>"

definition isActiveCode :: "string \<Rightarrow> documentation_state \<Rightarrow> bool" where
  "isActiveCode code s = (ds_statusCode s = code)"

text \<open>\<open>code[0] + 'xx'\<close>.\<close>

definition getColorCode :: "string \<Rightarrow> string" where
  "getColorCode code = (case code of [] \<Rightarrow> ''undefined'' | c # cs \<Rightarrow> [c]) @ ''xx''"

definition toggleRequestDocumentation :: "documentation_state \<Rightarrow> documentation_state" where
  "toggleRequestDocumentation s = s\<lparr>ds_showRequest := \<not> ds_showRequest s\<rparr>"

definition toggleResponseDocumentation :: "documentation_state \<Rightarrow> documentation_state" where
  "toggleResponseDocumentation s = s\<lparr>ds_showResponse := \<not> ds_showResponse s\<rparr>"

text \<open>The content type shown of the response with a code.\<close>

definition changeType :: "string \<Rightarrow> string \<Rightarrow> jsval jsobj \<Rightarrow> jsval jsobj res" where
  "changeType ty code responseInfo =
     rbind (as_object (pget responseInfo code)) (\<lambda>ob.
       Inr (oset code (JObj (oset ''currentType'' (JStr ty) ob)) responseInfo))"

definition changeResourceBodyType :: "string \<Rightarrow> documentation_state \<Rightarrow> documentation_state" where
  "changeResourceBodyType ty s = s\<lparr>ds_bodySelected := ty\<rparr>"

definition bodySelected :: "string \<Rightarrow> documentation_state \<Rightarrow> bool" where
  "bodySelected v s = (v = ds_bodySelected s)"

section \<open>Identifiers\<close>

definition is_word :: "char \<Rightarrow> bool" where
  "is_word c = (is_alnum c \<or> c = CHR ''_'')"

text \<open>\<open>replace(/\s+/g, '_')\<close>.\<close>

fun underscore_runs :: "bool \<Rightarrow> string \<Rightarrow> string" where
  "underscore_runs inrun [] = []"
| "underscore_runs inrun (c # s) =
     (if is_ws c then (if inrun then [] else ''_'') @ underscore_runs True s
      else c # underscore_runs False s)"

definition blank_nonword :: "char \<Rightarrow> char" where
  "blank_nonword c = (if is_word c then c else CHR '' '')"

text \<open>\<open>getBodyId\<close> and \<open>generateId\<close>; \<open>generateDocId\<close> is in lower case.\<close>

definition generateId :: "string \<Rightarrow> string" where
  "generateId path = underscore_runs False (trim (map blank_nonword path))"

definition generateDocId :: "string \<Rightarrow> string" where
  "generateDocId path = lower (generateId path)"

section \<open>Examples\<close>

definition example_content :: "jsval \<Rightarrow> jsval" where
  "example_content v = (if typeof_object v then json_stringify v else v)"

text \<open>\<open>transformExample\<close>: the named examples of a body, none when there is no example.\<close>

definition transformExample :: "jsval \<Rightarrow> (string \<times> jsval) list option res" where
  "transformExample exampleContainer =
     rbind (jget exampleContainer ''example'') (\<lambda>example.
     rbind (jget exampleContainer ''examples'') (\<lambda>examples.
       if truthy example then Inr (Some [(''Example'', example_content example)])
       else if truthy examples then
         (case examples of
            JArr vs \<Rightarrow> rbind (mapR (\<lambda>(index, e).
                rbind (jget e ''name'') (\<lambda>name. rbind (jget e ''value'') (\<lambda>v.
                  Inr (to_string (js_or name (JStr (''Example '' @ show_nat index))), json_stringify2 v))))
                (enumerate 0 vs)) (\<lambda>es. Inr (Some es))
          | _ \<Rightarrow> rbind (mapR (\<lambda>key. rbind (jget examples key) (\<lambda>e. rbind (jget e ''value'') (\<lambda>v. Inr (key, v))))
                (js_sort (keys_or_empty examples))) (\<lambda>es. Inr (Some es)))
       else Inr None))"

section \<open>Types of properties\<close>

definition getArrayTypes :: "jsval \<Rightarrow> jsval list res" where
  "getArrayTypes arrayType =
     rbind (jget arrayType ''items'') (\<lambda>items. rbind (jget items ''type'') (\<lambda>ty.
       if truthy ty then array_of ty else Inr [items]))"

text \<open>\<open>mergeType\<close> of the directive: a property of a property is shown as it is. \<open>None\<close> is no return.\<close>

definition merge_shown :: "bool \<Rightarrow> jsval list option \<Rightarrow> jsval jsobj \<Rightarrow> jsval res option" where
  "merge_shown isNestedProperty types ty =
     (if \<not> isNestedProperty \<and> types \<noteq> None then mergeType ty types else Some (Inr (JObj ty)))"

definition array_type :: "jsval jsobj \<Rightarrow> jsval res" where
  "array_type ob =
     (let ty = types_ensureArray (pget ob ''type''); ob' = oset ''type'' ty ob
      in rbind (jidx ty 0) (\<lambda>first.
           if first = JStr ''array'' then
             rbind (getArrayTypes (JObj ob')) (\<lambda>ts.
             rbind (jget (pget ob' ''items'') ''properties'') (\<lambda>ps.
               Inr (JObj (oset ''properties'' ps (oset ''type'' (JArr (map (\<lambda>t. JStr (to_string t @ ''[]'')) ts)) ob')))))
           else Inr (JObj ob')))"

definition getType :: "bool \<Rightarrow> jsval list option \<Rightarrow> jsval jsobj \<Rightarrow> jsval res option" where
  "getType isNestedProperty types ty =
     map_option (\<lambda>r. rbind r (\<lambda>v. array_type (fields_of v))) (merge_shown isNestedProperty types ty)"

text \<open>\<open>/^\/[^\/]*\/$/\<close>.\<close>

definition isPattern :: "string \<Rightarrow> bool" where
  "isPattern propertyName =
     (2 \<le> length propertyName \<and> hd propertyName = CHR ''/'' \<and> last propertyName = CHR ''/''
      \<and> CHR ''/'' \<notin> set (butlast (tl propertyName)))"

definition isCollapsible :: "bool \<Rightarrow> jsval \<Rightarrow> bool res" where
  "isCollapsible collapsible' property =
     (if \<not> collapsible' then Inr False
      else rbind (jget property ''description'') (\<lambda>d. rbind (jget property ''properties'') (\<lambda>ps.
        if truthy d \<or> truthy ps then Inr True
        else rbind (jget property ''type'') (\<lambda>t. rbind (jidx t 0) (\<lambda>t0. Inr (isSchema t0))))))"

text \<open>The list a \<open>properties\<close> element shows.\<close>

definition list_array :: "jsval \<Rightarrow> jsval res" where
  "list_array lst = (if is_arr lst then Inr lst
     else if nullish lst then Inl TypeError else normalizeNamedParameters lst)"

section \<open>Bodies\<close>

record body_view =
  bv_isType :: bool
  bv_isSchema :: bool
  bv_definition :: jsval

definition getTopSchema :: "string \<Rightarrow> jsval list option \<Rightarrow> jsval res" where
  "getTopSchema name schemas = findSchema name schemas"

definition getTopType :: "jsval \<Rightarrow> jsval list option \<Rightarrow> jsval res" where
  "getTopType name types =
     (case types of None \<Rightarrow> Inr JUndef
      | Some ts \<Rightarrow> rbind (name_of (case name of JArr vs \<Rightarrow> arr_at vs 0 | v \<Rightarrow> v)) (\<lambda>n. findType n types))"

definition as_type :: "body_view \<Rightarrow> body_view" where
  "as_type b = b\<lparr>bv_isType := True\<rparr>"

definition as_schema :: "jsval \<Rightarrow> body_view \<Rightarrow> body_view" where
  "as_schema d b = b\<lparr>bv_isSchema := True, bv_definition := d\<rparr>"

text \<open>A type name that is declared as a type of the document.\<close>

definition declared_type :: "jsval list option \<Rightarrow> jsval \<Rightarrow> body_view \<Rightarrow> body_view res" where
  "declared_type types declaredType b =
     rbind (jget declaredType ''type'') (\<lambda>t. rbind (jidx t 0) (\<lambda>t0. rbind (name_of t0) (\<lambda>n.
       let firstType = cleanupTypeName (hd (split_on CHR ''|'' n))
       in if types_isNativeType firstType then Inr (as_type b)
          else rbind (findType firstType types) (\<lambda>f.
            Inr (if truthy f then as_type b else as_schema t0 b)))))"

definition declared_schema :: "jsval \<Rightarrow> string \<Rightarrow> body_view \<Rightarrow> body_view res" where
  "declared_schema declaredSchema n b =
     (if truthy declaredSchema then
        rbind (jget declaredSchema ''type'') (\<lambda>t.
          if truthy t then rbind (jidx t 0) (\<lambda>d. Inr (as_schema d b)) else Inr (as_schema declaredSchema b))
      else if contains ''|'' n then Inr (b\<lparr>bv_isSchema := False, bv_isType := True\<rparr>)
      else Inr (as_schema (JStr n) b))"

definition identify_one :: "jsval list option \<Rightarrow> jsval list option \<Rightarrow> jsval \<Rightarrow> body_view \<Rightarrow> body_view res" where
  "identify_one types schemas aType b =
     (if typeof_object aType then Inr (as_schema (json_stringify2 aType) b)
      else rbind (name_of aType) (\<lambda>n.
        if types_isNativeType n then Inr (as_type b)
        else rbind (findType n types) (\<lambda>declaredType.
             rbind (findSchema n schemas) (\<lambda>declaredSchema.
               if truthy declaredType then declared_type types declaredType b
               else declared_schema declaredSchema n b))))"

definition identifyBodyType :: "jsval list option \<Rightarrow> jsval list option \<Rightarrow> jsval jsobj \<Rightarrow> body_view \<Rightarrow> body_view res" where
  "identifyBodyType types schemas body b =
     (let ty = js_or (pget body ''type'') (pget body ''schema'');
          b0 = b\<lparr>bv_isType := False, bv_isSchema := False\<rparr>
      in if \<not> truthy ty then Inr b0
         else foldR (identify_one types schemas) (case ty of JArr vs \<Rightarrow> vs | v \<Rightarrow> [v]) b0)"

text \<open>\<open>showSchema\<close>: whether the link and the schema are marked, and the text of the link.\<close>

record schema_toggle =
  sg_link :: bool
  sg_shown :: bool
  sg_text :: string

definition showSchema :: "schema_toggle \<Rightarrow> schema_toggle" where
  "showSchema s = s\<lparr>sg_link := \<not> sg_link s, sg_shown := \<not> sg_shown s,
     sg_text := (if sg_shown s then ''Show Schema'' else ''Hide Schema'')\<rparr>"

section \<open>The documents of an API\<close>

definition is_eol :: "char \<Rightarrow> bool" where
  "is_eol c = (c = CHR 0x0A \<or> c = CHR 0x0D)"

text \<open>A heading of level one or two: \<open>/(^#|^##)+\s/\<close> at the start of a line.\<close>

definition starts_heading :: "string \<Rightarrow> bool" where
  "starts_heading s = (case s of
       CHR ''#'' # w # t \<Rightarrow> is_ws w \<or> (w = CHR ''#'' \<and> t \<noteq> [] \<and> is_ws (hd t))
     | _ \<Rightarrow> False)"

fun heading_in :: "bool \<Rightarrow> string \<Rightarrow> bool" where
  "heading_in start [] = False"
| "heading_in start (c # s) = (start \<and> starts_heading (c # s) \<or> heading_in (is_eol c) s)"

definition is_heading :: "string \<Rightarrow> bool" where
  "is_heading line = heading_in True line"

definition hasDocumentationWithIndex :: "jsval \<Rightarrow> bool res" where
  "hasDocumentationWithIndex documentation =
     rbind (array_of documentation) (\<lambda>docs.
     rbind (mapR (\<lambda>el. jget el ''content'') docs) (\<lambda>cs.
       Inr (list_ex (\<lambda>c. is_heading (to_string c)) cs)))"

text \<open>The lines of the selected section, or the whole content.\<close>

fun position_of :: "string \<Rightarrow> string list \<Rightarrow> nat option" where
  "position_of x [] = None"
| "position_of x (y # ys) = (if y = x then Some 0 else map_option Suc (position_of x ys))"

definition section_lines :: "string \<Rightarrow> string list \<Rightarrow> string list" where
  "section_lines selected ls =
     (let below = (\<lambda>xs. takeWhile (\<lambda>line. \<not> is_heading line) xs)
      in case position_of selected ls of
           None \<Rightarrow> [] # below ls
         | Some i \<Rightarrow> ls ! i # below (drop (Suc i) ls))"

definition getDocumentationContent :: "string \<Rightarrow> string option \<Rightarrow> string" where
  "getDocumentationContent content selected =
     (case selected of
        None \<Rightarrow> content
      | Some sel \<Rightarrow> if sel = [] \<or> sel = ''all'' then content
          else join [CHR 0x0A] (section_lines sel (split_on CHR 0x0A content)))"

text \<open>The matches of \<open>/^#+\s(.*)$/gim\<close>.\<close>

function heading_matches :: "bool \<Rightarrow> string \<Rightarrow> string list" where
  "heading_matches start [] = []"
| "heading_matches start (c # s) =
     (let hashes = takeWhile (\<lambda>d. d = CHR ''#'') (c # s); rest = dropWhile (\<lambda>d. d = CHR ''#'') (c # s)
      in if start \<and> hashes \<noteq> [] \<and> rest \<noteq> [] \<and> is_ws (hd rest)
         then (hashes @ [hd rest] @ takeWhile (\<lambda>d. \<not> is_eol d) (tl rest))
           # heading_matches False (dropWhile (\<lambda>d. \<not> is_eol d) (tl rest))
         else heading_matches (is_eol c) s)"
  by pat_completeness auto

termination
proof (relation "measure (\<lambda>(b, s). length s)", goal_cases)
  case (2 start c s hashes rest)
  have "length (dropWhile (\<lambda>d. \<not> is_eol d) (tl rest)) \<le> length (tl rest)" by (rule length_dropWhile_le)
  moreover have "length rest \<le> length (c # s)" unfolding 2(2) by (rule length_dropWhile_le)
  ultimately show ?case using 2(3) by (cases rest) auto
qed auto

record doc_header =
  dh_value :: string
  dh_heading :: nat
  dh_label :: string

definition doc_header_of :: "string \<Rightarrow> string \<Rightarrow> doc_header" where
  "doc_header_of key el =
     \<lparr>dh_value = key, dh_heading = length (filter (\<lambda>c. c = CHR ''#'') el),
      dh_label = trim (filter (\<lambda>c. c \<noteq> CHR ''#'') el)\<rparr>"

fun doc_headers :: "string \<Rightarrow> string list \<Rightarrow> doc_header list" where
  "doc_headers key [] = []"
| "doc_headers key (el # els) =
     (let key' = (if is_heading el then el else key) in doc_header_of key' el # doc_headers key' els)"

definition getMarkdownHeaders :: "string \<Rightarrow> doc_header list" where
  "getMarkdownHeaders content =
     (case heading_matches True content of [] \<Rightarrow> [] | h # hs \<Rightarrow> doc_headers h (h # hs))"

definition index_headers :: "doc_header list \<Rightarrow> doc_header list" where
  "index_headers c = filter (\<lambda>el. dh_heading el \<le> 2) c"

text \<open>The documents that are marked as open, whether contents are shown, and the section that was picked.\<close>

record root_docs =
  rd_active :: "nat list"
  rd_enabled :: bool
  rd_section :: string

definition toggleSection :: "nat \<Rightarrow> string \<Rightarrow> root_docs \<Rightarrow> root_docs" where
  "toggleSection i key s =
     (let enabled = (i \<notin> set (rd_active s))
      in s\<lparr>rd_section := key, rd_enabled := enabled, rd_active := (if enabled then [i] else [])\<rparr>)"

text \<open>Closing toggles the mark of the document and then removes all marks.\<close>

definition closeDocumentation :: "nat \<Rightarrow> root_docs \<Rightarrow> root_docs" where
  "closeDocumentation i s = s\<lparr>rd_enabled := False, rd_active := []\<rparr>"

definition sectionChange :: "string \<Rightarrow> root_docs \<Rightarrow> root_docs" where
  "sectionChange v s = s\<lparr>rd_section := v\<rparr>"

inductive root_docs_step :: "root_docs \<Rightarrow> root_docs \<Rightarrow> bool" where
  ToggleSection: "root_docs_step s (toggleSection i key s)"
| CloseDocumentation: "root_docs_step s (closeDocumentation i s)"
| SectionChange: "root_docs_step s (sectionChange v s)"

section \<open>Types and names\<close>

text \<open>\<open>convertTypes\<close> of \<open>rootTypes\<close>: one object of all types.\<close>

definition convertTypes :: "jsval list \<Rightarrow> jsval res" where
  "convertTypes types =
     rbind (foldR (\<lambda>ty acc. rbind (jget ty (first_key ty)) (\<lambda>v. Inr (oset (first_key ty) v acc))) types [])
       (\<lambda>ob. normalizeNamedParameters (JObj ob))"

definition showTypeLink :: "bool \<Rightarrow> string \<Rightarrow> bool" where
  "showTypeLink hideTypeLinks ty = (\<not> hideTypeLinks \<and> \<not> types_isNativeType ty)"

definition getSupertTypes :: "jsval \<Rightarrow> jsval list option \<Rightarrow> jsval list res" where
  "getSupertTypes ty types =
     rbind (jget ty ''type'') (\<lambda>t. rbind (jidx t 0) (\<lambda>t0. rbind (name_of t0) (\<lambda>n.
     rbind (findType n types) (\<lambda>found. rbind (jget found ''type'') array_of))))"

definition selectType :: "string \<Rightarrow> jsval list option \<Rightarrow> jsval res option" where
  "selectType ty types = mergeType [(''displayName'', JStr ty), (''type'', JArr [JStr ty])] types"

definition nameFromParameterizable :: "jsval \<Rightarrow> jsval" where
  "nameFromParameterizable input =
     (if typeof_object input \<and> input \<noteq> JNull
      then (case map fst (obj_entries input) of [] \<Rightarrow> JUndef | k # _ \<Rightarrow> JStr k)
      else if truthy input then input else JUndef)"

definition resource_type :: "jsval \<Rightarrow> jsval res" where
  "resource_type resourceType =
     (if resourceType = JNull then Inl TypeError
      else if typeof_object resourceType then Inr (JStr (join '','' (map fst (obj_entries resourceType))))
      else Inr resourceType)"

section \<open>Lemmas\<close>

lemma ws_not_word: "is_ws c \<Longrightarrow> \<not> is_word c"
  by (auto simp: is_ws_def is_word_def is_alnum_def is_digit_def is_upper_def is_lower_def)

lemma underscore_word: "is_word CHR ''_''"
  by (simp add: is_word_def)

lemma underscore_runs_words:
  "\<forall>c\<in>set s. is_word c \<or> is_ws c \<Longrightarrow> \<forall>c\<in>set (underscore_runs inrun s). is_word c"
  by (induction inrun s rule: underscore_runs.induct) (auto simp: underscore_word)

lemma underscore_runs_id: "\<forall>c\<in>set s. is_word c \<Longrightarrow> underscore_runs inrun s = s"
  by (induction inrun s rule: underscore_runs.induct) (use ws_not_word in auto)

lemma set_trim: "set (trim s) \<subseteq> set s"
  unfolding trim_def by (metis set_dropWhileD set_rev subsetI)

lemma generateId_words: "\<forall>c\<in>set (generateId s). is_word c"
  unfolding generateId_def
proof (rule underscore_runs_words)
  have "is_ws CHR '' ''" by code_simp
  then have "\<forall>c\<in>set (map blank_nonword s). is_word c \<or> is_ws c" by (auto simp: blank_nonword_def)
  then show "\<forall>c\<in>set (trim (map blank_nonword s)). is_word c \<or> is_ws c" using set_trim by blast
qed

lemma generateId_word_id:
  assumes "\<forall>c\<in>set s. is_word c"
  shows "generateId s = s"
proof -
  have "map blank_nonword s = s" using assms by (intro map_idI) (simp add: blank_nonword_def)
  moreover have "trim s = s" using assms ws_not_word hd_in_set last_in_set by (intro trim_fixed) blast
  ultimately show ?thesis using underscore_runs_id [OF assms] by (simp add: generateId_def)
qed

text \<open>
  The identifier of a resource or a body is made of letters, digits and underscores only, so it is
  valid in a selector, and an identifier is its own identifier.
\<close>

theorem generateId_valid: "list_all is_word (generateId path) \<and> generateId (generateId path) = generateId path"
  using generateId_words [of path] generateId_word_id by (simp add: list_all_iff)

lemma unique_snoc:
  "unique (vs @ [x]) = unique vs @ (if x \<noteq> JNum NaN \<and> \<not> list_ex (\<lambda>w. strict_eq w x) vs then [x] else [])"
proof -
  have "filter (\<lambda>(i, v). v \<noteq> JNum NaN \<and> \<not> list_ex (\<lambda>w. strict_eq w v) (take i (vs @ [x]))) (enumerate 0 vs)
      = filter (\<lambda>(i, v). v \<noteq> JNum NaN \<and> \<not> list_ex (\<lambda>w. strict_eq w v) (take i vs)) (enumerate 0 vs)"
    by (rule filter_cong) (auto simp: in_set_enumerate_eq)
  then show ?thesis by (simp add: unique_def enumerate_append_eq)
qed

text \<open>
  The choices that are shown for an enumeration of texts are the texts in their order, each at its
  first place only.
\<close>

theorem unique_first: "unique (map JStr ss) = map JStr (rev (remdups (rev ss)))"
proof (induction ss rule: rev_induct)
  case Nil
  then show ?case by (simp add: unique_def)
next
  case (snoc s ss)
  have "list_ex (\<lambda>w. strict_eq w (JStr s)) (map JStr ss) \<longleftrightarrow> s \<in> set ss"
    by (auto simp: list_ex_iff)
  then show ?case using snoc unique_snoc [of "map JStr ss" "JStr s"] by simp
qed

lemma section_split:
  assumes "position_of sel ls = Some i"
  shows "ls = take i ls @ section_lines sel ls @ dropWhile (\<lambda>line. \<not> is_heading line) (drop (Suc i) ls)
    \<and> hd (section_lines sel ls) = sel \<and> sel \<notin> set (take i ls)"
proof -
  have "i < length ls \<and> ls ! i = sel \<and> sel \<notin> set (take i ls)"
    using assms by (induction sel ls arbitrary: i rule: position_of.induct) (auto split: if_splits)
  then show ?thesis
    using assms id_take_nth_drop [of i ls] by (simp add: section_lines_def)
qed

text \<open>
  Selecting a section of a document shows the part of it from the first line with that heading up
  to, and without, the next heading of level one or two.
\<close>

theorem section_content:
  assumes "selected \<in> set (split_on CHR 0x0A content)" and "selected \<noteq> []" and "selected \<noteq> ''all''"
  shows "\<exists>above body below. getDocumentationContent content (Some selected) = join [CHR 0x0A] (selected # body)
    \<and> split_on CHR 0x0A content = above @ (selected # body) @ below \<and> selected \<notin> set above
    \<and> (\<forall>line\<in>set body. \<not> is_heading line) \<and> (below \<noteq> [] \<longrightarrow> is_heading (hd below))"
proof -
  let ?ls = "split_on CHR 0x0A content"
  have "\<exists>i. position_of x ys = Some i" if "x \<in> set ys" for x and ys :: "string list"
    using that by (induction ys) auto
  then obtain i where i: "position_of selected ?ls = Some i" using assms(1) by blast
  note s = section_split [OF i]
  have body: "section_lines selected ?ls = selected # takeWhile (\<lambda>line. \<not> is_heading line) (drop (Suc i) ?ls)"
    using s i by (simp add: section_lines_def)
  show ?thesis
  proof (intro exI conjI)
    show "getDocumentationContent content (Some selected)
        = join [CHR 0x0A] (selected # takeWhile (\<lambda>line. \<not> is_heading line) (drop (Suc i) ?ls))"
      using assms body by (simp add: getDocumentationContent_def)
    show "?ls = take i ?ls @ (selected # takeWhile (\<lambda>line. \<not> is_heading line) (drop (Suc i) ?ls))
        @ dropWhile (\<lambda>line. \<not> is_heading line) (drop (Suc i) ?ls)"
      using s body by metis
    show "selected \<notin> set (take i ?ls)" using s by blast
    show "\<forall>line\<in>set (takeWhile (\<lambda>line. \<not> is_heading line) (drop (Suc i) ?ls)). \<not> is_heading line"
      by (auto dest: set_takeWhileD)
    show "dropWhile (\<lambda>line. \<not> is_heading line) (drop (Suc i) ?ls) \<noteq> []
        \<longrightarrow> is_heading (hd (dropWhile (\<lambda>line. \<not> is_heading line) (drop (Suc i) ?ls)))"
      using hd_dropWhile by fast
  qed
qed

definition sample_content :: string where
  "sample_content = ''a'' @ [CHR 0x0A] @ ''# B'' @ [CHR 0x0A] @ ''b'' @ [CHR 0x0A] @ ''# C''"

theorem section_content_witness:
  "getDocumentationContent sample_content (Some ''# B'') = ''# B'' @ [CHR 0x0A] @ ''b''"
proof -
  have ls: "split_on CHR 0x0A sample_content = [''a'', ''# B'', ''b'', ''# C'']"
    and "is_heading ''# C''" "\<not> is_heading ''b''" by code_simp+
  then obtain above body below where c: "getDocumentationContent sample_content (Some ''# B'') = join [CHR 0x0A] (''# B'' # body)"
    and s: "[''a'', ''# B'', ''b'', ''# C''] = above @ (''# B'' # body) @ below" "''# B'' \<notin> set above"
    and h: "\<forall>line\<in>set body. \<not> is_heading line" "below \<noteq> [] \<longrightarrow> is_heading (hd below)"
    using section_content [of "''# B''" sample_content] by (auto simp: ls)
  have "above = [''a'']" using s by (cases above; cases "tl above") auto
  then have "[''b'', ''# C''] = body @ below" using s by simp
  then have "body = [''b'']"
    using h \<open>is_heading ''# C''\<close> \<open>\<not> is_heading ''b''\<close>
    by (cases body; cases "tl body") (auto simp: Cons_eq_append_conv)
  then show ?thesis using c by simp
qed

lemma identify_one_exclusive:
  assumes "identify_one types schemas ty b = Inr b'" and "\<not> bv_isType b" and "\<not> bv_isSchema b"
  shows "bv_isType b' \<noteq> bv_isSchema b'"
proof (cases "typeof_object ty")
  case True
  then show ?thesis using assms by (auto simp: identify_one_def as_schema_def)
next
  case False
  obtain n where n: "name_of ty = Inr n" using assms False by (cases "name_of ty") (auto simp: identify_one_def)
  show ?thesis
  proof (cases "types_isNativeType n")
    case True
    then show ?thesis using assms False n by (auto simp: identify_one_def as_type_def)
  next
    case nn: False
    obtain dt ds where d: "findType n types = Inr dt" "findSchema n schemas = Inr ds"
      and b': "(if truthy dt then declared_type types dt b else declared_schema ds n b) = Inr b'"
      using assms(1) False n nn by (auto simp: identify_one_def rbind_eq_Inr simp del: not_None_eq)
    show ?thesis
    proof (cases "truthy dt")
      case True
      then obtain t t0 m where "rbind (if types_isNativeType m then Inr (as_type b)
          else rbind (findType m types) (\<lambda>f. Inr (if truthy f then as_type b else as_schema t0 b))) Inr = Inr b'"
        using b' unfolding declared_type_def by (auto simp: rbind_eq_Inr Let_def)
      then show ?thesis
        using assms(2,3) by (auto simp: rbind_eq_Inr as_type_def as_schema_def split: if_splits)
    next
      case False
      then show ?thesis
        using b' assms(2,3) by (auto simp: declared_schema_def rbind_eq_Inr as_schema_def split: if_splits)
    qed
  qed
qed

text \<open>
  A body of a single type is shown either as a type or as a schema, never as both and never as
  neither.
\<close>

theorem body_type_exclusive:
  assumes "identifyBodyType types schemas body b = Inr b'"
    and "js_or (pget body ''type'') (pget body ''schema'') = JStr n" and "n \<noteq> []"
  shows "bv_isType b' \<noteq> bv_isSchema b'"
proof -
  have "identify_one types schemas (JStr n) (b\<lparr>bv_isType := False, bv_isSchema := False\<rparr>) = Inr b'"
    using assms by (auto simp: identifyBodyType_def Let_def split: sum.splits)
  then show ?thesis by (rule identify_one_exclusive) simp_all
qed

theorem body_type_exclusive_witness:
  "\<exists>b'. identifyBodyType None None [(''type'', JStr ''Pet'')] \<lparr>bv_isType = False, bv_isSchema = False, bv_definition = JUndef\<rparr> = Inr b'
    \<and> bv_isType b' \<noteq> bv_isSchema b'"
proof -
  let ?b = "\<lparr>bv_isType = False, bv_isSchema = False, bv_definition = JUndef\<rparr>"
  have "identifyBodyType None None [(''type'', JStr ''Pet'')] ?b
      = Inr \<lparr>bv_isType = False, bv_isSchema = True, bv_definition = JStr ''Pet''\<rparr>" by code_simp
  moreover have "js_or (pget [(''type'', JStr ''Pet'')] ''type'') (pget [(''type'', JStr ''Pet'')] ''schema'') = JStr ''Pet''"
    by code_simp
  ultimately show ?thesis using body_type_exclusive by blast
qed

text \<open>
  The level of a heading counts every number sign in it: the index of a document drops a heading of
  level one or two whose text has signs of its own.
\<close>

theorem heading_level:
  assumes "\<forall>c\<in>set t. \<not> is_eol c" and "is_ws w"
  shows "getMarkdownHeaders (replicate (Suc n) CHR ''#'' @ w # t)
    = [\<lparr>dh_value = replicate (Suc n) CHR ''#'' @ w # t,
        dh_heading = Suc n + length (filter (\<lambda>c. c = CHR ''#'') t),
        dh_label = trim (w # filter (\<lambda>c. c \<noteq> CHR ''#'') t)\<rparr>]"
proof -
  let ?h = "replicate (Suc n) CHR ''#''"
  have w: "w \<noteq> CHR ''#''" using assms(2) by (auto simp: is_ws_def)
  have "takeWhile (\<lambda>d. d = CHR ''#'') (replicate m CHR ''#'' @ w # t) = replicate m CHR ''#''"
    "dropWhile (\<lambda>d. d = CHR ''#'') (replicate m CHR ''#'' @ w # t) = w # t" for m
    using w by (induction m) simp_all
  note hashes = this [of "Suc n"]
  have "takeWhile (\<lambda>d. \<not> is_eol d) t = t" "dropWhile (\<lambda>d. \<not> is_eol d) t = []"
    using assms(1) by (simp_all add: takeWhile_eq_all_conv dropWhile_eq_Nil_conv)
  moreover from this(2) have "heading_matches False (dropWhile (\<lambda>d. \<not> is_eol d) t) = []" by (simp only: heading_matches.simps)
  ultimately have "heading_matches True (?h @ w # t) = [?h @ w # t]"
    using hashes assms(2) by (simp add: Let_def del: dropWhile_eq_Nil_conv)
  then show ?thesis
    using w by (simp add: getMarkdownHeaders_def doc_header_of_def Let_def filter_replicate)
qed

text \<open>A heading of level two whose text has a number sign is listed at level three, and not in the index.\<close>

theorem heading_level_witness:
  "getMarkdownHeaders ''## C# client'' = [\<lparr>dh_value = ''## C# client'', dh_heading = 3, dh_label = ''C client''\<rparr>]
    \<and> index_headers (getMarkdownHeaders ''## C# client'') = []"
proof -
  have h: "replicate (Suc 1) CHR ''#'' @ CHR '' '' # ''C# client'' = ''## C# client''" by (simp add: numeral_2_eq_2)
  have "\<forall>c\<in>set ''C# client''. \<not> is_eol c" "is_ws CHR '' ''"
    and "Suc 1 + length (filter (\<lambda>c. c = CHR ''#'') ''C# client'') = 3"
    and "trim (CHR '' '' # filter (\<lambda>c. c \<noteq> CHR ''#'') ''C# client'') = ''C client''" by code_simp+
  then have "getMarkdownHeaders ''## C# client'' = [\<lparr>dh_value = ''## C# client'', dh_heading = 3, dh_label = ''C client''\<rparr>]"
    using heading_level [of "''C# client''" "CHR '' ''" 1] h by metis
  then show ?thesis by (simp add: index_headers_def)
qed


inductive_cases root_docs_stepE: "root_docs_step s t"

text \<open>
  Contents are shown exactly while one document is open, and never more than one is.
\<close>

theorem one_document_open:
  assumes "root_docs_step\<^sup>*\<^sup>* \<lparr>rd_active = [], rd_enabled = False, rd_section = key\<rparr> s"
  shows "length (rd_active s) = (if rd_enabled s then 1 else 0)"
  using assms
proof (induction rule: rtranclp_induct)
  case (step s t)
  then show ?case
    by (auto elim!: root_docs_stepE simp: toggleSection_def closeDocumentation_def sectionChange_def Let_def)
qed simp

theorem one_document_open_witness:
  "length (rd_active (toggleSection 2 ''all'' (toggleSection 1 ''all'' \<lparr>rd_active = [], rd_enabled = False, rd_section = []\<rparr>))) = 1"
proof -
  let ?s = "toggleSection 1 ''all'' \<lparr>rd_active = [], rd_enabled = False, rd_section = []\<rparr>"
  have "root_docs_step\<^sup>*\<^sup>* \<lparr>rd_active = [], rd_enabled = False, rd_section = []\<rparr> (toggleSection 2 ''all'' ?s)"
    by (meson ToggleSection rtranclp.intros)
  moreover have "rd_enabled (toggleSection 2 ''all'' ?s)" by code_simp
  ultimately show ?thesis using one_document_open by simp
qed

end
