(* ===== verification/OAuth2.thy ===== *)
theory OAuth2
  imports Auth
begin

text \<open>
  The OAuth 2.0 client of the console (\<open>ClientOAuth2\<close>, its token and its four flows in
  \<open>api-console.js\<close>) and the strategy that drives it (\<open>RAML.Client.AuthStrategies.Oauth2\<close>).

  The pure parts (URIs, tokens, signing, response parsing) are functions. The strategy is a
  state machine: \<open>oauth2_state\<close> holds the requests in flight with the continuation each
  answer is handed to, the options object the strategy mutates and the log of what left the
  console; \<open>oauth2_step\<close> relates the states before and after one task of the event loop.
\<close>

section \<open>Helpers\<close>

definition ERROR_RESPONSES :: "string jsobj" where
  "ERROR_RESPONSES = [
     (''invalid_request'', join '' '' [
        ''The request is missing a required parameter, includes an'',
        ''invalid parameter value, includes a parameter more than'',
        ''once, or is otherwise malformed.'']),
     (''invalid_client'', join '' '' [
        ''Client authentication failed (e.g., unknown client, no'',
        ''client authentication included, or unsupported'',
        ''authentication method).'']),
     (''invalid_grant'', join '' '' [
        ''The provided authorization grant (e.g., authorization'',
        ''code, resource owner credentials) or refresh token is'',
        ''invalid, expired, revoked, does not match the redirection'',
        ''URI used in the authorization request, or was issued to'',
        ''another client.'']),
     (''unauthorized_client'', join '' '' [
        ''The client is not authorized to request an authorization'',
        ''code using this method.'']),
     (''unsupported_grant_type'', join '' '' [
        ''The authorization grant type is not supported by the'',
        ''authorization server.'']),
     (''access_denied'', join '' '' [
        ''The resource owner or authorization server denied the request.'']),
     (''unsupported_response_type'', join '' '' [
        ''The authorization server does not support obtaining'',
        ''an authorization code using this method.'']),
     (''invalid_scope'', join '' '' [
        ''The requested scope is invalid, unknown, or malformed.'']),
     (''server_error'', join '' '' [
        ''The authorization server encountered an unexpected'',
        ''condition that prevented it from fulfilling the request.'',
        ''(This error code is needed because a 500 Internal Server'',
        ''Error HTTP status code cannot be returned to the client'',
        ''via an HTTP redirect.)'']),
     (''temporarily_unavailable'', join '' '' [
        ''The authorization server is currently unable to handle'',
        ''the request due to a temporary overloading or maintenance'',
        ''of the server.''])]"

definition omit :: "jsval \<Rightarrow> string list \<Rightarrow> jsval jsobj" where
  "omit source ks = filter (\<lambda>(k, v). k \<notin> set ks) (obj_entries source)"

text \<open>The error message of an answer; \<open>None\<close> when there is none.\<close>

definition getAuthError :: "jsval \<Rightarrow> string option res" where
  "getAuthError d =
     rbind (jget d ''error'') (\<lambda>e.
     rbind (jget d ''error_message'') (\<lambda>em.
       let known = (case oget ERROR_RESPONSES (to_string e) of None \<Rightarrow> JUndef | Some m \<Rightarrow> JStr m);
           message = js_or (js_or known e) em
       in Inr (if truthy message then Some (to_string message) else None)))"

definition getAllReponseHeaders :: "string \<Rightarrow> string jsobj" where
  "getAllReponseHeaders raw =
     fold (\<lambda>header headers.
        (case index_of '':'' header of
           None \<Rightarrow> headers
         | Some i \<Rightarrow> oset (lower (take i header)) (trim (drop (Suc i) header)) headers))
       (split_on CHR 0x0A raw) []"

definition getBodyRequest :: "payload option \<Rightarrow> content_type \<Rightarrow> payload option res" where
  "getBodyRequest d ct =
     (if ct = Ct (JStr FORM_URLENCODED) then
        (case d of
           Some (Raw v) \<Rightarrow>
             if v = JNull then Inl TypeError
             else if typeof_object v then Inr (Some (Raw (JStr (uri_encode (obj_entries v)))))
             else Inr d
         | Some (FormEntries es) \<Rightarrow> Inr (Some (Raw (JStr [])))
         | None \<Rightarrow> Inr None)
      else Inr d)"

definition join_vals :: "string \<Rightarrow> jsval list \<Rightarrow> string" where
  "join_vals sep vs = join sep (map (\<lambda>v. if nullish v then [] else to_string v) vs)"

definition sanitizeScope :: "jsval \<Rightarrow> jsval" where
  "sanitizeScope scopes =
     (case scopes of
        JArr vs \<Rightarrow> JStr (join_vals '' '' vs)
      | v \<Rightarrow> if nullish v then JNull else JStr (to_string v))"

text \<open>\<open>btoa\<close>: a character above U+00FF throws.\<close>

fun latin1 :: "string \<Rightarrow> string option" where
  "latin1 [] = Some []"
| "latin1 (c # s) =
     (if (of_char c :: nat) < 128 then map_option (\<lambda>t. c # t) (latin1 s)
      else (case s of
          [] \<Rightarrow> None
        | d # r \<Rightarrow> if c = CHR 0xC2 \<or> c = CHR 0xC3
            then map_option (\<lambda>t. char_of (((of_char c :: nat) - 192) * 64 + (of_char d - 128)) # t) (latin1 r)
            else None))"

definition btoa :: "string \<Rightarrow> string res" where
  "btoa s = (case latin1 s of None \<Rightarrow> Inl (Thrown ''InvalidCharacterError'') | Some t \<Rightarrow> Inr (base64 t))"

section \<open>Tokens\<close>

text \<open>What \<open>this.client\<close> of a token is: a flow, or the client itself for \<open>createToken\<close>.\<close>

datatype token_owner = ByFlow | ByClient

record oauth2_token =
  tok_owner :: token_owner
  tok_data :: "jsval jsobj"
  tokenType :: string
  accessToken :: jsval
  refreshToken :: jsval
  tok_expires :: "int option option"

definition trunc_rat :: "rat \<Rightarrow> int" where
  "trunc_rat q = (if 0 \<le> q then \<lfloor>q\<rfloor> else - \<lfloor>- q\<rfloor>)"

text \<open>\<open>n + v\<close> for a number: numeric for primitives but strings, else concatenation.\<close>

definition num_plus :: "int \<Rightarrow> jsval \<Rightarrow> jsval" where
  "num_plus n v =
     (case v of
        JStr s \<Rightarrow> JStr (show_int n @ s)
      | JArr vs \<Rightarrow> JStr (show_int n @ to_string v)
      | JObj ob \<Rightarrow> JStr (show_int n @ to_string v)
      | JDate t shown isos \<Rightarrow> JStr (show_int n @ shown)
      | _ \<Rightarrow> (case to_number v of Fin q \<Rightarrow> JNum (Fin (of_int n + q)) | m \<Rightarrow> JNum m))"

definition get_seconds :: "int \<Rightarrow> int" where
  "get_seconds ms = ms div 1000 mod 60"

text \<open>\<open>setSeconds\<close> on a date made from \<open>ms\<close>; \<open>None\<close> is an invalid date.\<close>

definition set_seconds :: "int \<Rightarrow> jsval \<Rightarrow> int option" where
  "set_seconds ms v =
     (case to_number v of
        Fin q \<Rightarrow> Some (ms - get_seconds ms * 1000 + trunc_rat q * 1000)
      | _ \<Rightarrow> None)"

definition omitted_fields :: "string list" where
  "omitted_fields = [''access_token'', ''refresh_token'', ''token_type'', ''expires_in'', ''scope'',
     ''state'', ''error'', ''error_description'', ''error_uri'']"

definition newToken :: "int \<Rightarrow> token_owner \<Rightarrow> jsval \<Rightarrow> oauth2_token res" where
  "newToken ms own d =
     rbind (jget d ''token_type'') (\<lambda>ty.
     rbind (case js_or ty (JStr ''bearer'') of JStr s \<Rightarrow> Inr (lower s) | _ \<Rightarrow> Inl TypeError) (\<lambda>tt.
     rbind (jget d ''access_token'') (\<lambda>acc.
     rbind (jget d ''refresh_token'') (\<lambda>rt.
     rbind (jget d ''expires_in'') (\<lambda>ex.
       Inr \<lparr>tok_owner = own, tok_data = omit d omitted_fields, tokenType = tt, accessToken = acc,
            refreshToken = rt,
            tok_expires = (if truthy ex then Some (set_seconds ms (num_plus (get_seconds ms) ex)) else None)\<rparr>)))))"

definition createToken :: "int \<Rightarrow> jsval \<Rightarrow> jsval \<Rightarrow> jsval \<Rightarrow> jsval jsobj \<Rightarrow> oauth2_token res" where
  "createToken ms access refresh ty d =
     newToken ms ByClient (JObj (assign (assign [] d)
       [(''access_token'', access), (''refresh_token'', refresh), (''token_type'', ty)]))"

text \<open>\<open>expired\<close>: with an expiry date, whether the clock is still before it.\<close>

definition expired :: "int \<Rightarrow> oauth2_token \<Rightarrow> bool" where
  "expired ms tk =
     (case tok_expires tk of
        Some (Some t) \<Rightarrow> ms < t
      | Some None \<Rightarrow> False
      | None \<Rightarrow> False)"

text \<open>\<open>url.replace(/[?&]access_token=[^&#]/, '')\<close>.\<close>

fun drop_access_token :: "string \<Rightarrow> string" where
  "drop_access_token [] = []"
| "drop_access_token (c # s) =
     (if (c = CHR ''?'' \<or> c = CHR ''&'') \<and> prefix ''access_token='' s
         \<and> (case drop 13 s of [] \<Rightarrow> False | d # _ \<Rightarrow> d \<noteq> CHR ''&'' \<and> d \<noteq> CHR ''#'')
      then drop 14 s
      else c # drop_access_token s)"

definition ohdrs :: "ajax_options \<Rightarrow> jsval jsobj" where
  "ohdrs o1 = (case ajax_headers o1 of None \<Rightarrow> [] | Some h \<Rightarrow> h)"

definition token_sign :: "oauth2_token \<Rightarrow> ajax_options \<Rightarrow> ajax_options res" where
  "token_sign tk o1 =
     (if \<not> truthy (accessToken tk) then Inl (Thrown ''Unable to sign without access token'')
      else let h = ohdrs o1 in
        if tokenType tk = ''bearer'' then
          Inr (o1\<lparr>ajax_headers := Some (oset ''Authorization'' (JStr (''Bearer '' @ to_string (accessToken tk))) h)\<rparr>)
        else
          (let parts = split_on CHR ''#'' (ajax_url o1);
               tokn = ''access_token='' @ to_string (accessToken tk);
               url = drop_access_token (hd parts);
               fragment = (case tl parts of [] \<Rightarrow> [] | f # _ \<Rightarrow> if f = [] then [] else ''#'' @ f)
           in Inr (o1\<lparr>ajax_url := url @ (if CHR ''?'' \<in> set url then ''&'' else ''?'') @ tokn @ fragment,
                      ajax_headers := Some (oset ''Cache-Control'' (JStr ''no-store'')
                        (oset ''Pragma'' (JStr ''no-store'') h))\<rparr>)))"

section \<open>Requests\<close>

record http_call =
  call_method :: string
  call_url :: string
  call_headers :: "jsval jsobj"
  call_body :: "payload option"

datatype http_reply =
    Reply nat string string
  | HttpFail string

record response =
  res_raw :: http_reply
  res_status :: nat
  res_headers :: "string jsobj"
  res_body :: string

text \<open>\<open>request\<close>: the call that is sent; and what its completion hands to the callback.\<close>

definition xhr_call :: "ajax_options \<Rightarrow> http_call res" where
  "xhr_call o1 =
     rbind (getBodyRequest (ajax_data o1) (ajax_contentType o1)) (\<lambda>body.
       Inr \<lparr>call_method = ajax_method o1, call_url = ajax_url o1, call_headers = entries (ohdrs o1), call_body = body\<rparr>)"

fun xhr_result :: "http_reply \<Rightarrow> string + response" where
  "xhr_result (Reply st hs body) =
     Inr \<lparr>res_raw = Reply st hs body, res_status = st, res_headers = getAllReponseHeaders hs, res_body = body\<rparr>"
| "xhr_result (HttpFail statusText) = Inl (if statusText = [] then ''XHR aborted'' else statusText)"

definition form_headers :: "jsval jsobj" where
  "form_headers = [(''Accept'', JStr ''application/json, application/x-www-form-urlencoded''),
     (''Content-Type'', JStr ''application/x-www-form-urlencoded'')]"

text \<open>The POST of a flow to the access-token endpoint, whose body is already a string.\<close>

definition token_post :: "jsval jsobj \<Rightarrow> jsval jsobj \<Rightarrow> jsval jsobj \<Rightarrow> http_call" where
  "token_post op hs form =
     \<lparr>call_method = ''POST'', call_url = to_string (pget op ''accessTokenUri''), call_headers = hs,
      call_body = Some (Raw (JStr (uri_encode form)))\<rparr>"

definition client_secret_header :: "jsval jsobj \<Rightarrow> jsval jsobj res" where
  "client_secret_header op =
     rbind (btoa (to_string (pget op ''clientId'') @ '':'' @ to_string (pget op ''clientSecret''))) (\<lambda>b.
       Inr (form_headers @ [(''Authorization'', JStr (''Basic '' @ b))]))"

text \<open>The outcome a \<open>_request\<close> callback is called with: an error, or data and the raw answer.\<close>

datatype outcome = Failure string | Data jsval http_reply

text \<open>
  \<open>_request\<close>: the callback runs inside the \<open>try\<close> of the JSON parser, so when it throws it is
  called again with the body read as a query string. \<open>h\<close> is the callback on a state.
\<close>

definition client_request_done :: "(outcome \<Rightarrow> 's \<Rightarrow> js_exn option \<times> 's) \<Rightarrow> http_reply \<Rightarrow> 's \<Rightarrow> js_exn option \<times> 's" where
  "client_request_done h reply s =
     (case xhr_result reply of
        Inl e \<Rightarrow> h (Failure e) s
      | Inr r \<Rightarrow>
          if res_status r \<noteq> 0 \<and> res_status r div 100 \<noteq> 2
          then h (Failure (''HTTP Status '' @ show_nat (res_status r))) s
          else
            (let retry = (\<lambda>t. case uri_decode (res_body r) of
                 Inl e \<Rightarrow> (Some e, t)
               | Inr ob \<Rightarrow> h (Data (JObj ob) reply) t)
             in case json_parse (res_body r) of
                  Inl e \<Rightarrow> retry s
                | Inr v \<Rightarrow> (case h (Data v reply) s of
                      (None, t) \<Rightarrow> (None, t)
                    | (Some e, t) \<Rightarrow> retry t)))"

section \<open>The four flows\<close>

text \<open>\<open>getUri\<close> of the implicit (\<open>token\<close>) and the authorization-code (\<open>code\<close>) flow.\<close>

definition flow_getUri :: "string \<Rightarrow> jsval jsobj \<Rightarrow> jsval jsobj \<Rightarrow> string" where
  "flow_getUri response_type client_options override =
     (let op = assign (assign [] client_options) override
      in to_string (pget op ''authorizationUri'') @ ''?'' @ uri_encode
           [(''state'', pget op ''state''), (''scope'', sanitizeScope (pget op ''scopes'')),
            (''client_id'', pget op ''clientId''), (''redirect_uri'', pget op ''redirectUri''),
            (''response_type'', JStr response_type)])"

text \<open>The text from a \<open>#\<close> to the end, if no line ends in between, is the fragment.\<close>

fun cut_fragment :: "string \<Rightarrow> string" where
  "cut_fragment [] = []"
| "cut_fragment (c # s) =
     (if c = CHR ''#'' \<and> CHR 0x0A \<notin> set s \<and> CHR 0x0D \<notin> set s then [] else c # cut_fragment s)"

definition query_of :: "string \<Rightarrow> string" where
  "query_of url = drop 1 (cut_fragment (dropWhile (\<lambda>c. c \<noteq> CHR ''?'') url))"

definition fragment_of :: "string \<Rightarrow> string" where
  "fragment_of url = drop 1 (dropWhile (\<lambda>c. c \<noteq> CHR ''#'') url)"

text \<open>\<open>url.substr(0, redirectUri.length) === redirectUri\<close>.\<close>

definition redirect_matches :: "jsval jsobj \<Rightarrow> string \<Rightarrow> bool res" where
  "redirect_matches op url =
     (case pget op ''redirectUri'' of
        JStr r \<Rightarrow> Inr (prefix r url)
      | v \<Rightarrow> if nullish v then Inl TypeError else Inr False)"

definition decode_or_empty :: "string \<Rightarrow> jsval jsobj res" where
  "decode_or_empty s = (if s = [] then Inr [] else uri_decode s)"

definition state_mismatch :: "string option \<Rightarrow> jsval \<Rightarrow> bool" where
  "state_mismatch st v = (case st of None \<Rightarrow> False | Some x \<Rightarrow> x \<noteq> [] \<and> v \<noteq> JStr x)"

text \<open>\<open>TokenFlow.getToken\<close>: an exception, or what the callback gets: a message or the token.\<close>

definition token_flow_getToken ::
  "int \<Rightarrow> jsval jsobj \<Rightarrow> string \<Rightarrow> string option \<Rightarrow> (string + oauth2_token) res" where
  "token_flow_getToken ms op url st =
     rbind (redirect_matches op url) (\<lambda>ok.
       if \<not> ok then Inr (Inl (''Invalid url (should to match redirect): '' @ url))
       else if query_of url = [] \<and> fragment_of url = [] then Inr (Inl (''Unable to process url: '' @ url))
       else
         rbind (decode_or_empty (query_of url)) (\<lambda>q.
         rbind (decode_or_empty (fragment_of url)) (\<lambda>f.
           let d = assign q f
           in rbind (getAuthError (JObj d)) (\<lambda>err.
                case err of
                  Some m \<Rightarrow> Inr (Inl m)
                | None \<Rightarrow>
                    if state_mismatch st (pget d ''state'')
                    then Inr (Inl (''Invalid state:'' @ to_string (pget d ''state'')))
                    else rbind (newToken ms ByFlow (JObj d)) (\<lambda>tk. Inr (Inr tk))))))"

text \<open>\<open>CodeFlow.getToken\<close> up to its request: a message, or the POST that exchanges the code.\<close>

definition code_flow_exchange ::
  "jsval jsobj \<Rightarrow> string \<Rightarrow> string option \<Rightarrow> (string + http_call) res" where
  "code_flow_exchange op url st =
     rbind (redirect_matches op url) (\<lambda>ok.
       if \<not> ok then Inr (Inl (''Invalid url (should to match redirect): '' @ url))
       else if query_of url = [] then Inr (Inl (''Unable to process url: '' @ url))
       else
         rbind (uri_decode (query_of url)) (\<lambda>q.
         rbind (getAuthError (JObj q)) (\<lambda>err.
           case err of
             Some m \<Rightarrow> Inr (Inl m)
           | None \<Rightarrow>
               if state_mismatch st (pget q ''state'')
               then Inr (Inl (''Invalid state:'' @ to_string (pget q ''state'')))
               else if \<not> truthy (pget q ''code'') then Inr (Inl ''Missing code, unable to request token'')
               else Inr (Inr (token_post op form_headers
                 [(''code'', pget q ''code''), (''grant_type'', JStr ''authorization_code''),
                  (''redirect_uri'', pget op ''redirectUri''), (''client_id'', pget op ''clientId''),
                  (''client_secret'', pget op ''clientSecret'')])))))"

definition owner_flow_post :: "jsval jsobj \<Rightarrow> jsval \<Rightarrow> jsval \<Rightarrow> http_call res" where
  "owner_flow_post op user pass =
     rbind (client_secret_header op) (\<lambda>hs.
       Inr (token_post op hs
         [(''scope'', sanitizeScope (pget op ''scopes'')), (''username'', user), (''password'', pass),
          (''grant_type'', JStr ''password'')]))"

definition credentials_flow_post :: "jsval jsobj \<Rightarrow> jsval jsobj \<Rightarrow> http_call res" where
  "credentials_flow_post client_options override =
     (let op = assign (assign [] client_options) override
      in rbind (client_secret_header op) (\<lambda>hs.
           Inr (token_post op hs
             [(''scope'', sanitizeScope (pget op ''scopes'')), (''grant_type'', JStr ''client_credentials'')])))"

text \<open>
  \<open>refresh\<close>: the options are those of \<open>this.client\<close>, which a token made by a flow does not
  have; a message, or the POST. \<open>refresh_done\<close> is its callback on the token.
\<close>

definition refresh_post :: "jsval jsobj \<Rightarrow> oauth2_token \<Rightarrow> (string + http_call) res" where
  "refresh_post client_options tk =
     (if \<not> truthy (refreshToken tk) then Inr (Inl ''No refresh token set'')
      else case tok_owner tk of
        ByFlow \<Rightarrow> Inl TypeError
      | ByClient \<Rightarrow>
          rbind (client_secret_header client_options) (\<lambda>hs.
            Inr (Inr (token_post client_options hs
              [(''refresh_token'', refreshToken tk), (''grant_type'', JStr ''refresh_token'')]))))"

definition refresh_done :: "outcome \<Rightarrow> oauth2_token \<Rightarrow> (string + oauth2_token) res" where
  "refresh_done oc tk =
     (case oc of
        Failure e \<Rightarrow> Inr (Inl e)
      | Data d raw \<Rightarrow>
          rbind (getAuthError d) (\<lambda>err.
            case err of
              Some m \<Rightarrow> Inr (Inl m)
            | None \<Rightarrow>
                rbind (jget d ''access_token'') (\<lambda>acc.
                rbind (jget d ''refresh_token'') (\<lambda>rt.
                  Inr (Inr (tk\<lparr>accessToken := acc, refreshToken := rt\<rparr>))))))"

section \<open>The strategy\<close>

datatype oauth2_event =
    Sent http_call
  | Opened string
  | Done "http_reply option" "string option"
  | Uncaught js_exn

text \<open>Who an answer in flight is handed to.\<close>

datatype continuation =
    CodeExchange
  | FlowToken
  | UserRequest

record oauth2_state =
  in_flight :: "continuation list"
  req_options :: ajax_options
  callback_armed :: bool
  elog :: "oauth2_event list"

record oauth2_config =
  cfg_options :: "jsval jsobj"
  cfg_grant :: string
  cfg_username :: jsval
  cfg_password :: jsval

definition getScopes :: "jsval jsobj \<Rightarrow> jsval list" where
  "getScopes scopes = map (\<lambda>(k, v). JStr k) (filter (\<lambda>(k, v). v = JBool True) (entries scopes))"

text \<open>The client the strategy creates, from the scheme, the credentials and the settings.\<close>

definition oauth2_client :: "jsval jsobj \<Rightarrow> jsval jsobj \<Rightarrow> string \<Rightarrow> oauth2_config" where
  "oauth2_client scheme_settings credentials redirect =
     \<lparr>cfg_options = [(''clientId'', pget credentials ''clientId''), (''clientSecret'', pget credentials ''clientSecret''),
        (''accessTokenUri'', pget scheme_settings ''accessTokenUri''),
        (''authorizationUri'', pget scheme_settings ''authorizationUri''),
        (''redirectUri'', JStr redirect),
        (''scopes'', JArr (case pget credentials ''scopes'' of JObj sc \<Rightarrow> getScopes sc | _ \<Rightarrow> []))],
      cfg_grant = to_string (pget credentials ''grant''),
      cfg_username = pget credentials ''username'', cfg_password = pget credentials ''password''\<rparr>"

definition emit :: "oauth2_event \<Rightarrow> oauth2_state \<Rightarrow> oauth2_state" where
  "emit ev s = s\<lparr>elog := elog s @ [ev]\<rparr>"

definition send :: "http_call \<Rightarrow> continuation \<Rightarrow> oauth2_state \<Rightarrow> oauth2_state" where
  "send c k s = (emit (Sent c) s)\<lparr>in_flight := in_flight s @ [k]\<rparr>"

text \<open>\<open>user.request(options, ...)\<close>: signing changes the options object itself.\<close>

definition user_request :: "oauth2_token \<Rightarrow> oauth2_state \<Rightarrow> js_exn option \<times> oauth2_state" where
  "user_request tk s =
     (case tok_owner tk of
        ByClient \<Rightarrow> (Some TypeError, s)
      | ByFlow \<Rightarrow>
          (case token_sign tk (req_options s) of
             Inl e \<Rightarrow> (Some e, s)
           | Inr o1 \<Rightarrow>
               (case xhr_call o1 of
                  Inl e \<Rightarrow> (Some e, s\<lparr>req_options := o1\<rparr>)
                | Inr c \<Rightarrow> (None, send c UserRequest (s\<lparr>req_options := o1\<rparr>)))))"

text \<open>The callback the strategy gives to \<open>getToken\<close>.\<close>

definition after_token :: "string + oauth2_token \<Rightarrow> http_reply option \<Rightarrow> oauth2_state \<Rightarrow> js_exn option \<times> oauth2_state" where
  "after_token result raw s =
     (case result of
        Inl err \<Rightarrow> (None, emit (Done raw (Some err)) s)
      | Inr tk \<Rightarrow> if truthy (accessToken tk) then user_request tk s else (None, s))"

text \<open>The callbacks given to \<open>_request\<close>; only the code flow hands on the raw answer.\<close>

definition token_answer :: "int \<Rightarrow> bool \<Rightarrow> outcome \<Rightarrow> oauth2_state \<Rightarrow> js_exn option \<times> oauth2_state" where
  "token_answer ms with_raw oc s =
     (case oc of
        Failure e \<Rightarrow> after_token (Inl e) None s
      | Data d reply \<Rightarrow>
          let raw = (if with_raw then Some reply else None)
          in case getAuthError d of
               Inl e \<Rightarrow> (Some e, s)
             | Inr (Some m) \<Rightarrow> after_token (Inl m) raw s
             | Inr None \<Rightarrow>
                 (case newToken ms ByFlow d of
                    Inl e \<Rightarrow> (Some e, s)
                  | Inr tk \<Rightarrow> after_token (Inr tk) raw s))"

definition user_answer :: "http_reply \<Rightarrow> oauth2_state \<Rightarrow> js_exn option \<times> oauth2_state" where
  "user_answer reply s =
     (case xhr_result reply of
        Inl e \<Rightarrow> (Some TypeError, s)
      | Inr r \<Rightarrow> (None, emit (Done (Some (res_raw r)) None) s))"

fun resume :: "int \<Rightarrow> continuation \<Rightarrow> http_reply \<Rightarrow> oauth2_state \<Rightarrow> js_exn option \<times> oauth2_state" where
  "resume ms CodeExchange reply s = client_request_done (token_answer ms True) reply s"
| "resume ms FlowToken reply s = client_request_done (token_answer ms False) reply s"
| "resume ms UserRequest reply s = user_answer reply s"

definition popup_grant :: "string \<Rightarrow> bool" where
  "popup_grant g = (g \<in> {''token'', ''code'', ''authorization_code'', ''implicit''})"

definition implicit_grant :: "string \<Rightarrow> bool" where
  "implicit_grant g = (g = ''token'' \<or> g = ''implicit'')"

text \<open>\<open>authenticate\<close>, and \<open>window.oauth2Callback\<close> when the redirect page calls it.\<close>

definition send_or_throw :: "http_call res \<Rightarrow> continuation \<Rightarrow> oauth2_state \<Rightarrow> js_exn option \<times> oauth2_state" where
  "send_or_throw c k s = (case c of Inl e \<Rightarrow> (Some e, s) | Inr x \<Rightarrow> (None, send x k s))"

definition oauth2_authenticate :: "oauth2_config \<Rightarrow> oauth2_state \<Rightarrow> js_exn option \<times> oauth2_state" where
  "oauth2_authenticate cfg s =
     (let g = cfg_grant cfg; op = cfg_options cfg
      in if popup_grant g then
           (None, emit (Opened (flow_getUri (if implicit_grant g then ''token'' else ''code'') op []))
              (s\<lparr>callback_armed := True\<rparr>))
         else if g = ''owner'' \<or> g = ''password'' then
           send_or_throw (owner_flow_post op (cfg_username cfg) (cfg_password cfg)) FlowToken s
         else if g = ''credentials'' \<or> g = ''client_credentials'' then
           send_or_throw (credentials_flow_post op []) FlowToken s
         else (None, s))"

definition oauth2_callback :: "int \<Rightarrow> oauth2_config \<Rightarrow> string \<Rightarrow> oauth2_state \<Rightarrow> js_exn option \<times> oauth2_state" where
  "oauth2_callback ms cfg uri s =
     (if implicit_grant (cfg_grant cfg) then
        (case token_flow_getToken ms (cfg_options cfg) uri None of
           Inl e \<Rightarrow> (Some e, s)
         | Inr result \<Rightarrow> after_token result None s)
      else
        (case code_flow_exchange (cfg_options cfg) uri None of
           Inl e \<Rightarrow> (Some e, s)
         | Inr (Inl m) \<Rightarrow> after_token (Inl m) None s
         | Inr (Inr c) \<Rightarrow> (None, send c CodeExchange s)))"

text \<open>One task of the event loop; what it throws is reported and ends the task.\<close>

definition task_end :: "js_exn option \<times> oauth2_state \<Rightarrow> oauth2_state" where
  "task_end r = (case r of (None, s) \<Rightarrow> s | (Some e, s) \<Rightarrow> emit (Uncaught e) s)"

definition oauth2_init :: "ajax_options \<Rightarrow> oauth2_state" where
  "oauth2_init o1 = \<lparr>in_flight = [], req_options = o1, callback_armed = False, elog = []\<rparr>"

text \<open>The states of one run of \<open>authenticate\<close>, under any clock, any answers and any redirects.\<close>

inductive oauth2_reach :: "oauth2_config \<Rightarrow> ajax_options \<Rightarrow> oauth2_state \<Rightarrow> bool"
  for cfg :: oauth2_config and o1 :: ajax_options
where
  Start: "oauth2_reach cfg o1 (task_end (oauth2_authenticate cfg (oauth2_init o1)))"
| Callback: "oauth2_reach cfg o1 s \<Longrightarrow> callback_armed s \<Longrightarrow>
    oauth2_reach cfg o1 (task_end (oauth2_callback ms cfg uri s))"
| Answer: "oauth2_reach cfg o1 s \<Longrightarrow> in_flight s = ks1 @ k # ks2 \<Longrightarrow>
    oauth2_reach cfg o1 (task_end (resume ms k reply (s\<lparr>in_flight := ks1 @ ks2\<rparr>)))"

section \<open>One effect per task\<close>

text \<open>
  The contract of a \<open>_request\<close> callback: it logs at most one event, of which \<open>good\<close> holds, and
  none if it throws. Being called a second time after a throw then does no harm.
\<close>

locale answer_handler =
  fixes h :: "outcome \<Rightarrow> oauth2_state \<Rightarrow> js_exn option \<times> oauth2_state"
    and good :: "oauth2_event \<Rightarrow> bool"
  assumes throws_clean: "h oc s = (Some e, t) \<Longrightarrow> elog t = elog s"
    and one_event: "h oc s = (None, t) \<Longrightarrow> elog t = elog s \<or> (\<exists>ev. good ev \<and> elog t = elog s @ [ev])"
begin

lemma request_done_throws:
  "client_request_done h reply s = (Some e, t) \<Longrightarrow> elog t = elog s"
  using throws_clean
  by (auto simp: client_request_done_def Let_def split: sum.splits if_splits prod.splits option.splits)

lemma request_done_one:
  assumes "client_request_done h reply s = (None, t)"
  shows "elog t = elog s \<or> (\<exists>ev. good ev \<and> elog t = elog s @ [ev])"
proof -
  have retry: "elog u = elog s \<Longrightarrow> h oc u = (None, t) \<Longrightarrow> elog t = elog s \<or> (\<exists>ev. good ev \<and> elog t = elog s @ [ev])" for oc u
    using one_event [of oc u t] by simp
  from assms show ?thesis
    using one_event [of _ s t] retry throws_clean
    by (fastforce simp: client_request_done_def Let_def split: sum.splits if_splits prod.splits option.splits)
qed

end

text \<open>A call that carries a usable token of the user.\<close>

definition signed_call :: "http_call \<Rightarrow> bool" where
  "signed_call c = (\<exists>tk o1 o2. truthy (accessToken tk) \<and> token_sign tk o1 = Inr o2 \<and> xhr_call o2 = Inr c)"

fun user_event :: "oauth2_event \<Rightarrow> bool" where
  "user_event (Sent c) = signed_call c"
| "user_event (Done raw err) = True"
| "user_event _ = False"

lemma user_request_effect:
  "user_request tk s = (r, t) \<Longrightarrow> truthy (accessToken tk) \<Longrightarrow>
   (case r of Some e \<Rightarrow> elog t = elog s | None \<Rightarrow> \<exists>ev. user_event ev \<and> elog t = elog s @ [ev])"
  by (fastforce simp: user_request_def send_def emit_def signed_call_def
      split: token_owner.splits sum.splits option.splits)

lemma after_token_effect:
  "after_token result raw s = (r, t) \<Longrightarrow>
   (case r of Some e \<Rightarrow> elog t = elog s
    | None \<Rightarrow> elog t = elog s \<or> (\<exists>ev. user_event ev \<and> elog t = elog s @ [ev]))"
  using user_request_effect
  by (fastforce simp: after_token_def emit_def split: sum.splits if_splits option.splits)

lemma token_answer_effect:
  "token_answer ms b oc s = (r, t) \<Longrightarrow>
   (case r of Some e \<Rightarrow> elog t = elog s
    | None \<Rightarrow> elog t = elog s \<or> (\<exists>ev. user_event ev \<and> elog t = elog s @ [ev]))"
  by (auto simp: token_answer_def Let_def split: outcome.splits sum.splits option.splits
      dest!: after_token_effect)

interpretation token_handler: answer_handler "token_answer ms b" user_event for ms b
  using token_answer_effect by unfold_locales (fastforce+)

lemma resume_effect:
  "resume ms k reply s = (r, t) \<Longrightarrow>
   (case r of Some e \<Rightarrow> elog t = elog s
    | None \<Rightarrow> elog t = elog s \<or> (\<exists>ev. user_event ev \<and> elog t = elog s @ [ev]))"
  using token_handler.request_done_throws token_handler.request_done_one
  by (cases k; cases r)
     (fastforce simp: user_answer_def emit_def split: sum.splits)+

text \<open>
  An answer makes the strategy do at most one thing: report to the console, send the
  user's request, or fail; although the callback of a token request is called a second time when
  it throws inside the JSON parser's \<open>try\<close>, nothing is reported or sent twice.
\<close>

theorem answer_one_effect:
  "length (elog (task_end (resume ms k reply s))) \<le> Suc (length (elog s))"
proof -
  obtain r t where rt: "resume ms k reply s = (r, t)" by fastforce
  show ?thesis
    using resume_effect [OF rt] rt by (auto simp: task_end_def emit_def split: option.splits)
qed

section \<open>What leaves the console\<close>

text \<open>A POST to the access-token endpoint, or the user's own request with a token.\<close>

definition token_endpoint_call :: "oauth2_config \<Rightarrow> http_call \<Rightarrow> bool" where
  "token_endpoint_call cfg c =
     (call_method c = ''POST'' \<and> call_url c = to_string (pget (cfg_options cfg) ''accessTokenUri''))"

definition event_ok :: "oauth2_config \<Rightarrow> oauth2_event \<Rightarrow> bool" where
  "event_ok cfg ev = (case ev of
       Sent c \<Rightarrow> token_endpoint_call cfg c \<or> signed_call c
     | Opened u \<Rightarrow> popup_grant (cfg_grant cfg)
         \<and> prefix (to_string (pget (cfg_options cfg) ''authorizationUri'') @ ''?'') u
     | _ \<Rightarrow> True)"

lemma user_event_ok: "user_event ev \<Longrightarrow> event_ok cfg ev"
  by (cases ev) (auto simp: event_ok_def)

lemma pget_options [simp]:
  "wf_obj op \<Longrightarrow> pget (assign (assign [] op) []) k = pget op k"
  by (simp add: pget_assign) (simp add: pget_def split: option.splits)

lemma authenticate_ok:
  assumes "wf_obj (cfg_options cfg)" and "ev \<in> set (elog (task_end (oauth2_authenticate cfg (oauth2_init o1))))"
  shows "event_ok cfg ev"
  using assms
  by (auto simp: oauth2_authenticate_def Let_def oauth2_init_def task_end_def emit_def send_def send_or_throw_def
      event_ok_def flow_getUri_def owner_flow_post_def credentials_flow_post_def rbind_eq_Inr
      token_endpoint_call_def token_post_def split: if_splits sum.splits option.splits)

lemma code_exchange_post: "code_flow_exchange op url st = Inr (Inr c) \<Longrightarrow>
    call_method c = ''POST'' \<and> call_url c = to_string (pget op ''accessTokenUri'')"
  by (auto simp: code_flow_exchange_def rbind_eq_Inr token_post_def split: if_splits option.splits)

lemma callback_ok:
  "oauth2_callback ms cfg uri s = (r, t) \<Longrightarrow>
   (case r of Some e \<Rightarrow> elog t = elog s
    | None \<Rightarrow> elog t = elog s \<or> (\<exists>ev. event_ok cfg ev \<and> elog t = elog s @ [ev]))"
  using user_event_ok
  by (fastforce simp: oauth2_callback_def send_def emit_def event_ok_def token_endpoint_call_def
      split: if_splits sum.splits option.splits dest: after_token_effect code_exchange_post)

lemma task_end_log: "set (elog (task_end (r, t))) \<subseteq> set (elog t) \<union> {ev. \<exists>e. ev = Uncaught e}"
  by (auto simp: task_end_def emit_def split: option.splits)


definition sample_config :: oauth2_config where
  "sample_config = \<lparr>cfg_options = [(''clientId'', JStr ''id''), (''authorizationUri'', JStr ''http://a''),
      (''accessTokenUri'', JStr ''http://t''), (''redirectUri'', JStr ''http://c'')],
    cfg_grant = ''token'', cfg_username = JUndef, cfg_password = JUndef\<rparr>"

definition sample_options :: ajax_options where
  "sample_options = \<lparr>ajax_url = ''http://h/p'', ajax_method = ''get'', ajax_headers = None, ajax_contentType = CtUnset,
     ajax_traditional = True, ajax_processData = None, ajax_data = None, ajax_baseUrl = ''http://h/p''\<rparr>"


text \<open>
  C4. A redirect leads to a code exchange only if its address starts with the redirect URI, its
  query decodes, names no error, has a code, and repeats the state when one was given; the
  exchange posts exactly that code to the access-token endpoint.
\<close>

theorem code_exchange_sound:
  assumes "code_flow_exchange op url st = Inr (Inr c)"
  shows "\<exists>r q. pget op ''redirectUri'' = JStr r \<and> prefix r url \<and> uri_decode (query_of url) = Inr q
    \<and> \<not> truthy (pget q ''error'') \<and> truthy (pget q ''code'')
    \<and> (\<forall>x. st = Some x \<and> x \<noteq> [] \<longrightarrow> pget q ''state'' = JStr x)
    \<and> call_url c = to_string (pget op ''accessTokenUri'')
    \<and> call_body c = Some (Raw (JStr (uri_encode [(''code'', pget q ''code''),
         (''grant_type'', JStr ''authorization_code''), (''redirect_uri'', JStr r),
         (''client_id'', pget op ''clientId''), (''client_secret'', pget op ''clientSecret'')])))"
proof -
  from assms obtain ok where ok: "redirect_matches op url = Inr ok" "ok"
    by (auto simp: code_flow_exchange_def rbind_eq_Inr split: if_splits)
  then obtain r where r: "pget op ''redirectUri'' = JStr r" "prefix r url"
    by (auto simp: redirect_matches_def split: jsval.splits if_splits)
  from assms ok obtain q where q: "uri_decode (query_of url) = Inr q" and e: "getAuthError (JObj q) = Inr None"
    and rest: "\<not> state_mismatch st (pget q ''state'')" "truthy (pget q ''code'')"
    and c: "c = token_post op form_headers [(''code'', pget q ''code''), (''grant_type'', JStr ''authorization_code''),
                  (''redirect_uri'', pget op ''redirectUri''), (''client_id'', pget op ''clientId''),
                  (''client_secret'', pget op ''clientSecret'')]"
    by (auto simp: code_flow_exchange_def rbind_eq_Inr split: if_splits option.splits)
  have "\<not> truthy (pget q ''error'')"
    using e by (auto simp: getAuthError_def Let_def js_or_def split: if_splits option.splits)
  then show ?thesis
    using r q rest c by (auto simp: state_mismatch_def token_post_def)
qed

definition sample_code_uri :: string where
  "sample_code_uri = ''http://c?state=s1&code=k%2F1''"

theorem code_exchange_sound_witness:
  "\<exists>c q. code_flow_exchange (cfg_options sample_config) sample_code_uri (Some ''s1'') = Inr (Inr c)
    \<and> uri_decode (query_of sample_code_uri) = Inr q \<and> pget q ''state'' = JStr ''s1''
    \<and> call_url c = ''http://t''"
proof -
  have "(case code_flow_exchange (cfg_options sample_config) sample_code_uri (Some ''s1'') of
      Inr (Inr c) \<Rightarrow> True | _ \<Rightarrow> False)"
    by code_simp
  then obtain c where c: "code_flow_exchange (cfg_options sample_config) sample_code_uri (Some ''s1'') = Inr (Inr c)"
    by (auto split: sum.splits)
  have u: "to_string (pget (cfg_options sample_config) ''accessTokenUri'') = ''http://t''"
    by code_simp
  from code_exchange_sound [OF c] obtain q where "uri_decode (query_of sample_code_uri) = Inr q"
    "pget q ''state'' = JStr ''s1''" "call_url c = ''http://t''"
    using u by auto
  then show ?thesis using c by blast
qed

section \<open>Tokens\<close>

lemma get_seconds_split: "0 \<le> ms \<Longrightarrow> ms - get_seconds ms * 1000 + (get_seconds ms + n) * 1000 = ms + n * 1000"
  by (simp add: algebra_simps)

lemma trunc_rat_of_int [simp]: "trunc_rat (of_int i) = i"
  by (simp add: trunc_rat_def floor_minus)

lemma newToken_expires:
  "newToken ms own (JObj d) = Inr tk \<Longrightarrow>
   tok_expires tk = (if truthy (pget d ''expires_in'')
     then Some (set_seconds ms (num_plus (get_seconds ms) (pget d ''expires_in''))) else None)"
  by (auto simp: newToken_def rbind_eq_Inr)

text \<open>
  A token whose lifetime is the number \<open>n\<close> of seconds expires \<open>n\<close> seconds after it was made,
  and \<open>expired\<close> answers true exactly as long as it has \<^emph>\<open>not\<close> expired.
\<close>

theorem expired_inverted:
  assumes "newToken ms own (JObj d) = Inr tk" and "pget d ''expires_in'' = JNum (Fin (of_int n))" and "n \<noteq> 0"
  shows "expired later tk = (later < ms + n * 1000)"
proof -
  have plus: "num_plus (get_seconds ms) (JNum (Fin (of_int n))) = JNum (Fin (of_int (get_seconds ms + n)))"
    by (simp add: num_plus_def)
  have "tok_expires tk = Some (Some (ms + n * 1000))"
    using newToken_expires [OF assms(1)] assms(2,3)
    by (simp only: assms(2) plus) (simp add: set_seconds_def algebra_simps del: of_int_add)
  then show ?thesis by (simp add: expired_def)
qed

theorem expired_inverted_witness:
  "\<exists>tk. newToken 1000 ByFlow (JObj [(''access_token'', JStr ''x''), (''expires_in'', JNum (Fin (of_int 60)))]) = Inr tk
     \<and> expired 1000 tk = (1000 < (1000 :: int) + 60 * 1000)"
proof -
  have "(case newToken 1000 ByFlow (JObj [(''access_token'', JStr ''x''), (''expires_in'', JNum (Fin (of_int 60)))]) of
      Inr tk \<Rightarrow> True | Inl e \<Rightarrow> False)"
    by code_simp
  then obtain tk where tk: "newToken 1000 ByFlow (JObj [(''access_token'', JStr ''x''), (''expires_in'', JNum (Fin (of_int 60)))]) = Inr tk"
    by (auto split: sum.splits)
  moreover have "expired 1000 tk = (1000 < (1000 :: int) + 60 * 1000)"
    by (rule expired_inverted [OF tk]) (simp_all add: pget_def oget_def)
  ultimately show ?thesis by blast
qed

lemma drop_access_token_none: "CHR ''?'' \<notin> set u \<Longrightarrow> CHR ''&'' \<notin> set u \<Longrightarrow> drop_access_token u = u"
  by (induction u) auto

lemma drop_access_token_one:
  assumes "CHR ''?'' \<notin> set u" and "CHR ''&'' \<notin> set u" and "x \<noteq> CHR ''&''" and "x \<noteq> CHR ''#''"
  shows "drop_access_token (u @ ''?access_token='' @ x # t) = u @ t"
  using assms by (induction u) auto

lemma token_sign_query:
  assumes "token_sign tk o1 = Inr o2" and "tokenType tk \<noteq> ''bearer''" and "CHR ''#'' \<notin> set (ajax_url o1)"
  shows "ajax_url o2 = drop_access_token (ajax_url o1)
    @ (if CHR ''?'' \<in> set (drop_access_token (ajax_url o1)) then ''&'' else ''?'')
    @ ''access_token='' @ to_string (accessToken tk)"
  using assms by (auto simp: token_sign_def Let_def split_on_no_sep split: if_splits)

text \<open>
  Signing the same options a second time with a token that goes into the query does not
  replace it: the pattern removes only the first character of the old token, and the rest of it
  stays glued to the path.
\<close>

theorem query_token_left_over:
  assumes "tokenType tk \<noteq> ''bearer''" and "accessToken tk = JStr (x # t)"
    and "CHR ''#'' \<notin> set (x # t)" and "CHR ''&'' \<notin> set (x # t)" and "CHR ''?'' \<notin> set (x # t)"
    and "CHR ''?'' \<notin> set (ajax_url o1)" and "CHR ''&'' \<notin> set (ajax_url o1)" and "CHR ''#'' \<notin> set (ajax_url o1)"
    and "token_sign tk o1 = Inr o2" and "token_sign tk o2 = Inr o3"
  shows "ajax_url o3 = ajax_url o1 @ t @ ''?access_token='' @ x # t"
proof -
  have o2: "ajax_url o2 = ajax_url o1 @ ''?access_token='' @ x # t"
    using token_sign_query [OF assms(9,1,8)] assms(2,6,7) by (simp add: drop_access_token_none)
  have "drop_access_token (ajax_url o2) = ajax_url o1 @ t"
    unfolding o2 using assms(3,4,6,7) by (intro drop_access_token_one) auto
  moreover have "CHR ''#'' \<notin> set (ajax_url o2)"
    using o2 assms(3,8) by simp
  ultimately show ?thesis
    using token_sign_query [OF assms(10,1)] assms(2,5,6) by simp
qed

definition sample_mac_token :: oauth2_token where
  "sample_mac_token = \<lparr>tok_owner = ByFlow, tok_data = [], tokenType = ''mac'', accessToken = JStr ''abc'',
     refreshToken = JUndef, tok_expires = None\<rparr>"

theorem query_token_left_over_witness:
  "\<exists>o2 o3. token_sign sample_mac_token sample_options = Inr o2 \<and> token_sign sample_mac_token o2 = Inr o3
     \<and> ajax_url o3 = ''http://h/pbc?access_token=abc''"
proof -
  have "(case token_sign sample_mac_token sample_options of
      Inr o2 \<Rightarrow> (case token_sign sample_mac_token o2 of Inr o3 \<Rightarrow> True | Inl e \<Rightarrow> False) | Inl e \<Rightarrow> False)"
    by code_simp
  then obtain o2 o3 where o2: "token_sign sample_mac_token sample_options = Inr o2"
    and o3: "token_sign sample_mac_token o2 = Inr o3"
    by (auto split: sum.splits)
  have "ajax_url o3 = ajax_url sample_options @ ''bc'' @ ''?access_token='' @ CHR ''a'' # ''bc''"
    by (rule query_token_left_over [OF _ _ _ _ _ _ _ _ o2 o3])
       (simp_all add: sample_mac_token_def sample_options_def)
  then show ?thesis using o2 o3 by (auto simp: sample_options_def)
qed

end
