(* ===== verification/MethodList.thy ===== *)
theory MethodList
  imports Sidebar Console Documentation OAuth2
begin

text \<open>
  The \<open>methodList\<close> directive of \<open>api-console.js\<close>, which opens the panel of a method and builds the scope
  of the try-it form, and the directives inside the form: \<open>namedParameters\<close>, \<open>ramlField\<close>, \<open>closeButton\<close>
  and those of the security schemes. Scrolling and the set-up of the editors are left out.
\<close>

section \<open>Responses and identifiers\<close>

record response_info =
  ri_types :: "jsval jsobj"
  ri_currentType :: string

text \<open>The content types of one response, the last first; the least is the current one.\<close>

definition response_types :: "jsval \<Rightarrow> response_info option" where
  "response_types body =
     (case rev (js_sort (keys_or_empty body)) of
        [] \<Rightarrow> None
      | ts \<Rightarrow> Some \<lparr>ri_types = map (\<lambda>t. (t, pget (obj_entries body) t)) ts, ri_currentType = last ts\<rparr>)"

definition getResponseInfo :: "jsval \<Rightarrow> response_info option jsobj res" where
  "getResponseInfo responses =
     (if \<not> truthy responses then Inr []
      else rbind (mapR (\<lambda>(key, r).
          if \<not> truthy r then Inr []
          else rbind (jget r ''body'') (\<lambda>b. Inr (if truthy b then [(key, response_types b)] else [])))
          (obj_entries responses)) (\<lambda>is. Inr (concat is)))"

text \<open>Every parameter is given its key as its identifier, down the nested properties.\<close>

function toUIModel :: "jsval \<Rightarrow> jsval res"
  and ui_parameter :: "string \<Rightarrow> jsval \<Rightarrow> jsval res" where
  "toUIModel (JObj ob) =
     rbind (mapR (\<lambda>(key, v). rbind (ui_parameter key v) (\<lambda>w. Inr (key, w))) ob) (\<lambda>ob'. Inr (JObj ob'))"
| "toUIModel (JArr vs) =
     rbind (mapR (\<lambda>(i, v). ui_parameter (show_nat i) v) (enumerate 0 vs)) (\<lambda>ws. Inr (JArr ws))"
| "toUIModel (JStr s) = (if s = [] then Inr (JStr s) else Inl TypeError)"
| "toUIModel JUndef = Inr JUndef"
| "toUIModel JNull = Inr JNull"
| "toUIModel (JBool b) = Inr (JBool b)"
| "toUIModel (JNum n) = Inr (JNum n)"
| "toUIModel (JDate t shown isos) = Inr (JDate t shown isos)"
| "ui_parameter key v =
     (case v of
        JArr (JObj d # rest) \<Rightarrow>
          let d' = oset ''id'' (JStr key) d
          in if truthy (pget d ''properties'')
             then rbind (toUIModel (pget d ''properties'')) (\<lambda>ps.
                    Inr (JArr (JObj (oset ''properties'' ps d') # rest)))
             else Inr (JArr (JObj d' # rest))
      | _ \<Rightarrow> Inl TypeError)"
  by pat_completeness auto
termination
proof (relation "measure (\<lambda>x. case x of Inl v \<Rightarrow> 2 * size v | Inr (k, v) \<Rightarrow> 2 * size v + 1)", goal_cases)
  case (2 ob x key v)
  then have "(key, v) \<in> set ob" by simp
  then show ?case using size_list_mem [of "(key, v)" ob "size_prod (\<lambda>x. 0) size"] by simp
next
  case (3 vs x i v)
  then have "v \<in> set vs" by (auto simp: in_set_enumerate_eq)
  then show ?case using size_list_mem [of v vs size] by simp
next
  case 4
  have "2 * size (pget d ''properties'') < 2 * size (JArr (JObj d # rest)) + 1" for d rest
    using size_pget [of d "''properties''"] by simp
  then show ?case using 4 by auto
qed simp

declare ui_parameter.simps [simp del]

text \<open>The first letter in upper case, underscores as spaces.\<close>

definition beautifyCustomSecuritySchemeName :: "string \<Rightarrow> string" where
  "beautifyCustomSecuritySchemeName name =
     map (\<lambda>c. if c = CHR ''_'' then CHR '' '' else c)
       (case name of [] \<Rightarrow> [] | c # cs \<Rightarrow> to_upper c # cs)"

fun add_once :: "string list \<Rightarrow> string list \<Rightarrow> string list" where
  "add_once [] seen = seen"
| "add_once (t # ts) seen = add_once ts (if t \<in> set seen then seen else seen @ [t])"

text \<open>The traits of the method and of the resource, each once.\<close>

definition readTraits :: "jsval list \<Rightarrow> jsval list \<Rightarrow> string" where
  "readTraits traits resourceTraits =
     join '', '' (add_once (List.map_filter trait_text (traits @ resourceTraits)) [])"


section \<open>The form of a method\<close>

text \<open>
  A scheme is shown under its type, a custom one under its name; its identifier is its type and its key.
\<close>

definition scheme_ident :: "jsval \<Rightarrow> string \<Rightarrow> string" where
  "scheme_ident ty key = to_string ty @ ''|'' @ key"

definition name_scheme :: "string \<times> jsval \<Rightarrow> (string \<times> jsval) res" where
  "name_scheme e = (case e of (key, sc) \<Rightarrow>
     rbind (jget sc ''type'') (\<lambda>ty. rbind (as_object sc) (\<lambda>ob.
       let shown = (if ty = JStr ''x-custom'' then JStr (beautifyCustomSecuritySchemeName key) else ty)
       in Inr (key, JObj (oset ''id'' (JStr (scheme_ident ty key)) (oset ''name'' shown ob))))))"

text \<open>The schemes the form offers; digest authentication is not supported.\<close>

definition offered_schemes :: "jsval jsobj \<Rightarrow> jsval jsobj res" where
  "offered_schemes schemes = rbind (mapR name_scheme schemes) (\<lambda>named. Inr (odel ''digest_auth'' named))"

text \<open>What the constructor of the context leaves in the document: see \<open>namedParameters\<close>.\<close>

definition blanked :: "jsval \<Rightarrow> jsval" where
  "blanked plain = (case plain of JObj ob \<Rightarrow> JObj (map (\<lambda>(k, ds). (k, blank_definitions ds)) ob) | v \<Rightarrow> v)"

text \<open>One body of \<open>loadExamples\<close>.\<close>

definition load_body :: "(int option \<Rightarrow> string) \<Rightarrow> beautifier \<Rightarrow> string option \<Rightarrow> jsval \<Rightarrow> string \<times> body_definition \<Rightarrow> (string \<times> body_definition) res" where
  "load_body utc bf currentBodySelected body e =
     (case e of
        (key, FormBody ps) \<Rightarrow>
          rbind (jget body key) (\<lambda>b. rbind (jget b ''formParameters'') (\<lambda>info.
          rbind (reset_with utc info ps) (\<lambda>ps'. Inr (key, FormBody ps'))))
      | (key, OtherBody bt) \<Rightarrow>
          rbind (bt_fillWithExample bt) (\<lambda>b.
            Inr (key, OtherBody (if truthy (bt_value b)
              then b\<lparr>bt_value := getBeatifiedExample bf currentBodySelected (bt_value b)\<rparr> else b))))"

definition loadExamples :: "(int option \<Rightarrow> string) \<Rightarrow> beautifier \<Rightarrow> string option \<Rightarrow> try_scope \<Rightarrow> try_scope res" where
  "loadExamples utc bf currentBodySelected s =
     rbind (reset_with utc (ro_uriParameters (ts_resource s)) (cx_uriParameters (ts_context s))) (\<lambda>us.
     rbind (reset_with utc (query_info s) (cx_queryParameters (ts_context s))) (\<lambda>qs.
     rbind (reset_with utc (mh_plain (im_headers (ts_method s))) (cx_headers (ts_context s))) (\<lambda>hs.
     rbind (case cx_bodyContent (ts_context s) of
         None \<Rightarrow> Inr None
       | Some bc \<Rightarrow>
           rbind (mapR (load_body utc bf currentBodySelected (pget (im_raml (ts_method s)) ''body'')) (bc_definitions bc)) (\<lambda>ds.
             Inr (Some (bc\<lparr>bc_definitions := ds\<rparr>)))) (\<lambda>body.
       Inr (s\<lparr>ts_context := (ts_context s)\<lparr>cx_uriParameters := us, cx_queryParameters := qs, cx_headers := hs, cx_bodyContent := body\<rparr>\<rparr>)))))"

text \<open>\<open>methodInfo.body ? Object.keys(methodInfo.body)[0] : 'application/json'\<close>.\<close>

definition first_body :: "jsval \<Rightarrow> string option" where
  "first_body body = (if truthy body then (case keys_or_empty body of [] \<Rightarrow> None | k # _ \<Rightarrow> Some k)
     else Some ''application/json'')"

record method_view =
  mv_scope :: try_scope
  mv_responses :: "response_info option jsobj"
  mv_traits :: string
  mv_bodySelected :: "string option"

definition method_scope :: "jsval jsobj \<Rightarrow> resource_overview \<Rightarrow> inspected_method \<Rightarrow> context_state \<Rightarrow> security_state
     \<Rightarrow> jsval jsobj \<Rightarrow> form_state \<Rightarrow> jsval jsobj \<Rightarrow> try_scope" where
  "method_scope raml resource m context security offered form credentials =
     \<lparr>ts_raml = raml, ts_resource = resource, ts_method = m, ts_context = context,
      ts_customHeaders = [], ts_customQuery = [], ts_queryString = [], ts_forceRequest = False, ts_form = form,
      ts_security = snd (extract_securitySchemes security), ts_schemes = offered,
      ts_schemeType = JUndef, ts_protocol = None, ts_credentials = credentials, ts_showSpinner = False,
      ts_queryStringHasError = False, ts_customStrategyError = False, ts_requestOptions = None\<rparr>"

text \<open>
  \<open>showResource\<close>: the scope of the form for a method of a resource. The definitions are shared by the
  document and the context, so the identifiers are written before the context copies them.
\<close>

definition open_method :: "(int option \<Rightarrow> string) \<Rightarrow> beautifier \<Rightarrow> jsval jsobj \<Rightarrow> resource_overview \<Rightarrow> inspected_method
     \<Rightarrow> security_state \<Rightarrow> form_state \<Rightarrow> jsval jsobj \<Rightarrow> method_view res" where
  "open_method utc bf raml resource m security form credentials =
     rbind (getResponseInfo (pget (im_raml m) ''responses'')) (\<lambda>responses.
     rbind (toUIModel (pget (im_raml m) ''queryParameters'')) (\<lambda>query.
     rbind (toUIModel (mh_plain (im_headers m))) (\<lambda>plain.
     rbind (toUIModel (uriParametersForDocumentation (pget raml ''baseUriParameters'') (ro_uriParameters resource))) (\<lambda>uri.
       let m1 = m\<lparr>im_raml := (if query = JUndef then im_raml m else oset ''queryParameters'' query (im_raml m)),
                  im_headers := (im_headers m)\<lparr>mh_plain := plain\<rparr>\<rparr>;
           resource1 = resource\<lparr>ro_uriParameters := uri\<rparr>;
           m2 = m1\<lparr>im_raml := (if query = JUndef then im_raml m1 else oset ''queryParameters'' (blanked query) (im_raml m1)),
                   im_headers := (im_headers m1)\<lparr>mh_plain := blanked plain\<rparr>\<rparr>;
           bodySelected = first_body (pget (im_raml m) ''body'')
       in rbind (context_create JUndef resource1 m1) (\<lambda>context.
          rbind (fst (extract_securitySchemes security)) (\<lambda>schemes.
          rbind (offered_schemes schemes) (\<lambda>offered.
          rbind (case js_or (pget (im_raml m) ''is'') (JArr []) of JArr ts \<Rightarrow> Inr ts | _ \<Rightarrow> Inl TypeError) (\<lambda>traits.
          rbind (loadExamples utc bf bodySelected
             (method_scope raml (resource1\<lparr>ro_uriParameters := blanked uri\<rparr>) m2 context security offered form credentials)) (\<lambda>s.
            Inr \<lparr>mv_scope = s, mv_responses = responses,
                 mv_traits = readTraits traits (case pget (ro_resource resource) ''traits'' of JArr ts \<Rightarrow> ts | v \<Rightarrow> [v]),
                 mv_bodySelected = bodySelected\<rparr>)))))))))"

section \<open>Which panel is open\<close>

text \<open>The resources whose panel is shown, and the tabs (resource and method) that are marked.\<close>

record accordion =
  ac_shown :: "nat list"
  ac_tabs :: "(nat \<times> nat) list"

text \<open>
  A click on tab \<open>j\<close> of resource \<open>i\<close>. \<open>openMethod\<close> reaches the other resources only, so with one resource
  no mark is removed.
\<close>

definition showResource :: "nat \<Rightarrow> nat \<Rightarrow> nat \<Rightarrow> accordion \<Rightarrow> accordion" where
  "showResource resources i j a =
     (if i \<notin> set (ac_shown a) then
        a\<lparr>ac_shown := [i], ac_tabs := (i, j) # (if resources > 1 then [] else ac_tabs a)\<rparr>
      else if (i, j) \<in> set (ac_tabs a) then
        a\<lparr>ac_shown := removeAll i (ac_shown a), ac_tabs := []\<rparr>
      else a\<lparr>ac_tabs := (i, j) # filter (\<lambda>t. fst t \<noteq> i) (ac_tabs a)\<rparr>)"

definition closePanel :: "nat \<Rightarrow> accordion \<Rightarrow> accordion" where
  "closePanel i a = a\<lparr>ac_shown := removeAll i (ac_shown a), ac_tabs := []\<rparr>"

inductive accordion_step :: "nat \<Rightarrow> accordion \<Rightarrow> accordion \<Rightarrow> bool" for resources :: nat where
  Show: "i < resources \<Longrightarrow> accordion_step resources a (showResource resources i j a)"
| ClosePanel: "i \<in> set (ac_shown a) \<Longrightarrow> accordion_step resources a (closePanel i a)"

section \<open>Named parameters of the form\<close>

record segment =
  seg_name :: string
  seg_templated :: bool

text \<open>\<open>typeof parameters[name] !== 'undefined'\<close>.\<close>

definition has_parameter :: "jsval \<Rightarrow> string \<Rightarrow> bool res" where
  "has_parameter ps name = rbind (jget ps name) (\<lambda>v. Inr (v \<noteq> JUndef))"

definition token_segments :: "parameterized_string \<Rightarrow> segment list res" where
  "token_segments p =
     mapR (\<lambda>t. rbind (if templated p then has_parameter (parameters p) t else Inr False) (\<lambda>b.
       Inr \<lparr>seg_name = t, seg_templated = b\<rparr>)) (tokens p)"

definition form_segments :: "parameterized_string option \<Rightarrow> parameterized_string list \<Rightarrow> segment list res" where
  "form_segments base pathSegments =
     rbind (mapR token_segments
       ((case base of Some b \<Rightarrow> if templated b then [b] else [] | None \<Rightarrow> []) @ pathSegments)) (\<lambda>ss. Inr (concat ss))"

text \<open>The parameters the user adds: a name that was not entered is \<open>undefined\<close>.\<close>

type_synonym custom_parameters = "(string option \<times> jsval) list"

definition addCustomParameter :: "custom_parameters \<Rightarrow> custom_parameters" where
  "addCustomParameter custom = custom @ [(None, JUndef)]"

definition removeCutomParam :: "string option \<Rightarrow> custom_parameters \<Rightarrow> custom_parameters" where
  "removeCutomParam name custom = filter (\<lambda>el. fst el \<noteq> name) custom"

text \<open>How the request reads them: as a property key, \<open>undefined\<close> is its name.\<close>

definition custom_fields :: "custom_parameters \<Rightarrow> (string \<times> jsval) list" where
  "custom_fields custom = map (\<lambda>(n, v). (case n of None \<Rightarrow> ''undefined'' | Some s \<Rightarrow> s, v)) custom"

fun isValueProvided :: "jsval \<Rightarrow> bool" where
  "isValueProvided (JObj ob) = list_ex (\<lambda>(k, v). isValueProvided v) ob"
| "isValueProvided (JArr vs) = list_ex isValueProvided vs"
| "isValueProvided (JDate t shown isos) = False"
| "isValueProvided v = truthy v"

section \<open>Fields\<close>

text \<open>When a field is created, every parameter with an enumeration is set to its first choice.\<close>

definition choose_first :: "string \<times> named_parameter \<Rightarrow> jsval list jsobj \<Rightarrow> jsval list jsobj res" where
  "choose_first e vals =
     rbind (jidx (np_definitions (snd e)) 0) (\<lambda>d.
     rbind (jget d ''enum'') (\<lambda>en.
       if en = JUndef then Inr vals
       else rbind (jget d ''id'') (\<lambda>ident. rbind (jidx en 0) (\<lambda>v. set_first (to_string ident) v vals))))"

definition raml_field :: "named_parameters \<Rightarrow> named_parameters res" where
  "raml_field ps =
     rbind (foldR choose_first (entries (ps_plain ps)) (ps_values ps)) (\<lambda>vals. Inr (ps\<lparr>ps_values := vals\<rparr>))"

definition field_isArray :: "jsval \<Rightarrow> bool res" where
  "field_isArray param =
     rbind (jget param ''type'') (\<lambda>t. rbind (jidx t 0) (\<lambda>t0. rbind (name_of t0) (\<lambda>n. Inr (contains ''[]'' n))))"

definition addArrayElement :: "jsval list \<Rightarrow> jsval list" where
  "addArrayElement model = model @ [JArr [JUndef]]"

definition removeArrayElement :: "nat \<Rightarrow> jsval list \<Rightarrow> jsval list" where
  "removeArrayElement index model = take index model @ drop (Suc index) model"

definition isEnum :: "jsval jsobj \<Rightarrow> bool" where
  "isEnum d = (pget d ''enum'' \<noteq> JUndef)"

definition field_isBoolean :: "jsval jsobj \<Rightarrow> bool" where
  "field_isBoolean d = (pget d ''type'' = JStr ''boolean'')"

definition canOverride :: "jsval jsobj \<Rightarrow> bool" where
  "canOverride d = (field_isBoolean d \<or> isEnum d)"

definition isDefault :: "jsval jsobj \<Rightarrow> bool" where
  "isDefault d = (\<not> isEnum d \<and> \<not> field_isBoolean d)"

definition field_hasExampleValue :: "jsval jsobj \<Rightarrow> bool" where
  "field_hasExampleValue d =
     (if isEnum d then False else if field_isBoolean d then False
      else pget d ''example'' \<noteq> JUndef \<or> pget d ''examples'' \<noteq> JUndef)"

text \<open>Overriding a field, and cancelling it: \<open>shown\<close> tells whether the text field is shown afterwards.\<close>

definition overrideField :: "bool \<Rightarrow> jsval jsobj \<Rightarrow> named_parameters \<Rightarrow> (jsval jsobj \<times> named_parameters) res" where
  "overrideField shown d ps =
     (if shown then Inr (oset ''overwritten'' (JBool True) d, ps)
      else rbind (jidx (pget d ''enum'') 0) (\<lambda>v.
           rbind (set_first (to_string (pget d ''id'')) v (ps_values ps)) (\<lambda>vals.
             Inr (oset ''overwritten'' (JBool False) d, ps\<lparr>ps_values := vals\<rparr>))))"

definition field_reset :: "(int option \<Rightarrow> string) \<Rightarrow> jsval jsobj \<Rightarrow> named_parameters \<Rightarrow> named_parameters res" where
  "field_reset utc d ps =
     (let key = to_string (pget d ''id'')
      in rbind (params_reset utc (Some [(key, JArr [JObj d])]) (Some key) ps) (\<lambda>(info, ps'). Inr ps'))"

definition field_onChange :: "try_scope \<Rightarrow> try_scope" where
  "field_onChange s = s\<lparr>ts_forceRequest := False\<rparr>"

definition field_toString :: "jsval \<Rightarrow> jsval" where
  "field_toString v = (case v of JArr vs \<Rightarrow> JStr (js_join '', '' vs) | _ \<Rightarrow> v)"

section \<open>OAuth 2.0 in the form\<close>

definition all_grants :: "(string \<times> string) list" where
  "all_grants =
     [(''Implicit'', ''token''), (''Implicit'', ''implicit''),
      (''Authorization Code'', ''code''), (''Authorization Code'', ''authorization_code''),
      (''Resource Owner Password Credentials'', ''owner''), (''Resource Owner Password Credentials'', ''password''),
      (''Client Credentials'', ''credentials''), (''Client Credentials'', ''client_credentials'')]"

text \<open>The settings of the first scheme for OAuth 2.0.\<close>

fun find_oauth2 :: "jsval jsobj \<Rightarrow> jsval res" where
  "find_oauth2 [] = Inr JUndef"
| "find_oauth2 ((k, sc) # rest) =
     rbind (jget sc ''type'') (\<lambda>ty. if ty = JStr ''OAuth 2.0'' then jget sc ''settings'' else find_oauth2 rest)"

definition getOAuth2Settings :: "jsval jsobj \<Rightarrow> jsval res" where
  "getOAuth2Settings securitySchemes = find_oauth2 (entries securitySchemes)"

definition grant_allowed :: "jsval \<Rightarrow> string \<Rightarrow> bool res" where
  "grant_allowed authorizationGrants g =
     (case authorizationGrants of
        JArr vs \<Rightarrow> Inr (JStr g \<in> set vs)
      | JStr s \<Rightarrow> Inr (contains g s)
      | _ \<Rightarrow> Inl TypeError)"

fun filterR :: "('a \<Rightarrow> bool res) \<Rightarrow> 'a list \<Rightarrow> 'a list res" where
  "filterR p [] = Inr []"
| "filterR p (x # xs) = rbind (p x) (\<lambda>b. rbind (filterR p xs) (\<lambda>ys. Inr (if b then x # ys else ys)))"

text \<open>The grants the form offers, and the credentials with the first of them chosen.\<close>

definition oauth2_form :: "jsval jsobj \<Rightarrow> jsval jsobj \<Rightarrow> ((string \<times> string) list \<times> jsval jsobj) res" where
  "oauth2_form securitySchemes credentials =
     rbind (getOAuth2Settings securitySchemes) (\<lambda>settings.
     rbind (jget settings ''authorizationGrants'') (\<lambda>gs.
     rbind (if truthy gs then filterR (\<lambda>el. grant_allowed gs (snd el)) all_grants else Inr all_grants) (\<lambda>grants.
       case grants of
         [] \<Rightarrow> Inl TypeError
       | (label, g) # _ \<Rightarrow> Inr (grants, oset ''grant'' (JStr g) (oset ''scopes'' (JObj []) credentials)))))"

definition ownerOptionsEnabled :: "jsval jsobj \<Rightarrow> bool" where
  "ownerOptionsEnabled credentials = (pget credentials ''grant'' = JStr ''owner'')"

definition isImplicitEnabled :: "jsval jsobj \<Rightarrow> bool" where
  "isImplicitEnabled credentials = (pget credentials ''grant'' = JStr ''token'')"

section \<open>One panel at a time\<close>

text \<open>Either nothing is open and nothing marked, or one panel is open and one tab of it is marked.\<close>

definition accordion_ok :: "nat \<Rightarrow> accordion \<Rightarrow> bool" where
  "accordion_ok resources a = (case ac_shown a of
       [] \<Rightarrow> ac_tabs a = []
     | i # is \<Rightarrow> is = [] \<and> i < resources \<and> length (ac_tabs a) = 1 \<and> fst (hd (ac_tabs a)) = i)"

inductive_cases accordion_stepE: "accordion_step resources a b"

lemma accordion_okE:
  assumes "accordion_ok n a"
  obtains (Closed) "ac_shown a = []" "ac_tabs a = []"
  | (Open) i j where "ac_shown a = [i]" "ac_tabs a = [(i, j)]" "i < n"
  using assms
  by (cases "ac_shown a"; cases "ac_tabs a") (auto simp: accordion_ok_def)

lemma showResource_ok: "i < n \<Longrightarrow> accordion_ok n a \<Longrightarrow> accordion_ok n (showResource n i j a)"
  by (elim accordion_okE) (auto simp: accordion_ok_def showResource_def)

lemma closePanel_ok: "accordion_ok n a \<Longrightarrow> i \<in> set (ac_shown a) \<Longrightarrow> accordion_ok n (closePanel i a)"
  by (elim accordion_okE) (auto simp: accordion_ok_def closePanel_def)

text \<open>
  Whatever is clicked, at most one method is open at a time: one panel is shown and exactly one tab
  of its resource is marked, or no panel is shown and no tab is marked.
\<close>

theorem one_panel_open:
  assumes "(accordion_step resources)\<^sup>*\<^sup>* \<lparr>ac_shown = [], ac_tabs = []\<rparr> a"
  shows "accordion_ok resources a"
  using assms
proof (induction rule: rtranclp_induct)
  case base
  then show ?case by (simp add: accordion_ok_def)
next
  case (step a b)
  then show ?case by (auto elim!: accordion_stepE intro: showResource_ok closePanel_ok)
qed

theorem one_panel_open_witness:
  "accordion_ok 2 (showResource 2 1 0 (showResource 2 0 1 \<lparr>ac_shown = [], ac_tabs = []\<rparr>))"
proof -
  have "accordion_step 2 a (showResource 2 i j a)" if "i < 2" for i j a
    using that by (rule Show)
  then have "(accordion_step 2)\<^sup>*\<^sup>* \<lparr>ac_shown = [], ac_tabs = []\<rparr>
      (showResource 2 1 0 (showResource 2 0 1 \<lparr>ac_shown = [], ac_tabs = []\<rparr>))"
    by (meson r_into_rtranclp rtranclp_trans one_less_numeral_iff semiring_norm(76) zero_less_numeral)
  then show ?thesis by (rule one_panel_open)
qed

section \<open>The identifier of a scheme\<close>

lemma set_steps_type [simp]:
  "ts_schemeType (set_query c p s) = ts_schemeType s" "ts_schemeType (set_headers c p s) = ts_schemeType s"
  by (simp_all add: set_query_def set_headers_def)

lemma securitySchemeChanged_type:
  assumes "securitySchemeChanged scheme s = Inr s'"
  shows "ts_schemeType s' = JStr (hd (split_on CHR ''|'' scheme))"
proof -
  have clean: "ts_schemeType t' = ts_schemeType t" if "cleanSchemes t = Inr t'" for t t'
    using that unfolding cleanSchemes_def by (auto simp: rbind_eq_Inr split: prod.splits)
  have custom: "ts_schemeType t' = ts_schemeType t" if "readCustomSchemeInfo n t = Inr t'" for n t t'
    using that unfolding readCustomSchemeInfo_def Let_def by (auto simp: rbind_eq_Inr split: prod.splits)
  show ?thesis
    using assms unfolding securitySchemeChanged_def Let_def rbind_eq_Inr
    by (elim exE conjE) (auto dest!: clean custom split: if_splits)
qed

text \<open>
  The identifier a scheme is given names it: when the user picks a scheme the form offers, the type
  that is set and the key that is looked up are the ones of that scheme.
\<close>

theorem scheme_ident_selects:
  assumes "offered_schemes schemes = Inr offered" and "oget offered key = Some sc"
    and "CHR ''|'' \<notin> set key" and "jget sc ''type'' = Inr (JStr ty)" and "CHR ''|'' \<notin> set ty"
  shows "\<exists>ident. jget sc ''id'' = Inr (JStr ident) \<and> split_on CHR ''|'' ident = [ty, key]
    \<and> (\<forall>s s'. securitySchemeChanged ident s = Inr s' \<longrightarrow> ts_schemeType s' = JStr ty)"
proof -
  obtain named where named: "mapR name_scheme schemes = Inr named" and off: "offered = odel ''digest_auth'' named"
    using assms(1) by (auto simp: offered_schemes_def rbind_eq_Inr)
  have "(key, sc) \<in> set named"
    using assms(2) off oget_Some_in [of offered key sc] by (auto simp: oget_odel oget_Some_in split: if_splits)
  then obtain e where e: "name_scheme e = Inr (key, sc)" using mapR_result [OF named] by blast
  obtain k0 sc0 where "e = (k0, sc0)" by (cases e)
  then obtain ty0 ob shown where sc: "sc = JObj (oset ''id'' (JStr (scheme_ident ty0 key)) (oset ''name'' shown ob))"
    and ty0: "jget sc0 ''type'' = Inr ty0" "as_object sc0 = Inr ob"
    using e by (auto simp: name_scheme_def Let_def rbind_eq_Inr)
  have "sc0 = JObj ob" using ty0(2) by (cases sc0) (auto simp: as_object_def)
  then have "ty0 = JStr ty" using sc ty0(1) assms(4) by (simp add: pget_def)
  then have ident: "jget sc ''id'' = Inr (JStr (ty @ CHR ''|'' # key))"
    using sc by (simp add: pget_def scheme_ident_def)
  have split: "split_on CHR ''|'' (ty @ CHR ''|'' # key) = [ty, key]"
    using assms(3,5) by (simp add: split_on_append split_on_no_sep)
  have "ts_schemeType s' = JStr ty" if "securitySchemeChanged (ty @ CHR ''|'' # key) s = Inr s'" for s s'
    using securitySchemeChanged_type [OF that] split by simp
  then show ?thesis using ident split by auto
qed

text \<open>The identifier splits back because neither a type nor a key has a bar in it.\<close>

theorem scheme_ident_selects_witness:
  "\<exists>offered sc ident. offered_schemes [(''key_1'', JObj [(''type'', JStr ''x-custom'')])] = Inr offered
    \<and> oget offered ''key_1'' = Some sc \<and> jget sc ''id'' = Inr (JStr ident)
    \<and> split_on CHR ''|'' ident = [''x-custom'', ''key_1'']"
proof -
  let ?sc = "JObj [(''type'', JStr ''x-custom''), (''name'', JStr ''Key 1''), (''id'', JStr ''x-custom|key_1'')]"
  have o: "offered_schemes [(''key_1'', JObj [(''type'', JStr ''x-custom'')])] = Inr [(''key_1'', ?sc)]"
    and k: "oget [(''key_1'', ?sc)] ''key_1'' = Some ?sc" and t: "jget ?sc ''type'' = Inr (JStr ''x-custom'')"
    and n: "CHR ''|'' \<notin> set ''key_1''" "CHR ''|'' \<notin> set ''x-custom''" by code_simp+
  from scheme_ident_selects [OF o k n(1) t n(2)] show ?thesis using o k by blast
qed

section \<open>The form a method starts with\<close>

lemma not_isl_iff: "\<not> isl x \<longleftrightarrow> (\<exists>y. x = Inr y)"
  by (cases x) simp_all

lemma reset_with_ok: "reset_with utc info ps = Inr ps' \<Longrightarrow> params_ok ps \<Longrightarrow> params_ok ps'"
  using params_do_ok [of utc "Reset (info_object info) None" ps ps'] by (simp add: reset_with_def)

definition context_ok :: "context_state \<Rightarrow> bool" where
  "context_ok cx = (params_ok (cx_headers cx) \<and> params_ok (cx_queryParameters cx) \<and> params_ok (cx_uriParameters cx))"

lemma context_create_ok: "context_create base resource m = Inr cx \<Longrightarrow> context_ok cx"
  unfolding context_create_def by (auto simp: rbind_eq_Inr context_ok_def dest: namedParameters_ok split: prod.splits)

lemma loadExamples_ok:
  assumes "loadExamples utc bf sel s = Inr s'" and "context_ok (ts_context s)"
  shows "context_ok (ts_context s') \<and> ts_schemes s' = ts_schemes s \<and> ts_forceRequest s' = ts_forceRequest s
    \<and> ts_customHeaders s' = ts_customHeaders s \<and> ts_customQuery s' = ts_customQuery s"
  using assms unfolding loadExamples_def rbind_eq_Inr
  by (elim exE conjE) (auto simp: context_ok_def intro: reset_with_ok)


definition sample_open :: "method_view res" where
  "sample_open = open_method (\<lambda>t. []) strict_json_printer (ts_raml sample_scope) (ts_resource sample_scope)
     (ts_method sample_scope) (ts_security sample_scope) (ts_form sample_scope) []"


section \<open>Identifiers of parameters\<close>

lemma toUIModel_truthy:
  assumes "toUIModel v = Inr w"
  shows "truthy v = truthy w"
proof (cases v)
  case (JArr vs)
  then obtain ws where "w = JArr ws" using assms unfolding JArr toUIModel.simps rbind_eq_Inr by blast
  then show ?thesis using JArr by simp
next
  case (JObj ob)
  then obtain ob' where "w = JObj ob'" using assms unfolding JObj toUIModel.simps rbind_eq_Inr by blast
  then show ?thesis using JObj by simp
next
  case (JStr s)
  then show ?thesis using assms by (cases s) simp_all
qed (use assms in auto)

lemma ui_parameter_idem:
  assumes "ui_parameter key v = Inr w"
    and "\<And>d ps. pget d ''properties'' = ps \<Longrightarrow> v = JArr (JObj d # tl (case v of JArr vs \<Rightarrow> vs | _ \<Rightarrow> [])) \<Longrightarrow>
      truthy ps \<Longrightarrow> \<forall>qs. toUIModel ps = Inr qs \<longrightarrow> toUIModel qs = Inr qs"
  shows "ui_parameter key w = Inr w"
proof -
  obtain d rest where v: "v = JArr (JObj d # rest)"
    using assms(1) by (auto simp: ui_parameter.simps split: jsval.splits list.splits)
  let ?d = "oset ''id'' (JStr key) d"
  show ?thesis
  proof (cases "truthy (pget d ''properties'')")
    case True
    then obtain ps where ps: "toUIModel (pget d ''properties'') = Inr ps"
      and w: "w = JArr (JObj (oset ''properties'' ps ?d) # rest)"
      using assms(1) v by (auto simp: ui_parameter.simps Let_def rbind_eq_Inr)
    have "toUIModel ps = Inr ps" using assms(2) [of d "pget d ''properties''"] v True ps by simp
    moreover have "truthy ps" using toUIModel_truthy [OF ps] True by simp
    moreover have "oset ''id'' (JStr key) (oset ''properties'' ps ?d) = oset ''properties'' ps ?d"
      by (rule oset_same) simp
    ultimately show ?thesis using w by (simp add: ui_parameter.simps pget_def Let_def oset_same)
  next
    case False
    then show ?thesis using assms(1) v by (auto simp: ui_parameter.simps Let_def pget_def oset_same)
  qed
qed

lemma mapR_fixed:
  assumes "mapR f xs = Inr ys" and "\<And>x y. x \<in> set xs \<Longrightarrow> f x = Inr y \<Longrightarrow> g y = Inr y"
  shows "mapR g ys = Inr ys"
  using assms
proof (induction xs arbitrary: ys)
  case (Cons x xs)
  then obtain y zs where "f x = Inr y" "mapR f xs = Inr zs" "ys = y # zs" by (auto split: sum.splits)
  moreover from this have "g y = Inr y" using Cons.prems(2) [of x] by simp
  moreover have "mapR g zs = Inr zs" using Cons.IH [OF \<open>mapR f xs = Inr zs\<close>] Cons.prems(2) by (meson list.set_intros(2))
  ultimately show ?case by simp
qed simp

lemma enumerate_fixed:
  assumes "mapR (\<lambda>(i, v). f i v) (enumerate n vs) = Inr ws"
    and "\<And>i v w. (i, v) \<in> set (enumerate n vs) \<Longrightarrow> f i v = Inr w \<Longrightarrow> f i w = Inr w"
  shows "mapR (\<lambda>(i, v). f i v) (enumerate n ws) = Inr ws"
  using assms
proof (induction vs arbitrary: n ws)
  case (Cons v vs)
  then obtain w us where w: "f n v = Inr w" and us: "mapR (\<lambda>(i, v). f i v) (enumerate (Suc n) vs) = Inr us"
    and ws: "ws = w # us" by (auto split: sum.splits)
  have "f n w = Inr w" using Cons.prems(2) [of n v w] w by simp
  moreover have "mapR (\<lambda>(i, v). f i v) (enumerate (Suc n) us) = Inr us"
  proof (rule Cons.IH [OF us])
    fix i v w assume "(i, v) \<in> set (enumerate (Suc n) vs)" "f i v = Inr w"
    then show "f i w = Inr w" using Cons.prems(2) [of i v w] by simp
  qed
  ultimately show ?case using ws by simp
qed simp

lemma ui_fixed:
  "(\<forall>w. toUIModel v = Inr w \<longrightarrow> toUIModel w = Inr w)"
  "(\<forall>w. ui_parameter key u = Inr w \<longrightarrow> ui_parameter key w = Inr w)"
proof (induction v and key u rule: toUIModel_ui_parameter.induct)
  case (1 ob)
  show ?case
  proof (intro allI impI)
    fix w assume "toUIModel (JObj ob) = Inr w"
    then obtain ob' where m: "mapR (\<lambda>(key, v). rbind (ui_parameter key v) (\<lambda>w. Inr (key, w))) ob = Inr ob'" and w: "w = JObj ob'"
      unfolding toUIModel.simps rbind_eq_Inr by blast
    have "mapR (\<lambda>(key, v). rbind (ui_parameter key v) (\<lambda>w. Inr (key, w))) ob' = Inr ob'"
      using m
    proof (rule mapR_fixed)
      fix x y assume x: "x \<in> set ob" "(case x of (key, v) \<Rightarrow> rbind (ui_parameter key v) (\<lambda>w. Inr (key, w))) = Inr y"
      obtain k v where kv: "x = (k, v)" by (cases x)
      then obtain u where u: "ui_parameter k v = Inr u" and y: "y = (k, u)" using x(2) by (auto simp: rbind_eq_Inr)
      have "ui_parameter k u = Inr u" using 1 [OF x(1) kv [symmetric]] u by blast
      then show "(case y of (key, v) \<Rightarrow> rbind (ui_parameter key v) (\<lambda>w. Inr (key, w))) = Inr y" using y by simp
    qed
    then show "toUIModel w = Inr w" using w by simp
  qed
next
  case (2 vs)
  show ?case
  proof (intro allI impI)
    fix w assume "toUIModel (JArr vs) = Inr w"
    then obtain ws where m: "mapR (\<lambda>(i, v). ui_parameter (show_nat i) v) (enumerate 0 vs) = Inr ws" and w: "w = JArr ws"
      unfolding toUIModel.simps rbind_eq_Inr by blast
    have "ui_parameter (show_nat i) u = Inr u" if "(i, v) \<in> set (enumerate 0 vs)" "ui_parameter (show_nat i) v = Inr u" for i v u
      using 2 [OF that(1) refl] that(2) by blast
    then show "toUIModel w = Inr w" using enumerate_fixed [OF m] w by simp
  qed
next
  case (9 key v)
  show ?case
  proof (intro allI impI)
    fix w assume "ui_parameter key v = Inr w"
    then show "ui_parameter key w = Inr w"
    proof (rule ui_parameter_idem)
      fix d ps assume a: "pget d ''properties'' = ps" "v = JArr (JObj d # tl (case v of JArr vs \<Rightarrow> vs | _ \<Rightarrow> []))" "truthy ps"
      show "\<forall>qs. toUIModel ps = Inr qs \<longrightarrow> toUIModel qs = Inr qs"
        using 9 a by metis
    qed
  qed
qed auto

text \<open>
  Giving the parameters their identifiers, at any depth, is done once and for all: opening the same
  method again changes nothing.
\<close>

theorem toUIModel_idempotent:
  assumes "toUIModel v = Inr w"
  shows "toUIModel w = Inr w"
  using assms ui_fixed(1) by blast

theorem toUIModel_idempotent_witness:
  "toUIModel (JObj [(''a'', JArr [JObj [(''id'', JStr ''a''), (''properties'', JObj [(''b'', JArr [JObj [(''id'', JStr ''b'')]])])]])])
   = Inr (JObj [(''a'', JArr [JObj [(''id'', JStr ''a''), (''properties'', JObj [(''b'', JArr [JObj [(''id'', JStr ''b'')]])])]])])"
proof (rule toUIModel_idempotent)
  show "toUIModel (JObj [(''a'', JArr [JObj [(''id'', JStr ''z''), (''properties'', JObj [(''b'', JArr [JObj []])])]])])
   = Inr (JObj [(''a'', JArr [JObj [(''id'', JStr ''a''), (''properties'', JObj [(''b'', JArr [JObj [(''id'', JStr ''b'')]])])]])])"
    by code_simp
qed

section \<open>The grants of OAuth 2.0\<close>

lemma filterR_subset: "filterR p xs = Inr ys \<Longrightarrow> set ys \<subseteq> set xs \<and> (\<forall>y\<in>set ys. p y = Inr True)"
proof (induction xs arbitrary: ys)
  case (Cons x xs)
  then obtain b zs where "p x = Inr b" "filterR p xs = Inr zs" "ys = (if b then x # zs else zs)"
    by (auto simp: rbind_eq_Inr)
  then show ?case using Cons.IH by (auto split: if_splits)
qed simp

text \<open>A grant the strategy acts on.\<close>

lemma authenticate_acts:
  assumes "(label, cfg_grant cfg) \<in> set all_grants"
  shows "oauth2_authenticate cfg s \<noteq> (None, s)"
proof -
  have "emit ev t \<noteq> s" if "elog t = elog s" for ev t
    using that by (auto simp: emit_def dest!: arg_cong [where f = "\<lambda>s. length (elog s)"])
  moreover have "send c k s \<noteq> s" for c k
    by (auto simp: send_def emit_def dest!: arg_cong [where f = "\<lambda>s. length (elog s)"])
  ultimately show ?thesis
    using assms
    by (auto simp: oauth2_authenticate_def all_grants_def popup_grant_def implicit_grant_def send_or_throw_def Let_def
        split: sum.splits)
qed

text \<open>
  C35. Every grant the form offers is one the scheme allows and one the strategy acts on, and the form
  starts with one of them: no choice of the user makes the click on the button do nothing.
\<close>

theorem offered_grants_act:
  assumes "oauth2_form schemes credentials = Inr (grants, credentials')"
  shows "pget credentials' ''grant'' \<in> JStr ` snd ` set grants
    \<and> (\<forall>cfg s. cfg_grant cfg \<in> snd ` set grants \<longrightarrow> oauth2_authenticate cfg s \<noteq> (None, s))
    \<and> (\<forall>settings vs. getOAuth2Settings schemes = Inr settings \<and> jget settings ''authorizationGrants'' = Inr (JArr vs)
        \<longrightarrow> JStr ` snd ` set grants \<subseteq> set vs)"
proof -
  obtain settings gs where s: "getOAuth2Settings schemes = Inr settings" "jget settings ''authorizationGrants'' = Inr gs"
    and f: "(if truthy gs then filterR (\<lambda>el. grant_allowed gs (snd el)) all_grants else Inr all_grants) = Inr grants"
    and c: "pget credentials' ''grant'' \<in> JStr ` snd ` set grants"
    using assms unfolding oauth2_form_def rbind_eq_Inr
    by (elim exE conjE) (auto simp: pget_def split: list.splits)
  have sub: "set grants \<subseteq> set all_grants"
    using f filterR_subset by (fastforce split: if_splits)
  have "JStr ` snd ` set grants \<subseteq> set vs" if "gs = JArr vs" for vs
    using f that filterR_subset [of "\<lambda>el. grant_allowed gs (snd el)" all_grants grants] by (auto simp: grant_allowed_def)
  then show ?thesis using c s sub authenticate_acts by auto
qed

definition sample_oauth2_schemes :: "jsval jsobj" where
  "sample_oauth2_schemes =
     [(''oauth_2_0'', JObj [(''type'', JStr ''OAuth 2.0''),
        (''settings'', JObj [(''authorizationGrants'', JArr [JStr ''password'', JStr ''client_credentials''])])])]"

theorem offered_grants_act_witness:
  "\<exists>grants credentials'. oauth2_form sample_oauth2_schemes [] = Inr (grants, credentials')
    \<and> snd ` set grants = {''password'', ''client_credentials''}
    \<and> pget credentials' ''grant'' \<in> JStr ` snd ` set grants"
proof -
  let ?g = "[(''Resource Owner Password Credentials'', ''password''), (''Client Credentials'', ''client_credentials'')]"
  let ?c = "[(''scopes'', JObj []), (''grant'', JStr ''password'')]"
  have "oauth2_form sample_oauth2_schemes [] = Inr (?g, ?c)" by code_simp
  from this offered_grants_act [OF this] show ?thesis by auto
qed

text \<open>
  With the grant \<open>password\<close>, as RAML 1.0 calls it, the form does not show the fields for the user name
  and the password, although the strategy posts both: only the older name \<open>owner\<close> shows them.
\<close>

theorem password_grant_fields:
  assumes "oauth2_form schemes credentials = Inr ((label, ''password'') # grants, credentials')"
  shows "\<not> ownerOptionsEnabled credentials'
    \<and> oauth2_authenticate (oauth2_client settings credentials' redirect) s
      = send_or_throw (owner_flow_post (cfg_options (oauth2_client settings credentials' redirect))
          (pget credentials ''username'') (pget credentials ''password'')) FlowToken s"
proof -
  have c: "credentials' = oset ''grant'' (JStr ''password'') (oset ''scopes'' (JObj []) credentials)"
    using assms unfolding oauth2_form_def rbind_eq_Inr by (elim exE conjE) (auto split: list.splits)
  show ?thesis
    unfolding c
    by (simp add: ownerOptionsEnabled_def pget_def oauth2_authenticate_def oauth2_client_def popup_grant_def Let_def)
qed

theorem password_grant_fields_witness:
  "\<exists>rest credentials'. oauth2_form sample_oauth2_schemes [(''username'', JStr ''u''), (''password'', JStr ''p'')]
      = Inr ((''Resource Owner Password Credentials'', ''password'') # rest, credentials')
    \<and> \<not> ownerOptionsEnabled credentials'"
proof -
  let ?c = "[(''username'', JStr ''u''), (''password'', JStr ''p''), (''scopes'', JObj []), (''grant'', JStr ''password'')]"
  have "oauth2_form sample_oauth2_schemes [(''username'', JStr ''u''), (''password'', JStr ''p'')]
      = Inr ((''Resource Owner Password Credentials'', ''password'') # [(''Client Credentials'', ''client_credentials'')], ?c)"
    by code_simp
  from this password_grant_fields [OF this] show ?thesis by blast
qed

end
