(* ===== verification/Spec2Isabelle.thy ===== *)
theory Spec2Isabelle
  imports DeploymentManager InstanceTracker Replace Scaling LaunchDelays Revert Loader MethodList
begin

text \<open>
  A model of the API console that Marathon's documentation ships,
  \<open>docs/api-console/scripts/api-console.js\<close> (lines 1 to 6469; the rest of the file is generated HTML
  templates): the program that reads a RAML document, shows it, and lets the user send requests to the
  API it describes. Of the bundle \<open>api-console-vendor.js\<close> only \<open>jQuery.param\<close> is modelled. Of
  Marathon itself, the scheduler in Scala, the parts that decide are modelled: identifiers and the tree of run specs,
  deployment plans and their manager, the choice of places and of instances to kill, the updates of instances and their tracker, and the
  replacement of instances by new ones.

  \<^bold>\<open>The program and its theories.\<close> A document comes in through \<open>ramlInitializer\<close> or
  \<open>ramlConsoleLoader\<close> and the service \<open>ramlParser\<close> (\<open>Loader\<close>). The controller of \<open>ramlConsole\<close>
  qualifies the names of libraries and keeps the lists of resources (\<open>Console\<close>); \<open>RAML.Inspector\<close>
  flattens and groups the resources, orders the methods and resolves headers and security schemes
  (\<open>Inspector\<close>), \<open>RAML.Inspector.Properties\<close> and \<open>RAML.Utils\<close> normalise parameters (\<open>Properties\<close>) and
  \<open>RAML.Inspector.Types\<close> parses type expressions and merges types (\<open>RamlTypes\<close>). The document directives
  show it (\<open>Documentation\<close>). A click on a method runs \<open>showResource\<close> of \<open>methodList\<close>, which builds the
  scope of the form (\<open>MethodList\<close>), whose data are those of \<open>RAML.Services.TryIt\<close> (\<open>TryIt\<close>). Fields are
  checked by the \<open>validate\<close> directive, \<open>raml-sanitize\<close>, \<open>raml-validate\<close> (\<open>Sanitize\<close>) and
  \<open>RAML.Client.Validator\<close> (\<open>Validator\<close>). The \<open>sidebar\<close> directive turns the form into a request and shows
  the answer (\<open>Sidebar\<close>); it uses \<open>RAML.Client\<close> for the URL (\<open>UriTemplate\<close>), \<open>RequestDsl\<close> for the request
  (\<open>Request\<close>) and \<open>RAML.Client.AuthStrategies\<close> for its signature: anonymous, basic and OAuth 1.0 in
  \<open>Auth\<close>, OAuth 2.0 with \<open>ClientOAuth2\<close> in \<open>OAuth2\<close>, over the query-string codec in \<open>UriCodec\<close>.
  \<open>JsValue\<close> holds the values of JavaScript and \<open>Prelude\<close> results, strings, objects and sorting. This
  theory holds what spans the form, the request and the strategies.

  \<^bold>\<open>The parts of the scheduler.\<close> \<open>PathId\<close> holds the identifiers of apps, pods and groups
  (\<open>state/PathId.scala\<close>). \<open>GroupTree\<close> holds run specs as far as \<open>isUpgrade\<close> and \<open>needsRestart\<close> read them,
  the tree of groups with its lookups (\<open>state/Group.scala\<close>) and dependencies, and \<open>RootGroup\<close> the
  operations that edit it (\<open>state/RootGroup.scala\<close>). \<open>Versioning\<close> gives the changed run specs of a new tree
  their versions (\<open>upgrade/GroupVersioningUtil.scala\<close>), \<open>Deployment\<close> turns the old tree and the new one into
  steps (\<open>DeploymentPlan.apply\<close> in \<open>core/deployment/DeploymentPlan.scala\<close>), and \<open>Revert\<close> takes a deployment
  back (\<open>DeploymentPlanReverter.scala\<close>). A tree is specified by its contents, a map from the ids of groups
  to what a group itself holds (\<open>contents_of\<close>): each edit is a few updates of that map (\<open>put_app\<close>,
  \<open>del_group\<close>, \<open>mkdirs\<close> and others, the lemmas \<open>..._edited\<close>), and the other theories reason with those. What an
  action of a plan promises when it completes is a specification too (\<open>action_effect\<close>), against which
  \<open>plan_reaches_target\<close> shows that a plan leads from the first tree to the second. Below the plans,
  \<open>Constraints\<close> decides whether an offer meets a placement constraint (\<open>mesos/Constraints.scala\<close>), \<open>Scaling\<close>
  which instances a change of scale decommissions (\<open>ScalingProposition.scala\<close>) with the choice that keeps
  \<open>GROUP_BY\<close> constraints even, which it reaches through the locale \<open>constraint_choice\<close>, and \<open>LaunchDelays\<close>
  how long the next launch waits (\<open>RateLimiter.scala\<close> and its actor) and, with \<open>Versioning\<close>, which versions
  of a run spec share a delay. \<open>DeploymentManager\<close> decides which plans run (\<open>DeploymentManagerActor.scala\<close>): conflicts, cancellations and the late
  answers of the repository, and the locks of \<open>MarathonSchedulerActor.scala\<close>. These theories are independent of those of the console but for the
  results, strings and sorting of \<open>JsValue\<close> and \<open>Prelude\<close>.

  \<^bold>\<open>Instances.\<close> \<open>TaskIds\<close> holds the ids of instances, tasks and reservations with the expressions that parse
  them (\<open>core/task/Task.scala\<close>, \<open>core/instance/Instance.scala\<close>, \<open>Reservation.scala\<close>). \<open>Instances\<close> holds the state
  machine of instances: what a status of Mesos means (\<open>TaskCondition.scala\<close>), what it does to a task
  (\<open>Task.update\<close>), how the state of an instance follows from its tasks (\<open>InstanceState.transitionTo\<close>), and the effect of each
  of the ten operations (\<open>InstanceUpdateOpResolver.scala\<close>, \<open>InstanceUpdater.scala\<close>) with its events. \<open>InstanceTracker\<close>
  applies these effects: the actor of \<open>InstanceTrackerActor.scala\<close> resolves an operation, has the effect stored, and
  only then changes its memory and its counts and tells the subscribers. \<open>Replace\<close> is the actor that carries out an
  upgrade (\<open>TaskReplaceActor.scala\<close> with \<open>ReadinessBehavior.scala\<close>). The memory of the tracker, the repository and the picture a
  subscriber has are three instances of one specification, a store of instances by id: memory and repository
  interpret the locale \<open>instance_store\<close>, the picture is built with the operations of the latter.

  \<^bold>\<open>How code corresponds to definitions.\<close> A definition has the name of the function it translates;
  where one function is cut into steps, the steps have names of their own. Objects of known shape are
  records, all others values of \<open>jsval\<close>. Objects the code changes in place are passed in and returned. A
  function that can throw returns \<open>js_exn + 'a\<close>, and each throw of the source, reads of a property of
  \<open>undefined\<close> included, is a value \<open>Inl\<close>. Handlers of the page are functions on the record of the
  scope, and where their order matters there is an inductive step relation over them: \<open>panel_step\<close>,
  \<open>list_step\<close>, \<open>accordion_step\<close>, \<open>root_docs_step\<close>, and \<open>oauth2_step\<close>, whose state holds the requests in
  flight, and in the scheduler \<open>placed\<close> for offers and kills, \<open>limiter_run\<close> for the messages of the rate
  limiter, \<open>system_step\<close> and \<open>system_run\<close> for the tracker between its queue, the repository and its subscribers, and
  \<open>replace_run\<close> for the messages of the actor that replaces instances, \<open>manager_run\<close> for those of the deployment
  manager, in which what was started may answer at any time later, in any order; the loads of \<open>Loader\<close> and the actions on parameters in \<open>TryIt\<close> are runs over lists of events.

  \<^bold>\<open>Bounds and fuel.\<close> \<open>json_value\<close> has fuel that the length of the text bounds, since every call
  consumes a character. The walk over super types is a partial function: \<open>mergeType_terminates\<close> shows
  that it returns on acyclic documents and loops on a type that is its own parent. The recursion for the
  longest path of dependencies has as fuel one more than the number of edges; \<open>longest_path_correct\<close> shows
  that this is enough for every graph without cycles, and that no fuel is enough for a vertex on a cycle.
  The loop that chooses instances for the constraints ends because every round chooses a new one.
  Every other loop is a function proved to end. A string is the list of the bytes of its UTF-8 form;
  lengths the code compares
  are counted in UTF-16 units (\<open>js_length\<close>). Numbers are rationals with \<open>NaN\<close> and the infinities:
  rounding to doubles is not represented. \<open>String.toInt\<close> and \<open>toLong\<close>, UUIDs, the numbers of incarnations and the hash
  that picks a queue keep their 32 and 64 bits; the doubles of an upgrade strategy are exact numbers and their products pass
  through a rounding \<open>rnd\<close>, of which only what \<open>rounds_like_double\<close> says is used; the other
  integers of the scheduler are differences of numbers of instances or sums of times and stay in range. \<open>uriDecode\<close> keeps the bound of 1000 keys of the code.

  \<^bold>\<open>Parameters.\<close> Code that is not in the file is an argument: the clock, the nonce, the URL parser,
  the collation of strings and HMAC-SHA1 (\<open>Auth\<close>), the printers of \<open>vkbeautify\<close> (\<open>Sidebar\<close>), the engine
  of regular expressions of a document and the parsing of dates (\<open>Validator\<close>, \<open>Sanitize\<close>), the RAML
  parser and \<open>resolveUrl\<close> (\<open>Loader\<close>), the regular expressions of constraints (\<open>Constraints\<close>), the rounding of doubles, the readiness checks of a task and a sort with a
  comparison that is no order (\<open>Replace\<close>). The answers of servers are events. \<open>UUID.fromString\<close> is that of
  Java 8. The queue in front of the tracker lets one operation of a run spec through at a time, which
  \<open>system_step\<close> has as a guard; a write to the repository succeeds or fails without effect.

  \<^bold>\<open>What the lemmas show.\<close> Codecs: decoding inverts encoding, for the query strings, the header of
  basic authentication, the signature base string of OAuth 1.0 and the names of types; the locales
  \<open>pct_codec\<close> and \<open>param_codec\<close> hold the arguments their instances share. Signers: the locale
  \<open>request_signer\<close> gives that signing changes headers only. Sorting: the locales \<open>comparator\<close> and
  \<open>strict_comparator\<close>, and \<open>exact_comparator\<close> for the order of identifiers. Lookups: the locale
  \<open>spec_collection\<close> holds for the apps and the pods of a tree what an id finds, \<open>spec_map\<close> how the edits
  change it, \<open>run_specs_of_kind\<close> how they get their versions; each has an instance for apps and one for
  pods. Instances: what no operation does (\<open>terminal_tasks_final\<close>, \<open>done_not_stored\<close>) and which fail
  (\<open>operations_that_fail\<close>); the tracker refines a single map of instances (\<open>tracker_consistent\<close>); the steps of a
  replacement share the lemmas \<open>good_step\<close>, closed under composition. The manager of
  deployments: an order of age among plans and an invariant that every step keeps (\<open>every_step\<close>); examples of runs
  (\<open>launched_conflict_not_stopped\<close>, \<open>conflicting_plans_stored\<close>) show what it does not guarantee. Forms: what is typed stays with the parameter it was typed for (\<open>value_copy\<close>), and the form stays well-formed under all actions. State machines: invariants of all reachable states, of
  the OAuth 2.0 strategy first of all (\<open>oauth2_calls_ok\<close>, \<open>code_exchange_sound\<close>). Several theorems state
  what the code does where it is not what it means to do; the theorem then describes the code as it is.

  \<^bold>\<open>Not modelled.\<close> The generated templates, animations, scrolling, the set-up of editors, directives
  that only move page elements, the branch of the OAuth 2.0 client for node, and the vendored libraries.
  Of the scheduler: everything but the parts above, its other actors, storage and REST API first of all;
  within them, the validation of trees, the printing and storing of instances as JSON or protobuf, and of run
  specs the fields that the modelled code does not read.
\<close>

section \<open>From the form to the wire\<close>

lemma basic_strategy:
  assumes "pick_strategy schemes ty credentials = Inr (scheme, Basic encoded)"
  shows "encoded = basic_token \<lparr>username = credential credentials ''username'', password = credential credentials ''password''\<rparr>"
proof -
  have st: "scheme_strategy scheme credentials = Inr (Basic encoded)"
    using assms unfolding pick_strategy_def rbind_eq_Inr by (elim exE conjE) simp
  let ?cr = "\<lparr>username = credential credentials ''username'', password = credential credentials ''password''\<rparr>"
  obtain ty where "forScheme (Some ty) ?cr = Inr (Basic encoded)"
  proof (cases "scheme = JUndef")
    case True
    then show thesis using st by (simp add: scheme_strategy_def forScheme_def)
  next
    case False
    then obtain t where "(if t = JStr ''OAuth 2.0'' then Inr Oauth2
        else case t of JStr ty \<Rightarrow> forScheme (Some ty) ?cr
          | _ \<Rightarrow> Inl (Thrown (''Unknown authentication strategy: '' @ to_string t))) = Inr (Basic encoded)"
      using st unfolding scheme_strategy_def rbind_eq_Inr if_not_P [OF False] by (elim exE conjE) simp
    then show thesis using that by (cases t) (simp_all split: if_splits)
  qed
  then show ?thesis unfolding forScheme_def by (simp split: if_splits)
qed



section \<open>From the picked scheme to the strategy\<close>

text \<open>The last scheme of a type, as \<open>Object.keys\<close> visits them.\<close>

definition last_of_type :: "string \<Rightarrow> jsval jsobj \<Rightarrow> jsval" where
  "last_of_type ty schemes =
     (case filter (\<lambda>(k, sc). jget sc ''type'' = Inr (JStr ty)) (entries schemes) of
        [] \<Rightarrow> JUndef
      | e # es \<Rightarrow> snd (last (e # es)))"

lemma foldR_last_match:
  assumes "foldR (\<lambda>(k, sc) found. rbind (jget sc ''type'') (\<lambda>t. Inr (if strict_eq t (JStr ty) then sc else found))) es found0
    = Inr found"
  shows "found = (case filter (\<lambda>(k, sc). jget sc ''type'' = Inr (JStr ty)) es of [] \<Rightarrow> found0 | e # es \<Rightarrow> snd (last (e # es)))"
  using assms
proof (induction es arbitrary: found0)
  case (Cons e es)
  obtain k sc where e: "e = (k, sc)" by (cases e)
  then obtain t where t: "jget sc ''type'' = Inr t" using Cons.prems by (cases "jget sc ''type''") auto
  have s: "strict_eq t (JStr ty) \<longleftrightarrow> t = JStr ty" by (cases t) auto
  then show ?case
    using Cons.IH [of "if t = JStr ty then sc else found0"] Cons.prems e t by (auto split: list.splits)
qed simp

text \<open>
  The scheme a request is signed with depends on the type of the scheme the user picked only: it is
  the last scheme of that type the method has, whichever key was picked.
\<close>

theorem picked_key_ignored:
  assumes "securitySchemeChanged (ty @ CHR ''|'' # key) s = Inr s1" and "CHR ''|'' \<notin> set ty"
    and "tryIt s1 = Inr (Authenticate strat scheme r, s2)"
  shows "\<exists>schemes. fst (extract_securitySchemes (ts_security s1)) = Inr schemes \<and> scheme = last_of_type ty schemes"
proof -
  have ty: "ts_schemeType s1 = JStr ty"
    using securitySchemeChanged_type [OF assms(1)] assms(2) by (simp add: split_on_append)
  obtain schemes st where e: "extract_securitySchemes (ts_security s1) = (schemes, st)"
    and p: "pick_strategy schemes (ts_schemeType s1) (ts_credentials s1) = Inr (scheme, strat)"
    using assms(3) by (rule tryIt_request)
  obtain sc where sc: "schemes = Inr sc" "selected_scheme (JStr ty) sc = Inr scheme"
    using p ty unfolding pick_strategy_def rbind_eq_Inr by (elim exE conjE) simp
  then show ?thesis
    using e foldR_last_match [of ty "entries sc" JUndef scheme] by (simp add: selected_scheme_def last_of_type_def)
qed

definition two_schemes_scope :: try_scope where
  "two_schemes_scope = sample_scope\<lparr>ts_security :=
     \<lparr>ss_schemes = [JObj [(''mine'', JObj [(''type'', JStr ''Basic Authentication'')])],
                   JObj [(''other'', JObj [(''type'', JStr ''Basic Authentication''), (''description'', JStr ''other'')])]],
      ss_securedBy = [JStr ''mine'', JStr ''other'']\<rparr>\<rparr>"

theorem picked_key_ignored_witness:
  "\<exists>s1 strat scheme r s2. securitySchemeChanged ''Basic Authentication|mine'' two_schemes_scope = Inr s1
    \<and> tryIt s1 = Inr (Authenticate strat scheme r, s2) \<and> jget scheme ''description'' = Inr (JStr ''other'')"
proof -
  let ?ty = "''Basic Authentication''" and ?run = "securitySchemeChanged ''Basic Authentication|mine'' two_schemes_scope"
  have "(case ?run of Inr s1 \<Rightarrow> (case tryIt s1 of Inr (Authenticate strat scheme r, s2) \<Rightarrow> True | _ \<Rightarrow> False) | Inl e \<Rightarrow> False)"
    by code_simp
  then obtain s1 strat scheme r s2 where s1: "?run = Inr s1" and t: "tryIt s1 = Inr (Authenticate strat scheme r, s2)"
    by (auto split: sum.splits prod.splits try_outcome.splits)
  have id': "?ty @ CHR ''|'' # ''mine'' = ''Basic Authentication|mine''" and bar: "CHR ''|'' \<notin> set ?ty" by code_simp+
  have "(case ?run of Inr s1 \<Rightarrow> (case fst (extract_securitySchemes (ts_security s1)) of
      Inr schemes \<Rightarrow> jget (last_of_type ?ty schemes) ''description'' = Inr (JStr ''other'') | Inl e \<Rightarrow> False) | Inl e \<Rightarrow> False)"
    by code_simp
  then have "jget scheme ''description'' = Inr (JStr ''other'')"
    using picked_key_ignored [OF s1 [folded id'] bar t] s1 by auto
  then show ?thesis using s1 t by blast
qed

end
